(* ===== verification/Ubl_Prelude.thy ===== *)
theory Ubl_Prelude
  imports Complex_Main "HOL-Library.Word" "HOL-Library.Char_ord" "HOL-Library.List_Lexorder"
    "HOL-Library.Multiset"
begin

text \<open>
  The vocabulary every component shares: the machine integers of the Rust sources as words,
  Rust's \<open>Result\<close> as a sum with its \<open>?\<close> operator, UTF-8 strings, big-endian byte layouts,
  decimal and hexadecimal printing, and two interfaces (locales) that several components
  provide: a self-delimiting byte codec and an invariant of a fallible step function.
  Strings are \<^typ>\<open>string\<close>: a Rust \<open>String\<close> is the list of its UTF-8 bytes, so \<open>len\<close>
  is \<^const>\<open>length\<close>, \<open>as_bytes\<close> is \<open>bytes_of\<close> and the ordering of \<open>str\<close> is the
  lexicographic order of \<open>HOL-Library.List_Lexorder\<close>.
\<close>

unbundle bit_operations_syntax

named_theorems codec_simps \<open>equations of the byte codecs, used to evaluate and to invert them\<close>
named_theorems result_simps \<open>inversion of successful and failing results\<close>

section \<open>Machine integers\<close>

type_synonym u8 = "8 word"
type_synonym u16 = "16 word"
type_synonym u32 = "32 word"
type_synonym u64 = "64 word"
type_synonym i64 = "64 word"

abbreviation i64_min :: int where
  "i64_min \<equiv> - (2 ^ 63)"

abbreviation i64_max :: int where
  "i64_max \<equiv> 2 ^ 63 - 1"

text \<open>
  An \<open>i64\<close> is a 64-bit word read with \<^const>\<open>sint\<close>. The saturating operations of Rust compute
  in the integers and clamp the result to the representable range.
\<close>

definition clamp_i64 :: "int \<Rightarrow> i64" where
  "clamp_i64 x = word_of_int (max i64_min (min i64_max x))"

definition saturating_add_i64 :: "i64 \<Rightarrow> i64 \<Rightarrow> i64" where
  "saturating_add_i64 a b = clamp_i64 (sint a + sint b)"

definition saturating_sub_i64 :: "i64 \<Rightarrow> i64 \<Rightarrow> i64" where
  "saturating_sub_i64 a b = clamp_i64 (sint a - sint b)"

definition saturating_mul_i64 :: "i64 \<Rightarrow> i64 \<Rightarrow> i64" where
  "saturating_mul_i64 a b = clamp_i64 (sint a * sint b)"

text \<open>Integer division of Rust truncates towards zero; \<open>div_rem\<close> returns both parts.\<close>

definition trunc_div :: "int \<Rightarrow> int \<Rightarrow> int" where
  "trunc_div a b = sgn a * sgn b * (\<bar>a\<bar> div \<bar>b\<bar>)"

definition trunc_rem :: "int \<Rightarrow> int \<Rightarrow> int" where
  "trunc_rem a b = a - b * trunc_div a b"

definition saturating_div_i64 :: "i64 \<Rightarrow> i64 \<Rightarrow> i64" where
  "saturating_div_i64 a b = clamp_i64 (trunc_div (sint a) (sint b))"

definition saturating_add_u64 :: "u64 \<Rightarrow> u64 \<Rightarrow> u64" where
  "saturating_add_u64 a b = (if unat a + unat b < 2 ^ 64 then a + b else - 1)"

lemma sint_clamp_i64 [simp]: "sint (clamp_i64 x) = max i64_min (min i64_max x)"
  unfolding clamp_i64_def
  by (simp add: signed_of_int, rule signed_take_bit_int_eq_self) auto

lemma clamp_i64_id: "i64_min \<le> x \<Longrightarrow> x \<le> i64_max \<Longrightarrow> sint (clamp_i64 x) = x"
  by simp

lemma clamp_i64_sint [simp]: "clamp_i64 (sint w) = w"
proof -
  have "i64_min \<le> sint w" "sint w < 2 ^ 63"
    using sint_greater_eq [of w] sint_less [of w] by simp_all
  then have "sint (clamp_i64 (sint w)) = sint w"
    by simp
  then show ?thesis
    by (rule signed_word_eqI)
qed

lemma unat_saturating_add_u64:
  "unat (saturating_add_u64 a b) = min (unat a + unat b) (2 ^ 64 - 1)"
  by (auto simp: saturating_add_u64_def unat_word_ariths unsigned_minus_1_eq_mask mask_eq_exp_minus_1)

section \<open>Results\<close>

text \<open>
  A \<open>Result<T, E>\<close> is \<open>E + T\<close>: \<^const>\<open>Inl\<close> is \<open>Err\<close>, \<^const>\<open>Inr\<close> is \<open>Ok\<close>. The operator \<open>?\<close>
  is \<open>and_then\<close>, \<open>map_err\<close> is the method of that name.
\<close>

fun and_then :: "'e + 'a \<Rightarrow> ('a \<Rightarrow> 'e + 'b) \<Rightarrow> 'e + 'b" where
  "and_then (Inl e) f = Inl e"
| "and_then (Inr x) f = f x"

fun map_err :: "('e \<Rightarrow> 'f) \<Rightarrow> 'e + 'a \<Rightarrow> 'f + 'a" where
  "map_err g (Inl e) = Inl (g e)"
| "map_err g (Inr x) = Inr x"

fun ok_or :: "'e \<Rightarrow> 'a option \<Rightarrow> 'e + 'a" where
  "ok_or e None = Inl e"
| "ok_or e (Some x) = Inr x"

fun ok_opt :: "'e + 'a \<Rightarrow> 'a option" where
  "ok_opt (Inl e) = None"
| "ok_opt (Inr x) = Some x"

fun map_ok :: "('a \<Rightarrow> 'b) \<Rightarrow> 'e + 'a \<Rightarrow> 'e + 'b" where
  "map_ok f (Inl e) = Inl e"
| "map_ok f (Inr x) = Inr (f x)"

text \<open>Collecting an iterator of results stops at the first error.\<close>

fun collect_results :: "('a \<Rightarrow> 'e + 'b) \<Rightarrow> 'a list \<Rightarrow> 'e + 'b list" where
  "collect_results f [] = Inr []"
| "collect_results f (x # xs) =
     and_then (f x) (\<lambda>y. and_then (collect_results f xs) (\<lambda>ys. Inr (y # ys)))"

lemma and_then_cong [fundef_cong]:
  "m = m' \<Longrightarrow> (\<And>x. m' = Inr x \<Longrightarrow> f x = g x) \<Longrightarrow> and_then m f = and_then m' g"
  by (cases m') auto

lemma collect_results_cong [fundef_cong]:
  "xs = ys \<Longrightarrow> (\<And>x. x \<in> set ys \<Longrightarrow> f x = g x) \<Longrightarrow> collect_results f xs = collect_results g ys"
  by (induction ys arbitrary: xs) auto

lemma and_then_Inr_iff [result_simps]: "and_then m f = Inr y \<longleftrightarrow> (\<exists>x. m = Inr x \<and> f x = Inr y)"
  by (cases m) auto

lemma and_then_Inl_iff [result_simps]:
  "and_then m f = Inl e \<longleftrightarrow> m = Inl e \<or> (\<exists>x. m = Inr x \<and> f x = Inl e)"
  by (cases m) auto

lemma and_then_assoc: "and_then (and_then m f) g = and_then m (\<lambda>x. and_then (f x) g)"
  by (cases m) auto

lemma and_then_return [simp]: "and_then m Inr = m"
  by (cases m) auto

lemma map_err_Inr_iff [result_simps]: "map_err g m = Inr x \<longleftrightarrow> m = Inr x"
  by (cases m) auto

lemma map_err_Inl_iff [result_simps]: "map_err g m = Inl e \<longleftrightarrow> (\<exists>e'. m = Inl e' \<and> e = g e')"
  by (cases m) auto

lemma ok_or_Inr_iff [result_simps]: "ok_or e m = Inr x \<longleftrightarrow> m = Some x"
  by (cases m) auto

lemma ok_or_Inl_iff [result_simps]: "ok_or e m = Inl e' \<longleftrightarrow> m = None \<and> e' = e"
  by (cases m) auto

lemma map_ok_Inr_iff [result_simps]: "map_ok f m = Inr y \<longleftrightarrow> (\<exists>x. m = Inr x \<and> y = f x)"
  by (cases m) auto

lemma map_ok_Inl_iff [result_simps]: "map_ok f m = Inl e \<longleftrightarrow> m = Inl e"
  by (cases m) auto

lemma collect_results_Inr_iff:
  "collect_results f xs = Inr ys \<longleftrightarrow> list_all2 (\<lambda>x y. f x = Inr y) xs ys"
  by (induction xs arbitrary: ys) (auto simp: result_simps list_all2_Cons1)

lemma collect_results_Inl:
  "collect_results f xs = Inl e \<Longrightarrow> \<exists>x \<in> set xs. f x = Inl e"
  by (induction xs) (auto simp: result_simps)

section \<open>Bytes and strings\<close>

definition bytes_of :: "string \<Rightarrow> u8 list" where
  "bytes_of s = map of_char s"

definition string_of_bytes :: "u8 list \<Rightarrow> string" where
  "string_of_bytes bs = map (\<lambda>b. char_of (unat b)) bs"

lemma unat_of_char [simp]: "unat (of_char c :: u8) = of_char c"
proof -
  have "(of_char c :: u8) = of_nat (of_char c)"
    by (simp only: of_nat_of_char)
  moreover have "unat (of_nat (of_char c) :: u8) = of_char c"
    by (simp add: unat_of_nat take_bit_eq_mod)
  ultimately show ?thesis
    by (simp only:)
qed

lemma of_char_unat [simp]: "(of_char (char_of (unat (b :: u8))) :: u8) = b"
proof -
  have "unat b < 256"
    using unsigned_less [of b] by simp
  then have "unat (of_char (char_of (unat b)) :: u8) = unat b"
    by simp
  then show ?thesis
    by (simp only: word_unat_eq_iff)
qed

lemma string_of_bytes_of [simp]: "string_of_bytes (bytes_of s) = s"
  by (simp add: string_of_bytes_def bytes_of_def comp_def map_idI)

lemma bytes_of_string_of_bytes [simp]: "bytes_of (string_of_bytes bs) = bs"
  by (simp add: string_of_bytes_def bytes_of_def comp_def map_idI)

lemma length_bytes_of [simp]: "length (bytes_of s) = length s"
  by (simp add: bytes_of_def)

lemma length_string_of_bytes [simp]: "length (string_of_bytes bs) = length bs"
  by (simp add: string_of_bytes_def)

lemma bytes_of_inject [simp]: "bytes_of s = bytes_of t \<longleftrightarrow> s = t"
  by (metis string_of_bytes_of)

lemma bytes_of_append [simp]: "bytes_of (s @ t) = bytes_of s @ bytes_of t"
  by (simp add: bytes_of_def)

text \<open>
  Well-formed UTF-8, as \<open>std::str::from_utf8\<close> accepts it: no overlong forms, no surrogates,
  nothing above U+10FFFF.
\<close>

definition utf8_cont :: "u8 \<Rightarrow> bool" where
  "utf8_cont b \<longleftrightarrow> 0x80 \<le> b \<and> b \<le> 0xBF"

fun utf8_valid :: "u8 list \<Rightarrow> bool" where
  "utf8_valid [] = True"
| "utf8_valid (b # bs) =
     (if b \<le> 0x7F then utf8_valid bs
      else if 0xC2 \<le> b \<and> b \<le> 0xDF then
        (case bs of c # r \<Rightarrow> utf8_cont c \<and> utf8_valid r | _ \<Rightarrow> False)
      else if 0xE0 \<le> b \<and> b \<le> 0xEF then
        (case bs of c # d # r \<Rightarrow>
           (if b = 0xE0 then 0xA0 \<le> c \<and> c \<le> 0xBF
            else if b = 0xED then 0x80 \<le> c \<and> c \<le> 0x9F else utf8_cont c)
           \<and> utf8_cont d \<and> utf8_valid r
         | _ \<Rightarrow> False)
      else if 0xF0 \<le> b \<and> b \<le> 0xF4 then
        (case bs of c # d # e # r \<Rightarrow>
           (if b = 0xF0 then 0x90 \<le> c \<and> c \<le> 0xBF
            else if b = 0xF4 then 0x80 \<le> c \<and> c \<le> 0x8F else utf8_cont c)
           \<and> utf8_cont d \<and> utf8_cont e \<and> utf8_valid r
         | _ \<Rightarrow> False)
      else False)"

definition from_utf8 :: "u8 list \<Rightarrow> string option" where
  "from_utf8 bs = (if utf8_valid bs then Some (string_of_bytes bs) else None)"

definition is_str :: "string \<Rightarrow> bool" where
  "is_str s \<longleftrightarrow> utf8_valid (bytes_of s)"

lemma from_utf8_bytes_of [simp]: "is_str s \<Longrightarrow> from_utf8 (bytes_of s) = Some s"
  by (simp add: from_utf8_def is_str_def)

lemma from_utf8_Some_iff: "from_utf8 bs = Some s \<longleftrightarrow> is_str s \<and> bs = bytes_of s"
  by (auto simp: from_utf8_def is_str_def)

text \<open>
  \<open>'\<close>U+FEFF\<open>'\<close> is the byte sequence EF BB BF; UTF-8 is self-synchronising, so a string contains
  the character exactly when it contains the three bytes in a row. Control characters up to
  U+001F are single bytes.
\<close>

fun contains_bom :: "string \<Rightarrow> bool" where
  "contains_bom (a # b # c # s) \<longleftrightarrow>
     (of_char a = (0xEF :: nat) \<and> of_char b = (0xBB :: nat) \<and> of_char c = (0xBF :: nat))
     \<or> contains_bom (b # c # s)"
| "contains_bom _ \<longleftrightarrow> False"

fun strip_bom :: "string \<Rightarrow> string" where
  "strip_bom (a # b # c # s) =
     (if of_char a = (0xEF :: nat) \<and> of_char b = (0xBB :: nat) \<and> of_char c = (0xBF :: nat)
      then strip_bom s else a # strip_bom (b # c # s))"
| "strip_bom s = s"

definition contains_control :: "string \<Rightarrow> bool" where
  "contains_control s \<longleftrightarrow> (\<exists>c \<in> set s. of_char c \<le> (0x1F :: nat))"

text \<open>Stripping byte order marks from a well-formed string leaves a well-formed string without one:
  every character of it other than the mark is copied.\<close>

lemma strip_bom_skip: "of_char c \<noteq> (0xEF :: nat) \<Longrightarrow> strip_bom (c # s) = c # strip_bom s"
  by (cases s; cases "tl s") auto

lemma contains_bom_skip: "of_char c \<noteq> (0xEF :: nat) \<Longrightarrow> contains_bom (c # s) = contains_bom s"
  by (cases s; cases "tl s") auto

lemma u8_of_char_eq: "of_char c = (0xEF :: nat) \<longleftrightarrow> of_char c = (0xEF :: u8)"
  "of_char c = (0xBB :: nat) \<longleftrightarrow> of_char c = (0xBB :: u8)"
  "of_char c = (0xBF :: nat) \<longleftrightarrow> of_char c = (0xBF :: u8)"
  by (simp_all add: of_char_def word_eq_iff_unsigned unat_of_nat flip: of_nat_eq_iff)

definition plain_char :: "string \<Rightarrow> bool" where
  "plain_char t \<longleftrightarrow> (\<forall>x. strip_bom (t @ x) = t @ strip_bom x \<and> contains_bom (t @ x) = contains_bom x
     \<and> is_str (t @ x) = is_str x)"

definition bom_char :: "string \<Rightarrow> bool" where
  "bom_char t \<longleftrightarrow> (\<forall>x. strip_bom (t @ x) = strip_bom x)"

lemmas bom_defs = plain_char_def bom_char_def strip_bom_skip contains_bom_skip u8_of_char_eq is_str_def bytes_of_def

lemma utf8_cont_not_bom: "utf8_cont b \<Longrightarrow> b \<noteq> 0xEF"
  by (auto simp: utf8_cont_def)

lemma utf8_cont_weaken:
  "0xA0 \<le> b \<Longrightarrow> b \<le> 0xBF \<Longrightarrow> utf8_cont b" "0x80 \<le> b \<Longrightarrow> b \<le> 0x9F \<Longrightarrow> utf8_cont b"
  "0x90 \<le> b \<Longrightarrow> b \<le> 0xBF \<Longrightarrow> utf8_cont b" "0x80 \<le> b \<Longrightarrow> b \<le> 0x8F \<Longrightarrow> utf8_cont b"
  by (auto simp: utf8_cont_def elim: order_trans [rotated] order_trans)

lemma utf8_valid_lead4:
  assumes "\<not> b \<le> 0x7F" "\<not> (0xC2 \<le> b \<and> b \<le> 0xDF)" "\<not> (0xE0 \<le> b \<and> b \<le> 0xEF)"
  shows "utf8_valid (b # bs) \<longleftrightarrow> (0xF0 \<le> b \<and> b \<le> 0xF4) \<and>
    (case bs of c # d # e # r \<Rightarrow>
       (if b = 0xF0 then 0x90 \<le> c \<and> c \<le> 0xBF
        else if b = 0xF4 then 0x80 \<le> c \<and> c \<le> 0x8F else utf8_cont c)
       \<and> utf8_cont d \<and> utf8_cont e \<and> utf8_valid r
     | _ \<Rightarrow> False)"
  by (simp only: utf8_valid.simps assms if_False) (simp only: if_bool_eq_conj, blast)

lemma utf8_first_char:
  assumes "is_str (c # s)"
  shows "\<exists>t r. c # s = t @ r \<and> t \<noteq> [] \<and> is_str r \<and> (plain_char t \<or> bom_char t)"
proof -
  let ?b = "of_char c :: u8"
  consider (1) "?b \<le> 0x7F" | (2) "\<not> ?b \<le> 0x7F" "0xC2 \<le> ?b \<and> ?b \<le> 0xDF" | (3) "\<not> ?b \<le> 0x7F" "\<not> (0xC2 \<le> ?b \<and> ?b \<le> 0xDF)" "0xE0 \<le> ?b \<and> ?b \<le> 0xEF"
    | (4) "\<not> ?b \<le> 0x7F" "\<not> (0xC2 \<le> ?b \<and> ?b \<le> 0xDF)" "\<not> (0xE0 \<le> ?b \<and> ?b \<le> 0xEF)"
    by blast
  then show ?thesis
  proof cases
    case 1
    then have "of_char c \<noteq> (0xEF :: u8)"
      by auto
    with 1 have "plain_char [c]"
      by (simp add: bom_defs)
    with assms 1 show ?thesis by (intro exI [of _ "[c]"] exI [of _ s]) (auto simp: is_str_def bytes_of_def)
  next
    case 2
    with assms obtain d r where d: "s = d # r" "utf8_cont (of_char d)" "is_str r"
      by (cases s) (auto simp: is_str_def bytes_of_def)
    with 2 have "of_char c \<noteq> (0xEF :: u8)" "of_char d \<noteq> (0xEF :: u8)"
      by (auto simp: utf8_cont_not_bom)
    with 2 d have "plain_char [c, d]"
      by (simp add: bom_defs)
    with d show ?thesis by (intro exI [of _ "[c, d]"] exI [of _ r]) auto
  next
    case 3
    with assms obtain d e r where d: "s = d # e # r" "utf8_cont (of_char d)" "utf8_cont (of_char e)" "is_str r"
      by (cases s; cases "tl s") (auto simp: is_str_def bytes_of_def intro: utf8_cont_weaken split: if_splits)
    show ?thesis
    proof (cases "of_char c = (0xEF :: u8) \<and> of_char d = (0xBB :: u8) \<and> of_char e = (0xBF :: u8)")
      case True
      then have "bom_char [c, d, e]" by (auto simp: bom_defs)
      with d show ?thesis by (intro exI [of _ "[c, d, e]"] exI [of _ r]) auto
    next
      case False
      from d have "of_char d \<noteq> (0xEF :: u8)" "of_char e \<noteq> (0xEF :: u8)" by (auto simp: utf8_cont_def)
      with False 3 d assms have "plain_char [c, d, e]" by (auto simp: bom_defs)
      with d show ?thesis by (intro exI [of _ "[c, d, e]"] exI [of _ r]) auto
    qed
  next
    case 4
    note lead = utf8_valid_lead4 [OF 4]
    with assms obtain d e f r where d: "s = d # e # f # r" "utf8_cont (of_char d)"
      "utf8_cont (of_char e)" "utf8_cont (of_char f)" "is_str r"
      by (cases s; cases "tl s"; cases "tl (tl s)")
        (auto simp: is_str_def bytes_of_def lead simp del: utf8_valid.simps
          intro: utf8_cont_weaken split: if_split_asm)
    from 4 have "?b \<noteq> 0xEF"
      by auto
    with d assms have "plain_char [c, d, e, f]"
      by (auto simp: bom_defs utf8_cont_not_bom lead simp del: utf8_valid.simps)
    with d show ?thesis
      by (intro exI [of _ "[c, d, e, f]"] exI [of _ r]) auto
  qed
qed

lemma strip_bom_ok: "is_str s \<Longrightarrow> is_str (strip_bom s) \<and> \<not> contains_bom (strip_bom s)"
proof (induction "length s" arbitrary: s rule: less_induct)
  case less
  show ?case
  proof (cases s)
    case (Cons c s')
    with less.prems obtain t r where tr: "s = t @ r" "t \<noteq> []" "is_str r" "plain_char t \<or> bom_char t"
      using utf8_first_char by metis
    with less.hyps [of r] have "is_str (strip_bom r) \<and> \<not> contains_bom (strip_bom r)" by simp
    with tr show ?thesis unfolding plain_char_def bom_char_def by metis
  qed (simp add: is_str_def bytes_of_def)
qed

lemma contains_control_strip_bom: "\<not> contains_control s \<Longrightarrow> \<not> contains_control (strip_bom s)"
  by (induction s rule: strip_bom.induct) (auto simp: contains_control_def)

section \<open>Big-endian byte layouts\<close>

definition be_bytes :: "nat \<Rightarrow> 'a::len word \<Rightarrow> u8 list" where
  "be_bytes n w = map (\<lambda>i. ucast (drop_bit (8 * i) w)) (rev [0..<n])"

definition from_be :: "u8 list \<Rightarrow> 'a::len word" where
  "from_be bs = foldl (\<lambda>acc b. push_bit 8 acc OR ucast b) 0 bs"

lemma length_be_bytes [simp]: "length (be_bytes n w) = n"
  by (simp add: be_bytes_def)

lemma be_bytes_Suc: "be_bytes (Suc n) w = ucast (drop_bit (8 * n) w) # be_bytes n w"
  by (simp add: be_bytes_def)

lemma be_bytes_0 [simp]: "be_bytes 0 w = []"
  by (simp add: be_bytes_def)

declare be_bytes_0 [code] be_bytes_Suc [code]

lemma foldl_from_be:
  fixes w acc :: "'a::len word"
  assumes "8 * n \<le> LENGTH('a)"
  shows "foldl (\<lambda>acc b. push_bit 8 acc OR ucast b) acc (be_bytes n w)
    = push_bit (8 * n) acc OR take_bit (8 * n) w"
  using assms
proof (induction n arbitrary: acc)
  case 0
  show ?case by simp
next
  case (Suc n)
  have "push_bit (8 * n) (push_bit 8 acc OR ucast (ucast (drop_bit (8 * n) w) :: u8))
      OR take_bit (8 * n) w = push_bit (8 * Suc n) acc OR take_bit (8 * Suc n) w"
    by (rule bit_word_eqI) (auto simp: bit_simps ac_simps)
  with Suc show ?case
    by (simp add: be_bytes_Suc)
qed

lemma from_be_be_bytes:
  fixes w :: "'a::len word"
  assumes "8 * n = LENGTH('a)"
  shows "from_be (be_bytes n w) = w"
proof -
  have "from_be (be_bytes n w) = push_bit (8 * n) 0 OR take_bit (8 * n) w"
    unfolding from_be_def by (rule foldl_from_be) (simp add: assms)
  then show ?thesis
    by (simp add: assms take_bit_word_eq_self)
qed

lemma from_be_u16 [codec_simps]: "from_be (be_bytes 2 (w :: u16)) = w"
  by (rule from_be_be_bytes) simp

lemma from_be_u32 [codec_simps]: "from_be (be_bytes 4 (w :: u32)) = w"
  by (rule from_be_be_bytes) simp

lemma from_be_u64 [codec_simps]: "from_be (be_bytes 8 (w :: u64)) = w"
  by (rule from_be_be_bytes) simp

section \<open>Decimal and hexadecimal text\<close>

definition digit_char :: "nat \<Rightarrow> char" where
  "digit_char d = char_of (if d < 10 then 48 + d else 87 + d)"

fun show_nat :: "nat \<Rightarrow> string" where
  "show_nat n = (if n < 10 then [digit_char n] else show_nat (n div 10) @ [digit_char (n mod 10)])"

declare show_nat.simps [simp del]

definition show_int :: "int \<Rightarrow> string" where
  "show_int i = (if i < 0 then ''-'' @ show_nat (nat (- i)) else show_nat (nat i))"

definition is_digit :: "char \<Rightarrow> bool" where
  "is_digit c \<longleftrightarrow> 48 \<le> (of_char c :: nat) \<and> of_char c \<le> (57 :: nat)"

definition digit_val :: "char \<Rightarrow> nat" where
  "digit_val c = of_char c - 48"

definition parse_digits :: "string \<Rightarrow> nat option" where
  "parse_digits s = (if s \<noteq> [] \<and> list_all is_digit s
     then Some (foldl (\<lambda>acc c. 10 * acc + digit_val c) 0 s) else None)"

definition parse_int :: "string \<Rightarrow> int option" where
  "parse_int s = (case s of
     c # t \<Rightarrow> if c = CHR ''-'' then map_option (\<lambda>n. - int n) (parse_digits t)
              else map_option int (parse_digits s)
   | [] \<Rightarrow> None)"

text \<open>\<open>str::parse::<usize>\<close>: an optional plus sign, decimal digits, no overflow.\<close>

definition parse_usize :: "string \<Rightarrow> nat option" where
  "parse_usize s = (case parse_digits (case s of c # t \<Rightarrow> if c = CHR ''+'' then t else s | [] \<Rightarrow> s) of
     None \<Rightarrow> None
   | Some n \<Rightarrow> if n < 2 ^ 64 then Some n else None)"

fun hex_digits :: "nat \<Rightarrow> string" where
  "hex_digits n = (if n < 16 then [digit_char n] else hex_digits (n div 16) @ [digit_char (n mod 16)])"

declare hex_digits.simps [simp del]

definition pad_zero :: "nat \<Rightarrow> string \<Rightarrow> string" where
  "pad_zero w s = replicate (w - length s) (CHR ''0'') @ s"

definition hex_byte :: "u8 \<Rightarrow> string" where
  "hex_byte b = pad_zero 2 (hex_digits (unat b))"

text \<open>\<open>str::strip_prefix\<close>.\<close>

definition strip_prefix :: "string \<Rightarrow> string \<Rightarrow> string option" where
  "strip_prefix p s = (if take (length p) s = p then Some (drop (length p) s) else None)"

lemma strip_prefix_append [simp]: "strip_prefix p (p @ s) = Some s"
  by (simp add: strip_prefix_def)

text \<open>\<open>hex::encode\<close> and the \<open>{:02x}\<close> format: two lowercase digits per byte.\<close>

definition hex_encode :: "u8 list \<Rightarrow> string" where
  "hex_encode bs = concat (map hex_byte bs)"

lemma of_char_digit_char: "d < 10 \<Longrightarrow> (of_char (digit_char d) :: nat) = 48 + d"
  by (simp add: digit_char_def)

lemma is_digit_digit_char: "d < 10 \<Longrightarrow> is_digit (digit_char d)"
  by (simp add: is_digit_def of_char_digit_char)

lemma digit_val_digit_char: "d < 10 \<Longrightarrow> digit_val (digit_char d) = d"
  by (simp add: digit_val_def of_char_digit_char)

lemma show_nat_digits: "show_nat n \<noteq> [] \<and> list_all is_digit (show_nat n)
  \<and> foldl (\<lambda>acc c. 10 * acc + digit_val c) 0 (show_nat n) = n"
proof (induction n rule: show_nat.induct)
  case (1 n)
  show ?case
  proof (cases "n < 10")
    case True
    then show ?thesis
      by (simp add: show_nat.simps [of n] is_digit_digit_char digit_val_digit_char)
  next
    case False
    with "1.IH" show ?thesis
      by (simp add: show_nat.simps [of n] is_digit_digit_char digit_val_digit_char)
  qed
qed

lemma parse_digits_show_nat [simp]: "parse_digits (show_nat n) = Some n"
  using show_nat_digits [of n] by (simp add: parse_digits_def)

lemma show_nat_Cons: "\<exists>c t. show_nat n = c # t \<and> is_digit c"
  using show_nat_digits [of n] by (cases "show_nat n") auto

lemma is_digit_not_sign: "is_digit c \<Longrightarrow> c \<noteq> CHR ''-'' \<and> c \<noteq> CHR ''+''"
  by (auto simp: is_digit_def)

text \<open>Printing an integer and parsing it back is the identity: \<open>to_string\<close> against \<open>parse\<close>.\<close>

lemma parse_int_show_int [simp]: "parse_int (show_int i) = Some i"
proof (cases "i < 0")
  case True
  then show ?thesis
    by (simp add: parse_int_def show_int_def)
next
  case False
  obtain c t where s: "show_nat (nat i) = c # t" "is_digit c"
    using show_nat_Cons by blast
  have "parse_int (c # t) = map_option int (parse_digits (c # t))"
    using is_digit_not_sign [OF s(2)] by (simp add: parse_int_def)
  with False s(1) [symmetric] show ?thesis
    by (simp add: show_int_def)
qed

lemma show_int_inject: "show_int i = show_int j \<longleftrightarrow> i = j"
  by (metis option.inject parse_int_show_int)

lemma hex_digits_byte: "n < 256 \<Longrightarrow> length (hex_digits n) \<le> 2"
proof -
  assume "n < 256"
  then have "n div 16 < 16"
    by (simp add: less_mult_imp_div_less)
  then show ?thesis
    by (simp add: hex_digits.simps [of n] hex_digits.simps [of "n div 16"])
qed

lemma length_hex_byte [simp]: "length (hex_byte b) = 2"
proof -
  have "unat b < 256"
    using unsigned_less [of b] by simp
  from hex_digits_byte [OF this] show ?thesis
    by (simp add: hex_byte_def pad_zero_def)
qed

lemma length_hex_encode [simp]: "length (hex_encode bs) = 2 * length bs"
  by (induction bs) (simp_all add: hex_encode_def)

section \<open>Interface: self-delimiting codecs\<close>

text \<open>
  An encoder whose output the decoder can recognise in front of any further bytes. Varints,
  TLV instructions and NRF values all provide this interface; that encodings are injective and
  that no encoding is a proper prefix of another follows once and for all.
\<close>

locale codec =
  fixes enc :: "'a \<Rightarrow> u8 list"
    and dec :: "u8 list \<Rightarrow> 'e + 'a \<times> u8 list"
    and valid :: "'a \<Rightarrow> bool"
  assumes dec_enc: "valid x \<Longrightarrow> dec (enc x @ rest) = Inr (x, rest)"
begin

lemma dec_enc_exact: "valid x \<Longrightarrow> dec (enc x) = Inr (x, [])"
  using dec_enc [of x "[]"] by simp

lemma enc_prefix_free:
  assumes "valid x" "valid y" "enc x @ r = enc y @ s"
  shows "x = y \<and> r = s"
proof -
  have "Inr (x, r) = dec (enc y @ s)"
    using assms(1,3) by (metis dec_enc)
  also have "\<dots> = Inr (y, s)"
    using assms(2) by (rule dec_enc)
  finally show ?thesis
    by simp
qed

lemma enc_inj: "valid x \<Longrightarrow> valid y \<Longrightarrow> enc x = enc y \<Longrightarrow> x = y"
  using enc_prefix_free [of x y "[]" "[]"] by simp

lemma concat_enc_inj:
  "list_all valid xs \<Longrightarrow> list_all valid ys \<Longrightarrow> length xs = length ys \<Longrightarrow>
   concat (map enc xs) @ r = concat (map enc ys) @ s \<Longrightarrow> xs = ys \<and> r = s"
proof (induction xs arbitrary: ys)
  case Nil
  then show ?case by simp
next
  case (Cons x xs)
  then obtain y ys' where ys: "ys = y # ys'"
    by (cases ys) auto
  have "x = y \<and> concat (map enc xs) @ r = concat (map enc ys') @ s"
    using Cons.prems by (intro enc_prefix_free) (auto simp: ys)
  with Cons show ?case
    by (auto simp: ys)
qed

end

end
