(* ===== verification/Vm_Isa.thy ===== *)
theory Vm_Isa
  imports Ubl_Prelude
begin

text \<open>
  The instruction set of the receipt machine (\<open>crates/ubl_vm/src/opcode.rs\<close>), its
  type-length-value wire format (\<open>crates/ubl_vm/src/tlv.rs\<close>) and the disassembler
  (\<open>crates/ubl_vm/src/disasm.rs\<close>). The encoder of one instruction is \<open>tlv_instr\<close> of the compiler
  (\<open>crates/ubl_runtime/src/silicon_chip.rs\<close>).
\<close>

section \<open>Opcodes\<close>

datatype opcode =
    ConstI64 | ConstBytes | JsonNormalize | JsonValidate | AddI64
  | SubI64 | MulI64 | CmpI64 | AssertTrue | HashBlake3
  | CasPut | CasGet | SetRcBody | AttachProof | SignDefault
  | EmitRc | Drop | PushInput | JsonGetKey | Dup
  | Swap | VerifySig | NumFromDecimalStr | NumFromF64Bits | NumAdd
  | NumSub | NumMul | NumDiv | NumToDec | NumToRat
  | NumWithUnit | NumAssertUnit | NumCompare | JsonGetKeyBytes | JsonHasKey
  | EqBytes | PushBodySize | PushBool | BoolNot | BoolOr
  | BoolAnd | BoolToI64 | DivI64 | PushTimestamp | CmpTimestamp

fun opcode_u8 :: "opcode \<Rightarrow> u8" where
  "opcode_u8 ConstI64 = 0x01"
| "opcode_u8 ConstBytes = 0x02"
| "opcode_u8 JsonNormalize = 0x03"
| "opcode_u8 JsonValidate = 0x04"
| "opcode_u8 AddI64 = 0x05"
| "opcode_u8 SubI64 = 0x06"
| "opcode_u8 MulI64 = 0x07"
| "opcode_u8 CmpI64 = 0x08"
| "opcode_u8 AssertTrue = 0x09"
| "opcode_u8 HashBlake3 = 0x0A"
| "opcode_u8 CasPut = 0x0B"
| "opcode_u8 CasGet = 0x0C"
| "opcode_u8 SetRcBody = 0x0D"
| "opcode_u8 AttachProof = 0x0E"
| "opcode_u8 SignDefault = 0x0F"
| "opcode_u8 EmitRc = 0x10"
| "opcode_u8 Drop = 0x11"
| "opcode_u8 PushInput = 0x12"
| "opcode_u8 JsonGetKey = 0x13"
| "opcode_u8 Dup = 0x14"
| "opcode_u8 Swap = 0x15"
| "opcode_u8 VerifySig = 0x16"
| "opcode_u8 NumFromDecimalStr = 0x17"
| "opcode_u8 NumFromF64Bits = 0x18"
| "opcode_u8 NumAdd = 0x19"
| "opcode_u8 NumSub = 0x1A"
| "opcode_u8 NumMul = 0x1B"
| "opcode_u8 NumDiv = 0x1C"
| "opcode_u8 NumToDec = 0x1D"
| "opcode_u8 NumToRat = 0x1E"
| "opcode_u8 NumWithUnit = 0x1F"
| "opcode_u8 NumAssertUnit = 0x20"
| "opcode_u8 NumCompare = 0x21"
| "opcode_u8 JsonGetKeyBytes = 0x22"
| "opcode_u8 JsonHasKey = 0x23"
| "opcode_u8 EqBytes = 0x24"
| "opcode_u8 PushBodySize = 0x25"
| "opcode_u8 PushBool = 0x26"
| "opcode_u8 BoolNot = 0x27"
| "opcode_u8 BoolOr = 0x28"
| "opcode_u8 BoolAnd = 0x29"
| "opcode_u8 BoolToI64 = 0x2A"
| "opcode_u8 DivI64 = 0x2B"
| "opcode_u8 PushTimestamp = 0x2C"
| "opcode_u8 CmpTimestamp = 0x2D"

definition opcode_try_from :: "u8 \<Rightarrow> opcode option" where
  "opcode_try_from v =
     (if v = 0x01 then Some ConstI64
      else if v = 0x02 then Some ConstBytes
      else if v = 0x03 then Some JsonNormalize
      else if v = 0x04 then Some JsonValidate
      else if v = 0x05 then Some AddI64
      else if v = 0x06 then Some SubI64
      else if v = 0x07 then Some MulI64
      else if v = 0x08 then Some CmpI64
      else if v = 0x09 then Some AssertTrue
      else if v = 0x0A then Some HashBlake3
      else if v = 0x0B then Some CasPut
      else if v = 0x0C then Some CasGet
      else if v = 0x0D then Some SetRcBody
      else if v = 0x0E then Some AttachProof
      else if v = 0x0F then Some SignDefault
      else if v = 0x10 then Some EmitRc
      else if v = 0x11 then Some Drop
      else if v = 0x12 then Some PushInput
      else if v = 0x13 then Some JsonGetKey
      else if v = 0x14 then Some Dup
      else if v = 0x15 then Some Swap
      else if v = 0x16 then Some VerifySig
      else if v = 0x17 then Some NumFromDecimalStr
      else if v = 0x18 then Some NumFromF64Bits
      else if v = 0x19 then Some NumAdd
      else if v = 0x1A then Some NumSub
      else if v = 0x1B then Some NumMul
      else if v = 0x1C then Some NumDiv
      else if v = 0x1D then Some NumToDec
      else if v = 0x1E then Some NumToRat
      else if v = 0x1F then Some NumWithUnit
      else if v = 0x20 then Some NumAssertUnit
      else if v = 0x21 then Some NumCompare
      else if v = 0x22 then Some JsonGetKeyBytes
      else if v = 0x23 then Some JsonHasKey
      else if v = 0x24 then Some EqBytes
      else if v = 0x25 then Some PushBodySize
      else if v = 0x26 then Some PushBool
      else if v = 0x27 then Some BoolNot
      else if v = 0x28 then Some BoolOr
      else if v = 0x29 then Some BoolAnd
      else if v = 0x2A then Some BoolToI64
      else if v = 0x2B then Some DivI64
      else if v = 0x2C then Some PushTimestamp
      else if v = 0x2D then Some CmpTimestamp
      else None)"

lemma opcode_try_from_u8 [simp]: "opcode_try_from (opcode_u8 op) = Some op"
  by (cases op) (simp_all add: opcode_try_from_def)

lemma opcode_u8_try_from: "opcode_try_from b = Some op \<Longrightarrow> opcode_u8 op = b"
  unfolding opcode_try_from_def by (auto split: if_split_asm)

lemma opcode_u8_inject [simp]: "opcode_u8 a = opcode_u8 b \<longleftrightarrow> a = b"
  by (metis opcode_try_from_u8 option.inject)

section \<open>Instructions and their wire format\<close>

record instr =
  ins_op :: opcode
  ins_payload :: "u8 list"

datatype decode_error = Truncated | UnknownOpcode u8

text \<open>One iteration of the decoding loop: the instruction at the front and the rest.\<close>

definition decode_instr :: "u8 list \<Rightarrow> decode_error + instr \<times> u8 list" where
  "decode_instr buf =
     (case buf of
        op_u8 # h # l # rest \<Rightarrow>
          let len = unat (from_be [h, l] :: u16)
          in if len > length rest then Inl Truncated
             else (case opcode_try_from op_u8 of
                 None \<Rightarrow> Inl (UnknownOpcode op_u8)
               | Some opc \<Rightarrow> Inr (\<lparr>ins_op = opc, ins_payload = take len rest\<rparr>, drop len rest))
      | _ \<Rightarrow> Inl Truncated)"

lemma decode_instr_shrinks: "decode_instr buf = Inr (i, r) \<Longrightarrow> length r < length buf"
  by (auto simp: decode_instr_def Let_def split: list.split_asm if_split_asm option.split_asm)

function decode_stream :: "u8 list \<Rightarrow> decode_error + instr list" where
  "decode_stream buf =
     (if buf = [] then Inr []
      else and_then (decode_instr buf) (\<lambda>(i, rest).
        map_ok (\<lambda>is. i # is) (decode_stream rest)))"
  by pat_completeness auto
termination
  by (relation "measure length") (auto dest: decode_instr_shrinks)

declare decode_stream.simps [simp del]

text \<open>\<open>tlv_instr\<close>: the payload length is cast to \<open>u16\<close>.\<close>

definition tlv_instr :: "opcode \<Rightarrow> u8 list \<Rightarrow> u8 list" where
  "tlv_instr opc p = opcode_u8 opc # be_bytes 2 (of_nat (length p) :: u16) @ p"

definition encode_instr :: "instr \<Rightarrow> u8 list" where
  "encode_instr i = tlv_instr (ins_op i) (ins_payload i)"

definition instr_wf :: "instr \<Rightarrow> bool" where
  "instr_wf i \<longleftrightarrow> length (ins_payload i) < 2 ^ 16"

definition assemble :: "instr list \<Rightarrow> u8 list" where
  "assemble is = concat (map encode_instr is)"

lemma be_bytes_2: "be_bytes 2 (w :: u16) = [h, l] \<Longrightarrow> from_be [h, l] = w"
  by (metis from_be_u16)

lemma be_bytes_2_cases:
  obtains h l where "be_bytes 2 (w :: u16) = [h, l]"
proof -
  have "length (be_bytes 2 w) = Suc (Suc 0)"
    by simp
  then show ?thesis
    using that by (auto simp: length_Suc_conv simp del: length_be_bytes)
qed

lemma unat_u16_len: "n < 2 ^ 16 \<Longrightarrow> unat (of_nat n :: u16) = n"
  by (simp add: unat_of_nat)

lemma decode_encode_instr [codec_simps]:
  assumes "instr_wf i"
  shows "decode_instr (encode_instr i @ r) = Inr (i, r)"
proof -
  obtain h l where hl: "be_bytes 2 (of_nat (length (ins_payload i)) :: u16) = [h, l]"
    by (rule be_bytes_2_cases)
  have "unat (from_be [h, l] :: u16) = length (ins_payload i)"
    using assms be_bytes_2 [OF hl] unat_u16_len by (simp add: instr_wf_def)
  then show ?thesis
    by (simp add: decode_instr_def encode_instr_def tlv_instr_def hl)
qed

interpretation tlv: codec encode_instr decode_instr instr_wf
  by unfold_locales (rule decode_encode_instr)

lemma encode_instr_ne [simp]: "encode_instr i \<noteq> []"
  by (simp add: encode_instr_def tlv_instr_def)

lemma assemble_simps [simp]:
  "assemble [] = []" "assemble (i # is) = encode_instr i @ assemble is"
  "assemble (is @ js) = assemble is @ assemble js"
  by (simp_all add: assemble_def)

lemma decode_stream_Nil [simp]: "decode_stream [] = Inr []"
  by (simp add: decode_stream.simps)

lemma decode_stream_encode:
  "instr_wf i \<Longrightarrow> decode_stream (encode_instr i @ r) = map_ok ((#) i) (decode_stream r)"
  by (simp add: decode_stream.simps [of "encode_instr i @ r"] tlv.dec_enc)

lemma decode_stream_append:
  "list_all instr_wf is \<Longrightarrow> decode_stream (assemble is @ r) = map_ok ((@) is) (decode_stream r)"
proof (induction "is")
  case (Cons i "is")
  then show ?case
    by (cases "decode_stream r") (simp_all add: decode_stream_encode)
qed (cases "decode_stream r", simp_all)

lemma decode_assemble: "list_all instr_wf is \<Longrightarrow> decode_stream (assemble is) = Inr is"
  using decode_stream_append [of "is" "[]"] by simp

lemma from_be_2: "be_bytes 2 (from_be [h, l] :: u16) = [h, l]"
proof -
  have "ucast (drop_bit 8 (push_bit 8 (ucast h) OR ucast l :: u16)) = h"
    by (rule bit_word_eqI) (auto simp: bit_simps dest: bit_imp_le_length)
  moreover have "ucast (push_bit 8 (ucast h) OR ucast l :: u16) = l"
    by (rule bit_word_eqI) (auto simp: bit_simps)
  ultimately show ?thesis
    by (simp add: from_be_def be_bytes_Suc numeral_2_eq_2)
qed

lemma encode_decode_instr:
  assumes "decode_instr buf = Inr (i, r)"
  shows "instr_wf i \<and> encode_instr i @ r = buf"
proof -
  obtain opc h l rest where buf: "buf = opcode_u8 opc # h # l # rest"
    and len: "unat (from_be [h, l] :: u16) \<le> length rest"
    and i: "i = \<lparr>ins_op = opc, ins_payload = take (unat (from_be [h, l] :: u16)) rest\<rparr>"
    and r: "r = drop (unat (from_be [h, l] :: u16)) rest"
    using assms
    by (auto simp: decode_instr_def Let_def dest!: opcode_u8_try_from
        split: list.split_asm if_split_asm option.split_asm)
  have "unat (from_be [h, l] :: u16) < 2 ^ 16"
    using unsigned_less [of "from_be [h, l] :: u16"] by simp
  with len show ?thesis
    by (simp add: i r buf instr_wf_def encode_instr_def tlv_instr_def from_be_2 min_absorb2)
qed

lemma assemble_decode:
  "decode_stream buf = Inr is \<Longrightarrow> list_all instr_wf is \<and> assemble is = buf"
proof (induction buf arbitrary: "is" rule: decode_stream.induct)
  case (1 buf)
  show ?case
  proof (cases "buf = []")
    case False
    with "1.prems" obtain i r js where d: "decode_instr buf = Inr (i, r)" "decode_stream r = Inr js"
      "is = i # js"
      by (auto simp: decode_stream.simps [of buf] result_simps)
    with "1.IH" [OF False d(1) refl d(2)] encode_decode_instr [OF d(1)] show ?thesis
      by simp
  qed (use "1.prems" in simp)
qed

text \<open>The wire format of programs is a bijection: a byte string decodes to a list of instructions
  exactly when it is the concatenation of their encodings and every payload fits the 16-bit
  length field.\<close>

theorem decode_stream_iff:
  "decode_stream buf = Inr is \<longleftrightarrow> list_all instr_wf is \<and> buf = assemble is"
  using decode_assemble assemble_decode by metis

text \<open>The encoder does not guard its 16-bit length field: for a payload of length at least 65536
  the field wraps, the instruction keeps only a prefix of its payload, and the rest of the
  payload is decoded as further instructions.\<close>

theorem tlv_instr_oversized:
  assumes "length p1 < 2 ^ 16" "length p2 = 2 ^ 16 * k"
  shows "decode_stream (tlv_instr opc (p1 @ p2) @ r)
    = map_ok ((#) \<lparr>ins_op = opc, ins_payload = p1\<rparr>) (decode_stream (p2 @ r))"
proof -
  let ?i = "\<lparr>ins_op = opc, ins_payload = p1\<rparr>"
  have "(of_nat (length (p1 @ p2)) :: u16) = of_nat (length p1)"
    using assms(2) by (simp add: word_of_nat_eq_0_iff del: of_nat_mult)
  then have "tlv_instr opc (p1 @ p2) @ r = encode_instr ?i @ p2 @ r"
    by (simp add: tlv_instr_def encode_instr_def)
  moreover have "instr_wf ?i"
    using assms(1) by (simp add: instr_wf_def)
  ultimately show ?thesis
    by (simp add: decode_stream_encode)
qed

theorem tlv_instr_oversized_witness:
  "decode_stream (tlv_instr ConstBytes ([1] @ replicate 65536 0) @ [])
    = map_ok ((#) \<lparr>ins_op = ConstBytes, ins_payload = [1]\<rparr>) (decode_stream (replicate 65536 0 @ []))"
  by (rule tlv_instr_oversized [where k = 1]) (simp_all only: length_replicate list.size, simp_all)

section \<open>Disassembly\<close>

fun opcode_name :: "opcode \<Rightarrow> string" where
  "opcode_name ConstI64 = ''ConstI64''"
| "opcode_name ConstBytes = ''ConstBytes''"
| "opcode_name JsonNormalize = ''JsonNormalize''"
| "opcode_name JsonValidate = ''JsonValidate''"
| "opcode_name AddI64 = ''AddI64''"
| "opcode_name SubI64 = ''SubI64''"
| "opcode_name MulI64 = ''MulI64''"
| "opcode_name CmpI64 = ''CmpI64''"
| "opcode_name AssertTrue = ''AssertTrue''"
| "opcode_name HashBlake3 = ''HashBlake3''"
| "opcode_name CasPut = ''CasPut''"
| "opcode_name CasGet = ''CasGet''"
| "opcode_name SetRcBody = ''SetRcBody''"
| "opcode_name AttachProof = ''AttachProof''"
| "opcode_name SignDefault = ''SignDefault''"
| "opcode_name EmitRc = ''EmitRc''"
| "opcode_name Drop = ''Drop''"
| "opcode_name PushInput = ''PushInput''"
| "opcode_name JsonGetKey = ''JsonGetKey''"
| "opcode_name Dup = ''Dup''"
| "opcode_name Swap = ''Swap''"
| "opcode_name VerifySig = ''VerifySig''"
| "opcode_name NumFromDecimalStr = ''NumFromDecimalStr''"
| "opcode_name NumFromF64Bits = ''NumFromF64Bits''"
| "opcode_name NumAdd = ''NumAdd''"
| "opcode_name NumSub = ''NumSub''"
| "opcode_name NumMul = ''NumMul''"
| "opcode_name NumDiv = ''NumDiv''"
| "opcode_name NumToDec = ''NumToDec''"
| "opcode_name NumToRat = ''NumToRat''"
| "opcode_name NumWithUnit = ''NumWithUnit''"
| "opcode_name NumAssertUnit = ''NumAssertUnit''"
| "opcode_name NumCompare = ''NumCompare''"
| "opcode_name JsonGetKeyBytes = ''JsonGetKeyBytes''"
| "opcode_name JsonHasKey = ''JsonHasKey''"
| "opcode_name EqBytes = ''EqBytes''"
| "opcode_name PushBodySize = ''PushBodySize''"
| "opcode_name PushBool = ''PushBool''"
| "opcode_name BoolNot = ''BoolNot''"
| "opcode_name BoolOr = ''BoolOr''"
| "opcode_name BoolAnd = ''BoolAnd''"
| "opcode_name BoolToI64 = ''BoolToI64''"
| "opcode_name DivI64 = ''DivI64''"
| "opcode_name PushTimestamp = ''PushTimestamp''"
| "opcode_name CmpTimestamp = ''CmpTimestamp''"

definition hex_preview :: "u8 list \<Rightarrow> string" where
  "hex_preview bytes = concat (map hex_byte bytes)"

definition cmp_name :: "u8 \<Rightarrow> string" where
  "cmp_name n =
     (if n = 0 then ''(EQ)'' else if n = 1 then ''(NE)'' else if n = 2 then ''(LT)''
      else if n = 3 then ''(LE)'' else if n = 4 then ''(GT)'' else if n = 5 then ''(GE)''
      else ''(cmp=0x'' @ hex_byte n @ ''?)'')"

definition utf8_payload :: "u8 list \<Rightarrow> string" where
  "utf8_payload p =
     (case from_utf8 p of
        Some s \<Rightarrow> ''(\"'' @ s @ ''\")''
      | None \<Rightarrow> ''('' @ show_nat (length p) @ '' bytes, non-utf8)'')"

definition format_payload :: "opcode \<Rightarrow> u8 list \<Rightarrow> string" where
  "format_payload opc p =
     (let other = (if p \<noteq> [] then ''('' @ show_nat (length p) @ '' bytes)'' else []) in
      case opc of
        ConstI64 \<Rightarrow>
          if length p = 8 then ''('' @ show_int (sint (from_be p :: i64)) @ '')'' else other
      | ConstBytes \<Rightarrow>
          if length p \<le> 32 then ''('' @ show_nat (length p) @ '' bytes: '' @ hex_preview p @ '')''
          else ''('' @ show_nat (length p) @ '' bytes: '' @ hex_preview (take 32 p) @ ''...)''
      | PushInput \<Rightarrow>
          if length p = 2 then ''(idx='' @ show_nat (unat (from_be p :: u16)) @ '')'' else other
      | CmpI64 \<Rightarrow> if length p = 1 then cmp_name (hd p) else other
      | JsonGetKey \<Rightarrow> utf8_payload p
      | NumToDec \<Rightarrow>
          if length p = 5
          then ''(scale='' @ show_nat (unat (from_be (take 4 p) :: u32)) @ '', rm=''
            @ show_nat (unat (p ! 4)) @ '')''
          else other
      | NumToRat \<Rightarrow>
          if length p = 8 then ''(limit_den='' @ show_nat (unat (from_be p :: u64)) @ '')'' else other
      | NumWithUnit \<Rightarrow> utf8_payload p
      | NumAssertUnit \<Rightarrow> utf8_payload p
      | JsonGetKeyBytes \<Rightarrow> utf8_payload p
      | JsonHasKey \<Rightarrow> utf8_payload p
      | PushBool \<Rightarrow>
          if length p = 1 then (if hd p \<noteq> 0 then ''(true)'' else ''(false)'') else other
      | CmpTimestamp \<Rightarrow> if length p = 1 then cmp_name (hd p) else other
      | _ \<Rightarrow> other)"

definition format_instr :: "nat \<Rightarrow> opcode \<Rightarrow> u8 list \<Rightarrow> string" where
  "format_instr offset opc p =
     (let name = opcode_name opc; detail = format_payload opc p;
          head = pad_zero 4 (hex_digits offset) @ ''  '' @ hex_byte (opcode_u8 opc) @ ''  '' @ name
      in if detail = [] then head else head @ '' '' @ detail)"

fun disassemble_lines :: "nat \<Rightarrow> instr list \<Rightarrow> string list" where
  "disassemble_lines offset [] = []"
| "disassemble_lines offset (ins # instrs) =
     (format_instr offset (ins_op ins) (ins_payload ins) @ [CHR 0x0A])
     # disassemble_lines (offset + 3 + length (ins_payload ins)) instrs"

definition disassemble :: "u8 list \<Rightarrow> decode_error + string" where
  "disassemble bytecode =
     map_ok (\<lambda>instrs.
       let out = concat (disassemble_lines 0 instrs)
       in if out = [] then ''(empty program)'' @ [CHR 0x0A] else out) (decode_stream bytecode)"

text \<open>A disassembly lists every instruction of the program once, in order, each line starting
  with the byte offset at which the instruction is encoded; it fails exactly when decoding
  fails.\<close>

theorem disassemble_offsets:
  "(disassemble bytecode = Inl e \<longleftrightarrow> decode_stream bytecode = Inl e)
   \<and> disassemble_lines off is = map (\<lambda>k.
       format_instr (off + length (assemble (take k is))) (ins_op (is ! k)) (ins_payload (is ! k)) @ [CHR 0x0A])
       [0..<length is]"
proof
  show "disassemble bytecode = Inl e \<longleftrightarrow> decode_stream bytecode = Inl e"
    by (simp add: disassemble_def result_simps)
  show "disassemble_lines off is = map (\<lambda>k.
       format_instr (off + length (assemble (take k is))) (ins_op (is ! k)) (ins_payload (is ! k)) @ [CHR 0x0A])
       [0..<length is]"
  proof (induction "is" arbitrary: off)
    case (Cons i "is")
    have "[0..<length (i # is)] = 0 # map Suc [0..<length is]"
      by (simp only: map_Suc_upt list.size add_0 One_nat_def upt_conv_Cons zero_less_Suc add_Suc_right add_0_right)
    with Cons show ?case
      by (simp add: encode_instr_def tlv_instr_def numeral_3_eq_3 comp_def add.assoc del: upt_Suc)
  qed simp
qed

end
