(* ===== verification/Json.thy ===== *)
theory Json
  imports Ubl_Prelude
begin

text \<open>
  The JSON values of \<open>serde_json\<close> as the sources use them. The workspace enables the feature
  \<open>preserve_order\<close>, so an object is an association list in insertion order with distinct keys
  and two objects are equal as maps, whatever their order. A number is an integer in the range
  of \<open>i64\<close> or \<open>u64\<close>, or a finite \<open>f64\<close> given by its bits.
\<close>

section \<open>Values\<close>

datatype number = N_Int int | N_Float u64

datatype json =
    JNull
  | JBool bool
  | JNum number
  | JStr string
  | JArr "json list"
  | JObj "(string \<times> json) list"

type_synonym json_obj = "(string \<times> json) list"

section \<open>Accessors\<close>

fun json_get :: "json \<Rightarrow> string \<Rightarrow> json option" where
  "json_get (JObj m) k = map_of m k"
| "json_get _ k = None"

fun as_str :: "json \<Rightarrow> string option" where
  "as_str (JStr s) = Some s"
| "as_str _ = None"

fun as_bool :: "json \<Rightarrow> bool option" where
  "as_bool (JBool b) = Some b"
| "as_bool _ = None"

lemma as_str_Some: "as_str v = Some s \<longleftrightarrow> v = JStr s"
  by (cases v) auto

fun as_array :: "json \<Rightarrow> json list option" where
  "as_array (JArr xs) = Some xs"
| "as_array _ = None"

fun as_object :: "json \<Rightarrow> json_obj option" where
  "as_object (JObj m) = Some m"
| "as_object _ = None"

fun is_null :: "json \<Rightarrow> bool" where
  "is_null JNull = True"
| "is_null _ = False"

fun num_is_i64 :: "number \<Rightarrow> bool" where
  "num_is_i64 (N_Int i) \<longleftrightarrow> i64_min \<le> i \<and> i \<le> i64_max"
| "num_is_i64 (N_Float _) \<longleftrightarrow> False"

fun num_is_u64 :: "number \<Rightarrow> bool" where
  "num_is_u64 (N_Int i) \<longleftrightarrow> 0 \<le> i \<and> i < 2 ^ 64"
| "num_is_u64 (N_Float _) \<longleftrightarrow> False"

fun num_as_i64 :: "number \<Rightarrow> i64 option" where
  "num_as_i64 (N_Int i) = (if num_is_i64 (N_Int i) then Some (word_of_int i) else None)"
| "num_as_i64 (N_Float _) = None"

fun as_i64 :: "json \<Rightarrow> i64 option" where
  "as_i64 (JNum n) = num_as_i64 n"
| "as_i64 _ = None"

fun as_u64 :: "json \<Rightarrow> u64 option" where
  "as_u64 (JNum (N_Int i)) = (if 0 \<le> i \<and> i < 2 ^ 64 then Some (word_of_int i) else None)"
| "as_u64 _ = None"

text \<open>\<open>Map::insert\<close> keeps the position of an existing key and appends a new one.\<close>

fun obj_insert :: "string \<Rightarrow> 'v \<Rightarrow> (string \<times> 'v) list \<Rightarrow> (string \<times> 'v) list" where
  "obj_insert k v [] = [(k, v)]"
| "obj_insert k v ((k', v') # m) =
     (if k = k' then (k, v) # m else (k', v') # obj_insert k v m)"

lemma map_of_obj_insert [simp]: "map_of (obj_insert k v m) = (map_of m)(k \<mapsto> v)"
  by (induction m) auto

lemma fst_obj_insert: "fst ` set (obj_insert k v m) = insert k (fst ` set m)"
  by (induction k v m rule: obj_insert.induct) (simp_all add: insert_commute)

lemma distinct_obj_insert:
  "distinct (map fst m) \<Longrightarrow> distinct (map fst (obj_insert k v m))"
proof (induction m)
  case (Cons p m)
  then show ?case
    using fst_obj_insert [of k v m] by (cases p) auto
qed simp

lemma obj_insert_new: "k \<notin> fst ` set m \<Longrightarrow> obj_insert k v m = m @ [(k, v)]"
  by (induction m) auto

section \<open>Well-formed values\<close>

fun num_wf :: "number \<Rightarrow> bool" where
  "num_wf (N_Int i) \<longleftrightarrow> i64_min \<le> i \<and> i < 2 ^ 64"
| "num_wf (N_Float b) \<longleftrightarrow> True"

fun json_wf :: "json \<Rightarrow> bool" where
  "json_wf (JNum n) \<longleftrightarrow> num_wf n"
| "json_wf (JStr s) \<longleftrightarrow> is_str s"
| "json_wf (JArr xs) \<longleftrightarrow> list_all json_wf xs"
| "json_wf (JObj m) \<longleftrightarrow>
     distinct (map fst m) \<and> list_all (\<lambda>(k, v). is_str k \<and> json_wf v) m"
| "json_wf _ \<longleftrightarrow> True"

section \<open>Equality of values\<close>

text \<open>
  \<open>Value == Value\<close>: structural, with \<open>f64\<close> equality on floats (positive and negative zero are
  equal) and map equality on objects.
\<close>

fun num_eq :: "number \<Rightarrow> number \<Rightarrow> bool" where
  "num_eq (N_Int i) (N_Int j) \<longleftrightarrow> i = j"
| "num_eq (N_Float a) (N_Float b) \<longleftrightarrow> a = b \<or> push_bit 1 a = 0 \<and> push_bit 1 b = 0"
| "num_eq _ _ \<longleftrightarrow> False"

lemma size_json_arr: "x \<in> set xs \<Longrightarrow> size x < size (JArr xs)"
  by (induction xs) auto

lemma size_json_obj: "(k, v) \<in> set m \<Longrightarrow> size v < size (JObj m)"
  by (induction m) auto

function (sequential) json_eq :: "json \<Rightarrow> json \<Rightarrow> bool" where
  "json_eq JNull JNull \<longleftrightarrow> True"
| "json_eq (JBool a) (JBool b) \<longleftrightarrow> a = b"
| "json_eq (JNum a) (JNum b) \<longleftrightarrow> num_eq a b"
| "json_eq (JStr a) (JStr b) \<longleftrightarrow> a = b"
| "json_eq (JArr xs) (JArr ys) \<longleftrightarrow>
     length xs = length ys \<and> list_all (\<lambda>(x, y). json_eq x y) (zip xs ys)"
| "json_eq (JObj m) (JObj n) \<longleftrightarrow>
     length m = length n \<and>
     list_all (\<lambda>(k, v). case map_of n k of Some w \<Rightarrow> json_eq v w | None \<Rightarrow> False) m"
| "json_eq _ _ \<longleftrightarrow> False"
  by pat_completeness auto
termination
  by (relation "measure (size \<circ> fst)")
    (auto dest!: set_zip_leftD simp del: json.size intro: size_json_arr size_json_obj)

lemma num_eq_refl [simp]: "num_eq n n"
  by (cases n) auto

lemma json_eq_refl: "json_wf j \<Longrightarrow> json_eq j j"
proof (induction j)
  case (JArr xs)
  then show ?case
    by (auto simp: list_all_iff set_zip in_set_conv_nth)
next
  case (JObj m)
  have "case map_of m k of Some w \<Rightarrow> json_eq v w | None \<Rightarrow> False" if "(k, v) \<in> set m" for k v
  proof -
    have "map_of m k = Some v"
      using JObj.prems that by (simp add: map_of_is_SomeI)
    moreover have "json_eq v v"
      using JObj.prems by (intro JObj.IH [OF that]) (use that in \<open>auto simp: list_all_iff\<close>)
    ultimately show ?thesis
      by simp
  qed
  then show ?case
    by (auto simp: list_all_iff)
qed auto

end
