(* ===== verification/Unc1.thy ===== *)
theory Unc1
  imports Ubl_Prelude
begin

text \<open>
  The numeric tower UNC-1 (\<open>crates/ubl_unc1/src/lib.rs\<close>): integers, decimals, rationals and
  intervals with units. Numbers carry their digits as text; \<open>BigInt\<close> is \<^typ>\<open>int\<close> and
  \<open>BigRational\<close> is \<^typ>\<open>rat\<close> (always reduced), while the text form of a \<open>BigInt\<close> belongs to the
  library and is an argument. A panic of \<open>BigRational::new\<close> on denominator zero is the value
  \<^const>\<open>None\<close> of the outer option.
\<close>

record bigint_text =
  parse_big :: "string \<Rightarrow> int option"
  show_big :: "int \<Rightarrow> string"

datatype num =
    Num_Int (num_v: string) (num_u: "string option")
  | Num_Dec (num_m: string) (num_s: u32) (num_u: "string option")
  | Num_Rat (num_p: string) (num_q: string) (num_u: "string option")
  | Num_Bnd (num_lo: num) (num_hi: num) (num_u: "string option")

datatype num_error =
    InvalidBigint string
  | DivisionByZero
  | CannotConvertBnd
  | UnitMismatch
  | UnitMismatchVs string string
  | UnitMissing
  | InvalidDecimal
  | InvalidRoundingMode u8
  | NumericValueInvalid
  | BndTooWide

datatype rounding_mode = HalfEven | Down | Up | HalfUp | Floor | Ceil

definition rounding_mode_from_u8 :: "u8 \<Rightarrow> num_error + rounding_mode" where
  "rounding_mode_from_u8 v =
     (if v = 0 then Inr HalfEven
      else if v = 1 then Inr Down
      else if v = 2 then Inr Up
      else if v = 3 then Inr HalfUp
      else if v = 4 then Inr Floor
      else if v = 5 then Inr Ceil
      else Inl (InvalidRoundingMode v))"

section \<open>Units and ranks\<close>

fun set_unit :: "num \<Rightarrow> string option \<Rightarrow> num" where
  "set_unit (Num_Int v _) u = Num_Int v u"
| "set_unit (Num_Dec m s _) u = Num_Dec m s u"
| "set_unit (Num_Rat p q _) u = Num_Rat p q u"
| "set_unit (Num_Bnd lo hi _) u = Num_Bnd lo hi u"

definition with_unit :: "num \<Rightarrow> string \<Rightarrow> num_error + num" where
  "with_unit n unit =
     (case num_u n of
        Some old \<Rightarrow> if old \<noteq> unit then Inl UnitMismatch else Inr (set_unit n (Some unit))
      | None \<Rightarrow> Inr (set_unit n (Some unit)))"

definition assert_unit :: "num \<Rightarrow> string \<Rightarrow> num_error + unit" where
  "assert_unit n unit =
     (case num_u n of
        Some x \<Rightarrow> if x \<noteq> unit then Inl UnitMismatch else Inr ()
      | None \<Rightarrow> Inl UnitMissing)"

fun strip_unit :: "num \<Rightarrow> num" where
  "strip_unit (Num_Int v _) = Num_Int v None"
| "strip_unit (Num_Dec m s _) = Num_Dec m s None"
| "strip_unit (Num_Rat p q _) = Num_Rat p q None"
| "strip_unit (Num_Bnd lo hi _) = Num_Bnd (strip_unit lo) (strip_unit hi) None"

fun rank :: "num \<Rightarrow> nat" where
  "rank (Num_Int _ _) = 0"
| "rank (Num_Dec _ _ _) = 1"
| "rank (Num_Rat _ _ _) = 2"
| "rank (Num_Bnd _ _ _) = 3"

definition check_units :: "num \<Rightarrow> num \<Rightarrow> num_error + string option" where
  "check_units a b =
     (case (num_u a, num_u b) of
        (None, None) \<Rightarrow> Inr None
      | (Some x, None) \<Rightarrow> Inr (Some x)
      | (None, Some x) \<Rightarrow> Inr (Some x)
      | (Some x, Some y) \<Rightarrow> if x = y then Inr (Some x) else Inl (UnitMismatchVs x y))"

section \<open>Rational values\<close>

definition numer :: "rat \<Rightarrow> int" where
  "numer r = fst (quotient_of r)"

definition denom :: "rat \<Rightarrow> int" where
  "denom r = snd (quotient_of r)"

definition is_integer :: "rat \<Rightarrow> bool" where
  "is_integer r \<longleftrightarrow> denom r = 1"

definition parse_bigint :: "bigint_text \<Rightarrow> string \<Rightarrow> num_error + int" where
  "parse_bigint B s = ok_or (InvalidBigint s) (parse_big B s)"

fun to_rational :: "bigint_text \<Rightarrow> num \<Rightarrow> num_error + rat" where
  "to_rational B (Num_Int v _) = map_ok of_int (parse_bigint B v)"
| "to_rational B (Num_Dec m s _) =
     map_ok (\<lambda>mantissa. of_int mantissa / of_int (10 ^ unat s)) (parse_bigint B m)"
| "to_rational B (Num_Rat p q _) =
     and_then (parse_bigint B p) (\<lambda>num.
     and_then (parse_bigint B q) (\<lambda>den.
       if den = 0 then Inl DivisionByZero else Inr (of_int num / of_int den)))"
| "to_rational B (Num_Bnd _ _ _) = Inl CannotConvertBnd"

definition rational_to_int :: "bigint_text \<Rightarrow> rat \<Rightarrow> num option" where
  "rational_to_int B r = (if is_integer r then Some (Num_Int (show_big B (numer r)) None) else None)"

definition rational_to_reduced_rat :: "bigint_text \<Rightarrow> rat \<Rightarrow> num" where
  "rational_to_reduced_rat B r = Num_Rat (show_big B (numer r)) (show_big B (denom r)) None"

section \<open>Rounding\<close>

definition floor_div :: "int \<Rightarrow> int \<Rightarrow> int" where
  "floor_div n d =
     (let q = trunc_div n d; r = trunc_rem n d
      in if r \<noteq> 0 \<and> (n < 0) \<noteq> (d < 0) then q - 1 else q)"

definition ceil_div :: "int \<Rightarrow> int \<Rightarrow> int" where
  "ceil_div n d =
     (let q = trunc_div n d; r = trunc_rem n d
      in if r \<noteq> 0 \<and> (n < 0) = (d < 0) then q + 1 else q)"

definition half_up :: "int \<Rightarrow> int \<Rightarrow> int" where
  "half_up n d =
     (let abs_d = \<bar>d\<bar>; abs_n = \<bar>n\<bar>; q = trunc_div abs_n abs_d; r = trunc_rem abs_n abs_d;
          doubled_r = r * 2;
          result = (if doubled_r \<ge> abs_d then q + 1 else q)
      in if n < 0 then - result else result)"

definition half_even :: "int \<Rightarrow> int \<Rightarrow> int" where
  "half_even n d =
     (let abs_d = \<bar>d\<bar>; abs_n = \<bar>n\<bar>; q = trunc_div abs_n abs_d; r = trunc_rem abs_n abs_d;
          doubled_r = r * 2;
          result = (if doubled_r > abs_d then q + 1
            else if doubled_r = abs_d then (if trunc_rem q 2 = 0 then q else q + 1)
            else q)
      in if n < 0 then - result else result)"

fun round_scaled :: "rounding_mode \<Rightarrow> rat \<Rightarrow> int" where
  "round_scaled Down scaled =
     (if scaled < 0 then - trunc_div (- numer scaled) (denom scaled)
      else trunc_div (numer scaled) (denom scaled))"
| "round_scaled Up scaled =
     (if is_integer scaled then numer scaled
      else if scaled < 0 then - trunc_div (- numer scaled + denom scaled - 1) (denom scaled)
      else trunc_div (numer scaled + denom scaled - 1) (denom scaled))"
| "round_scaled Floor scaled = floor_div (numer scaled) (denom scaled)"
| "round_scaled Ceil scaled = ceil_div (numer scaled) (denom scaled)"
| "round_scaled HalfUp scaled = half_up (numer scaled) (denom scaled)"
| "round_scaled HalfEven scaled = half_even (numer scaled) (denom scaled)"

definition round_rational_to_dec :: "bigint_text \<Rightarrow> rat \<Rightarrow> u32 \<Rightarrow> rounding_mode \<Rightarrow> num" where
  "round_rational_to_dec B r scale rm =
     (let factor = 10 ^ unat scale; scaled = r * of_int factor
      in Num_Dec (show_big B (round_scaled rm scaled)) scale None)"

section \<open>From text and from IEEE-754 bits\<close>

fun split_dot :: "string \<Rightarrow> string list" where
  "split_dot [] = [[]]"
| "split_dot (c # s) =
     (if c = CHR ''.'' then [] # split_dot s
      else (case split_dot s of p # ps \<Rightarrow> (c # p) # ps | [] \<Rightarrow> [[c]]))"

definition from_decimal_str :: "string \<Rightarrow> num_error + num" where
  "from_decimal_str s =
     (let neg = (case s of c # _ \<Rightarrow> c = CHR ''-'' | [] \<Rightarrow> False);
          t = (if neg then tl s else s)
      in if t = [] \<or> list_all (\<lambda>c. c = CHR ''.'' \<or> c = CHR ''-'') t then Inl InvalidDecimal
         else (case split_dot t of
             [a] \<Rightarrow> Inr (Num_Dec (if neg then ''-'' @ a else a) 0 None)
           | [a, b] \<Rightarrow>
               let m = a @ b
               in Inr (Num_Dec (if neg then ''-'' @ m else m) (of_nat (length b)) None)
           | _ \<Rightarrow> Inl InvalidDecimal))"

definition f64_exponent :: "u64 \<Rightarrow> u64" where
  "f64_exponent bits = drop_bit 52 bits AND 0x7FF"

definition f64_finite :: "u64 \<Rightarrow> bool" where
  "f64_finite bits \<longleftrightarrow> f64_exponent bits \<noteq> 0x7FF"

definition f64_is_zero :: "u64 \<Rightarrow> bool" where
  "f64_is_zero bits \<longleftrightarrow> push_bit 1 bits = 0"

definition f64_negative :: "u64 \<Rightarrow> bool" where
  "f64_negative bits \<longleftrightarrow> drop_bit 63 bits = 1"

definition exact_f64_rational :: "u64 \<Rightarrow> rat" where
  "exact_f64_rational bits =
     (let sign = (if f64_negative bits then - 1 else 1 :: int);
          biased_exp = uint (f64_exponent bits);
          frac = bits AND 0x000FFFFFFFFFFFFF;
          (mantissa, exponent) =
            (if biased_exp = 0 then (uint frac, - 1074)
             else (uint (frac OR push_bit 52 1), biased_exp - 1023 - 52));
          signed_mantissa = sign * mantissa
      in if exponent \<ge> 0 then of_int (signed_mantissa * 2 ^ nat exponent)
         else of_int signed_mantissa / of_int (2 ^ nat (- exponent)))"

definition adjacent_f64 :: "u64 \<Rightarrow> u64 \<times> u64" where
  "adjacent_f64 bits =
     (if \<not> f64_negative bits \<and> \<not> f64_is_zero bits then (bits - 1, bits + 1)
      else (bits + 1, bits - 1))"

definition from_f64_bits :: "bigint_text \<Rightarrow> u64 \<Rightarrow> num_error + num" where
  "from_f64_bits B bits =
     (if \<not> f64_finite bits then Inl NumericValueInvalid
      else if f64_is_zero bits
      then Inr (Num_Bnd (Num_Dec ''0'' 1 None) (Num_Dec ''0'' 1 None) None)
      else
        (let exact = exact_f64_rational bits;
             (prev_f, next_f) = adjacent_f64 bits;
             prev_exact = exact_f64_rational prev_f;
             next_exact = exact_f64_rational next_f;
             lo_rat = (exact + prev_exact) / 2;
             hi_rat = (exact + next_exact) / 2;
             lo_dec = round_rational_to_dec B lo_rat 18 Floor;
             hi_dec = round_rational_to_dec B hi_rat 18 Ceil
         in Inr (Num_Bnd lo_dec hi_dec None)))"

section \<open>Arithmetic\<close>

datatype interval_op = Op_Add | Op_Sub | Op_Mul | Op_Div

fun bnd_bounds :: "bigint_text \<Rightarrow> num \<Rightarrow> num_error + rat \<times> rat" where
  "bnd_bounds B (Num_Bnd lo hi _) =
     and_then (to_rational B lo) (\<lambda>lo_r.
     and_then (to_rational B hi) (\<lambda>hi_r. Inr (lo_r, hi_r)))"
| "bnd_bounds B n = map_ok (\<lambda>r. (r, r)) (to_rational B n)"

definition min4 :: "rat \<Rightarrow> rat \<Rightarrow> rat \<Rightarrow> rat \<Rightarrow> rat" where
  "min4 a b c d = min (min (min a b) c) d"

definition max4 :: "rat \<Rightarrow> rat \<Rightarrow> rat \<Rightarrow> rat \<Rightarrow> rat" where
  "max4 a b c d = max (max (max a b) c) d"

fun interval_op_bounds :: "interval_op \<Rightarrow> rat \<times> rat \<Rightarrow> rat \<times> rat \<Rightarrow> num_error + rat \<times> rat" where
  "interval_op_bounds Op_Add (a_lo, a_hi) (b_lo, b_hi) = Inr (a_lo + b_lo, a_hi + b_hi)"
| "interval_op_bounds Op_Sub (a_lo, a_hi) (b_lo, b_hi) = Inr (a_lo - b_hi, a_hi - b_lo)"
| "interval_op_bounds Op_Mul (a_lo, a_hi) (b_lo, b_hi) =
     Inr (min4 (a_lo * b_lo) (a_lo * b_hi) (a_hi * b_lo) (a_hi * b_hi),
          max4 (a_lo * b_lo) (a_lo * b_hi) (a_hi * b_lo) (a_hi * b_hi))"
| "interval_op_bounds Op_Div (a_lo, a_hi) (b_lo, b_hi) =
     (if b_lo \<le> 0 \<and> b_hi \<ge> 0 then Inl DivisionByZero
      else Inr (min4 (a_lo / b_lo) (a_lo / b_hi) (a_hi / b_lo) (a_hi / b_hi),
                max4 (a_lo / b_lo) (a_lo / b_hi) (a_hi / b_lo) (a_hi / b_hi)))"

definition bnd_binary_op ::
  "bigint_text \<Rightarrow> num \<Rightarrow> num \<Rightarrow> string option \<Rightarrow> interval_op \<Rightarrow> num_error + num" where
  "bnd_binary_op B a b result_unit op =
     and_then (bnd_bounds B a) (\<lambda>ia.
     and_then (bnd_bounds B b) (\<lambda>ib.
     and_then (interval_op_bounds op ia ib) (\<lambda>(lo, hi).
       let lo_dec = round_rational_to_dec B lo 18 Floor;
           hi_dec = round_rational_to_dec B hi 18 Ceil
       in Inr (Num_Bnd lo_dec hi_dec result_unit))))"

definition dec_scale :: "num \<Rightarrow> u32" where
  "dec_scale n = (case n of Num_Dec _ s _ \<Rightarrow> s | _ \<Rightarrow> 0)"

definition binary_op ::
  "bigint_text \<Rightarrow> num \<Rightarrow> num \<Rightarrow> interval_op \<Rightarrow> (rat \<Rightarrow> rat \<Rightarrow> rat) \<Rightarrow> num_error + num" where
  "binary_op B a b interval_op f =
     and_then (check_units a b) (\<lambda>result_unit.
       if rank a = 3 \<or> rank b = 3 then bnd_binary_op B a b result_unit interval_op
       else
         and_then (to_rational B (strip_unit a)) (\<lambda>ra.
         and_then (to_rational B (strip_unit b)) (\<lambda>rb.
           let result = f ra rb;
               max_rank = max (rank a) (rank b);
               n = (if max_rank = 0 then
                      (case rational_to_int B result of Some i \<Rightarrow> i
                       | None \<Rightarrow> rational_to_reduced_rat B result)
                    else if max_rank = 1 then
                      round_rational_to_dec B result (max (dec_scale a) (dec_scale b)) HalfEven
                    else rational_to_reduced_rat B result)
           in Inr (set_unit n result_unit))))"

definition num_add :: "bigint_text \<Rightarrow> num \<Rightarrow> num \<Rightarrow> num_error + num" where
  "num_add B a b = binary_op B a b Op_Add (+)"

definition num_sub :: "bigint_text \<Rightarrow> num \<Rightarrow> num \<Rightarrow> num_error + num" where
  "num_sub B a b = binary_op B a b Op_Sub (-)"

definition num_mul :: "bigint_text \<Rightarrow> num \<Rightarrow> num \<Rightarrow> num_error + num" where
  "num_mul B a b = binary_op B a b Op_Mul (*)"

definition num_div :: "bigint_text \<Rightarrow> num \<Rightarrow> num \<Rightarrow> num_error + num" where
  "num_div B a b =
     and_then (to_rational B (strip_unit b)) (\<lambda>rb.
       if rb = 0 then Inl DivisionByZero else binary_op B a b Op_Div (/))"

section \<open>Rational facts\<close>

lemma denom_pos [simp]: "denom r > 0"
  by (simp add: denom_def quotient_of_denom_pos')

lemma denom_nonzero [simp]: "denom r \<noteq> 0"
  using denom_pos [of r] by linarith

lemma numer_denom: "of_int (numer r) / of_int (denom r) = r"
  by (metis denom_def numer_def prod.collapse quotient_of_div)

lemma numer_neg_iff [simp]: "numer r < 0 \<longleftrightarrow> r < 0"
  using numer_denom [of r] denom_pos [of r]
  by (metis divide_less_0_iff not_less_iff_gr_or_eq of_int_0_less_iff of_int_less_0_iff)

lemma trunc_div_nonneg: "0 \<le> n \<Longrightarrow> 0 < d \<Longrightarrow> trunc_div n d = n div d"
  by (cases "n = 0") (auto simp: trunc_div_def)

lemma trunc_div_nonpos: "n \<le> 0 \<Longrightarrow> 0 < d \<Longrightarrow> trunc_div n d = - ((- n) div d)"
  by (cases "n = 0") (auto simp: trunc_div_def)

lemma trunc_rem_nonneg: "0 \<le> n \<Longrightarrow> 0 < d \<Longrightarrow> trunc_rem n d = n mod d"
  by (simp add: trunc_rem_def trunc_div_nonneg minus_mult_div_eq_mod)

lemma floor_div_eq: "0 < d \<Longrightarrow> floor_div n d = n div d"
proof (cases "0 \<le> n")
  case False
  assume d: "0 < d"
  have "trunc_rem n d = - ((- n) mod d)"
    using False d minus_mult_div_eq_mod [of "- n" d] by (simp add: trunc_rem_def trunc_div_nonpos)
  moreover have "n mod d \<noteq> d"
    using pos_mod_bound [OF d, of n] by linarith
  ultimately show ?thesis
    using False d
    by (auto simp: floor_div_def Let_def trunc_div_nonpos zdiv_zminus1_eq_if zmod_zminus1_eq_if)
qed (simp add: floor_div_def trunc_div_nonneg)

lemma ceil_div_eq: "0 < d \<Longrightarrow> ceil_div n d = - ((- n) div d)"
proof (cases "0 \<le> n")
  case True
  assume d: "0 < d"
  with True show ?thesis
    by (simp add: ceil_div_def Let_def trunc_div_nonneg trunc_rem_nonneg zdiv_zminus1_eq_if)
qed (simp add: ceil_div_def trunc_div_nonpos)

lemma floor_numer_denom: "numer x div denom x = \<lfloor>x\<rfloor>"
  by (simp add: numer_def denom_def rat_floor_code case_prod_beta)

definition floor_bigrat :: "rat \<Rightarrow> int" where
  "floor_bigrat r = floor_div (numer r) (denom r)"

lemma floor_bigrat_eq: "floor_bigrat r = \<lfloor>r\<rfloor>"
  by (simp add: floor_bigrat_def floor_div_eq floor_numer_denom)

lemma denom_unique: "0 < q \<Longrightarrow> coprime p q \<Longrightarrow> denom (of_int p / of_int q) = q"
  by (simp add: denom_def quotient_of_Fract flip: Fract_of_int_quotient)

lemma denom_recip_frac:
  assumes "x - of_int \<lfloor>x\<rfloor> \<noteq> 0"
  shows "denom (inverse (x - of_int \<lfloor>x\<rfloor>)) < denom x"
proof -
  let ?n = "numer x" and ?d = "denom x"
  have "coprime ?n ?d"
    unfolding numer_def denom_def by (metis prod.collapse quotient_of_coprime)
  then have co: "coprime ?d (?n mod ?d)"
    by (simp add: coprime_commute)
  have "of_int (?n mod ?d) = (of_int ?n - of_int ?d * of_int (?n div ?d) :: rat)"
    by (metis minus_mult_div_eq_mod of_int_diff of_int_mult)
  then have fr: "x - of_int \<lfloor>x\<rfloor> = of_int (?n mod ?d) / of_int ?d"
    using numer_denom [of x] by (simp add: floor_numer_denom diff_divide_distrib)
  have pos: "0 < ?n mod ?d"
    using assms fr by (metis denom_pos div_0 of_int_0 order_le_less pos_mod_sign)
  have "inverse (x - of_int \<lfloor>x\<rfloor>) = of_int ?d / of_int (?n mod ?d)"
    by (simp add: fr)
  with denom_unique [OF pos co] show ?thesis
    by simp
qed

section \<open>Conversions and comparison\<close>

definition to_dec :: "bigint_text \<Rightarrow> num \<Rightarrow> u32 \<Rightarrow> rounding_mode \<Rightarrow> num_error + num" where
  "to_dec B a scale rm =
     (case a of
        Num_Bnd lo hi u \<Rightarrow>
          and_then (to_rational B lo) (\<lambda>lo_r.
          and_then (to_rational B hi) (\<lambda>hi_r.
            let lo_dec = round_rational_to_dec B lo_r scale Floor;
                hi_dec = round_rational_to_dec B hi_r scale Ceil
            in if lo_dec = hi_dec then Inr (set_unit lo_dec u) else Inl BndTooWide))
      | _ \<Rightarrow> map_ok (\<lambda>r. set_unit (round_rational_to_dec B r scale rm) (num_u a)) (to_rational B a))"

function approximate_loop :: "int \<Rightarrow> int \<Rightarrow> int \<Rightarrow> int \<Rightarrow> int \<Rightarrow> rat \<Rightarrow> int \<times> int" where
  "approximate_loop limit p0 q0 p1 q1 x =
     (let a = floor_bigrat x; p2 = a * p1 + p0; q2 = a * q1 + q0
      in if q2 > limit then (p1, q1)
         else (let frac = x - of_int a
               in if frac = 0 then (p2, q2)
                  else approximate_loop limit p1 q1 p2 q2 (inverse frac)))"
  by pat_completeness auto
termination
  by (relation "measure (\<lambda>(limit, p0, q0, p1, q1, x). nat (denom x))")
    (auto simp: floor_bigrat_eq denom_recip_frac)

declare approximate_loop.simps [simp del]

definition approximate_rational :: "rat \<Rightarrow> u64 \<Rightarrow> rat option" where
  "approximate_rational r limit_den =
     (let (p1, q1) = approximate_loop (uint limit_den) 0 1 1 0 r
      in if q1 = 0 then None else Some (of_int p1 / of_int q1))"

definition to_rat :: "bigint_text \<Rightarrow> num \<Rightarrow> u64 \<Rightarrow> (num_error + num) option" where
  "to_rat B a limit_den =
     (case to_rational B a of
        Inl e \<Rightarrow> Some (Inl e)
      | Inr r \<Rightarrow>
          if denom r \<ge> 2 ^ 64 \<or> denom r > uint limit_den then
            map_option (\<lambda>approx. Inr (Num_Rat (show_big B (numer approx)) (show_big B (denom approx)) (num_u a)))
              (approximate_rational r limit_den)
          else Some (Inr (Num_Rat (show_big B (numer r)) (show_big B (denom r)) (num_u a))))"

definition cmp_num :: "rat \<Rightarrow> rat \<Rightarrow> num" where
  "cmp_num x y =
     Num_Int (if x < y then ''-1'' else if x = y then ''0'' else ''1'') None"

definition compare :: "bigint_text \<Rightarrow> num \<Rightarrow> num \<Rightarrow> num_error + num" where
  "compare B a b =
     and_then (check_units a b) (\<lambda>_.
       if rank a = 3 \<or> rank b = 3 then
         and_then (bnd_bounds B a) (\<lambda>(a_lo, a_hi).
         and_then (bnd_bounds B b) (\<lambda>(b_lo, b_hi).
           if a_hi < b_lo then Inr (Num_Int ''-1'' None)
           else if a_lo > b_hi then Inr (Num_Int ''1'' None)
           else
             (let a_mid = (a_lo + a_hi) / 2; b_mid = (b_lo + b_hi) / 2
              in Inr (cmp_num a_mid b_mid))))
       else
         and_then (to_rational B (strip_unit a)) (\<lambda>ra.
         and_then (to_rational B (strip_unit b)) (\<lambda>rb. Inr (cmp_num ra rb))))"

section \<open>What rounding promises\<close>

lemma abs_numer_denom: "of_int (\<bar>numer x\<bar> div denom x) = (of_int \<lfloor>\<bar>x\<bar>\<rfloor> :: rat)"
proof -
  have "\<lfloor>(of_int \<bar>numer x\<bar> / of_int (denom x) :: rat)\<rfloor> = \<bar>numer x\<bar> div denom x"
    by (rule floor_divide_of_int_eq)
  moreover have "(of_int \<bar>numer x\<bar> / of_int (denom x) :: rat) = \<bar>x\<bar>"
    using numer_denom [of x] by (metis abs_divide abs_of_pos denom_pos of_int_0_less_iff of_int_abs)
  ultimately show ?thesis
    by simp
qed

lemma half_scale:
  assumes "0 < (d :: rat)"
  shows "d \<le> 2 * (d * f) \<longleftrightarrow> 1 / 2 \<le> f" "d < 2 * (d * f) \<longleftrightarrow> 1 / 2 < f" "2 * (d * f) = d \<longleftrightarrow> f = 1 / 2"
  using assms mult_le_cancel_left_pos [OF assms, of 1 "2 * f"]
    mult_less_cancel_left_pos [OF assms, of 1 "2 * f"] mult_cancel_left [of d "2 * f" 1]
  by (auto simp: field_simps)

text \<open>Half-way comparisons on the remainder are half-way comparisons on the fractional part.\<close>

lemma half_cmp:
  "2 * (\<bar>numer x\<bar> mod denom x) \<ge> denom x \<longleftrightarrow> \<bar>x\<bar> - of_int \<lfloor>\<bar>x\<bar>\<rfloor> \<ge> 1 / 2"
  "2 * (\<bar>numer x\<bar> mod denom x) > denom x \<longleftrightarrow> \<bar>x\<bar> - of_int \<lfloor>\<bar>x\<bar>\<rfloor> > 1 / 2"
  "2 * (\<bar>numer x\<bar> mod denom x) = denom x \<longleftrightarrow> \<bar>x\<bar> - of_int \<lfloor>\<bar>x\<bar>\<rfloor> = 1 / 2"
proof -
  let ?d = "of_int (denom x) :: rat" and ?r = "of_int (\<bar>numer x\<bar> mod denom x) :: rat"
  have "?r = of_int \<bar>numer x\<bar> - ?d * of_int (\<bar>numer x\<bar> div denom x)"
    by (metis minus_mult_div_eq_mod of_int_diff of_int_mult)
  moreover have "of_int \<bar>numer x\<bar> = \<bar>x\<bar> * ?d"
    using numer_denom [of x]
    by (metis abs_mult abs_of_pos denom_nonzero denom_pos nonzero_eq_divide_eq of_int_0_eq_iff
        of_int_0_less_iff of_int_abs)
  ultimately have r: "?r = ?d * (\<bar>x\<bar> - of_int \<lfloor>\<bar>x\<bar>\<rfloor>)"
    by (simp add: abs_numer_denom algebra_simps)
  have d: "0 < ?d"
    by simp
  have cmp: "2 * (\<bar>numer x\<bar> mod denom x) \<ge> denom x \<longleftrightarrow> 2 * ?r \<ge> ?d"
    "2 * (\<bar>numer x\<bar> mod denom x) > denom x \<longleftrightarrow> 2 * ?r > ?d"
    "2 * (\<bar>numer x\<bar> mod denom x) = denom x \<longleftrightarrow> 2 * ?r = ?d"
    by (metis of_int_le_iff of_int_mult of_int_numeral, metis of_int_less_iff of_int_mult of_int_numeral,
        metis of_int_eq_iff of_int_mult of_int_numeral)
  show "2 * (\<bar>numer x\<bar> mod denom x) \<ge> denom x \<longleftrightarrow> \<bar>x\<bar> - of_int \<lfloor>\<bar>x\<bar>\<rfloor> \<ge> 1 / 2"
    "2 * (\<bar>numer x\<bar> mod denom x) > denom x \<longleftrightarrow> \<bar>x\<bar> - of_int \<lfloor>\<bar>x\<bar>\<rfloor> > 1 / 2"
    "2 * (\<bar>numer x\<bar> mod denom x) = denom x \<longleftrightarrow> \<bar>x\<bar> - of_int \<lfloor>\<bar>x\<bar>\<rfloor> = 1 / 2"
    unfolding cmp r by (simp_all only: half_scale [OF d])
qed

text \<open>The six modes in closed form.\<close>

lemma round_Floor [simp]: "round_scaled Floor x = \<lfloor>x\<rfloor>"
  by (simp add: floor_div_eq floor_numer_denom)

lemma numer_uminus: "numer (- x) = - numer x" and denom_uminus: "denom (- x) = denom x"
  by (simp_all add: numer_def denom_def rat_uminus_code case_prod_beta)

lemma round_Ceil [simp]: "round_scaled Ceil x = \<lceil>x\<rceil>"
  using floor_numer_denom [of "- x"] by (simp add: ceil_div_eq ceiling_def numer_uminus denom_uminus)

lemma round_Down: "round_scaled Down x = (if x < 0 then \<lceil>x\<rceil> else \<lfloor>x\<rfloor>)"
  using floor_numer_denom [of "- x"] numer_neg_iff [of x]
  by (auto simp: trunc_div_nonneg floor_numer_denom ceiling_def numer_uminus denom_uminus
      simp del: numer_neg_iff)

lemma is_integer_iff: "is_integer x \<longleftrightarrow> x = of_int (numer x)"
proof
  assume "is_integer x"
  then show "x = of_int (numer x)"
    using numer_denom [of x] by (simp add: is_integer_def)
next
  assume "x = of_int (numer x)"
  then show "is_integer x"
    using denom_unique [of 1 "numer x"] by (simp add: is_integer_def)
qed

lemma numer_of_int [simp]: "numer (of_int i) = i" and denom_of_int [simp]: "denom (of_int i) = 1"
  by (simp_all add: numer_def denom_def of_int_rat quotient_of_Fract)

lemma div_round_up:
  assumes "0 < (d :: int)"
  shows "(n + d - 1) div d = - ((- n) div d)"
proof (rule int_div_pos_eq)
  show "n + d - 1 = d * - ((- n) div d) + (d - 1 - (- n) mod d)"
    using mult_div_mod_eq [of d "- n"] by (simp add: algebra_simps)
  show "0 \<le> d - 1 - (- n) mod d" "d - 1 - (- n) mod d < d"
    using pos_mod_bound [OF assms, of "- n"] pos_mod_sign [OF assms, of "- n"] by linarith+
qed

lemma round_Up: "round_scaled Up x = (if x < 0 then \<lfloor>x\<rfloor> else \<lceil>x\<rceil>)"
proof (cases "is_integer x")
  case True
  then have "x = of_int (numer x)"
    by (simp add: is_integer_iff)
  then show ?thesis
    using True by (metis ceiling_of_int floor_of_int round_scaled.simps(2))
next
  case False
  have "0 \<le> numer x + denom x - 1" if "\<not> x < 0"
    using that numer_neg_iff [of x] denom_pos [of x] by linarith
  moreover have "0 \<le> - numer x + denom x - 1" if "x < 0"
    using that numer_neg_iff [of x] denom_pos [of x] by linarith
  moreover have "- ((- numer x) div denom x) = \<lceil>x\<rceil>"
    using floor_numer_denom [of "- x"] by (simp add: ceiling_def numer_uminus denom_uminus)
  ultimately show ?thesis
    using False div_round_up [OF denom_pos, of "- numer x" x] div_round_up [OF denom_pos, of "numer x" x]
    by (simp add: trunc_div_nonneg floor_numer_denom)
qed

lemma abs_div_rem:
  "trunc_div \<bar>numer x\<bar> \<bar>denom x\<bar> = \<lfloor>\<bar>x\<bar>\<rfloor>"
  "\<bar>denom x\<bar> \<le> trunc_rem \<bar>numer x\<bar> \<bar>denom x\<bar> * 2 \<longleftrightarrow> 1 / 2 \<le> \<bar>x\<bar> - of_int \<lfloor>\<bar>x\<bar>\<rfloor>"
  "\<bar>denom x\<bar> < trunc_rem \<bar>numer x\<bar> \<bar>denom x\<bar> * 2 \<longleftrightarrow> 1 / 2 < \<bar>x\<bar> - of_int \<lfloor>\<bar>x\<bar>\<rfloor>"
  "trunc_rem \<bar>numer x\<bar> \<bar>denom x\<bar> * 2 = \<bar>denom x\<bar> \<longleftrightarrow> \<bar>x\<bar> - of_int \<lfloor>\<bar>x\<bar>\<rfloor> = 1 / 2"
proof -
  have d: "\<bar>denom x\<bar> = denom x"
    by (rule abs_of_pos) simp
  show "trunc_div \<bar>numer x\<bar> \<bar>denom x\<bar> = \<lfloor>\<bar>x\<bar>\<rfloor>"
    unfolding d using abs_numer_denom [of x] by (simp only: of_int_eq_iff trunc_div_nonneg abs_ge_zero denom_pos)
  have r: "trunc_rem \<bar>numer x\<bar> \<bar>denom x\<bar> * 2 = 2 * (\<bar>numer x\<bar> mod denom x)"
    unfolding d by (simp only: trunc_rem_nonneg abs_ge_zero denom_pos mult.commute)
  show "\<bar>denom x\<bar> \<le> trunc_rem \<bar>numer x\<bar> \<bar>denom x\<bar> * 2 \<longleftrightarrow> 1 / 2 \<le> \<bar>x\<bar> - of_int \<lfloor>\<bar>x\<bar>\<rfloor>"
    "\<bar>denom x\<bar> < trunc_rem \<bar>numer x\<bar> \<bar>denom x\<bar> * 2 \<longleftrightarrow> 1 / 2 < \<bar>x\<bar> - of_int \<lfloor>\<bar>x\<bar>\<rfloor>"
    "trunc_rem \<bar>numer x\<bar> \<bar>denom x\<bar> * 2 = \<bar>denom x\<bar> \<longleftrightarrow> \<bar>x\<bar> - of_int \<lfloor>\<bar>x\<bar>\<rfloor> = 1 / 2"
    unfolding r unfolding d by (rule half_cmp)+
qed

lemma round_HalfUp:
  "round_scaled HalfUp x =
    (let m = (if 1 / 2 \<le> \<bar>x\<bar> - of_int \<lfloor>\<bar>x\<bar>\<rfloor> then \<lfloor>\<bar>x\<bar>\<rfloor> + 1 else \<lfloor>\<bar>x\<bar>\<rfloor>) in if x < 0 then - m else m)"
  by (simp only: round_scaled.simps half_up_def Let_def abs_div_rem numer_neg_iff)

lemma round_HalfEven:
  "round_scaled HalfEven x =
    (let f = \<bar>x\<bar> - of_int \<lfloor>\<bar>x\<bar>\<rfloor>;
         m = (if 1 / 2 < f then \<lfloor>\<bar>x\<bar>\<rfloor> + 1
              else if f = 1 / 2 then (if even \<lfloor>\<bar>x\<bar>\<rfloor> then \<lfloor>\<bar>x\<bar>\<rfloor> else \<lfloor>\<bar>x\<bar>\<rfloor> + 1)
              else \<lfloor>\<bar>x\<bar>\<rfloor>)
     in if x < 0 then - m else m)"
proof -
  have "trunc_rem \<lfloor>\<bar>x\<bar>\<rfloor> 2 = 0 \<longleftrightarrow> even \<lfloor>\<bar>x\<bar>\<rfloor>"
    by (simp add: trunc_rem_nonneg even_iff_mod_2_eq_zero)
  then show ?thesis
    by (simp only: round_scaled.simps half_even_def Let_def abs_div_rem numer_neg_iff)
qed

declare round_scaled.simps [simp del]

text \<open>What the arithmetic relies on: a rounding leaves integers alone and moves by less than one;
  a nearest rounding moves by at most one half.\<close>

locale rounding =
  fixes rnd :: "rat \<Rightarrow> int"
  assumes rnd_int: "rnd (of_int i) = i"
    and rnd_close: "\<bar>of_int (rnd x) - x\<bar> < 1"
begin

lemma rnd_scaled_exact:
  assumes "r * of_int (10 ^ s) = of_int i"
  shows "of_int (rnd (r * of_int (10 ^ s))) / of_int (10 ^ s) = r"
proof -
  have "of_int (rnd (r * of_int (10 ^ s))) = r * of_int (10 ^ s)"
    unfolding assms rnd_int ..
  then show ?thesis
    by simp
qed

lemma rnd_scaled_error: "\<bar>of_int (rnd (r * of_int (10 ^ s))) / of_int (10 ^ s) - r\<bar> < 1 / 10 ^ s"
proof -
  let ?k = "10 ^ s :: rat"
  have "of_int (rnd (r * of_int (10 ^ s))) / of_int (10 ^ s) - r
      = (of_int (rnd (r * of_int (10 ^ s))) - r * of_int (10 ^ s)) / ?k"
    by (simp add: diff_divide_distrib)
  then have "\<bar>of_int (rnd (r * of_int (10 ^ s))) / of_int (10 ^ s) - r\<bar>
      = \<bar>of_int (rnd (r * of_int (10 ^ s))) - r * of_int (10 ^ s)\<bar> / ?k"
    by simp
  also have "\<dots> < 1 / ?k"
    by (rule divide_strict_right_mono [OF rnd_close]) simp
  finally show ?thesis .
qed

end

locale nearest_rounding = rounding +
  assumes rnd_half: "\<bar>of_int (rnd x) - x\<bar> \<le> 1 / 2"
begin

lemma rnd_scaled_half: "\<bar>of_int (rnd (r * of_int (10 ^ s))) / of_int (10 ^ s) - r\<bar> \<le> 1 / (2 * 10 ^ s)"
proof -
  let ?k = "10 ^ s :: rat"
  have "of_int (rnd (r * of_int (10 ^ s))) / of_int (10 ^ s) - r
      = (of_int (rnd (r * of_int (10 ^ s))) - r * of_int (10 ^ s)) / ?k"
    by (simp add: diff_divide_distrib)
  then have "\<bar>of_int (rnd (r * of_int (10 ^ s))) / of_int (10 ^ s) - r\<bar>
      = \<bar>of_int (rnd (r * of_int (10 ^ s))) - r * of_int (10 ^ s)\<bar> / ?k"
    by simp
  also have "\<dots> \<le> (1 / 2) / ?k"
    by (rule divide_right_mono [OF rnd_half]) simp
  finally show ?thesis
    by simp
qed

end

lemma signed_error:
  "\<bar>of_int m - \<bar>x\<bar>\<bar> \<le> (e :: rat) \<Longrightarrow> \<bar>of_int (if x < 0 then - m else m) - x\<bar> \<le> e"
  by (auto simp: abs_if split: if_split_asm)

lemma round_HalfEven_half: "\<bar>of_int (round_scaled HalfEven x) - x\<bar> \<le> 1 / 2"
proof -
  define y where "y = \<bar>x\<bar>"
  show ?thesis
    unfolding round_HalfEven Let_def
    by (rule signed_error, unfold y_def [symmetric], use floor_correct [of y] in \<open>auto simp: abs_if simp del: of_int_floor_le\<close>)
qed

lemma round_HalfUp_half: "\<bar>of_int (round_scaled HalfUp x) - x\<bar> \<le> 1 / 2"
proof -
  define y where "y = \<bar>x\<bar>"
  show ?thesis
    unfolding round_HalfUp Let_def
    by (rule signed_error, unfold y_def [symmetric], use floor_correct [of y] in \<open>auto simp: abs_if simp del: of_int_floor_le\<close>)
qed

lemma round_scaled_int: "round_scaled rm (of_int i) = i"
proof (cases rm)
  case HalfEven
  then show ?thesis
    by (simp add: round_HalfEven Let_def flip: of_int_abs)
next
  case HalfUp
  then show ?thesis
    by (simp add: round_HalfUp Let_def flip: of_int_abs)
qed (simp_all add: round_Down round_Up)

lemma round_scaled_close: "\<bar>of_int (round_scaled rm x) - x\<bar> < 1"
proof (cases rm)
  case HalfEven
  then show ?thesis
    using round_HalfEven_half [of x] by simp
next
  case HalfUp
  then show ?thesis
    using round_HalfUp_half [of x] by simp
qed (use floor_correct [of x] ceiling_correct [of x] in \<open>auto simp: round_Down round_Up\<close>)

interpretation rm: rounding "round_scaled rm" for rm
  by unfold_locales (rule round_scaled_int, rule round_scaled_close)

interpretation half_even: nearest_rounding "round_scaled HalfEven"
  by unfold_locales (rule round_HalfEven_half)

interpretation half_up: nearest_rounding "round_scaled HalfUp"
  by unfold_locales (rule round_HalfUp_half)

section \<open>Exact arithmetic on points\<close>

text \<open>What the code relies on of the library: the text of a \<open>BigInt\<close> parses back.\<close>

definition big_laws :: "bigint_text \<Rightarrow> bool" where
  "big_laws B \<longleftrightarrow> (\<forall>i. parse_big B (show_big B i) = Some i)"

definition dec_text :: bigint_text where
  "dec_text = \<lparr>parse_big = parse_int, show_big = show_int\<rparr>"

lemma dec_text_laws: "big_laws dec_text"
  by (simp add: big_laws_def dec_text_def parse_int_show_int)

lemma parse_show_big [simp]: "big_laws B \<Longrightarrow> parse_bigint B (show_big B i) = Inr i"
  by (simp add: parse_bigint_def big_laws_def)

lemma to_rational_set_unit [simp]: "to_rational B (set_unit n u) = to_rational B n"
  by (cases n) auto

lemma to_rational_strip_unit [simp]: "to_rational B (strip_unit n) = to_rational B n"
  by (cases n) auto

lemma num_u_set_unit [simp]: "num_u (set_unit n u) = u"
  by (cases n) auto

lemma to_rational_not_bnd: "to_rational B n = Inr x \<Longrightarrow> rank n \<noteq> 3"
  by (cases n) auto

lemma rank_cases: "rank n = 0 \<or> rank n = 1 \<or> rank n = 2 \<or> rank n = 3"
  by (cases n) auto

lemma to_rational_round [simp]:
  "big_laws B \<Longrightarrow> to_rational B (round_rational_to_dec B r s rm)
     = Inr (of_int (round_scaled rm (r * of_int (10 ^ unat s))) / of_int (10 ^ unat s))"
  by (simp add: round_rational_to_dec_def Let_def)

lemma to_rational_reduced [simp]: "big_laws B \<Longrightarrow> to_rational B (rational_to_reduced_rat B r) = Inr r"
  using numer_denom [of r] by (simp add: rational_to_reduced_rat_def)

lemma to_rational_int:
  "big_laws B \<Longrightarrow> rational_to_int B r = Some n \<Longrightarrow> to_rational B n = Inr r"
  by (auto simp: rational_to_int_def is_integer_iff split: if_split_asm)

text \<open>Integers and decimals are multiples of the unit of their scale, and of any finer one.\<close>

lemma dec_multiple:
  assumes "to_rational B n = Inr x" "rank n \<le> 1" "dec_scale n \<le> s"
  shows "\<exists>m. x * of_int (10 ^ unat s) = of_int m"
proof (cases n)
  case (Num_Int v u)
  with assms obtain i where "x = of_int i"
    by (auto simp: result_simps)
  then have "x * of_int (10 ^ unat s) = of_int (i * 10 ^ unat s)"
    by simp
  then show ?thesis ..
next
  case (Num_Dec m k u)
  with assms obtain i where x: "x = of_int i / of_int (10 ^ unat k)"
    by (auto simp: result_simps)
  have "unat k \<le> unat s"
    using assms(3) Num_Dec by (simp add: dec_scale_def word_le_nat_alt)
  then have "(10 :: int) ^ unat s = 10 ^ (unat s - unat k) * 10 ^ unat k"
    by (simp flip: power_add)
  then have "x * of_int (10 ^ unat s) = of_int (i * 10 ^ (unat s - unat k))"
    by (simp add: x)
  then show ?thesis ..
qed (use assms(2) in auto)

lemma binary_op_points:
  assumes B: "big_laws B" and x: "to_rational B a = Inr x" "to_rational B b = Inr y"
    and u: "check_units a b = Inr u"
  shows "\<exists>n z. binary_op B a b op f = Inr n \<and> num_u n = u \<and> to_rational B n = Inr z \<and>
    (if max (rank a) (rank b) = 1
     then z = of_int (round_scaled HalfEven (f x y * of_int (10 ^ unat (max (dec_scale a) (dec_scale b)))))
            / of_int (10 ^ unat (max (dec_scale a) (dec_scale b)))
     else z = f x y)"
proof -
  have "rank a \<noteq> 3" "rank b \<noteq> 3"
    using x by (auto dest: to_rational_not_bnd)
  with assms show ?thesis
    by (auto simp: binary_op_def Let_def to_rational_int split: option.split)
qed

lemma binary_op_dec_exact:
  assumes B: "big_laws B" and x: "to_rational B a = Inr x" "to_rational B b = Inr y"
    and u: "check_units a b = Inr u"
    and closed: "\<And>i j k. x * of_int k = of_int i \<Longrightarrow> y * of_int k = of_int j \<Longrightarrow> \<exists>l. f x y * of_int k = of_int l"
  shows "\<exists>n. binary_op B a b op f = Inr n \<and> num_u n = u \<and> to_rational B n = Inr (f x y)"
proof -
  let ?s = "max (dec_scale a) (dec_scale b)"
  obtain n z where n: "binary_op B a b op f = Inr n" "num_u n = u" "to_rational B n = Inr z"
    "if max (rank a) (rank b) = 1
     then z = of_int (round_scaled HalfEven (f x y * of_int (10 ^ unat ?s))) / of_int (10 ^ unat ?s)
     else z = f x y"
    using binary_op_points [OF B x u] by metis
  have "z = f x y"
  proof (cases "max (rank a) (rank b) = 1")
    case True
    then have "rank a \<le> 1" "rank b \<le> 1"
      by (simp_all add: max_def split: if_split_asm)
    then obtain i j where "x * of_int (10 ^ unat ?s) = of_int i" "y * of_int (10 ^ unat ?s) = of_int j"
      using dec_multiple [OF x(1), of ?s] dec_multiple [OF x(2), of ?s] by (auto simp del: of_int_power)
    then obtain l where "f x y * of_int (10 ^ unat ?s) = of_int l"
      using closed by blast
    from rm.rnd_scaled_exact [OF this] True n(4) show ?thesis
      by simp
  qed (use n(4) in simp)
  with n show ?thesis
    by blast
qed

text \<open>Addition and subtraction of points are exact: for integers, decimals and rationals with
  compatible units, the result denotes exactly the sum and the difference of the operands and
  carries the common unit, decimals included.\<close>

theorem add_sub_exact:
  assumes "big_laws B" "to_rational B a = Inr x" "to_rational B b = Inr y" "check_units a b = Inr u"
  shows "(\<exists>n. num_add B a b = Inr n \<and> num_u n = u \<and> to_rational B n = Inr (x + y))
    \<and> (\<exists>n. num_sub B a b = Inr n \<and> num_u n = u \<and> to_rational B n = Inr (x - y))"
  unfolding num_add_def num_sub_def
  by (intro conjI binary_op_dec_exact [OF assms])
    (metis distrib_right of_int_add, metis left_diff_distrib of_int_diff)

theorem add_sub_exact_witness:
  "(\<exists>n. num_add dec_text (Num_Dec ''125'' 2 None) (Num_Int ''-3'' (Some ''EUR'')) = Inr n
      \<and> num_u n = Some ''EUR'' \<and> to_rational dec_text n = Inr (5 / 4 + - 3))
   \<and> (\<exists>n. num_sub dec_text (Num_Dec ''125'' 2 None) (Num_Int ''-3'' (Some ''EUR'')) = Inr n
      \<and> num_u n = Some ''EUR'' \<and> to_rational dec_text n = Inr (5 / 4 - - 3))"
proof (rule add_sub_exact [OF dec_text_laws])
  have "parse_int ''125'' = Some 125" "parse_int ''-3'' = Some (- 3)"
    by code_simp+
  then show "to_rational dec_text (Num_Dec ''125'' 2 None) = Inr (5 / 4)"
    "to_rational dec_text (Num_Int ''-3'' (Some ''EUR'')) = Inr (- 3)"
    by (simp_all add: parse_bigint_def dec_text_def)
qed (simp add: check_units_def)

text \<open>C40: Multiplication and division of points are exact on integers and rationals, and correctly
  rounded on decimals: with a decimal operand and no rational one the result differs from the true
  product or quotient by at most half a unit in the last place of the larger scale.\<close>

theorem mul_div_rounded:
  assumes B: "big_laws B" and x: "to_rational B a = Inr x" "to_rational B b = Inr y"
    and u: "check_units a b = Inr u" and y: "y \<noteq> 0"
  shows "\<exists>n z n' z'. num_mul B a b = Inr n \<and> to_rational B n = Inr z \<and> num_u n = u
    \<and> num_div B a b = Inr n' \<and> to_rational B n' = Inr z' \<and> num_u n' = u
    \<and> (if max (rank a) (rank b) = 1
       then \<bar>z - x * y\<bar> \<le> 1 / (2 * 10 ^ unat (max (dec_scale a) (dec_scale b)))
         \<and> \<bar>z' - x / y\<bar> \<le> 1 / (2 * 10 ^ unat (max (dec_scale a) (dec_scale b)))
       else z = x * y \<and> z' = x / y)"
proof -
  let ?s = "unat (max (dec_scale a) (dec_scale b))"
  have div: "num_div B a b = binary_op B a b Op_Div (/)"
    using x(2) y by (simp add: num_div_def)
  have "\<exists>n z. binary_op B a b op f = Inr n \<and> to_rational B n = Inr z \<and> num_u n = u \<and>
      (if max (rank a) (rank b) = 1 then \<bar>z - f x y\<bar> \<le> 1 / (2 * 10 ^ ?s) else z = f x y)" for op f
    using binary_op_points [OF B x u, of op f] half_even.rnd_scaled_half [of "f x y" ?s] by metis
  from this [of Op_Mul "(*)"] this [of Op_Div "(/)"] show ?thesis
    unfolding num_mul_def div by metis
qed

theorem mul_div_rounded_witness:
  "\<exists>n z n' z'. num_mul dec_text (Num_Int ''2'' None) (Num_Int ''3'' None) = Inr n
    \<and> to_rational dec_text n = Inr z
    \<and> num_div dec_text (Num_Int ''2'' None) (Num_Int ''3'' None) = Inr n'
    \<and> to_rational dec_text n' = Inr z' \<and> z = 2 * 3 \<and> z' = 2 / 3"
proof -
  have "parse_int ''2'' = Some 2" "parse_int ''3'' = Some 3"
    by code_simp+
  then have "to_rational dec_text (Num_Int ''2'' None) = Inr 2"
    "to_rational dec_text (Num_Int ''3'' None) = Inr 3"
    by (simp_all add: parse_bigint_def dec_text_def)
  from mul_div_rounded [OF dec_text_laws this, of None] show ?thesis
    by (auto simp: check_units_def)
qed

section \<open>Interval arithmetic is sound\<close>

fun apply_op :: "interval_op \<Rightarrow> rat \<Rightarrow> rat \<Rightarrow> rat" where
  "apply_op Op_Add = (+)"
| "apply_op Op_Sub = (-)"
| "apply_op Op_Mul = (*)"
| "apply_op Op_Div = (/)"

definition in_interval :: "rat \<Rightarrow> rat \<times> rat \<Rightarrow> bool" where
  "in_interval x i \<longleftrightarrow> fst i \<le> x \<and> x \<le> snd i"

lemma line_bounds:
  assumes "l \<le> x" "x \<le> (h :: rat)"
  shows "min (l * c) (h * c) \<le> x * c" "x * c \<le> max (l * c) (h * c)"
  using assms mult_right_mono [of l x c] mult_right_mono [of x h c]
    mult_right_mono_neg [of l x c] mult_right_mono_neg [of x h c]
  by (cases "0 \<le> c"; simp add: min_le_iff_disj le_max_iff_disj)+

lemma product_bounds:
  assumes "al \<le> x" "x \<le> ah" "bl \<le> y" "y \<le> bh"
  shows "min4 (al * bl) (al * bh) (ah * bl) (ah * bh) \<le> x * y
    \<and> x * y \<le> max4 (al * bl) (al * bh) (ah * bl) (ah * bh)"
proof -
  have l: "min (al * bl) (al * bh) \<le> al * y" "al * y \<le> max (al * bl) (al * bh)"
    and h: "min (ah * bl) (ah * bh) \<le> ah * y" "ah * y \<le> max (ah * bl) (ah * bh)"
    using line_bounds [OF assms(3,4), of al] line_bounds [OF assms(3,4), of ah]
    by (simp_all add: mult.commute)
  with line_bounds [OF assms(1,2), of y] show ?thesis
    unfolding min4_def max4_def by linarith
qed

lemma min4_swap: "min4 a b c d = min4 b a d c" and max4_swap: "max4 a b c d = max4 b a d c"
  by (simp_all add: min4_def max4_def ac_simps)

lemma interval_op_sound:
  assumes "interval_op_bounds op ia ib = Inr ic" "in_interval x ia" "in_interval y ib"
  shows "in_interval (apply_op op x y) ic"
proof (cases op)
  case Op_Mul
  with assms product_bounds [of "fst ia" x "snd ia" "fst ib" y "snd ib"] show ?thesis
    by (cases ia; cases ib) (auto simp: in_interval_def)
next
  case Op_Div
  obtain al ah bl bh where i: "ia = (al, ah)" "ib = (bl, bh)"
    by (cases ia; cases ib)
  have x: "al \<le> x" "x \<le> ah" and y: "bl \<le> y" "y \<le> bh"
    using assms(2,3) by (simp_all add: i in_interval_def)
  have "0 < bl \<or> bh < 0"
    using assms(1) Op_Div i by (auto split: if_split_asm)
  then have inv: "inverse bh \<le> inverse y" "inverse y \<le> inverse bl"
    using y le_imp_inverse_le [of bl y] le_imp_inverse_le [of y bh]
      le_imp_inverse_le_neg [of bl y] le_imp_inverse_le_neg [of y bh] by linarith+
  have "ic = (min4 (al / bl) (al / bh) (ah / bl) (ah / bh), max4 (al / bl) (al / bh) (ah / bl) (ah / bh))"
    using assms(1) Op_Div i by (auto split: if_split_asm)
  with product_bounds [OF x inv] Op_Div show ?thesis
    by (simp add: in_interval_def divide_inverse min4_swap [of "al * inverse bl"]
        max4_swap [of "al * inverse bl"])
qed (use assms in \<open>cases ia; cases ib; auto simp: in_interval_def\<close>)+

lemma floor_scaled_le: "of_int \<lfloor>r * of_int (10 ^ s)\<rfloor> / of_int (10 ^ s) \<le> (r :: rat)"
  by (simp add: pos_divide_le_eq)

lemma ceil_scaled_ge: "(r :: rat) \<le> of_int \<lceil>r * of_int (10 ^ s)\<rceil> / of_int (10 ^ s)"
  by (simp add: pos_le_divide_eq)

lemma outward_rounding:
  assumes "big_laws B" "in_interval x (lo, hi)"
  shows "\<exists>i. bnd_bounds B (Num_Bnd (round_rational_to_dec B lo s Floor)
    (round_rational_to_dec B hi s Ceil) u) = Inr i \<and> in_interval x i"
  using assms floor_scaled_le [of lo "unat s"] ceil_scaled_ge [of hi "unat s"]
  by (simp add: in_interval_def del: of_int_power)

text \<open>C12: Interval arithmetic is sound: when an operand is an interval and the operation succeeds, the
  resulting interval, after its outward rounding to 18 decimals, contains the exact result for
  every choice of a point in each operand.\<close>

theorem interval_arithmetic_sound:
  assumes B: "big_laws B" and bounds: "bnd_bounds B a = Inr ia" "bnd_bounds B b = Inr ib"
    and points: "in_interval x ia" "in_interval y ib" and bnd: "rank a = 3 \<or> rank b = 3"
    and ok: "binary_op B a b op (apply_op op) = Inr n"
  shows "\<exists>i. bnd_bounds B n = Inr i \<and> in_interval (apply_op op x y) i"
proof -
  obtain u lo hi where ic: "interval_op_bounds op ia ib = Inr (lo, hi)"
    and n: "n = Num_Bnd (round_rational_to_dec B lo 18 Floor) (round_rational_to_dec B hi 18 Ceil) u"
    using ok bnd bounds by (auto simp: binary_op_def bnd_binary_op_def result_simps Let_def)
  from outward_rounding [OF B interval_op_sound [OF ic points]] show ?thesis
    unfolding n .
qed

text \<open>Division never accepts an interval as divisor: \<open>div\<close> first converts the divisor to a single
  rational, which every interval refuses, so the interval division that \<open>bnd_binary_op\<close>
  implements is only reached for point divisors.\<close>

theorem div_by_interval_rejected: "num_div B a (Num_Bnd lo hi u) = Inl CannotConvertBnd"
  by (simp add: num_div_def)

theorem interval_arithmetic_sound_witness:
  "\<exists>n i. binary_op dec_text (Num_Bnd (Num_Int ''1'' None) (Num_Int ''2'' None) None) (Num_Int ''3'' None)
       Op_Div (apply_op Op_Div) = Inr n
     \<and> bnd_bounds dec_text n = Inr i \<and> in_interval (apply_op Op_Div (3 / 2) 3) i"
proof -
  let ?a = "Num_Bnd (Num_Int ''1'' None) (Num_Int ''2'' None) None" and ?b = "Num_Int ''3'' None"
  have "parse_int ''1'' = Some 1" "parse_int ''2'' = Some 2" "parse_int ''3'' = Some 3"
    by code_simp+
  then have b: "bnd_bounds dec_text ?a = Inr (1, 2)" "bnd_bounds dec_text ?b = Inr (3, 3)"
    by (simp_all add: parse_bigint_def dec_text_def)
  then obtain n where n: "binary_op dec_text ?a ?b Op_Div (apply_op Op_Div) = Inr n"
    by (simp add: binary_op_def bnd_binary_op_def check_units_def Let_def)
  have "\<exists>i. bnd_bounds dec_text n = Inr i \<and> in_interval (apply_op Op_Div (3 / 2) 3) i"
    by (rule interval_arithmetic_sound [OF dec_text_laws b _ _ _ n]) (simp_all add: in_interval_def)
  with n show ?thesis
    by blast
qed

section \<open>Comparison\<close>

definition midpoint :: "rat \<times> rat \<Rightarrow> rat" where
  "midpoint i = (fst i + snd i) / 2"

lemma bnd_bounds_point:
  assumes "rank n \<noteq> 3" "bnd_bounds B n = Inr i"
  shows "to_rational B n = Inr (midpoint i)"
proof -
  have "bnd_bounds B n = map_ok (\<lambda>r. (r, r)) (to_rational B n)"
    using assms(1) by (cases n) auto
  with assms(2) show ?thesis
    by (cases "to_rational B n") (auto simp: midpoint_def)
qed

text \<open>Comparison is one total preorder on all kinds of numbers: with compatible units and
  ordered bounds, it returns the sign of the difference of the midpoints, where a point is its own
  midpoint, whether the operands are points, disjoint or overlapping intervals.\<close>

theorem compare_by_midpoint:
  assumes "check_units a b = Inr u" "bnd_bounds B a = Inr ia" "bnd_bounds B b = Inr ib"
    and "fst ia \<le> snd ia" "fst ib \<le> snd ib"
  shows "compare B a b = Inr (Num_Int (if midpoint ia < midpoint ib then ''-1''
    else if midpoint ia = midpoint ib then ''0'' else ''1'') None)"
proof (cases "rank a = 3 \<or> rank b = 3")
  case True
  obtain al ah bl bh where i: "ia = (al, ah)" "ib = (bl, bh)"
    by (cases ia; cases ib)
  with True assms show ?thesis
    by (auto simp: compare_def midpoint_def cmp_num_def)
next
  case False
  with assms show ?thesis
    by (simp add: compare_def cmp_num_def bnd_bounds_point)
qed

theorem compare_by_midpoint_witness:
  "compare dec_text (Num_Bnd (Num_Int ''1'' None) (Num_Int ''2'' None) None) (Num_Dec ''15'' 1 None)
   = Inr (Num_Int ''0'' None)"
proof -
  let ?a = "Num_Bnd (Num_Int ''1'' None) (Num_Int ''2'' None) None" and ?b = "Num_Dec ''15'' 1 None"
  have "parse_int ''1'' = Some 1" "parse_int ''2'' = Some 2" "parse_int ''15'' = Some 15"
    by code_simp+
  then have "bnd_bounds dec_text ?a = Inr (1, 2)" "bnd_bounds dec_text ?b = Inr (15 / 10, 15 / 10)"
    by (simp_all add: parse_bigint_def dec_text_def)
  from compare_by_midpoint [OF _ this] show ?thesis
    by (simp add: check_units_def midpoint_def)
qed

section \<open>Rational approximation\<close>

lemma denom_le: "0 < q \<Longrightarrow> denom (of_int p / of_int q) \<le> q"
proof -
  assume q: "0 < q"
  have "quotient_of (of_int p / of_int q) = Rat.normalize (p, q)"
    by (simp add: quotient_of_Fract flip: Fract_of_int_quotient)
  moreover have "q div gcd p q \<le> q"
  proof -
    have "0 < gcd p q"
      using q by simp
    then have "1 \<le> gcd p q"
      by linarith
    with q zdiv_mono2 [of q 1 "gcd p q"] show ?thesis
      by simp
  qed
  ultimately show ?thesis
    using q by (simp add: denom_def Rat.normalize_def Let_def)
qed

lemma approximate_loop_bounds:
  assumes "0 \<le> q0" "1 \<le> q1" "q1 \<le> limit" "1 \<le> x"
  shows "1 \<le> snd (approximate_loop limit p0 q0 p1 q1 x) \<and> snd (approximate_loop limit p0 q0 p1 q1 x) \<le> limit"
  using assms
proof (induction limit p0 q0 p1 q1 x rule: approximate_loop.induct)
  case (1 limit p0 q0 p1 q1 x)
  have a: "1 \<le> floor_bigrat x"
    using "1.prems"(4) by (simp add: floor_bigrat_eq le_floor_iff)
  have q2: "1 \<le> floor_bigrat x * q1 + q0"
    using mult_mono [of 1 "floor_bigrat x" 1 q1] a "1.prems" by linarith
  have "1 \<le> inverse (x - of_int (floor_bigrat x))" if "x - of_int (floor_bigrat x) \<noteq> 0"
    using that floor_correct [of x] of_int_floor_le [of x]
    by (simp add: floor_bigrat_eq one_le_inverse_iff order_less_le del: of_int_floor_le)
  with "1.IH" [OF refl refl refl _ refl] "1.prems" q2 show ?case
    by (subst (1 2) approximate_loop.simps) (auto simp: Let_def)
qed

lemma approximate_rational_bounds:
  assumes "limit_den \<noteq> 0"
  shows "\<exists>y. approximate_rational r limit_den = Some y \<and> denom y \<le> uint limit_den"
proof -
  let ?l = "uint limit_den" and ?f = "r - of_int (floor_bigrat r)"
  have l: "1 \<le> ?l"
    using assms by (metis int_one_le_iff_zero_less order_le_less uint_0_iff uint_nonnegative)
  have first: "approximate_loop ?l 0 1 1 0 r =
      (if ?f = 0 then (floor_bigrat r, 1) else approximate_loop ?l 1 0 (floor_bigrat r) 1 (inverse ?f))"
    using l by (subst approximate_loop.simps) (auto simp: Let_def)
  have "1 \<le> inverse ?f" if "?f \<noteq> 0"
    using that floor_correct [of r] of_int_floor_le [of r]
    by (simp add: floor_bigrat_eq one_le_inverse_iff order_less_le del: of_int_floor_le)
  then have "1 \<le> snd (approximate_loop ?l 0 1 1 0 r) \<and> snd (approximate_loop ?l 0 1 1 0 r) \<le> ?l"
    unfolding first using approximate_loop_bounds [of 0 1 ?l "inverse ?f"] l by auto
  then show ?thesis
    using denom_le [of "snd (approximate_loop ?l 0 1 1 0 r)"]
    by (force simp: approximate_rational_def case_prod_beta intro: order_trans)
qed

text \<open>Conversion to a rational with a bounded denominator always returns when the bound is not
  zero: the result has a positive denominator within the bound, and it is exact when the
  operand already satisfies the bound.\<close>

theorem to_rat_bounded:
  assumes "to_rational B a = Inr r" "limit_den \<noteq> 0"
  shows "\<exists>y. to_rat B a limit_den
      = Some (Inr (Num_Rat (show_big B (numer y)) (show_big B (denom y)) (num_u a)))
    \<and> 1 \<le> denom y \<and> denom y \<le> uint limit_den \<and> (denom r \<le> uint limit_den \<longrightarrow> y = r)"
proof (cases "denom r \<le> uint limit_den")
  case True
  then have "denom r < 2 ^ 64"
    using uint_bounded [of limit_den] by simp
  with True assms(1) show ?thesis
    using denom_pos [of r] by (intro exI [of _ r]) (simp add: to_rat_def del: denom_pos)
next
  case False
  obtain y where y: "approximate_rational r limit_den = Some y" "denom y \<le> uint limit_den"
    using approximate_rational_bounds [OF assms(2), of r] by blast
  with False assms(1) show ?thesis
    using denom_pos [of y] by (intro exI [of _ y]) (simp add: to_rat_def del: denom_pos)
qed

theorem to_rat_bounded_witness:
  "\<exists>y. to_rat dec_text (Num_Dec ''314'' 2 None) 7
      = Some (Inr (Num_Rat (show_int (numer y)) (show_int (denom y)) None))
    \<and> 1 \<le> denom y \<and> denom y \<le> 7"
proof -
  have "parse_int ''314'' = Some 314"
    by code_simp
  then have "to_rational dec_text (Num_Dec ''314'' 2 None) = Inr (314 / 100)"
    by (simp add: parse_bigint_def dec_text_def)
  from to_rat_bounded [OF this, of 7] show ?thesis
    by (auto simp: dec_text_def)
qed

text \<open>The bound zero, which the instruction payload of \<open>NumToRat\<close> can carry, panics: the continued
  fraction stops before its first convergent and \<open>BigRational::new(1, 0)\<close> is called.\<close>

theorem to_rat_zero_panics:
  assumes "to_rational B a = Inr r"
  shows "to_rat B a 0 = None"
proof -
  have "approximate_loop 0 0 1 1 0 r = (1, 0)"
    by (subst approximate_loop.simps) (simp add: Let_def)
  with assms denom_pos [of r] show ?thesis
    by (simp add: to_rat_def approximate_rational_def del: denom_pos)
qed

theorem to_rat_zero_panics_witness: "to_rat dec_text (Num_Int ''1'' None) 0 = None"
proof (rule to_rat_zero_panics)
  have "parse_int ''1'' = Some 1"
    by code_simp
  then show "to_rational dec_text (Num_Int ''1'' None) = Inr 1"
    by (simp add: parse_bigint_def dec_text_def)
qed

section \<open>The IEEE-754 frontier\<close>

text \<open>The magnitude of a bit pattern in units of the least subnormal, 2 to the power -1074.\<close>

definition f64_magnitude :: "int \<Rightarrow> int" where
  "f64_magnitude n =
     (let e = n div 2 ^ 52 mod 2 ^ 11; f = n mod 2 ^ 52
      in if e = 0 then f else (f + 2 ^ 52) * 2 ^ nat (e - 1))"

lemma f64_fields:
  "uint (f64_exponent bits) = uint bits div 2 ^ 52 mod 2 ^ 11"
  "uint (bits AND 0x000FFFFFFFFFFFFF) = uint bits mod 2 ^ 52"
  "uint ((bits AND 0x000FFFFFFFFFFFFF) OR push_bit 52 1) = uint bits mod 2 ^ 52 + 2 ^ 52"
  "f64_negative bits \<longleftrightarrow> uint bits \<ge> 2 ^ 63"
proof -
  have m: "(0x7FF :: u64) = mask 11" "(0x000FFFFFFFFFFFFF :: u64) = mask 52"
    by (simp_all add: mask_numeral)
  show "uint (f64_exponent bits) = uint bits div 2 ^ 52 mod 2 ^ 11"
    unfolding f64_exponent_def m
    using uint_bounded [of bits]
    by (simp add: unsigned_take_bit_eq unsigned_drop_bit_eq flip: take_bit_eq_mask)
      (simp add: take_bit_eq_mod drop_bit_eq_div mod_pos_pos_trivial)
  show fr: "uint (bits AND 0x000FFFFFFFFFFFFF) = uint bits mod 2 ^ 52"
    unfolding m by (simp only: unsigned_take_bit_eq flip: take_bit_eq_mask) (simp add: take_bit_eq_mod)
  have "(bits AND 0x000FFFFFFFFFFFFF) AND push_bit 52 y = 0" for y
    unfolding m by (rule bit_word_eqI) (auto simp: bit_simps)
  from this [of 1]
  have "(bits AND 0x000FFFFFFFFFFFFF) OR push_bit 52 1 = (bits AND 0x000FFFFFFFFFFFFF) + push_bit 52 1"
    by (simp add: disjunctive_add_eq_or)
  then show "uint ((bits AND 0x000FFFFFFFFFFFFF) OR push_bit 52 1) = uint bits mod 2 ^ 52 + 2 ^ 52"
    using fr by (simp add: uint_word_ariths push_bit_eq_mult)
  show "f64_negative bits \<longleftrightarrow> uint bits \<ge> 2 ^ 63"
  proof -
    have "uint (drop_bit 63 bits) = uint bits div 2 ^ 63"
      using uint_bounded [of bits]
      by (simp only: unsigned_drop_bit_eq) (simp add: take_bit_eq_mod drop_bit_eq_div mod_pos_pos_trivial)
    moreover have "uint bits div 2 ^ 63 = 1 \<longleftrightarrow> uint bits \<ge> 2 ^ 63"
      using uint_bounded [of bits] by simp linarith
    ultimately show ?thesis
      by (simp add: f64_negative_def word_uint_eq_iff)
  qed
qed

lemma f64_scale:
  "1075 \<le> e \<Longrightarrow> (2 :: rat) ^ nat (e - 1) = 2 ^ nat (e - 1075) * 2 ^ 1074"
  "e < 1075 \<Longrightarrow> 0 < e \<Longrightarrow> (2 :: rat) ^ nat (e - 1) * 2 ^ nat (1075 - e) = 2 ^ 1074"
proof -
  have "nat (e - 1) = nat (e - 1075) + 1074" if "1075 \<le> e"
    using that by linarith
  then show "1075 \<le> e \<Longrightarrow> (2 :: rat) ^ nat (e - 1) = 2 ^ nat (e - 1075) * 2 ^ 1074"
    by (simp only: power_add)
  have "nat (e - 1) + nat (1075 - e) = 1074" if "e < 1075" "0 < e"
    using that by linarith
  then show "e < 1075 \<Longrightarrow> 0 < e \<Longrightarrow> (2 :: rat) ^ nat (e - 1) * 2 ^ nat (1075 - e) = 2 ^ 1074"
    by (simp only: flip: power_add)
qed

lemma f64_scaled_value:
  assumes "0 < e"
  shows "(if 0 \<le> e - 1023 - 52 then of_int (m * 2 ^ nat (e - 1023 - 52))
      else of_int m / of_int (2 ^ nat (- (e - 1023 - 52)))) = (of_int (m * 2 ^ nat (e - 1)) / 2 ^ 1074 :: rat)"
proof (cases "1075 \<le> e")
  case True
  have "(of_int (m * 2 ^ nat (e - 1)) :: rat) = of_int (m * 2 ^ nat (e - 1075)) * 2 ^ 1074"
    by (simp only: of_int_mult of_int_power of_int_numeral f64_scale(1) [OF True] mult.assoc)
  with True show ?thesis
    by (simp only: nonzero_mult_div_cancel_right power_not_zero zero_neq_numeral not_False_eq_True) simp
next
  case False
  let ?k = "(2 :: rat) ^ nat (1075 - e)"
  have "(of_int (m * 2 ^ nat (e - 1)) :: rat) / 2 ^ 1074
      = of_int m * 2 ^ nat (e - 1) / (2 ^ nat (e - 1) * ?k)"
    using False assms by (simp only: f64_scale(2) of_int_mult of_int_power of_int_numeral not_le)
  also have "\<dots> = of_int m / ?k"
    by simp
  finally show ?thesis
    using False by simp
qed

lemma exact_f64_magnitude:
  "exact_f64_rational bits =
    of_int ((if f64_negative bits then - 1 else 1) * f64_magnitude (uint bits)) / 2 ^ 1074"
proof (cases "uint bits div 2 ^ 52 mod 2 ^ 11 = 0")
  case True
  have "nat (- (- 1074 :: int)) = 1074" "\<not> 0 \<le> (- 1074 :: int)"
    by simp_all
  then show ?thesis
    unfolding exact_f64_rational_def f64_magnitude_def Let_def f64_fields(1,2,3)
    by (simp only: True refl if_True prod.case if_False of_int_power of_int_numeral)
next
  case False
  have "0 \<le> uint bits div 2 ^ 52 mod 2 ^ 11"
    by simp
  with False have "0 < uint bits div 2 ^ 52 mod 2 ^ 11"
    by linarith
  from f64_scaled_value [OF this, of "(if f64_negative bits then - 1 else 1) * (uint bits mod 2 ^ 52 + 2 ^ 52)"]
  show ?thesis
    unfolding exact_f64_rational_def f64_magnitude_def Let_def f64_fields(1,2,3)
    by (simp only: False if_False prod.case mult.assoc)
qed

lemma succ_div_mod:
  assumes "(n :: int) mod d + 1 < d" "0 < d"
  shows "(n + 1) div d = n div d" "(n + 1) mod d = n mod d + 1"
proof -
  have n: "n + 1 = d * (n div d) + (n mod d + 1)"
    by simp
  have r: "0 \<le> n mod d + 1"
    using assms(2) pos_mod_sign [of d n] by linarith
  show "(n + 1) div d = n div d" "(n + 1) mod d = n mod d + 1"
    by (rule int_div_pos_eq [OF n r assms(1)], rule int_mod_pos_eq [OF n r assms(1)])
qed

lemma succ_div_mod_carry:
  assumes "(n :: int) mod d + 1 = d" "0 < d"
  shows "(n + 1) div d = n div d + 1" "(n + 1) mod d = 0"
proof -
  have n: "n + 1 = d * (n div d + 1) + 0"
    using assms(1) mult_div_mod_eq [of d n] unfolding distrib_left by linarith
  show "(n + 1) div d = n div d + 1" "(n + 1) mod d = 0"
    by (rule int_div_pos_eq [OF n order_refl assms(2)], rule int_mod_pos_eq [OF n order_refl assms(2)])
qed

lemma f64_magnitude_step:
  assumes "0 \<le> n" "n + 1 < 2 ^ 63"
  shows "f64_magnitude n \<le> f64_magnitude (n + 1)"
proof -
  let ?e = "n div 2 ^ 52" and ?f = "n mod 2 ^ 52"
  have e: "0 \<le> ?e"
    using assms by (simp add: pos_imp_zdiv_nonneg_iff)
  have e': "(n + 1) div 2 ^ 52 < 2 ^ 11"
    using assms by simp
  have f: "0 \<le> ?f" "?f < 2 ^ 52"
    by simp_all
  show ?thesis
  proof (cases "?f + 1 < 2 ^ 52")
    case True
    note s = succ_div_mod [OF True, simplified]
    show ?thesis
      using s by (auto simp: f64_magnitude_def Let_def)
  next
    case False
    then have carry: "?f + 1 = 2 ^ 52"
      using f by linarith
    note s = succ_div_mod_carry [OF carry, simplified]
    have "2 ^ nat (?e + 1 - 1) = (2 :: int) * 2 ^ nat (?e - 1)" if "?e \<noteq> 0"
      using that e by (simp flip: power_Suc add: Suc_nat_eq_nat_zadd1)
    then show ?thesis
      using s e e' carry by (auto simp: f64_magnitude_def Let_def mod_pos_pos_trivial)
  qed
qed

lemma f64_magnitude_sign: "0 \<le> k \<Longrightarrow> k < 2 ^ 63 \<Longrightarrow> f64_magnitude (2 ^ 63 + k) = f64_magnitude k"
proof -
  have "(2 ^ 63 + k) mod 2 ^ 52 = k mod 2 ^ 52"
    using mod_mult_self4 [of "2 ^ 52" "2 ^ 11" k] by simp
  moreover have "(2 ^ 63 + k) div 2 ^ 52 mod 2 ^ 11 = k div 2 ^ 52 mod 2 ^ 11"
    using div_mult_self3 [of "2 ^ 52" "2 ^ 11" k] by simp
  ultimately show ?thesis
    by (simp add: f64_magnitude_def)
qed

lemma uint_word_step:
  fixes b :: u64
  shows "uint b + 1 < 2 ^ 64 \<Longrightarrow> uint (b + 1) = uint b + 1" "0 < uint b \<Longrightarrow> uint (b - 1) = uint b - 1"
  using uint_bounded [of b] uint_nonnegative [of b]
  by (simp_all add: uint_word_ariths mod_pos_pos_trivial)

lemma f64_split:
  obtains k where "uint bits = (if f64_negative bits then 2 ^ 63 else 0) + k" "0 \<le> k" "k < 2 ^ 63"
    "f64_is_zero bits \<longleftrightarrow> k = 0" "f64_finite bits \<Longrightarrow> k + 1 < 2 ^ 63"
    "exact_f64_rational bits
      = of_int ((if f64_negative bits then - 1 else 1) * f64_magnitude k) / 2 ^ 1074"
proof
  let ?k = "uint bits - (if f64_negative bits then 2 ^ 63 else 0)"
  show u: "uint bits = (if f64_negative bits then 2 ^ 63 else 0) + ?k"
    by simp
  show k: "0 \<le> ?k" "?k < 2 ^ 63"
    using f64_fields(4) [of bits] uint_bounded [of bits] uint_nonnegative [of bits] by auto
  have mag: "f64_magnitude (uint bits) = f64_magnitude ?k"
    using f64_magnitude_sign [OF k] u by (simp split: if_split_asm)
  then show "exact_f64_rational bits
      = of_int ((if f64_negative bits then - 1 else 1) * f64_magnitude ?k) / 2 ^ 1074"
    by (simp only: exact_f64_magnitude)
  have "uint (push_bit 1 bits) = (2 * uint bits) mod 2 ^ 64"
    by (simp add: push_bit_eq_mult uint_word_ariths mult.commute)
  also have "\<dots> = (2 * ?k) mod 2 ^ 64"
    using mod_mult_self4 [of "2 ^ 64" 1 "2 * ?k"] by (simp add: algebra_simps)
  also have "\<dots> = 2 * ?k"
    using k by (simp add: mod_pos_pos_trivial)
  finally show "f64_is_zero bits \<longleftrightarrow> ?k = 0"
    by (simp add: f64_is_zero_def word_uint_eq_iff)
  show "f64_finite bits \<Longrightarrow> ?k + 1 < 2 ^ 63"
  proof (rule ccontr)
    assume fin: "f64_finite bits" and "\<not> ?k + 1 < 2 ^ 63"
    with k have "?k = 2 ^ 63 - 1"
      by linarith
    then have "uint bits = 2 ^ 63 - 1 \<or> uint bits = 2 ^ 64 - 1"
      using u by (simp split: if_split_asm)
    then have "uint (f64_exponent bits) = 0x7FF"
      unfolding f64_fields by auto
    with fin show False
      by (simp add: f64_finite_def word_uint_eq_iff)
  qed
qed

lemma f64_exact_of:
  "uint b = (if s then 2 ^ 63 else 0) + k \<Longrightarrow> 0 \<le> k \<Longrightarrow> k < 2 ^ 63 \<Longrightarrow>
   exact_f64_rational b = of_int ((if s then - 1 else 1) * f64_magnitude k) / 2 ^ 1074"
  using f64_fields(4) [of b] f64_magnitude_sign [of k] unfolding exact_f64_magnitude by simp

lemma adjacent_brackets:
  assumes fin: "f64_finite bits" and nz: "\<not> f64_is_zero bits" and adj: "adjacent_f64 bits = (p, n)"
  shows "exact_f64_rational p \<le> exact_f64_rational bits" "exact_f64_rational bits \<le> exact_f64_rational n"
proof -
  obtain k where k: "uint bits = (if f64_negative bits then 2 ^ 63 else 0) + k" "0 \<le> k" "k < 2 ^ 63"
    "k \<noteq> 0" "k + 1 < 2 ^ 63"
    "exact_f64_rational bits
      = of_int ((if f64_negative bits then - 1 else 1) * f64_magnitude k) / 2 ^ 1074"
    using f64_split [of bits] fin nz by metis
  have "uint (bits + 1) = (if f64_negative bits then 2 ^ 63 else 0) + (k + 1)"
    "uint (bits - 1) = (if f64_negative bits then 2 ^ 63 else 0) + (k - 1)"
    using k by (auto simp: uint_word_step)
  then have ex: "exact_f64_rational (bits + 1)
      = of_int ((if f64_negative bits then - 1 else 1) * f64_magnitude (k + 1)) / 2 ^ 1074"
    "exact_f64_rational (bits - 1)
      = of_int ((if f64_negative bits then - 1 else 1) * f64_magnitude (k - 1)) / 2 ^ 1074"
    using k by (intro f64_exact_of; simp)+
  have mono: "f64_magnitude (k - 1) \<le> f64_magnitude k" "f64_magnitude k \<le> f64_magnitude (k + 1)"
    using f64_magnitude_step [of "k - 1"] f64_magnitude_step [of k] k by simp_all
  show "exact_f64_rational p \<le> exact_f64_rational bits" "exact_f64_rational bits \<le> exact_f64_rational n"
    using adj nz mono unfolding adjacent_f64_def
    by (auto simp only: ex k(6) prod.inject split: if_split_asm intro!: divide_right_mono) auto
qed

text \<open>The IEEE-754 frontier is sound: every finite double converts to an interval that contains
  the exact rational value of the double, for positive, negative, subnormal and zero bit
  patterns alike.\<close>

theorem from_f64_bits_contains:
  assumes "big_laws B" "parse_big B ''0'' = Some 0" "f64_finite bits"
  shows "\<exists>n i. from_f64_bits B bits = Inr n \<and> bnd_bounds B n = Inr i
    \<and> in_interval (exact_f64_rational bits) i"
proof (cases "f64_is_zero bits")
  case True
  obtain k where "f64_is_zero bits \<longleftrightarrow> k = 0" "exact_f64_rational bits
      = of_int ((if f64_negative bits then - 1 else 1) * f64_magnitude k) / 2 ^ 1074"
    by (rule f64_split [of bits])
  with True have "exact_f64_rational bits = 0"
    by (simp add: f64_magnitude_def)
  with True assms show ?thesis
    by (simp add: from_f64_bits_def in_interval_def parse_bigint_def)
next
  case False
  obtain p n where adj: "adjacent_f64 bits = (p, n)"
    by (cases "adjacent_f64 bits")
  let ?x = "exact_f64_rational bits"
  have "in_interval ?x ((?x + exact_f64_rational p) / 2, (?x + exact_f64_rational n) / 2)"
    using adjacent_brackets [OF assms(3) False adj] by (simp add: in_interval_def)
  from outward_rounding [OF assms(1) this, of 18 None] show ?thesis
    using False assms(3) adj by (simp add: from_f64_bits_def Let_def)
qed

theorem from_f64_bits_contains_witness:
  "\<exists>n i. from_f64_bits dec_text 0x3FF0000000000000 = Inr n \<and> bnd_bounds dec_text n = Inr i
    \<and> in_interval (exact_f64_rational 0x3FF0000000000000) i"
proof (rule from_f64_bits_contains [OF dec_text_laws])
  have "parse_int ''0'' = Some 0"
    by code_simp
  then show "parse_big dec_text ''0'' = Some 0"
    by (simp add: dec_text_def)
  show "f64_finite 0x3FF0000000000000"
    by (simp add: f64_finite_def f64_exponent_def)
qed

end
