(* ===== verification/Vm_Exec.thy ===== *)
theory Vm_Exec
  imports Vm_Isa Json Unc1
begin

text \<open>
  The receipt machine (\<open>crates/ubl_vm/src/exec.rs\<close>): a stack machine with fuel, a content
  addressed store, a signer and a canonicaliser as providers. The machine state is the record
  \<open>vm\<close>, polymorphic in the state of the store; a run is a fold over the decoded instructions that
  stops at the first error or at \<open>EmitRc\<close>. Libraries the machine calls (BLAKE3, Ed25519,
  base64, the JSON text parser and printer, the derived \<open>serde\<close> codecs of numbers) and the
  wall clock, read once per \<open>PushTimestamp\<close>, are fields of \<open>vm_env\<close>.
\<close>

section \<open>Values, errors and state\<close>

datatype vm_value =
    V_I64 i64
  | V_Bytes "u8 list"
  | V_Json json
  | V_Num num
  | V_Cid string
  | V_Bool bool
  | V_Unit

text \<open>\<open>Deny\<close> carries its reason; where the reason ends in the text of a numeric error, that error is
  kept as a value. \<open>Panicked\<close> is a panic of the numeric library.\<close>

datatype exec_error =
    FuelExhausted
  | StackUnderflow opcode
  | TypeMismatch opcode
  | InvalidPayload opcode
  | Deny string
  | DenyNum string num_error
  | Panicked

record vm_env =
  env_big :: bigint_text
  blake3 :: "u8 list \<Rightarrow> u8 list"
  json_from_slice :: "u8 list \<Rightarrow> json option"
  json_to_vec :: "json \<Rightarrow> u8 list"
  num_from_value :: "json \<Rightarrow> num option"
  num_to_value :: "num \<Rightarrow> json"
  verifying_key_ok :: "u8 list \<Rightarrow> bool"
  ed25519_verify :: "u8 list \<Rightarrow> u8 list \<Rightarrow> u8 list \<Rightarrow> bool"
  base64_url :: "u8 list \<Rightarrow> string"
  unix_secs :: "u64 \<Rightarrow> u64"

record 'c providers =
  cas_put :: "'c \<Rightarrow> u8 list \<Rightarrow> 'c \<times> string"
  cas_get :: "'c \<Rightarrow> string \<Rightarrow> u8 list option"
  sign_jws :: "u8 list \<Rightarrow> u8 list"
  canon :: "json \<Rightarrow> json"

record vm_config =
  fuel_limit :: u64
  ghost :: bool
  trace_on :: bool

record trace_step =
  ts_step :: u64
  ts_op :: string
  ts_fuel_after :: u64
  ts_stack_depth :: nat
  ts_note :: "string option"

text \<open>The head of \<open>stack\<close> is the top.\<close>

record 'c vm =
  cfg :: vm_config
  stack :: "vm_value list"
  steps :: u64
  fuel_used :: u64
  cas :: 'c
  inputs :: "string list"
  rc_body :: json
  proofs :: "string list"
  trace :: "trace_step list"
  body_size :: u64

record vm_outcome =
  rc_cid :: "string option"
  rc_sig :: "string option"
  rc_payload_cid :: "string option"
  out_steps :: u64
  out_fuel_used :: u64
  out_trace :: "trace_step list"

definition vm_new :: "vm_config \<Rightarrow> 'c \<Rightarrow> string list \<Rightarrow> 'c vm" where
  "vm_new c s ins = \<lparr>cfg = c, stack = [], steps = 0, fuel_used = 0, cas = s, inputs = ins,
     rc_body = JObj [], proofs = [], trace = [], body_size = 0\<rparr>"

definition with_body_size :: "'c vm \<Rightarrow> u64 \<Rightarrow> 'c vm" where
  "with_body_size m sz = m\<lparr>body_size := sz\<rparr>"

section \<open>Fuel and stack\<close>

definition charge :: "u64 \<Rightarrow> 'c vm \<Rightarrow> exec_error + 'c vm" where
  "charge units m =
     (let next_fuel = saturating_add_u64 (fuel_used m) units
      in if next_fuel > fuel_limit (cfg m) then Inl FuelExhausted
         else Inr (m\<lparr>fuel_used := next_fuel\<rparr>))"

definition pop :: "'c vm \<Rightarrow> exec_error + vm_value \<times> 'c vm" where
  "pop m = (case stack m of [] \<Rightarrow> Inl (StackUnderflow Drop) | v # st \<Rightarrow> Inr (v, m\<lparr>stack := st\<rparr>))"

definition push :: "vm_value \<Rightarrow> 'c vm \<Rightarrow> 'c vm" where
  "push v m = m\<lparr>stack := v # stack m\<rparr>"

definition pop_i64 :: "opcode \<Rightarrow> 'c vm \<Rightarrow> exec_error + i64 \<times> 'c vm" where
  "pop_i64 opc m = and_then (pop m) (\<lambda>(v, m').
     case v of V_I64 i \<Rightarrow> Inr (i, m') | _ \<Rightarrow> Inl (TypeMismatch opc))"

definition pop_bool :: "opcode \<Rightarrow> 'c vm \<Rightarrow> exec_error + bool \<times> 'c vm" where
  "pop_bool opc m = and_then (pop m) (\<lambda>(v, m').
     case v of V_Bool b \<Rightarrow> Inr (b, m') | _ \<Rightarrow> Inl (TypeMismatch opc))"

definition pop_bytes :: "opcode \<Rightarrow> 'c vm \<Rightarrow> exec_error + u8 list \<times> 'c vm" where
  "pop_bytes opc m = and_then (pop m) (\<lambda>(v, m').
     case v of V_Bytes b \<Rightarrow> Inr (b, m') | _ \<Rightarrow> Inl (TypeMismatch opc))"

definition pop_json :: "opcode \<Rightarrow> 'c vm \<Rightarrow> exec_error + json \<times> 'c vm" where
  "pop_json opc m = and_then (pop m) (\<lambda>(v, m').
     case v of V_Json j \<Rightarrow> Inr (j, m') | _ \<Rightarrow> Inl (TypeMismatch opc))"

definition pop_cid :: "opcode \<Rightarrow> 'c vm \<Rightarrow> exec_error + string \<times> 'c vm" where
  "pop_cid opc m = and_then (pop m) (\<lambda>(v, m').
     case v of V_Cid c \<Rightarrow> Inr (c, m') | _ \<Rightarrow> Inl (TypeMismatch opc))"

definition pop_bytes_or_cid :: "opcode \<Rightarrow> 'c vm \<Rightarrow> exec_error + u8 list \<times> 'c vm" where
  "pop_bytes_or_cid opc m = and_then (pop m) (\<lambda>(v, m').
     case v of V_Bytes b \<Rightarrow> Inr (b, m') | V_Cid c \<Rightarrow> Inr (bytes_of c, m') | _ \<Rightarrow> Inl (TypeMismatch opc))"

definition pop_num_for :: "vm_env \<Rightarrow> opcode \<Rightarrow> 'c vm \<Rightarrow> exec_error + num \<times> 'c vm" where
  "pop_num_for E opc m = and_then (pop m) (\<lambda>(v, m').
     case v of
       V_Num n \<Rightarrow> Inr (n, m')
     | V_I64 i \<Rightarrow> Inr (Num_Int (show_int (sint i)) None, m')
     | V_Json j \<Rightarrow>
         (case num_from_value E j of Some n \<Rightarrow> Inr (n, m') | None \<Rightarrow> Inl (TypeMismatch opc))
     | _ \<Rightarrow> Inl (TypeMismatch opc))"

definition payload_str :: "opcode \<Rightarrow> u8 list \<Rightarrow> exec_error + string" where
  "payload_str opc p = ok_or (InvalidPayload opc) (from_utf8 p)"

section \<open>Integers, booleans and constants\<close>

definition cmp_i64 :: "u8 \<Rightarrow> i64 \<Rightarrow> i64 \<Rightarrow> bool option" where
  "cmp_i64 c a b =
     (if c = 0 then Some (a = b)
      else if c = 1 then Some (a \<noteq> b)
      else if c = 2 then Some (sint a < sint b)
      else if c = 3 then Some (sint a \<le> sint b)
      else if c = 4 then Some (sint a > sint b)
      else if c = 5 then Some (sint a \<ge> sint b)
      else None)"

definition op_const_i64 :: "u8 list \<Rightarrow> 'c vm \<Rightarrow> exec_error + 'c vm" where
  "op_const_i64 p m =
     (if length p \<noteq> 8 then Inl (InvalidPayload ConstI64) else Inr (push (V_I64 (from_be p)) m))"

definition op_const_bytes :: "u8 list \<Rightarrow> 'c vm \<Rightarrow> exec_error + 'c vm" where
  "op_const_bytes p m = Inr (push (V_Bytes p) m)"

definition op_drop :: "'c vm \<Rightarrow> exec_error + 'c vm" where
  "op_drop m = map_ok snd (pop m)"

definition op_push_input :: "u8 list \<Rightarrow> 'c vm \<Rightarrow> exec_error + 'c vm" where
  "op_push_input p m =
     (if length p \<noteq> 2 then Inl (InvalidPayload PushInput)
      else (let idx = unat (from_be p :: u16)
            in if idx < length (inputs m) then Inr (push (V_Cid (inputs m ! idx)) m)
               else Inl (InvalidPayload PushInput)))"

definition op_arith :: "opcode \<Rightarrow> (i64 \<Rightarrow> i64 \<Rightarrow> i64) \<Rightarrow> 'c vm \<Rightarrow> exec_error + 'c vm" where
  "op_arith opc f m =
     and_then (pop_i64 opc m) (\<lambda>(b, m1).
     and_then (pop_i64 opc m1) (\<lambda>(a, m2). Inr (push (V_I64 (f a b)) m2)))"

definition op_cmp :: "opcode \<Rightarrow> u8 list \<Rightarrow> 'c vm \<Rightarrow> exec_error + 'c vm" where
  "op_cmp opc p m =
     (if length p \<noteq> 1 then Inl (InvalidPayload opc)
      else and_then (pop_i64 opc m) (\<lambda>(b, m1).
           and_then (pop_i64 opc m1) (\<lambda>(a, m2).
             case cmp_i64 (hd p) a b of
               Some ok \<Rightarrow> Inr (push (V_Bool ok) m2)
             | None \<Rightarrow> Inl (InvalidPayload opc))))"

definition op_div_i64 :: "i64 \<Rightarrow> i64 \<Rightarrow> i64" where
  "op_div_i64 a b = (if b = 0 then 0 else saturating_div_i64 a b)"

definition op_assert_true :: "'c vm \<Rightarrow> exec_error + 'c vm" where
  "op_assert_true m =
     and_then (pop_bool AssertTrue m) (\<lambda>(v, m1). if \<not> v then Inl (Deny ''assert_false'') else Inr m1)"

definition op_dup :: "'c vm \<Rightarrow> exec_error + 'c vm" where
  "op_dup m = and_then (pop m) (\<lambda>(v, m1). Inr (push v (push v m1)))"

definition op_swap :: "'c vm \<Rightarrow> exec_error + 'c vm" where
  "op_swap m = and_then (pop m) (\<lambda>(b, m1). and_then (pop m1) (\<lambda>(a, m2). Inr (push a (push b m2))))"

definition op_push_bool :: "u8 list \<Rightarrow> 'c vm \<Rightarrow> exec_error + 'c vm" where
  "op_push_bool p m =
     (if length p \<noteq> 1 then Inl (InvalidPayload PushBool) else Inr (push (V_Bool (hd p \<noteq> 0)) m))"

definition op_bool_not :: "'c vm \<Rightarrow> exec_error + 'c vm" where
  "op_bool_not m = and_then (pop_bool BoolNot m) (\<lambda>(b, m1). Inr (push (V_Bool (\<not> b)) m1))"

definition op_bool_binary :: "opcode \<Rightarrow> (bool \<Rightarrow> bool \<Rightarrow> bool) \<Rightarrow> 'c vm \<Rightarrow> exec_error + 'c vm" where
  "op_bool_binary opc f m =
     and_then (pop_bool opc m) (\<lambda>(b, m1).
     and_then (pop_bool opc m1) (\<lambda>(a, m2). Inr (push (V_Bool (f a b)) m2)))"

definition op_bool_to_i64 :: "'c vm \<Rightarrow> exec_error + 'c vm" where
  "op_bool_to_i64 m =
     and_then (pop_bool BoolToI64 m) (\<lambda>(b, m1). Inr (push (V_I64 (if b then 1 else 0)) m1))"

definition op_push_timestamp :: "vm_env \<Rightarrow> 'c vm \<Rightarrow> exec_error + 'c vm" where
  "op_push_timestamp E m = Inr (push (V_I64 (unix_secs E (steps m))) m)"

definition op_eq_bytes :: "'c vm \<Rightarrow> exec_error + 'c vm" where
  "op_eq_bytes m =
     and_then (pop_bytes_or_cid EqBytes m) (\<lambda>(b, m1).
     and_then (pop_bytes_or_cid EqBytes m1) (\<lambda>(a, m2). Inr (push (V_Bool (a = b)) m2)))"

section \<open>Store, hash and signatures\<close>

definition op_cas_get :: "'c providers \<Rightarrow> 'c vm \<Rightarrow> exec_error + 'c vm" where
  "op_cas_get P m =
     and_then (pop_cid CasGet m) (\<lambda>(c, m1).
     and_then (ok_or (Deny ''cas_get_not_found'') (cas_get P (cas m1) c)) (\<lambda>bytes.
       Inr (push (V_Bytes bytes) m1)))"

definition op_cas_put :: "'c providers \<Rightarrow> 'c vm \<Rightarrow> exec_error + 'c vm" where
  "op_cas_put P m =
     and_then (pop_bytes CasPut m) (\<lambda>(bytes, m1).
       let (cas', c) = cas_put P (cas m1) bytes
       in Inr (push (V_Cid c) (m1\<lparr>cas := cas'\<rparr>)))"

definition op_hash_blake3 :: "vm_env \<Rightarrow> 'c vm \<Rightarrow> exec_error + 'c vm" where
  "op_hash_blake3 E m =
     and_then (pop_bytes HashBlake3 m) (\<lambda>(bytes, m1). Inr (push (V_Bytes (blake3 E bytes)) m1))"

definition op_attach_proof :: "'c vm \<Rightarrow> exec_error + 'c vm" where
  "op_attach_proof m =
     and_then (pop_cid AttachProof m) (\<lambda>(c, m1). Inr (m1\<lparr>proofs := proofs m1 @ [c]\<rparr>))"

definition op_verify_sig :: "vm_env \<Rightarrow> 'c vm \<Rightarrow> exec_error + 'c vm" where
  "op_verify_sig E m =
     and_then (pop_bytes VerifySig m) (\<lambda>(pubkey_bytes, m1).
     and_then (pop_bytes VerifySig m1) (\<lambda>(sig_bytes, m2).
     and_then (pop_bytes VerifySig m2) (\<lambda>(msg_bytes, m3).
       let valid = (if length pubkey_bytes = 32 \<and> length sig_bytes = 64 then
                      (if verifying_key_ok E pubkey_bytes
                       then ed25519_verify E pubkey_bytes msg_bytes sig_bytes else False)
                    else False)
       in Inr (push (V_Bool valid) m3))))"

section \<open>JSON\<close>

definition op_json_normalize :: "vm_env \<Rightarrow> 'c providers \<Rightarrow> 'c vm \<Rightarrow> exec_error + 'c vm" where
  "op_json_normalize E P m =
     and_then (pop_bytes JsonNormalize m) (\<lambda>(bytes, m1).
     and_then (ok_or (Deny ''json_parse_error'') (json_from_slice E bytes)) (\<lambda>v.
       Inr (push (V_Json (canon P v)) m1)))"

definition op_json_validate :: "'c vm \<Rightarrow> exec_error + 'c vm" where
  "op_json_validate m = and_then (pop_json JsonValidate m) (\<lambda>(v, m1). Inr (push (V_Json v) m1))"

definition op_json_get_key :: "vm_env \<Rightarrow> u8 list \<Rightarrow> 'c vm \<Rightarrow> exec_error + 'c vm" where
  "op_json_get_key E p m =
     and_then (payload_str JsonGetKey p) (\<lambda>key.
     and_then (pop_json JsonGetKey m) (\<lambda>(v, m1).
     and_then (ok_or (Deny ''json_key_missing_or_not_i64'') (json_get v key)) (\<lambda>extracted.
       case as_i64 extracted of
         Some n \<Rightarrow> Inr (push (V_I64 n) m1)
       | None \<Rightarrow>
           if json_get extracted ''@num'' \<noteq> None then
             (case num_from_value E extracted of
                Some num \<Rightarrow> Inr (push (V_Num num) m1)
              | None \<Rightarrow> Inl (Deny ''json_key_missing_or_not_i64''))
           else Inl (Deny ''json_key_missing_or_not_i64''))))"

definition op_json_get_key_bytes :: "u8 list \<Rightarrow> 'c vm \<Rightarrow> exec_error + 'c vm" where
  "op_json_get_key_bytes p m =
     and_then (payload_str JsonGetKeyBytes p) (\<lambda>key.
     and_then (pop_json JsonGetKeyBytes m) (\<lambda>(v, m1).
     and_then (ok_or (Deny (''json_key_missing_or_not_string: '' @ key))
         (Option.bind (json_get v key) as_str)) (\<lambda>s.
       Inr (push (V_Bytes (bytes_of s)) m1))))"

definition op_json_has_key :: "u8 list \<Rightarrow> 'c vm \<Rightarrow> exec_error + 'c vm" where
  "op_json_has_key p m =
     and_then (payload_str JsonHasKey p) (\<lambda>key.
     and_then (pop_json JsonHasKey m) (\<lambda>(v, m1).
       let exists = (case json_get v key of Some val \<Rightarrow> \<not> is_null val | None \<Rightarrow> False)
       in Inr (push (V_Bool exists) m1)))"

definition op_set_rc_body :: "vm_env \<Rightarrow> 'c vm \<Rightarrow> exec_error + 'c vm" where
  "op_set_rc_body E m =
     and_then (pop m) (\<lambda>(v, m1).
       case v of
         V_Json j \<Rightarrow> Inr (m1\<lparr>rc_body := j\<rparr>)
       | V_Num n \<Rightarrow> Inr (m1\<lparr>rc_body := num_to_value E n\<rparr>)
       | _ \<Rightarrow> Inl (TypeMismatch SetRcBody))"

section \<open>Numbers\<close>

definition deny_num :: "string \<Rightarrow> num_error + 'a \<Rightarrow> exec_error + 'a" where
  "deny_num prefix r = map_err (DenyNum prefix) r"

definition op_num_from_decimal_str :: "'c vm \<Rightarrow> exec_error + 'c vm" where
  "op_num_from_decimal_str m =
     and_then (pop_bytes NumFromDecimalStr m) (\<lambda>(raw, m1).
     and_then (payload_str NumFromDecimalStr raw) (\<lambda>decimal.
     and_then (deny_num ''num_from_decimal_str: '' (from_decimal_str decimal)) (\<lambda>n.
       Inr (push (V_Num n) m1))))"

definition op_num_from_f64_bits :: "vm_env \<Rightarrow> 'c vm \<Rightarrow> exec_error + 'c vm" where
  "op_num_from_f64_bits E m =
     and_then (pop_i64 NumFromF64Bits m) (\<lambda>(bits_i64, m1).
       if sint bits_i64 < 0 then Inl (InvalidPayload NumFromF64Bits)
       else and_then (deny_num ''num_from_f64_bits: '' (from_f64_bits (env_big E) bits_i64)) (\<lambda>n.
         Inr (push (V_Num n) m1)))"

definition op_num_binary ::
  "vm_env \<Rightarrow> opcode \<Rightarrow> string \<Rightarrow> (num \<Rightarrow> num \<Rightarrow> num_error + num) \<Rightarrow> 'c vm \<Rightarrow> exec_error + 'c vm" where
  "op_num_binary E opc prefix f m =
     and_then (pop_num_for E opc m) (\<lambda>(b, m1).
     and_then (pop_num_for E opc m1) (\<lambda>(a, m2).
     and_then (deny_num prefix (f a b)) (\<lambda>result. Inr (push (V_Num result) m2))))"

definition op_num_to_dec :: "vm_env \<Rightarrow> u8 list \<Rightarrow> 'c vm \<Rightarrow> exec_error + 'c vm" where
  "op_num_to_dec E p m =
     (if length p \<noteq> 5 then Inl (InvalidPayload NumToDec)
      else
        and_then (map_err (\<lambda>_. InvalidPayload NumToDec) (rounding_mode_from_u8 (p ! 4))) (\<lambda>rm.
        and_then (pop_num_for E NumToDec m) (\<lambda>(a, m1).
        and_then (deny_num ''num_to_dec: '' (to_dec (env_big E) a (from_be (take 4 p)) rm)) (\<lambda>result.
          Inr (push (V_Num result) m1)))))"

definition op_num_to_rat :: "vm_env \<Rightarrow> u8 list \<Rightarrow> 'c vm \<Rightarrow> exec_error + 'c vm" where
  "op_num_to_rat E p m =
     (if length p \<noteq> 8 then Inl (InvalidPayload NumToRat)
      else
        and_then (pop_num_for E NumToRat m) (\<lambda>(a, m1).
          case to_rat (env_big E) a (from_be p) of
            None \<Rightarrow> Inl Panicked
          | Some r \<Rightarrow> and_then (deny_num ''num_to_rat: '' r) (\<lambda>result. Inr (push (V_Num result) m1))))"

definition op_num_with_unit :: "vm_env \<Rightarrow> u8 list \<Rightarrow> 'c vm \<Rightarrow> exec_error + 'c vm" where
  "op_num_with_unit E p m =
     and_then (payload_str NumWithUnit p) (\<lambda>unit.
     and_then (pop_num_for E NumWithUnit m) (\<lambda>(a, m1).
     and_then (deny_num ''num_with_unit: '' (with_unit a unit)) (\<lambda>result.
       Inr (push (V_Num result) m1))))"

definition op_num_assert_unit :: "vm_env \<Rightarrow> u8 list \<Rightarrow> 'c vm \<Rightarrow> exec_error + 'c vm" where
  "op_num_assert_unit E p m =
     and_then (payload_str NumAssertUnit p) (\<lambda>unit.
     and_then (pop_num_for E NumAssertUnit m) (\<lambda>(a, m1).
     and_then (deny_num ''num_assert_unit: '' (assert_unit a unit)) (\<lambda>_.
       Inr (push (V_Num a) m1))))"

section \<open>The receipt\<close>

record rc_payload =
  subject_cid :: "string option"
  engine :: string
  rc_ghost :: bool
  rc_inputs :: "string list"
  rc_proofs :: "string list"
  rc_steps :: u64
  rc_fuel_used :: u64
  policy_id :: string
  decision :: json
  rc_payload_body :: json

definition json_opt_str :: "string option \<Rightarrow> json" where
  "json_opt_str s = (case s of None \<Rightarrow> JNull | Some s \<Rightarrow> JStr s)"

definition rc_payload_value :: "rc_payload \<Rightarrow> json" where
  "rc_payload_value r = JObj [
     (''subject_cid'', json_opt_str (subject_cid r)),
     (''engine'', JStr (engine r)),
     (''ghost'', JBool (rc_ghost r)),
     (''inputs'', JArr (map JStr (rc_inputs r))),
     (''proofs'', JArr (map JStr (rc_proofs r))),
     (''steps'', JNum (N_Int (uint (rc_steps r)))),
     (''fuel_used'', JNum (N_Int (uint (rc_fuel_used r)))),
     (''policy_id'', JStr (policy_id r)),
     (''decision'', decision r),
     (''body'', rc_payload_body r)]"

definition rc_payload_of :: "'c vm \<Rightarrow> rc_payload" where
  "rc_payload_of m = \<lparr>
     subject_cid = None,
     engine = ''rb-vm/0.1.0'',
     rc_ghost = ghost (cfg m),
     rc_inputs = inputs m,
     rc_proofs = proofs m,
     rc_steps = steps m,
     rc_fuel_used = fuel_used m,
     policy_id = ''default:v1'',
     decision = JObj [(''status'', JStr ''ok'')],
     rc_payload_body = rc_body m\<rparr>"

definition push_trace :: "opcode \<Rightarrow> string option \<Rightarrow> 'c vm \<Rightarrow> 'c vm" where
  "push_trace opc note m =
     (if trace_on (cfg m)
      then m\<lparr>trace := trace m @ [\<lparr>ts_step = steps m, ts_op = opcode_name opc,
        ts_fuel_after = fuel_used m, ts_stack_depth = length (stack m), ts_note = note\<rparr>]\<rparr>
      else m)"

definition rc_bytes :: "vm_env \<Rightarrow> 'c providers \<Rightarrow> 'c vm \<Rightarrow> u8 list" where
  "rc_bytes E P m = json_to_vec E (canon P (rc_payload_value (rc_payload_of m)))"

definition finish :: "string option \<Rightarrow> string option \<Rightarrow> 'c vm \<Rightarrow> 'c vm \<times> vm_outcome" where
  "finish cid sig m = (m\<lparr>trace := []\<rparr>,
     \<lparr>rc_cid = cid, rc_sig = sig, rc_payload_cid = cid, out_steps = steps m,
      out_fuel_used = fuel_used m, out_trace = trace m\<rparr>)"

definition emit_rc :: "vm_env \<Rightarrow> 'c providers \<Rightarrow> 'c vm \<Rightarrow> exec_error + 'c vm \<times> vm_outcome" where
  "emit_rc E P m =
     (let m1 = push_trace EmitRc (Some ''emit_rc'') m;
          bytes = rc_bytes E P m1;
          sig_bytes = sign_jws P bytes
      in if sig_bytes = [] then Inl (Deny ''emit_rc_missing_signature'')
         else (let sig = ''ed25519:'' @ base64_url E sig_bytes;
                   (cas', c) = cas_put P (cas m1) bytes
               in Inr (finish (Some c) (Some sig) (m1\<lparr>cas := cas'\<rparr>))))"

section \<open>The run\<close>

definition exec_op :: "vm_env \<Rightarrow> 'c providers \<Rightarrow> instr \<Rightarrow> 'c vm \<Rightarrow> exec_error + 'c vm" where
  "exec_op E P ins m =
     (let p = ins_payload ins; B = env_big E in
      case ins_op ins of
        ConstI64 \<Rightarrow> op_const_i64 p m
      | ConstBytes \<Rightarrow> op_const_bytes p m
      | Drop \<Rightarrow> op_drop m
      | PushInput \<Rightarrow> op_push_input p m
      | AddI64 \<Rightarrow> op_arith AddI64 saturating_add_i64 m
      | SubI64 \<Rightarrow> op_arith SubI64 saturating_sub_i64 m
      | MulI64 \<Rightarrow> op_arith MulI64 saturating_mul_i64 m
      | CmpI64 \<Rightarrow> op_cmp CmpI64 p m
      | AssertTrue \<Rightarrow> op_assert_true m
      | CasGet \<Rightarrow> op_cas_get P m
      | CasPut \<Rightarrow> op_cas_put P m
      | JsonNormalize \<Rightarrow> op_json_normalize E P m
      | JsonValidate \<Rightarrow> op_json_validate m
      | JsonGetKey \<Rightarrow> op_json_get_key E p m
      | HashBlake3 \<Rightarrow> op_hash_blake3 E m
      | SetRcBody \<Rightarrow> op_set_rc_body E m
      | AttachProof \<Rightarrow> op_attach_proof m
      | SignDefault \<Rightarrow> Inr m
      | Dup \<Rightarrow> op_dup m
      | Swap \<Rightarrow> op_swap m
      | VerifySig \<Rightarrow> op_verify_sig E m
      | NumFromDecimalStr \<Rightarrow> op_num_from_decimal_str m
      | NumFromF64Bits \<Rightarrow> op_num_from_f64_bits E m
      | NumAdd \<Rightarrow> op_num_binary E NumAdd ''num_op_error: '' (num_add B) m
      | NumSub \<Rightarrow> op_num_binary E NumSub ''num_op_error: '' (num_sub B) m
      | NumMul \<Rightarrow> op_num_binary E NumMul ''num_op_error: '' (num_mul B) m
      | NumDiv \<Rightarrow> op_num_binary E NumDiv ''num_op_error: '' (num_div B) m
      | NumToDec \<Rightarrow> op_num_to_dec E p m
      | NumToRat \<Rightarrow> op_num_to_rat E p m
      | NumWithUnit \<Rightarrow> op_num_with_unit E p m
      | NumAssertUnit \<Rightarrow> op_num_assert_unit E p m
      | NumCompare \<Rightarrow> op_num_binary E NumCompare ''num_compare: '' (compare B) m
      | JsonGetKeyBytes \<Rightarrow> op_json_get_key_bytes p m
      | JsonHasKey \<Rightarrow> op_json_has_key p m
      | EqBytes \<Rightarrow> op_eq_bytes m
      | PushBodySize \<Rightarrow> Inr (push (V_I64 (body_size m)) m)
      | PushBool \<Rightarrow> op_push_bool p m
      | BoolNot \<Rightarrow> op_bool_not m
      | BoolOr \<Rightarrow> op_bool_binary BoolOr (\<or>) m
      | BoolAnd \<Rightarrow> op_bool_binary BoolAnd (\<and>) m
      | BoolToI64 \<Rightarrow> op_bool_to_i64 m
      | DivI64 \<Rightarrow> op_arith DivI64 op_div_i64 m
      | PushTimestamp \<Rightarrow> op_push_timestamp E m
      | CmpTimestamp \<Rightarrow> op_cmp CmpTimestamp p m
      | EmitRc \<Rightarrow> Inr m)"

text \<open>The part of an iteration before the match: charge one unit and count the step.\<close>

definition begin_step :: "'c vm \<Rightarrow> exec_error + 'c vm" where
  "begin_step m = map_ok (\<lambda>m1. m1\<lparr>steps := steps m1 + 1\<rparr>) (charge 1 m)"

fun run :: "vm_env \<Rightarrow> 'c providers \<Rightarrow> instr list \<Rightarrow> 'c vm \<Rightarrow> exec_error + 'c vm \<times> vm_outcome" where
  "run E P [] m = Inr (finish None None m)"
| "run E P (ins # code) m =
     and_then (begin_step m) (\<lambda>m1.
       if ins_op ins = EmitRc then emit_rc E P m1
       else and_then (exec_op E P ins m1) (\<lambda>m2.
         run E P code (push_trace (ins_op ins) None m2)))"

end
