(* ===== verification/Vm_Laws.thy ===== *)
theory Vm_Laws
  imports Vm_Exec
begin

text \<open>
  Laws of the receipt machine: what an instruction leaves alone, fuel and step accounting,
  sequencing of straight-line code, traces, independence from the clock, monotonicity in the fuel
  limit, and the interface of content-addressed stores with what a run promises over any of them.
\<close>

section \<open>What an instruction leaves alone\<close>

definition vm_frame :: "'c vm \<Rightarrow> vm_config \<times> u64 \<times> u64 \<times> trace_step list \<times> string list \<times> u64" where
  "vm_frame m = (cfg m, steps m, fuel_used m, trace m, inputs m, body_size m)"

lemma pop_iff: "pop m = Inr (v, m') \<longleftrightarrow> (\<exists>st. stack m = v # st \<and> m' = m\<lparr>stack := st\<rparr>)"
  by (auto simp: pop_def split: list.split)

lemma typed_pop_iff:
  "pop_i64 opc m = Inr (i, m') \<longleftrightarrow> (\<exists>st. stack m = V_I64 i # st \<and> m' = m\<lparr>stack := st\<rparr>)"
  "pop_bool opc m = Inr (b, m') \<longleftrightarrow> (\<exists>st. stack m = V_Bool b # st \<and> m' = m\<lparr>stack := st\<rparr>)"
  "pop_bytes opc m = Inr (bs, m') \<longleftrightarrow> (\<exists>st. stack m = V_Bytes bs # st \<and> m' = m\<lparr>stack := st\<rparr>)"
  "pop_json opc m = Inr (j, m') \<longleftrightarrow> (\<exists>st. stack m = V_Json j # st \<and> m' = m\<lparr>stack := st\<rparr>)"
  "pop_cid opc m = Inr (c, m') \<longleftrightarrow> (\<exists>st. stack m = V_Cid c # st \<and> m' = m\<lparr>stack := st\<rparr>)"
  "pop_bytes_or_cid opc m = Inr (bs, m') \<longleftrightarrow>
     (\<exists>v st. stack m = v # st \<and> (v = V_Bytes bs \<or> (\<exists>c. v = V_Cid c \<and> bs = bytes_of c)) \<and> m' = m\<lparr>stack := st\<rparr>)"
  unfolding pop_i64_def pop_bool_def pop_bytes_def pop_json_def pop_cid_def pop_bytes_or_cid_def pop_def
  by (cases "stack m"; auto split: vm_value.split)+

lemma pop_num_for_Inr:
  "pop_num_for E opc m = Inr (n, m') \<Longrightarrow> \<exists>v st. stack m = v # st \<and> m' = m\<lparr>stack := st\<rparr>"
  unfolding pop_num_for_def pop_def
  by (cases "stack m") (auto split: vm_value.split_asm option.split_asm)

lemma push_frame [simp]: "vm_frame (push v m) = vm_frame m" "cas (push v m) = cas m"
  by (simp_all add: push_def vm_frame_def)

lemma vm_frame_updates [simp]:
  "vm_frame (m\<lparr>cas := c\<rparr>) = vm_frame m" "vm_frame (m\<lparr>rc_body := j\<rparr>) = vm_frame m"
  "vm_frame (m\<lparr>proofs := ps\<rparr>) = vm_frame m" "vm_frame (m\<lparr>stack := st\<rparr>) = vm_frame m"
  by (simp_all add: vm_frame_def)

lemmas op_defs = op_const_i64_def op_const_bytes_def op_drop_def op_push_input_def op_arith_def op_cmp_def
  op_assert_true_def op_dup_def op_swap_def op_push_bool_def op_bool_not_def op_bool_binary_def
  op_bool_to_i64_def op_push_timestamp_def op_eq_bytes_def op_cas_get_def
  op_hash_blake3_def op_attach_proof_def op_verify_sig_def op_json_normalize_def op_json_validate_def
  op_json_get_key_def op_json_get_key_bytes_def op_json_has_key_def
  op_num_from_decimal_str_def op_num_from_f64_bits_def op_num_binary_def op_num_to_dec_def
  op_num_to_rat_def op_num_with_unit_def op_num_assert_unit_def

lemma op_cas_put_Inr:
  "op_cas_put P m = Inr m' \<Longrightarrow> \<exists>bs st. stack m = V_Bytes bs # st \<and>
     m' = push (V_Cid (snd (cas_put P (cas m) bs))) (m\<lparr>stack := st, cas := fst (cas_put P (cas m) bs)\<rparr>)"
  unfolding op_cas_put_def pop_bytes_def pop_def
  by (cases "stack m") (auto simp: case_prod_beta Let_def split: vm_value.split_asm)

lemma op_set_rc_body_Inr:
  "op_set_rc_body E m = Inr m' \<Longrightarrow> \<exists>v st j. stack m = v # st \<and> m' = m\<lparr>stack := st, rc_body := j\<rparr>"
  unfolding op_set_rc_body_def pop_def
  by (cases "stack m") (auto split: vm_value.split_asm)

lemma exec_op_frame:
  assumes "exec_op E P ins m = Inr m'"
  shows "vm_frame m' = vm_frame m"
  using assms unfolding exec_op_def Let_def
  by (cases "ins_op ins")
    (auto simp: op_defs result_simps Let_def pop_iff typed_pop_iff
      dest!: pop_num_for_Inr op_cas_put_Inr op_set_rc_body_Inr split: if_split_asm option.split_asm)

lemma exec_op_not_fuel: "exec_op E P ins m \<noteq> Inl FuelExhausted"
proof -
  have pops: "pop m \<noteq> Inl FuelExhausted" "pop_i64 opc m \<noteq> Inl FuelExhausted"
    "pop_bool opc m \<noteq> Inl FuelExhausted" "pop_bytes opc m \<noteq> Inl FuelExhausted"
    "pop_json opc m \<noteq> Inl FuelExhausted" "pop_cid opc m \<noteq> Inl FuelExhausted"
    "pop_bytes_or_cid opc m \<noteq> Inl FuelExhausted" "pop_num_for E opc m \<noteq> Inl FuelExhausted"
    "payload_str opc p \<noteq> Inl FuelExhausted" for opc p and m :: "'a vm"
    unfolding pop_i64_def pop_bool_def pop_bytes_def pop_json_def pop_cid_def pop_bytes_or_cid_def
      pop_num_for_def pop_def payload_str_def
    by (cases "stack m"; auto simp: result_simps split: vm_value.split option.split)+
  show ?thesis
    unfolding exec_op_def Let_def
    by (cases "ins_op ins")
     (auto simp: op_defs result_simps Let_def pops deny_num_def op_cas_put_def op_set_rc_body_def case_prod_beta
      split: if_split_asm option.split_asm vm_value.split_asm)
qed

lemma exec_op_clock:
  "ins_op ins \<noteq> PushTimestamp \<Longrightarrow> exec_op (E\<lparr>unix_secs := clock\<rparr>) P ins m = exec_op E P ins m"
proof -
  let ?E = "E\<lparr>unix_secs := clock\<rparr>"
  have sel: "num_from_value ?E = num_from_value E" "num_to_value ?E = num_to_value E"
    "env_big ?E = env_big E" "blake3 ?E = blake3 E" "json_from_slice ?E = json_from_slice E"
    "verifying_key_ok ?E = verifying_key_ok E" "ed25519_verify ?E = ed25519_verify E"
    by simp_all
  show "ins_op ins \<noteq> PushTimestamp \<Longrightarrow> ?thesis"
    unfolding exec_op_def Let_def op_defs op_set_rc_body_def pop_num_for_def sel
    by (cases "ins_op ins") simp_all
qed

section \<open>Fuel\<close>

lemma begin_step_Inr:
  assumes "unat (fuel_used m) + 1 < 2 ^ 64"
  shows "begin_step m = Inr m1 \<longleftrightarrow> unat (fuel_used m) < unat (fuel_limit (cfg m))
    \<and> m1 = m\<lparr>fuel_used := fuel_used m + 1, steps := steps m + 1\<rparr>"
proof -
  have "saturating_add_u64 (fuel_used m) 1 = fuel_used m + 1"
    using assms by (simp add: saturating_add_u64_def)
  moreover have "unat (fuel_used m + 1) = unat (fuel_used m) + 1"
    using assms by (simp add: unat_word_ariths)
  ultimately show ?thesis
    by (auto simp: begin_step_def charge_def Let_def word_less_nat_alt)
qed

lemma begin_step_Inl:
  assumes "unat (fuel_used m) + 1 < 2 ^ 64"
  shows "begin_step m = Inl e \<longleftrightarrow> e = FuelExhausted \<and> unat (fuel_limit (cfg m)) \<le> unat (fuel_used m)"
proof -
  have "saturating_add_u64 (fuel_used m) 1 = fuel_used m + 1"
    using assms by (simp add: saturating_add_u64_def)
  moreover have "unat (fuel_used m + 1) = unat (fuel_used m) + 1"
    using assms by (simp add: unat_word_ariths)
  ultimately show ?thesis
    by (auto simp: begin_step_def charge_def Let_def word_less_nat_alt)
qed

lemma push_trace_sel [simp]:
  "cfg (push_trace opc note m) = cfg m" "steps (push_trace opc note m) = steps m"
  "fuel_used (push_trace opc note m) = fuel_used m" "stack (push_trace opc note m) = stack m"
  "cas (push_trace opc note m) = cas m" "inputs (push_trace opc note m) = inputs m"
  "body_size (push_trace opc note m) = body_size m" "rc_body (push_trace opc note m) = rc_body m"
  "proofs (push_trace opc note m) = proofs m"
  by (simp_all add: push_trace_def)

lemma exec_op_sel:
  assumes "exec_op E P ins m = Inr m'"
  shows "cfg m' = cfg m" "steps m' = steps m" "fuel_used m' = fuel_used m" "trace m' = trace m"
    "inputs m' = inputs m" "body_size m' = body_size m"
  using exec_op_frame [OF assms] by (simp_all add: vm_frame_def)

lemma unat_Suc_word: "unat (w :: u64) + 1 < 2 ^ 64 \<Longrightarrow> unat (w + 1) = unat w + 1"
  by (simp add: unat_word_ariths)

lemma emit_rc_outcome:
  "emit_rc E P m = Inr (m', out) \<Longrightarrow> out_steps out = steps m \<and> out_fuel_used out = fuel_used m
    \<and> out_trace out = trace (push_trace EmitRc (Some ''emit_rc'') m)"
  by (auto simp: emit_rc_def Let_def finish_def split: if_split_asm prod.split_asm)

text \<open>Every executed instruction costs one unit and counts one step.\<close>

lemma run_fuel_steps:
  assumes "run E P code m = Inr (m', out)" "unat (fuel_used m) + length code < 2 ^ 64"
    "unat (fuel_used m) \<le> unat (fuel_limit (cfg m))"
  shows "\<exists>n \<le> length code. unat (out_fuel_used out) = unat (fuel_used m) + n
    \<and> out_steps out = steps m + of_nat n \<and> unat (out_fuel_used out) \<le> unat (fuel_limit (cfg m))
    \<and> (EmitRc \<notin> set (map ins_op code) \<longrightarrow> n = length code)"
  using assms
proof (induction code arbitrary: m)
  case Nil
  then show ?case
    by (auto simp: finish_def)
next
  case (Cons ins code)
  let ?m1 = "m\<lparr>fuel_used := fuel_used m + 1, steps := steps m + 1\<rparr>"
  have fuel: "unat (fuel_used m) + 1 < 2 ^ 64"
    using Cons.prems(2) by simp
  have b: "begin_step m = Inr ?m1" "unat (fuel_used m) < unat (fuel_limit (cfg m))"
    using Cons.prems(1) begin_step_Inr [OF fuel] by (auto simp: result_simps)
  show ?case
  proof (cases "ins_op ins = EmitRc")
    case True
    with Cons.prems(1) b(1) emit_rc_outcome [of E P ?m1 m' out] show ?thesis
      using b(2) by (intro exI [of _ 1]) (auto simp: unat_Suc_word [OF fuel])
  next
    case False
    then obtain m2 where m2: "exec_op E P ins ?m1 = Inr m2"
      "run E P code (push_trace (ins_op ins) None m2) = Inr (m', out)"
      using Cons.prems(1) b(1) by (auto simp: result_simps)
    note sel = exec_op_sel [OF m2(1)]
    have "\<exists>n \<le> length code. unat (out_fuel_used out) = unat (fuel_used m + 1) + n
      \<and> out_steps out = steps m + 1 + of_nat n \<and> unat (out_fuel_used out) \<le> unat (fuel_limit (cfg m))
      \<and> (EmitRc \<notin> set (map ins_op code) \<longrightarrow> n = length code)"
      using Cons.IH [OF m2(2)] Cons.prems(2) b(2) unat_Suc_word [OF fuel] by (simp add: sel)
    then obtain n where "n \<le> length code" "unat (out_fuel_used out) = unat (fuel_used m) + Suc n"
      "out_steps out = steps m + of_nat (Suc n)" "unat (out_fuel_used out) \<le> unat (fuel_limit (cfg m))"
      "EmitRc \<notin> set (map ins_op code) \<longrightarrow> n = length code"
      using unat_Suc_word [OF fuel] by (auto simp: add.assoc)
    then show ?thesis
      using False by (intro exI [of _ "Suc n"]) auto
  qed
qed

lemma emit_rc_not_fuel: "emit_rc E P m \<noteq> Inl FuelExhausted"
  by (auto simp: emit_rc_def Let_def split: prod.split)

lemma run_enough_fuel:
  "unat (fuel_used m) + length code \<le> unat (fuel_limit (cfg m)) \<Longrightarrow>
   unat (fuel_used m) + length code < 2 ^ 64 \<Longrightarrow> run E P code m \<noteq> Inl FuelExhausted"
proof (induction code arbitrary: m)
  case (Cons ins code)
  let ?m1 = "m\<lparr>fuel_used := fuel_used m + 1, steps := steps m + 1\<rparr>"
  have fuel: "unat (fuel_used m) + 1 < 2 ^ 64"
    using Cons.prems(2) by simp
  have b: "begin_step m = Inr ?m1"
    using begin_step_Inr [OF fuel] Cons.prems(1) by simp
  have "run E P code (push_trace (ins_op ins) None m2) \<noteq> Inl FuelExhausted"
    if "exec_op E P ins ?m1 = Inr m2" for m2
    using Cons.prems unat_Suc_word [OF fuel] by (intro Cons.IH) (simp_all add: exec_op_sel [OF that])
  with b emit_rc_not_fuel [of E P ?m1] exec_op_not_fuel [of E P ins ?m1] show ?case
    by (auto simp: result_simps)
qed simp

section \<open>Sequencing\<close>

text \<open>Instructions without the final bookkeeping: the state a straight-line block leads to.\<close>

fun exec_list :: "vm_env \<Rightarrow> 'c providers \<Rightarrow> instr list \<Rightarrow> 'c vm \<Rightarrow> exec_error + 'c vm" where
  "exec_list E P [] m = Inr m"
| "exec_list E P (ins # code) m =
     and_then (begin_step m) (\<lambda>m1.
     and_then (exec_op E P ins m1) (\<lambda>m2.
       exec_list E P code (push_trace (ins_op ins) None m2)))"

lemma exec_list_append:
  "exec_list E P (a @ b) m = and_then (exec_list E P a m) (exec_list E P b)"
proof (induction a arbitrary: m)
  case (Cons i a)
  then show ?case
    by (cases "begin_step m"; cases "exec_op E P i (projr (begin_step m))") auto
qed simp

lemma run_append:
  "EmitRc \<notin> set (map ins_op a) \<Longrightarrow> run E P (a @ b) m = and_then (exec_list E P a m) (run E P b)"
proof (induction a arbitrary: m)
  case (Cons i a)
  then show ?case
    by (cases "begin_step m"; cases "exec_op E P i (projr (begin_step m))") auto
qed simp

lemma run_exec_list:
  "EmitRc \<notin> set (map ins_op code) \<Longrightarrow> run E P code m = map_ok (finish None None) (exec_list E P code m)"
  using run_append [of code E P "[]" m] by (cases "exec_list E P code m") auto

section \<open>Traces\<close>

definition trace_ok :: "trace_step list \<Rightarrow> nat \<Rightarrow> bool" where
  "trace_ok ts n \<longleftrightarrow> map ts_step ts = map of_nat [1..<Suc n] \<and> map ts_fuel_after ts = map of_nat [1..<Suc n]"

lemma trace_ok_Suc:
  "trace_ok ts n \<Longrightarrow> ts_step t = of_nat (Suc n) \<Longrightarrow> ts_fuel_after t = of_nat (Suc n) \<Longrightarrow>
   trace_ok (ts @ [t]) (Suc n)"
  by (simp add: trace_ok_def)

lemma run_trace:
  assumes "run E P code m = Inr (m', out)" "n + length code < 2 ^ 64" "trace_on (cfg m)"
    "steps m = of_nat n" "fuel_used m = of_nat n" "trace_ok (trace m) n"
  shows "trace_ok (out_trace out) (unat (out_steps out))"
  using assms
proof (induction code arbitrary: m n)
  case Nil
  then show ?case
    by (auto simp: finish_def unat_of_nat)
next
  case (Cons ins code)
  let ?m1 = "m\<lparr>fuel_used := fuel_used m + 1, steps := steps m + 1\<rparr>"
  have fuel: "unat (fuel_used m) + 1 < 2 ^ 64"
    using Cons.prems(2,5) by (simp add: unat_of_nat)
  have b: "begin_step m = Inr ?m1"
    using Cons.prems(1) begin_step_Inr [OF fuel] by (auto simp: result_simps)
  show ?case
  proof (cases "ins_op ins = EmitRc")
    case True
    then have "emit_rc E P ?m1 = Inr (m', out)"
      using Cons.prems(1) b by simp
    note out = emit_rc_outcome [OF this]
    have "unat (out_steps out) = Suc n"
      using out Cons.prems(2,4) unat_Suc_word [of "steps m"] by (simp add: unat_of_nat)
    moreover have "trace_ok (out_trace out) (Suc n)"
      using out Cons.prems by (auto simp: push_trace_def intro!: trace_ok_Suc)
    ultimately show ?thesis
      by simp
  next
    case False
    then obtain m2 where m2: "exec_op E P ins ?m1 = Inr m2"
      "run E P code (push_trace (ins_op ins) None m2) = Inr (m', out)"
      using Cons.prems(1) b by (auto simp: result_simps)
    note sel = exec_op_sel [OF m2(1)]
    show ?thesis
      by (rule Cons.IH [OF m2(2), of "Suc n"])
        (use Cons.prems sel in \<open>auto simp: push_trace_def intro!: trace_ok_Suc\<close>)
  qed
qed

section \<open>The clock\<close>

lemma run_clock:
  "PushTimestamp \<notin> set (map ins_op code) \<Longrightarrow> run (E\<lparr>unix_secs := clock\<rparr>) P code m = run E P code m"
proof (induction code arbitrary: m)
  case (Cons i code)
  have "emit_rc (E\<lparr>unix_secs := clock\<rparr>) P = emit_rc E P"
    by (rule ext) (simp add: emit_rc_def rc_bytes_def Let_def)
  moreover have "ins_op i \<noteq> PushTimestamp"
    using Cons.prems by auto
  ultimately show ?case
    using Cons by (simp add: exec_op_clock cong: if_cong)
qed simp

section \<open>More fuel changes nothing\<close>

abbreviation set_limit :: "u64 \<Rightarrow> 'c vm \<Rightarrow> 'c vm" where
  "set_limit l m \<equiv> m\<lparr>cfg := (cfg m)\<lparr>fuel_limit := l\<rparr>\<rparr>"

lemma pop_set_limit:
  "pop (set_limit l m) = map_ok (\<lambda>(v, m'). (v, set_limit l m')) (pop m)"
  by (auto simp: pop_def split: list.split)

lemma typed_pop_set_limit:
  "pop_i64 opc (set_limit l m) = map_ok (\<lambda>(v, m'). (v, set_limit l m')) (pop_i64 opc m)"
  "pop_bool opc (set_limit l m) = map_ok (\<lambda>(v, m'). (v, set_limit l m')) (pop_bool opc m)"
  "pop_bytes opc (set_limit l m) = map_ok (\<lambda>(v, m'). (v, set_limit l m')) (pop_bytes opc m)"
  "pop_json opc (set_limit l m) = map_ok (\<lambda>(v, m'). (v, set_limit l m')) (pop_json opc m)"
  "pop_cid opc (set_limit l m) = map_ok (\<lambda>(v, m'). (v, set_limit l m')) (pop_cid opc m)"
  "pop_bytes_or_cid opc (set_limit l m) = map_ok (\<lambda>(v, m'). (v, set_limit l m')) (pop_bytes_or_cid opc m)"
  "pop_num_for E opc (set_limit l m) = map_ok (\<lambda>(v, m'). (v, set_limit l m')) (pop_num_for E opc m)"
  unfolding pop_i64_def pop_bool_def pop_bytes_def pop_json_def pop_cid_def pop_bytes_or_cid_def
    pop_num_for_def pop_def
  by (cases "stack m"; auto split: vm_value.split option.split)+

lemma push_set_limit: "push v (m\<lparr>cfg := c\<rparr>) = (push v m)\<lparr>cfg := c\<rparr>" "cfg (push v m) = cfg m"
  by (simp_all add: push_def)

lemma and_then_map_ok: "and_then (map_ok f r) g = and_then r (\<lambda>x. g (f x))"
  by (cases r) auto

lemma map_ok_and_then: "map_ok f (and_then r g) = and_then r (\<lambda>x. map_ok f (g x))"
  by (cases r) auto

lemma map_ok_map_ok: "map_ok f (map_ok g r) = map_ok (\<lambda>x. f (g x)) r"
  by (cases r) auto

lemma cfg_commute:
  "m\<lparr>cfg := c, rc_body := j\<rparr> = m\<lparr>rc_body := j, cfg := c\<rparr>" "m\<lparr>cfg := c, proofs := p\<rparr> = m\<lparr>proofs := p, cfg := c\<rparr>"
  "m\<lparr>cfg := c, cas := s\<rparr> = m\<lparr>cas := s, cfg := c\<rparr>"
  by simp_all

lemma exec_op_set_limit:
  "exec_op E P ins (set_limit l m) = map_ok (set_limit l) (exec_op E P ins m)"
  unfolding exec_op_def Let_def
  by (cases "ins_op ins")
    (simp_all add: op_defs op_cas_put_def op_set_rc_body_def pop_set_limit typed_pop_set_limit
      and_then_map_ok map_ok_and_then map_ok_map_ok case_prod_beta push_set_limit Let_def cfg_commute
      if_distrib [of "map_ok (set_limit l)"] option.case_distrib [of "map_ok (set_limit l)"]
      vm_value.case_distrib [of "map_ok (set_limit l)"]
      cong: if_cong vm_value.case_cong option.case_cong)

lemma begin_step_set_limit:
  assumes "begin_step m = Inr m1" "fuel_limit (cfg m) \<le> l"
  shows "begin_step (set_limit l m) = Inr (set_limit l m1)"
  using assms by (auto simp: begin_step_def charge_def Let_def split: if_split_asm)

lemma push_trace_set_limit: "push_trace opc note (set_limit l m) = set_limit l (push_trace opc note m)"
  by (simp add: push_trace_def)

lemma emit_rc_set_limit:
  "emit_rc E P (set_limit l m) = map_ok (\<lambda>(m', out). (set_limit l m', out)) (emit_rc E P m)"
proof -
  have "ghost c = ghost (cfg m') \<Longrightarrow> rc_bytes E P (m'\<lparr>cfg := c\<rparr>) = rc_bytes E P m'" for c and m' :: "'a vm"
    by (simp add: rc_bytes_def rc_payload_of_def)
  then show ?thesis
    by (simp add: emit_rc_def Let_def push_trace_set_limit finish_def case_prod_beta)
qed

lemma run_more_fuel:
  "run E P code m \<noteq> Inl FuelExhausted \<Longrightarrow> fuel_limit (cfg m) \<le> l \<Longrightarrow>
   run E P code (set_limit l m) = map_ok (\<lambda>(m', out). (set_limit l m', out)) (run E P code m)"
proof (induction code arbitrary: m)
  case Nil
  then show ?case
    by (simp add: finish_def)
next
  case (Cons ins code)
  obtain m1 where m1: "begin_step m = Inr m1"
    using Cons.prems(1) by (cases "begin_step m") (auto simp: begin_step_def charge_def Let_def split: if_split_asm)
  have cfg1: "cfg m1 = cfg m"
    using m1 by (auto simp: begin_step_def charge_def Let_def split: if_split_asm)
  show ?case
  proof (cases "ins_op ins = EmitRc \<or> (\<exists>e. exec_op E P ins m1 = Inl e)")
    case True
    then show ?thesis
      using m1 begin_step_set_limit [OF m1 Cons.prems(2)]
      by (auto simp: emit_rc_set_limit exec_op_set_limit)
  next
    case False
    then obtain m2 where m2: "exec_op E P ins m1 = Inr m2"
      by (cases "exec_op E P ins m1") auto
    have "run E P code (set_limit l (push_trace (ins_op ins) None m2))
        = map_ok (\<lambda>(m', out). (set_limit l m', out)) (run E P code (push_trace (ins_op ins) None m2))"
      by (rule Cons.IH) (use Cons.prems m1 m2 False cfg1 exec_op_sel [OF m2] in auto)
    then show ?thesis
      using False m1 m2 begin_step_set_limit [OF m1 Cons.prems(2)]
      by (simp add: exec_op_set_limit push_trace_set_limit)
  qed
qed

section \<open>Interface: content-addressed stores\<close>

locale cas_provider =
  fixes put :: "'c \<Rightarrow> u8 list \<Rightarrow> 'c \<times> string"
    and get :: "'c \<Rightarrow> string \<Rightarrow> u8 list option"
    and cid_of :: "u8 list \<Rightarrow> string"
  assumes put_cid: "snd (put s b) = cid_of b"
    and get_put: "get (fst (put s b)) c = (if c = cid_of b then Some b else get s c)"
begin

definition addressed :: "'c \<Rightarrow> bool" where
  "addressed s \<longleftrightarrow> (\<forall>c b. get s c = Some b \<longrightarrow> c = cid_of b)"

lemma get_after_put: "get (fst (put s b)) (snd (put s b)) = Some b"
  by (simp add: put_cid get_put)

lemma put_addressed: "addressed s \<Longrightarrow> addressed (fst (put s b))"
  by (simp add: addressed_def get_put)

lemma exec_op_addressed:
  assumes "exec_op E P ins m = Inr m'" "cas_put P = put" "addressed (cas m)"
  shows "addressed (cas m')"
proof (cases "ins_op ins = CasPut")
  case True
  then have "op_cas_put P m = Inr m'"
    using assms(1) by (simp add: exec_op_def)
  from op_cas_put_Inr [OF this] assms(2,3) put_addressed show ?thesis
    by (auto simp: push_def)
next
  case False
  then have "cas m' = cas m"
    using assms(1) unfolding exec_op_def Let_def
    by (cases "ins_op ins")
      (auto simp: op_defs result_simps Let_def pop_iff typed_pop_iff
        dest!: pop_num_for_Inr op_set_rc_body_Inr split: if_split_asm option.split_asm)
  with assms(3) show ?thesis
    by simp
qed

lemma emit_rc_stored:
  assumes "emit_rc E P m = Inr (m', out)" "cas_put P = put" "addressed (cas m)"
  shows "addressed (cas m') \<and> rc_cid out = Some (cid_of (rc_bytes E P m)) \<and> rc_payload_cid out = rc_cid out
    \<and> get (cas m') (cid_of (rc_bytes E P m)) = Some (rc_bytes E P m)
    \<and> sign_jws P (rc_bytes E P m) \<noteq> []
    \<and> rc_sig out = Some (''ed25519:'' @ base64_url E (sign_jws P (rc_bytes E P m)))"
proof -
  have "rc_bytes E P (push_trace EmitRc nt m) = rc_bytes E P m" for nt
    by (simp add: rc_bytes_def rc_payload_of_def)
  with assms(1,3) put_addressed show ?thesis
    by (auto simp: emit_rc_def Let_def finish_def case_prod_beta assms(2) put_cid get_put split: if_split_asm)
qed

text \<open>A run keeps the store addressed, and the receipt it emits is in the store under its own
  identifier, signed.\<close>

lemma run_receipt:
  assumes "run E P code m = Inr (m', out)" "cas_put P = put" "addressed (cas m)"
  shows "addressed (cas m') \<and> (case rc_cid out of None \<Rightarrow> rc_sig out = None
    | Some c \<Rightarrow> \<exists>b. c = cid_of b \<and> get (cas m') c = Some b
        \<and> rc_sig out = Some (''ed25519:'' @ base64_url E (sign_jws P b)))"
  using assms(1,3)
proof (induction code arbitrary: m)
  case Nil
  then show ?case
    by (auto simp: finish_def)
next
  case (Cons ins code)
  obtain m1 where m1: "begin_step m = Inr m1" "cas m1 = cas m"
    using Cons.prems(1) by (auto simp: result_simps begin_step_def charge_def Let_def split: if_split_asm)
  show ?case
  proof (cases "ins_op ins = EmitRc")
    case True
    then show ?thesis
      using Cons.prems m1 emit_rc_stored [of E P m1 m' out] assms(2) by auto
  next
    case False
    then obtain m2 where m2: "exec_op E P ins m1 = Inr m2"
      "run E P code (push_trace (ins_op ins) None m2) = Inr (m', out)"
      using Cons.prems(1) m1(1) by (auto simp: result_simps)
    show ?thesis
      by (rule Cons.IH [OF m2(2)]) (use exec_op_addressed [OF m2(1) assms(2)] Cons.prems(2) m1(2) in simp)
  qed
qed

end
end
