(* ===== verification/Nrf_Codec.thy ===== *)
theory Nrf_Codec
  imports Json
begin

text \<open>
  The NRF-1.1 binary codec of \<open>crates/ubl_nrf/src/nrf.rs\<close>: the value type, the encoder, the
  decoder with its varint, and the proof that decoding inverts encoding. A \<open>BTreeMap\<close> is the
  list of its entries in strictly increasing key order. Unicode normalisation (the crate
  \<open>unicode_normalization\<close>), Rust's \<open>Debug\<close> form of a string, whose escapes depend on Unicode
  tables, and the RFC 3339 parser of \<open>chrono\<close> (the text up to the seconds in UTC and the
  nanoseconds) are fields of the record \<open>text_env\<close>.
\<close>

record text_env =
  nfc :: "string \<Rightarrow> string"
  debug_str :: "string \<Rightarrow> string"
  rfc3339_utc :: "string \<Rightarrow> (string \<times> nat) option"

section \<open>Ordered maps\<close>

abbreviation bt_sorted :: "(string \<times> 'v) list \<Rightarrow> bool" where
  "bt_sorted m \<equiv> sorted_wrt (<) (map fst m)"

fun bt_insert :: "string \<Rightarrow> 'v \<Rightarrow> (string \<times> 'v) list \<Rightarrow> (string \<times> 'v) list" where
  "bt_insert k v [] = [(k, v)]"
| "bt_insert k v ((k', v') # m) =
     (if k < k' then (k, v) # (k', v') # m
      else if k = k' then (k, v) # m
      else (k', v') # bt_insert k v m)"

definition bt_contains :: "string \<Rightarrow> (string \<times> 'v) list \<Rightarrow> bool" where
  "bt_contains k m \<longleftrightarrow> map_of m k \<noteq> None"

lemma map_of_bt_insert [simp]: "map_of (bt_insert k v m) = (map_of m)(k \<mapsto> v)"
  by (induction m) auto

lemma fst_bt_insert: "fst ` set (bt_insert k v m) = insert k (fst ` set m)"
  by (induction k v m rule: bt_insert.induct) (simp_all add: insert_commute)

lemma bt_insert_sorted: "bt_sorted m \<Longrightarrow> bt_sorted (bt_insert k v m)"
proof (induction k v m rule: bt_insert.induct)
  case (2 k v k' v' m)
  have "fst ` set (bt_insert k v m) = insert k (fst ` set m)"
    by (rule fst_bt_insert)
  with 2 show ?case
    by (fastforce dest: order.strict_trans)
qed simp

lemma bt_insert_last: "bt_sorted (m @ [(k, v)]) \<Longrightarrow> bt_insert k v m = m @ [(k, v)]"
  by (induction m) (auto simp: sorted_wrt_append)

lemma bt_sorted_distinct: "bt_sorted m \<Longrightarrow> distinct (map fst m)"
  by (simp add: strict_sorted_iff)

text \<open>Two ordered maps with the same entries are the same list.\<close>

lemma alist_by_keys:
  "distinct (map fst m) \<Longrightarrow> map (\<lambda>k. (k, the (map_of m k))) (map fst m) = m"
  by (auto simp: comp_def intro!: map_idI)

lemma bt_sorted_unique:
  assumes "bt_sorted m" "bt_sorted n" "map_of m = map_of n"
  shows "m = n"
proof -
  have "set (map fst m) = set (map fst n)"
    using assms(3) by (metis dom_map_of_conv_image_fst list.set_map)
  then have keys: "map fst m = map fst n"
    using assms(1,2) by (intro sorted_distinct_set_unique) (simp_all add: strict_sorted_iff)
  have "m = map (\<lambda>k. (k, the (map_of m k))) (map fst m)"
    using assms(1) by (simp only: alist_by_keys bt_sorted_distinct)
  also have "\<dots> = n"
    unfolding keys assms(3) using assms(2) by (rule alist_by_keys [OF bt_sorted_distinct])
  finally show ?thesis .
qed

section \<open>Values\<close>

datatype nrf =
    NNull
  | NBool bool
  | NInt i64
  | NString string
  | NBytes "u8 list"
  | NArray "nrf list"
  | NMap "(string \<times> nrf) list"

datatype nrf_error =
    UnexpectedEof
  | InvalidMagic
  | TrailingData
  | InvalidUTF8
  | BOMPresent
  | NotNFC
  | NonStringKey
  | DuplicateKey string
  | InvalidTypeTag u8
  | VarIntOverflow
  | NonMinimalVarint

definition MAGIC :: "u8 list" where
  "MAGIC = [0x6e, 0x72, 0x66, 0x31]"

section \<open>Encoder\<close>

function encode_varint32 :: "u32 \<Rightarrow> u8 list" where
  "encode_varint32 n =
     (let byte = ucast (n AND 0x7f); n' = drop_bit 7 n
      in if n' \<noteq> 0 then (byte OR 0x80) # encode_varint32 n' else [byte])"
  by pat_completeness auto
termination
proof (relation "measure unat")
  fix byte n' and n :: u32
  assume n': "n' = drop_bit 7 n" "n' \<noteq> 0"
  have "unat n' = unat n div 128"
    unfolding n'(1) unat_drop_bit_eq by (simp add: drop_bit_eq_div)
  moreover have "unat n' \<noteq> 0"
    using n'(2) by (simp only: unat_eq_zero not_False_eq_True)
  ultimately show "(n', n) \<in> measure unat"
    by (cases "unat n") (auto intro!: div_less_dividend)
qed simp

declare encode_varint32.simps [simp del]

definition encode_string :: "string \<Rightarrow> u8 list" where
  "encode_string s = 0x04 # encode_varint32 (of_nat (length s)) @ bytes_of s"

fun encode_value :: "nrf \<Rightarrow> u8 list" where
  "encode_value NNull = [0x00]"
| "encode_value (NBool False) = [0x01]"
| "encode_value (NBool True) = [0x02]"
| "encode_value (NInt i) = 0x03 # be_bytes 8 i"
| "encode_value (NString s) = encode_string s"
| "encode_value (NBytes b) = 0x05 # encode_varint32 (of_nat (length b)) @ b"
| "encode_value (NArray arr) =
     0x06 # encode_varint32 (of_nat (length arr)) @ concat (map encode_value arr)"
| "encode_value (NMap m) =
     0x07 # encode_varint32 (of_nat (length m))
       @ concat (map (\<lambda>(k, v). encode_string k @ encode_value v) m)"

definition encode_to_vec :: "nrf \<Rightarrow> u8 list" where
  "encode_to_vec v = MAGIC @ encode_value v"

section \<open>Decoder\<close>

definition read_exact :: "nat \<Rightarrow> u8 list \<Rightarrow> nrf_error + u8 list \<times> u8 list" where
  "read_exact n bs = (if n \<le> length bs then Inr (take n bs, drop n bs) else Inl UnexpectedEof)"

fun decode_varint_loop :: "u32 \<Rightarrow> nat \<Rightarrow> nat \<Rightarrow> u8 list \<Rightarrow> nrf_error + u32 \<times> nat \<times> u8 list" where
  "decode_varint_loop result shift bytes_read [] = Inl UnexpectedEof"
| "decode_varint_loop result shift bytes_read (b # r) =
     (let val = ucast (b AND 0x7f) in
      if shift = 28 \<and> val > 0x0F then Inl VarIntOverflow
      else if b AND 0x80 = 0 then Inr (result OR push_bit shift val, bytes_read + 1, r)
      else if shift + 7 > 28 \<or> bytes_read + 1 \<ge> 5 then Inl NonMinimalVarint
      else decode_varint_loop (result OR push_bit shift val) (shift + 7) (bytes_read + 1) r)"

definition decode_varint32 :: "u8 list \<Rightarrow> nrf_error + u32 \<times> u8 list" where
  "decode_varint32 bs =
     and_then (decode_varint_loop 0 0 0 bs) (\<lambda>(result, bytes_read, r).
       if bytes_read > 1 \<and> drop_bit (7 * (bytes_read - 1)) result = 0
       then Inl NonMinimalVarint else Inr (result, r))"

lemma read_exact_append: "read_exact n bs = Inr (a, r) \<Longrightarrow> bs = a @ r \<and> length a = n"
  by (auto simp: read_exact_def split: if_splits)

lemma read_exact_prefix [codec_simps]: "read_exact (length a) (a @ r) = Inr (a, r)"
  by (simp add: read_exact_def)

lemma decode_varint_loop_shrinks:
  "decode_varint_loop acc sh k bs = Inr (n, k', r) \<Longrightarrow> length r < length bs"
proof (induction bs arbitrary: acc sh k)
  case (Cons b bs)
  then show ?case
    by (simp add: Let_def less_SucI split: if_splits)
qed simp

lemma decode_varint32_shrinks: "decode_varint32 bs = Inr (n, r) \<Longrightarrow> length r < length bs"
  by (auto simp: decode_varint32_def result_simps split: if_splits dest: decode_varint_loop_shrinks)

text \<open>The bytes of a string: valid UTF-8, no byte-order mark, already in NFC.\<close>

definition decode_string :: "text_env \<Rightarrow> u8 list \<Rightarrow> nrf_error + string \<times> u8 list" where
  "decode_string T bs =
     and_then (decode_varint32 bs) (\<lambda>(len, r).
     and_then (read_exact (unat len) r) (\<lambda>(buf, r').
     and_then (ok_or InvalidUTF8 (from_utf8 buf)) (\<lambda>s.
       if contains_bom s then Inl BOMPresent
       else if nfc T s \<noteq> s then Inl NotNFC
       else Inr (s, r'))))"

function (sequential)
  decode_value :: "text_env \<Rightarrow> u8 list \<Rightarrow> nrf_error + nrf \<times> u8 list" and
  decode_array :: "text_env \<Rightarrow> nat \<Rightarrow> u8 list \<Rightarrow> nrf_error + nrf list \<times> u8 list" and
  decode_map :: "text_env \<Rightarrow> nat \<Rightarrow> (string \<times> nrf) list \<Rightarrow> u8 list
    \<Rightarrow> nrf_error + (string \<times> nrf) list \<times> u8 list" where
  "decode_value T [] = Inl UnexpectedEof"
| "decode_value T (tag # bs) =
     (if tag = 0x00 then Inr (NNull, bs)
      else if tag = 0x01 then Inr (NBool False, bs)
      else if tag = 0x02 then Inr (NBool True, bs)
      else if tag = 0x03 then map_ok (\<lambda>(buf, r). (NInt (from_be buf), r)) (read_exact 8 bs)
      else if tag = 0x04 then map_ok (\<lambda>(s, r). (NString s, r)) (decode_string T bs)
      else if tag = 0x05 then
        and_then (decode_varint32 bs) (\<lambda>(len, r).
          map_ok (\<lambda>(buf, r'). (NBytes buf, r')) (read_exact (unat len) r))
      else if tag = 0x06 then
        and_then (decode_varint32 bs) (\<lambda>(count, r).
          map_ok (\<lambda>(arr, r'). (NArray arr, r')) (decode_array T (unat count) r))
      else if tag = 0x07 then
        and_then (decode_varint32 bs) (\<lambda>(count, r).
          map_ok (\<lambda>(m, r'). (NMap m, r')) (decode_map T (unat count) [] r))
      else Inl (InvalidTypeTag tag))"
| "decode_array T 0 bs = Inr ([], bs)"
| "decode_array T (Suc n) bs =
     and_then (decode_value T bs) (\<lambda>(v, r).
     and_then (decode_array T n r) (\<lambda>(vs, r'). Inr (v # vs, r')))"
| "decode_map T 0 m bs = Inr (m, bs)"
| "decode_map T (Suc n) m bs =
     and_then (decode_value T bs) (\<lambda>(kv, r).
       case kv of
         NString key \<Rightarrow>
           if bt_contains key m then Inl (DuplicateKey key)
           else and_then (decode_value T r) (\<lambda>(v, r'). decode_map T n (bt_insert key v m) r')
       | _ \<Rightarrow> Inl NonStringKey)"
  by pat_completeness auto


lemma decode_string_shrinks: "decode_string T bs = Inr (s, r) \<Longrightarrow> length r < length bs"
  by (fastforce simp: decode_string_def result_simps split: if_splits
      dest!: decode_varint32_shrinks read_exact_append)

text \<open>
  Every decoded value consumes at least its tag byte. The fact is proved on the domain of the
  recursion, by computation induction, and then gives its termination.
\<close>

lemma decode_shrinks_dom:
  "decode_value_decode_array_decode_map_dom (Inl (T, bs)) \<Longrightarrow>
     decode_value T bs = Inr (v, r) \<Longrightarrow> length r < length bs"
  "decode_value_decode_array_decode_map_dom (Inr (Inl (T, n, bs))) \<Longrightarrow>
     decode_array T n bs = Inr (vs, r) \<Longrightarrow> length r \<le> length bs"
  "decode_value_decode_array_decode_map_dom (Inr (Inr (T, n, m, bs))) \<Longrightarrow>
     decode_map T n m bs = Inr (m', r) \<Longrightarrow> length r \<le> length bs"
proof (induction arbitrary: v r and vs r and m' r
    rule: decode_value_decode_array_decode_map.pinduct)
  case (1 T)
  then show ?case
    by (simp add: decode_value.psimps)
next
  case (2 T tag bs)
  have arr: "length r' \<le> length b" if "tag = 6" "decode_varint32 bs = Inr (a, b)"
    "decode_array T (unat a) b = Inr (vs, r')" for a b vs r'
    by (rule "2.IH"(1) [of "(a, b)" a b]) (use that in simp_all)
  have map: "length r' \<le> length b" if "tag = 7" "decode_varint32 bs = Inr (a, b)"
    "decode_map T (unat a) [] b = Inr (m', r')" for a b m' r'
    by (rule "2.IH"(2) [of "(a, b)" a b]) (use that in simp_all)
  show ?case
    using "2.prems"
    by (simp add: decode_value.psimps(2) [OF "2.hyps"] result_simps split: if_splits)
      (fastforce dest!: read_exact_append decode_string_shrinks
        dest: decode_varint32_shrinks arr map)+
next
  case (3 T bs)
  then show ?case
    by (simp add: decode_array.psimps)
next
  case (4 T n bs)
  then show ?case
    by (fastforce simp: decode_array.psimps result_simps)
next
  case (5 T m bs)
  then show ?case
    by (simp add: decode_map.psimps)
next
  case (6 T n m bs)
  from "6.prems" obtain kv r1 where d: "decode_value T bs = Inr (kv, r1)"
    by (auto simp: decode_map.psimps(2) [OF "6.hyps"] result_simps)
  with "6.prems" obtain key v r2 where
    k: "decode_value T bs = Inr (NString key, r1)" "\<not> bt_contains key m" and
    v: "decode_value T r1 = Inr (v, r2)" and
    m: "decode_map T n (bt_insert key v m) r2 = Inr (m', r)"
    by (cases kv) (auto simp: decode_map.psimps(2) [OF "6.hyps"] result_simps split: if_split_asm)
  have "length r1 < length bs"
    using k(1) by (rule "6.IH"(1))
  moreover have "length r2 < length r1"
    by (rule "6.IH"(2)) (use k v in simp_all)
  moreover have "length r \<le> length r2"
    by (rule "6.IH"(3)) (use k v m in simp_all)
  ultimately show ?case
    by simp
qed

termination decode_value
proof (relation "measure (\<lambda>p. case p of Inl (T, bs) \<Rightarrow> 2 * length bs
    | Inr (Inl (T, n, bs)) \<Rightarrow> 2 * length bs + 1
    | Inr (Inr (T, n, m, bs)) \<Rightarrow> 2 * length bs + 1)", goal_cases)
  case 1
  show ?case by simp
qed (fastforce dest: decode_varint32_shrinks decode_shrinks_dom(1))+


definition decode_from_slice :: "text_env \<Rightarrow> u8 list \<Rightarrow> nrf_error + nrf" where
  "decode_from_slice T bytes =
     and_then (read_exact 4 bytes) (\<lambda>(magic, r).
       if magic \<noteq> MAGIC then Inl InvalidMagic
       else and_then (decode_value T r) (\<lambda>(v, r').
         if r' \<noteq> [] then Inl TrailingData else Inr v))"

section \<open>The varint codec\<close>

lemma encode_varint32_ne [simp]: "encode_varint32 n \<noteq> []"
  by (subst encode_varint32.simps) (simp add: Let_def)

text \<open>The seven payload bits and the continuation bit of one varint byte.\<close>

lemma bit_varint_masks:
  "bit (0x7f :: u8) i \<longleftrightarrow> i < 7" "bit (0x80 :: u8) i \<longleftrightarrow> i = 7" "bit (0x7f :: u32) i \<longleftrightarrow> i < 7"
proof -
  have m: "(0x7f :: u8) = mask 7" "(0x80 :: u8) = 2 ^ 7" "(0x7f :: u32) = mask 7"
    by (simp_all add: mask_eq_exp_minus_1)
  show "bit (0x7f :: u8) i \<longleftrightarrow> i < 7"
    unfolding m(1) bit_mask_iff by auto
  show "bit (0x80 :: u8) i \<longleftrightarrow> i = 7"
    unfolding m(2) bit_exp_iff by auto
  show "bit (0x7f :: u32) i \<longleftrightarrow> i < 7"
    unfolding m(3) bit_mask_iff by auto
qed

lemma varint_byte_payload:
  fixes n :: u32
  shows "ucast ((ucast (n AND 0x7f) :: u8) AND 0x7f) = n AND 0x7f"
    and "ucast (((ucast (n AND 0x7f) :: u8) OR 0x80) AND 0x7f) = n AND 0x7f"
    and "((ucast (n AND 0x7f) :: u8) OR 0x80) AND 0x80 \<noteq> 0"
    and "(ucast (n AND 0x7f) :: u8) AND 0x80 = 0"
proof -
  note bs = bit_and_iff bit_or_iff bit_unsigned_iff bit_varint_masks bit_0_eq
  show "ucast ((ucast (n AND 0x7f) :: u8) AND 0x7f) = n AND 0x7f"
    by (rule bit_word_eqI) (simp only: bs, auto)
  show "ucast (((ucast (n AND 0x7f) :: u8) OR 0x80) AND 0x7f) = n AND 0x7f"
    by (rule bit_word_eqI) (simp only: bs, auto)
  have "bit (((ucast (n AND 0x7f) :: u8) OR 0x80) AND 0x80) 7"
    by (simp only: bs) simp
  then show "((ucast (n AND 0x7f) :: u8) OR 0x80) AND 0x80 \<noteq> 0"
    by (metis bit_0_eq bot_apply bot_bool_def)
  show "(ucast (n AND 0x7f) :: u8) AND 0x80 = 0"
    by (rule bit_word_eqI) (simp only: bs, auto)
qed

lemma split_low7: "(n :: u32) AND 0x7f OR push_bit 7 (drop_bit 7 n) = n"
proof (rule bit_word_eqI)
  fix i
  assume "i < LENGTH(32)"
  then show "bit (n AND 0x7f OR push_bit 7 (drop_bit 7 n)) i = bit n i"
    by (cases "i < 7")
      (simp_all only: bit_and_iff bit_or_iff bit_push_bit_iff bit_drop_bit_eq bit_varint_masks, simp_all)
qed

lemma unat_drop7: "unat (drop_bit 7 (n :: u32)) = unat n div 128"
  unfolding unat_drop_bit_eq by (simp add: drop_bit_eq_div)

lemma drop7_zero: "drop_bit 7 (n :: u32) = 0 \<Longrightarrow> n AND 0x7f = n"
  using split_low7 [of n] by simp

lemma decode_loop_encode:
  assumes "k \<le> 4" "unat n < 2 ^ (32 - 7 * k)"
  shows "decode_varint_loop acc (7 * k) k (encode_varint32 n @ r)
    = Inr (acc OR push_bit (7 * k) n, k + length (encode_varint32 n), r)"
  using assms
proof (induction n arbitrary: acc k rule: encode_varint32.induct)
  case (1 n)
  show ?case
  proof (cases "drop_bit 7 n = 0")
    case True
    have "\<not> n > 0x0F" if "k = 4"
      using "1.prems" that by (simp add: word_less_nat_alt)
    with True varint_byte_payload [of n, unfolded drop7_zero [OF True]] show ?thesis
      by (simp add: encode_varint32.simps [of n] Let_def drop7_zero [OF True])
  next
    case False
    have k: "k < 4"
    proof (rule ccontr)
      assume "\<not> k < 4"
      with "1.prems" have "unat n < 16"
        by (simp add: le_antisym)
      then have "unat (drop_bit 7 n) = 0"
        by (simp only: unat_drop7)
      with False show False
        by (simp only: unat_eq_zero)
    qed
    have n': "unat (drop_bit 7 n) < 2 ^ (32 - 7 * Suc k)"
    proof -
      have "32 - 7 * k = 7 + (32 - 7 * Suc k)"
        using k by simp
      then have "(2::nat) ^ (32 - 7 * k) = 2 ^ 7 * 2 ^ (32 - 7 * Suc k)"
        by (simp only: power_add)
      with "1.prems"(2) have "unat n < 2 ^ (32 - 7 * Suc k) * 128"
        by simp
      then show ?thesis
        unfolding unat_drop7 by (rule less_mult_imp_div_less)
    qed
    have "(acc OR push_bit (7 * k) (n AND 0x7f)) OR push_bit (7 * Suc k) (drop_bit 7 n)
      = acc OR push_bit (7 * k) (n AND 0x7f OR push_bit 7 (drop_bit 7 n))"
      by (simp add: push_bit_or push_bit_push_bit ac_simps)
    then have acc: "(acc OR push_bit (7 * k) (n AND 0x7f)) OR push_bit (7 * Suc k) (drop_bit 7 n)
      = acc OR push_bit (7 * k) n"
      by (simp only: split_low7)
    have IH: "decode_varint_loop (acc OR push_bit (7 * k) (n AND 0x7f)) (7 * Suc k) (Suc k)
        (encode_varint32 (drop_bit 7 n) @ r)
      = Inr (acc OR push_bit (7 * k) n, Suc k + length (encode_varint32 (drop_bit 7 n)), r)"
      unfolding acc [symmetric] by (rule "1.IH") (use False k n' in auto)
    have enc: "encode_varint32 n = (ucast (n AND 0x7f) OR 0x80) # encode_varint32 (drop_bit 7 n)"
      using False by (subst encode_varint32.simps) (simp only: Let_def if_True not_False_eq_True)
    have "7 * k \<noteq> 28" "\<not> 7 * k + 7 > 28" "\<not> k + 1 \<ge> 5" "7 * k + 7 = 7 * Suc k" "k + 1 = Suc k"
      using k by simp_all
    then show ?thesis
      by (simp only: enc append_Cons decode_varint_loop.simps Let_def varint_byte_payload IH
          simp_thms if_False list.size add_Suc add_Suc_right add_0_right)
  qed
qed

lemma encode_varint32_minimal:
  "length (encode_varint32 n) > 1 \<Longrightarrow> drop_bit (7 * (length (encode_varint32 n) - 1)) n \<noteq> 0"
proof (induction n rule: encode_varint32.induct)
  case (1 n)
  show ?case
  proof (cases "drop_bit 7 n = 0")
    case True
    with "1.prems" show ?thesis
      by (simp add: encode_varint32.simps [of n] Let_def)
  next
    case False
    show ?thesis
    proof (cases "length (encode_varint32 (drop_bit 7 n)) > 1")
      case True
      with "1.IH" False have "drop_bit (7 * (length (encode_varint32 (drop_bit 7 n)) - 1)) (drop_bit 7 n) \<noteq> 0"
        by simp
      moreover have "7 * (length (encode_varint32 (drop_bit 7 n)) - 1) + 7
        = 7 * length (encode_varint32 (drop_bit 7 n))"
        using True by simp
      ultimately show ?thesis
        using False by (simp add: encode_varint32.simps [of n] Let_def drop_bit_drop_bit)
    next
      case len: False
      then have "length (encode_varint32 (drop_bit 7 n)) = 1"
        by (simp add: le_antisym Suc_leI not_less)
      with False show ?thesis
        by (simp add: encode_varint32.simps [of n] Let_def)
    qed
  qed
qed

lemma decode_varint32_encode [codec_simps]: "decode_varint32 (encode_varint32 n @ r) = Inr (n, r)"
proof -
  have "unat n < 2 ^ (32 - 7 * 0)"
    using unsigned_less [of n] by simp
  then have "decode_varint_loop 0 0 0 (encode_varint32 n @ r) = Inr (n, length (encode_varint32 n), r)"
    using decode_loop_encode [of 0 n 0 r] by simp
  then show ?thesis
    using encode_varint32_minimal [of n] by (simp add: decode_varint32_def)
qed

interpretation varint: codec encode_varint32 decode_varint32 "\<lambda>_. True"
  by unfold_locales (simp add: decode_varint32_encode)

section \<open>Round trip\<close>

text \<open>
  The strings the decoder accepts, and the values it can return: \<open>u32\<close> lengths, maps with
  strictly increasing keys, every string in NFC without a byte-order mark.
\<close>

definition nrf_str :: "text_env \<Rightarrow> string \<Rightarrow> bool" where
  "nrf_str T s \<longleftrightarrow> is_str s \<and> \<not> contains_bom s \<and> nfc T s = s \<and> length s < 2 ^ 32"

fun nrf_wf :: "text_env \<Rightarrow> nrf \<Rightarrow> bool" where
  "nrf_wf T (NString s) \<longleftrightarrow> nrf_str T s"
| "nrf_wf T (NBytes b) \<longleftrightarrow> length b < 2 ^ 32"
| "nrf_wf T (NArray arr) \<longleftrightarrow> length arr < 2 ^ 32 \<and> list_all (nrf_wf T) arr"
| "nrf_wf T (NMap m) \<longleftrightarrow>
     length m < 2 ^ 32 \<and> bt_sorted m \<and> list_all (\<lambda>(k, v). nrf_str T k \<and> nrf_wf T v) m"
| "nrf_wf T _ \<longleftrightarrow> True"

lemma unat_u32_len: "n < 2 ^ 32 \<Longrightarrow> unat (of_nat n :: u32) = n"
  by (simp add: unat_of_nat take_bit_eq_mod)

lemma decode_string_encode:
  assumes "nrf_str T s"
  shows "decode_string T (encode_varint32 (of_nat (length s)) @ bytes_of s @ r) = Inr (s, r)"
proof -
  have "read_exact (length s) (bytes_of s @ r) = Inr (bytes_of s, r)"
    using read_exact_prefix [of "bytes_of s" r] by simp
  then show ?thesis
    using assms by (simp add: decode_string_def nrf_str_def codec_simps unat_u32_len)
qed

lemma decode_value_string [codec_simps]:
  "nrf_str T s \<Longrightarrow> decode_value T (encode_string s @ r) = Inr (NString s, r)"
  by (simp add: encode_string_def decode_string_encode)

lemma decode_array_encode:
  assumes "\<And>v r. v \<in> set arr \<Longrightarrow> decode_value T (encode_value v @ r) = Inr (v, r)"
  shows "decode_array T (length arr) (concat (map encode_value arr) @ r) = Inr (arr, r)"
  using assms by (induction arr) simp_all

lemma decode_map_encode:
  assumes "\<And>k v r. (k, v) \<in> set m \<Longrightarrow> decode_value T (encode_value v @ r) = Inr (v, r)"
    and "list_all (\<lambda>(k, v). nrf_str T k) m" and "bt_sorted (acc @ m)"
  shows "decode_map T (length m) acc
    (concat (map (\<lambda>(k, v). encode_string k @ encode_value v) m) @ r) = Inr (acc @ m, r)"
  using assms
proof (induction m arbitrary: acc)
  case (Cons p m)
  obtain k v where p: "p = (k, v)"
    by (cases p)
  have sorted: "bt_sorted (acc @ [(k, v)])"
    using Cons.prems(3) by (auto simp: p sorted_wrt_append)
  then have new: "\<not> bt_contains k acc"
    by (force simp: bt_contains_def sorted_wrt_append map_of_eq_None_iff)
  have "decode_map T (length m) (acc @ [(k, v)])
      (concat (map (\<lambda>(k, v). encode_string k @ encode_value v) m) @ r) = Inr ((acc @ [(k, v)]) @ m, r)"
    by (rule Cons.IH) (use Cons.prems in \<open>auto simp: p\<close>)
  then show ?case
    using Cons.prems(1) [of k v] Cons.prems(2) new
    by (simp add: p codec_simps bt_insert_last [OF sorted])
qed simp

lemma decode_value_encode: "nrf_wf T v \<Longrightarrow> decode_value T (encode_value v @ r) = Inr (v, r)"
proof (induction v arbitrary: r)
  case (NBool b)
  then show ?case by (cases b) simp_all
next
  case (NInt i)
  have "read_exact 8 (be_bytes 8 i @ r) = Inr (be_bytes 8 i, r)"
    using read_exact_prefix [of "be_bytes 8 i" r] by simp
  then show ?case
    by (simp add: codec_simps)
next
  case (NArray arr)
  then have "decode_array T (length arr) (concat (map encode_value arr) @ r) = Inr (arr, r)"
    by (intro decode_array_encode) (auto simp: list_all_iff)
  with NArray.prems show ?case
    by (simp add: codec_simps unat_u32_len)
next
  case (NMap m)
  have "decode_map T (length m) [] (concat (map (\<lambda>(k, v). encode_string k @ encode_value v) m) @ r)
    = Inr ([] @ m, r)"
  proof (rule decode_map_encode)
    fix k v r
    assume "(k, v) \<in> set m"
    then show "decode_value T (encode_value v @ r) = Inr (v, r)"
      using NMap.prems by (intro NMap.IH) (auto simp: list_all_iff)
  qed (use NMap.prems in \<open>auto simp: list_all_iff\<close>)
  with NMap.prems show ?case
    by (simp add: codec_simps unat_u32_len)
qed (auto simp: codec_simps unat_u32_len)

interpretation nrf_codec: codec encode_value "decode_value T" "nrf_wf T" for T
  by unfold_locales (rule decode_value_encode)

lemma decode_from_slice_magic: "decode_from_slice T (MAGIC @ r) =
  and_then (decode_value T r) (\<lambda>(v, r'). if r' \<noteq> [] then Inl TrailingData else Inr v)"
  by (simp add: decode_from_slice_def read_exact_def MAGIC_def)

lemma decode_encode_to_vec: "nrf_wf T v \<Longrightarrow> decode_from_slice T (encode_to_vec v) = Inr v"
  by (simp add: encode_to_vec_def decode_from_slice_magic nrf_codec.dec_enc_exact)

section \<open>Every decoded value is well formed\<close>

lemma unat_u32_bound: "unat (n :: u32) < 2 ^ 32"
  using unsigned_less [of n] by simp

lemma read_exact_u32: "read_exact (unat (n :: u32)) bs = Inr (a, r) \<Longrightarrow> length a < 2 ^ 32"
  using unat_u32_bound [of n] by (auto dest: read_exact_append)

lemma decode_string_str: "decode_string T bs = Inr (s, r) \<Longrightarrow> nrf_str T s"
proof -
  assume "decode_string T bs = Inr (s, r)"
  then obtain len r1 buf where "read_exact (unat (len :: u32)) r1 = Inr (buf, r)" "from_utf8 buf = Some s"
    "\<not> contains_bom s" "nfc T s = s"
    by (auto simp: decode_string_def result_simps split: if_split_asm)
  moreover from this have "length s = unat len"
    by (auto simp: from_utf8_Some_iff dest: read_exact_append)
  ultimately show ?thesis
    using unat_u32_bound [of len] by (simp add: nrf_str_def from_utf8_Some_iff)
qed

lemma bt_insert_all: "list_all P m \<Longrightarrow> P (k, v) \<Longrightarrow> list_all P (bt_insert k v m)"
  by (induction k v m rule: bt_insert.induct) auto

lemma length_bt_insert: "length (bt_insert k v m) \<le> Suc (length m)"
  by (induction k v m rule: bt_insert.induct) auto

lemma decode_wf_step:
  "decode_value T bs = Inr (v, r) \<Longrightarrow> nrf_wf T v"
  "decode_array T n bs = Inr (vs, r) \<Longrightarrow> length vs = n \<and> list_all (nrf_wf T) vs"
  "decode_map T n m bs = Inr (m', r) \<Longrightarrow> bt_sorted m \<Longrightarrow>
     list_all (\<lambda>(k, v). nrf_str T k \<and> nrf_wf T v) m \<Longrightarrow>
     length m' \<le> length m + n \<and> bt_sorted m' \<and> list_all (\<lambda>(k, v). nrf_str T k \<and> nrf_wf T v) m'"
proof (induction T bs and T n bs and T n m bs arbitrary: v r and vs r and m' r
    rule: decode_value_decode_array_decode_map.induct)
  case (2 T tag bs)
  have arr: "nrf_wf T (NArray vs)" if "tag = 6"
    "decode_varint32 bs = Inr (a, b)" "decode_array T (unat a) b = Inr (vs, r')" for a b vs r'
  proof -
    have "length vs = unat a \<and> list_all (nrf_wf T) vs"
      by (rule "2.IH"(1) [of "(a, b)" a b]) (use that in simp_all)
    then show ?thesis
      using unat_u32_bound [of a] by simp
  qed
  have map: "nrf_wf T (NMap m')" if "tag = 7"
    "decode_varint32 bs = Inr (a, b)" "decode_map T (unat a) [] b = Inr (m', r')" for a b m' r'
  proof -
    have "length m' \<le> length ([] :: (string \<times> nrf) list) + unat a \<and> bt_sorted m'
        \<and> list_all (\<lambda>(k, v). nrf_str T k \<and> nrf_wf T v) m'"
      by (rule "2.IH"(2) [of "(a, b)" a b]) (use that in simp_all)
    then show ?thesis
      using unat_u32_bound [of a] by simp
  qed
  show ?case
    using "2.prems" arr map
    by (auto simp: result_simps simp del: nrf_wf.simps(3,4) split: if_split_asm
        dest: decode_string_str read_exact_u32)
next
  case (6 T n m bs)
  from "6.prems" obtain kv r1 where d: "decode_value T bs = Inr (kv, r1)"
    by (auto simp: result_simps)
  with "6.prems" obtain key v r2 where
    k: "decode_value T bs = Inr (NString key, r1)" "\<not> bt_contains key m" and
    v: "decode_value T r1 = Inr (v, r2)" and
    m: "decode_map T n (bt_insert key v m) r2 = Inr (m', r)"
    by (cases kv) (auto simp: result_simps split: if_split_asm)
  have "nrf_str T key"
    using "6.IH"(1) [OF k(1)] by simp
  moreover have "nrf_wf T v"
    by (rule "6.IH"(2)) (use k v in simp_all)
  ultimately have all: "list_all (\<lambda>(k, v). nrf_str T k \<and> nrf_wf T v) (bt_insert key v m)"
    using "6.prems"(3) by (intro bt_insert_all) simp_all
  have "length m' \<le> length (bt_insert key v m) + n \<and> bt_sorted m'
      \<and> list_all (\<lambda>(k, v). nrf_str T k \<and> nrf_wf T v) m'"
    by (rule "6.IH"(3)) (use k v m all "6.prems"(2) in \<open>simp_all add: bt_insert_sorted\<close>)
  then show ?case
    using length_bt_insert [of key v m] by simp
qed (auto simp: result_simps)

lemma decode_from_slice_wf: "decode_from_slice T bs = Inr v \<Longrightarrow> nrf_wf T v"
  by (auto simp: decode_from_slice_def result_simps split: if_split_asm dest: decode_wf_step(1))

end
