(* ===== verification/Nrf_Json.thy ===== *)
theory Nrf_Json
  imports Nrf_Codec
begin

text \<open>
  From JSON to canonical bytes (\<open>crates/ubl_nrf/src/nrf.rs\<close>): the strict conversion
  \<open>json_to_nrf\<close>, which rejects every violation of the canonical rules with its path, the
  lenient \<open>normalize_for_input\<close>, the set normal form of arrays, and content identifiers.
  The hash function BLAKE3 is an argument.
\<close>

datatype rho_kind =
    NumberNotI64
  | RhoBOM
  | RhoControl
  | RhoNotNFC
  | KeyBOM
  | KeyControl
  | KeyNotNFC
  | KeyDuplicate string
  | KeyEmpty

datatype rho_error = Rho string rho_kind

section \<open>Paths\<close>

definition is_path_char :: "char \<Rightarrow> bool" where
  "is_path_char c \<longleftrightarrow>
     is_digit c \<or> (65 \<le> (of_char c :: nat) \<and> of_char c \<le> (90 :: nat))
     \<or> (97 \<le> (of_char c :: nat) \<and> of_char c \<le> (122 :: nat)) \<or> c = CHR ''_'' \<or> c = CHR ''@''"

definition path_for_key :: "text_env \<Rightarrow> string \<Rightarrow> string \<Rightarrow> string" where
  "path_for_key T path key =
     (if list_all is_path_char key then path @ ''.'' @ key
      else path @ ''['' @ debug_str T key @ '']'')"

definition path_for_index :: "string \<Rightarrow> nat \<Rightarrow> string" where
  "path_for_index path idx = path @ ''['' @ show_nat idx @ '']''"

section \<open>Strict conversion\<close>

fun
  json_to_nrf_with_path :: "text_env \<Rightarrow> json \<Rightarrow> string \<Rightarrow> rho_error + nrf" and
  json_arr_to_nrf :: "text_env \<Rightarrow> json list \<Rightarrow> string \<Rightarrow> nat \<Rightarrow> rho_error + nrf list" and
  json_obj_to_nrf :: "text_env \<Rightarrow> json_obj \<Rightarrow> string \<Rightarrow> (string \<times> nrf) list
    \<Rightarrow> rho_error + (string \<times> nrf) list" where
  "json_to_nrf_with_path T JNull path = Inr NNull"
| "json_to_nrf_with_path T (JBool b) path = Inr (NBool b)"
| "json_to_nrf_with_path T (JNum n) path = ok_or (Rho path NumberNotI64) (map_option NInt (num_as_i64 n))"
| "json_to_nrf_with_path T (JStr s) path =
     (if contains_bom s then Inl (Rho path RhoBOM)
      else if contains_control s then Inl (Rho path RhoControl)
      else if nfc T s \<noteq> s then Inl (Rho path RhoNotNFC)
      else Inr (NString s))"
| "json_to_nrf_with_path T (JArr arr) path = map_ok NArray (json_arr_to_nrf T arr path 0)"
| "json_to_nrf_with_path T (JObj m) path = map_ok NMap (json_obj_to_nrf T m path [])"
| "json_arr_to_nrf T [] path idx = Inr []"
| "json_arr_to_nrf T (v # vs) path idx =
     and_then (json_to_nrf_with_path T v (path_for_index path idx)) (\<lambda>x.
     and_then (json_arr_to_nrf T vs path (Suc idx)) (\<lambda>xs. Inr (x # xs)))"
| "json_obj_to_nrf T [] path bt = Inr bt"
| "json_obj_to_nrf T ((k, v) # m) path bt =
     (let key_path = path_for_key T path k in
      if contains_bom k then Inl (Rho key_path KeyBOM)
      else if contains_control k then Inl (Rho key_path KeyControl)
      else if nfc T k \<noteq> k then Inl (Rho key_path KeyNotNFC)
      else if is_null v then json_obj_to_nrf T m path bt
      else and_then (json_to_nrf_with_path T v key_path) (\<lambda>x.
        if bt_contains k bt then Inl (Rho path (KeyDuplicate k))
        else json_obj_to_nrf T m path (bt_insert k x bt)))"

definition json_to_nrf :: "text_env \<Rightarrow> json \<Rightarrow> rho_error + nrf" where
  "json_to_nrf T v = json_to_nrf_with_path T v ''body''"

definition to_nrf1_bytes :: "text_env \<Rightarrow> json \<Rightarrow> rho_error + u8 list" where
  "to_nrf1_bytes T j = map_ok encode_to_vec (json_to_nrf T j)"

definition cid_from_nrf_bytes :: "(u8 list \<Rightarrow> u8 list) \<Rightarrow> u8 list \<Rightarrow> string" where
  "cid_from_nrf_bytes blake3 bytes = ''b3:'' @ hex_encode (blake3 bytes)"

definition compute_cid :: "(u8 list \<Rightarrow> u8 list) \<Rightarrow> u8 list \<Rightarrow> string" where
  "compute_cid blake3 bytes = cid_from_nrf_bytes blake3 bytes"

section \<open>Normalisation of external input\<close>

definition contains_control_char :: "string \<Rightarrow> bool" where
  "contains_control_char s \<longleftrightarrow> contains_control s"

definition normalize_string_scalar :: "text_env \<Rightarrow> string \<Rightarrow> rho_kind + string" where
  "normalize_string_scalar T s =
     (let without_bom = strip_bom s in
      if contains_control_char without_bom then Inl RhoControl
      else Inr (nfc T without_bom))"

definition normalize_key_scalar :: "text_env \<Rightarrow> string \<Rightarrow> rho_kind + string" where
  "normalize_key_scalar T k =
     and_then (normalize_string_scalar T k) (\<lambda>normalized.
       if normalized = [] then Inl KeyEmpty else Inr normalized)"

definition ascii_lower :: "char \<Rightarrow> char" where
  "ascii_lower c = (if 65 \<le> (of_char c :: nat) \<and> of_char c \<le> (90 :: nat)
     then char_of (of_char c + 32 :: nat) else c)"

definition ends_with :: "string \<Rightarrow> string \<Rightarrow> bool" where
  "ends_with s t \<longleftrightarrow> length t \<le> length s \<and> drop (length s - length t) s = t"

definition is_timestamp_key :: "string \<Rightarrow> bool" where
  "is_timestamp_key key \<longleftrightarrow>
     (let key = map ascii_lower key in
      ends_with key ''_at'' \<or> ends_with key ''_time'' \<or> ends_with key ''created''
      \<or> ends_with key ''expires'' \<or> ends_with key ''issued'')"

definition is_set_like_key :: "string \<Rightarrow> bool" where
  "is_set_like_key key \<longleftrightarrow>
     key = ''chip_types'' \<or> key = ''policy_refs'' \<or> key = ''evidence_cids'' \<or> key = ''audience''"

definition trim_zeros :: "string \<Rightarrow> string" where
  "trim_zeros digits = rev (dropWhile (\<lambda>c. c = CHR ''0'') (rev digits))"

definition normalize_timestamp :: "text_env \<Rightarrow> string \<Rightarrow> string option" where
  "normalize_timestamp T s =
     (case rfc3339_utc T s of
        None \<Rightarrow> None
      | Some (base, nanos) \<Rightarrow>
          if nanos = 0 then Some (base @ ''Z'')
          else Some (base @ ''.'' @ trim_zeros (pad_zero 9 (show_nat nanos)) @ ''Z''))"

fun dedup_by_key :: "('a \<times> 'b) list \<Rightarrow> ('a \<times> 'b) list" where
  "dedup_by_key (x # y # xs) =
     (if fst x = fst y then dedup_by_key (x # xs) else x # dedup_by_key (y # xs))"
| "dedup_by_key xs = xs"

fun set_pairs :: "text_env \<Rightarrow> json list \<Rightarrow> string \<Rightarrow> nat \<Rightarrow> rho_error + (u8 list \<times> json) list" where
  "set_pairs T [] path idx = Inr []"
| "set_pairs T (item # items) path idx =
     and_then (json_to_nrf_with_path T item (path_for_index path idx)) (\<lambda>v.
     and_then (set_pairs T items path (Suc idx)) (\<lambda>ps. Inr ((encode_to_vec v, item) # ps)))"

definition normalize_as_set_with_path :: "text_env \<Rightarrow> json list \<Rightarrow> string \<Rightarrow> rho_error + json list" where
  "normalize_as_set_with_path T items path =
     map_ok (\<lambda>ps. map snd (dedup_by_key (sort_key fst ps))) (set_pairs T items path 0)"

definition normalize_as_set :: "text_env \<Rightarrow> json list \<Rightarrow> rho_error + json list" where
  "normalize_as_set T items = normalize_as_set_with_path T items ''body_set''"

fun
  normalize_value_for_input :: "text_env \<Rightarrow> json \<Rightarrow> string option \<Rightarrow> string \<Rightarrow> rho_error + json" and
  normalize_arr_for_input :: "text_env \<Rightarrow> json list \<Rightarrow> string \<Rightarrow> nat \<Rightarrow> rho_error + json list" and
  normalize_obj_for_input :: "text_env \<Rightarrow> json_obj \<Rightarrow> string \<Rightarrow> json_obj \<Rightarrow> rho_error + json_obj" where
  "normalize_value_for_input T (JStr s) parent path =
     and_then (map_err (Rho path) (normalize_string_scalar T s)) (\<lambda>normalized.
       Inr (JStr (case parent of
           Some k \<Rightarrow> if is_timestamp_key k
             then (case normalize_timestamp T normalized of Some ts \<Rightarrow> ts | None \<Rightarrow> normalized)
             else normalized
         | None \<Rightarrow> normalized)))"
| "normalize_value_for_input T (JArr arr) parent path =
     and_then (normalize_arr_for_input T arr path 0) (\<lambda>out.
       case parent of
         Some k \<Rightarrow> if is_set_like_key k then map_ok JArr (normalize_as_set_with_path T out path)
                   else Inr (JArr out)
       | None \<Rightarrow> Inr (JArr out))"
| "normalize_value_for_input T (JObj m) parent path =
     map_ok JObj (normalize_obj_for_input T m path [])"
| "normalize_value_for_input T v parent path = Inr v"
| "normalize_arr_for_input T [] path idx = Inr []"
| "normalize_arr_for_input T (v # vs) path idx =
     and_then (normalize_value_for_input T v None (path_for_index path idx)) (\<lambda>x.
     and_then (normalize_arr_for_input T vs path (Suc idx)) (\<lambda>xs. Inr (x # xs)))"
| "normalize_obj_for_input T [] path out = Inr out"
| "normalize_obj_for_input T ((k, v) # m) path out =
     (let key_path = path_for_key T path k in
      and_then (map_err (Rho key_path) (normalize_key_scalar T k)) (\<lambda>nk.
      and_then (normalize_value_for_input T v (Some nk) key_path) (\<lambda>nv.
        if is_null nv then normalize_obj_for_input T m path out
        else if map_of out nk \<noteq> None then Inl (Rho path (KeyDuplicate nk))
        else normalize_obj_for_input T m path (obj_insert nk nv out))))"

definition normalize_for_input :: "text_env \<Rightarrow> json \<Rightarrow> rho_error + json" where
  "normalize_for_input T v = normalize_value_for_input T v None ''body''"

section \<open>What a successful conversion says\<close>

definition key_ok :: "text_env \<Rightarrow> string \<Rightarrow> bool" where
  "key_ok T k \<longleftrightarrow> \<not> contains_bom k \<and> \<not> contains_control k \<and> nfc T k = k"

text \<open>The path only decorates errors: a conversion that succeeds does so under every path.\<close>

lemma json_to_nrf_path:
  "json_to_nrf_with_path T j p = Inr v \<Longrightarrow> json_to_nrf_with_path T j p' = Inr v"
  "json_arr_to_nrf T js p i = Inr vs \<Longrightarrow> json_arr_to_nrf T js p' i' = Inr vs"
  "json_obj_to_nrf T m p bt = Inr bt' \<Longrightarrow> json_obj_to_nrf T m p' bt = Inr bt'"
proof (induction T j p and T js p i and T m p bt arbitrary: v p' and vs p' i' and bt' p'
    rule: json_to_nrf_with_path_json_arr_to_nrf_json_obj_to_nrf.induct)
  case (5 T arr path)
  from "5.prems" obtain vs where vs: "json_arr_to_nrf T arr path 0 = Inr vs" "v = NArray vs"
    by (auto simp: result_simps)
  from "5.IH" [OF vs(1)] show ?case
    by (simp add: vs(2))
next
  case (6 T m path)
  from "6.prems" obtain bt where bt: "json_obj_to_nrf T m path [] = Inr bt" "v = NMap bt"
    by (auto simp: result_simps)
  from "6.IH" [OF bt(1)] show ?case
    by (simp add: bt(2))
next
  case (8 T v vs path idx ws)
  from "8.prems" obtain x xs where x: "json_to_nrf_with_path T v (path_for_index path idx) = Inr x"
    "json_arr_to_nrf T vs path (Suc idx) = Inr xs" "ws = x # xs"
    by (auto simp: result_simps)
  from "8.IH"(1) [OF x(1)] "8.IH"(2) [OF x(1) x(2)] show ?case
    by (simp add: x(3))
next
  case (10 T k v m path bt)
  have ok: "\<not> contains_bom k" "\<not> contains_control k" "nfc T k = k"
    using "10.prems" by (auto simp: Let_def split: if_split_asm)
  show ?case
  proof (cases "is_null v")
    case True
    have "json_obj_to_nrf T m p' bt = Inr bt'"
      by (rule "10.IH"(1) [OF refl]) (use "10.prems" ok True in \<open>simp_all add: Let_def\<close>)
    with ok True show ?thesis
      by (simp add: Let_def)
  next
    case False
    with "10.prems" ok obtain x where x: "json_to_nrf_with_path T v (path_for_key T path k) = Inr x"
      "\<not> bt_contains k bt" "json_obj_to_nrf T m path (bt_insert k x bt) = Inr bt'"
      by (auto simp: Let_def result_simps split: if_split_asm)
    have "json_to_nrf_with_path T v (path_for_key T p' k) = Inr x"
      by (rule "10.IH"(2) [OF refl]) (use x ok False in simp_all)
    moreover have "json_obj_to_nrf T m p' (bt_insert k x bt) = Inr bt'"
      by (rule "10.IH"(3) [OF refl]) (use x ok False in simp_all)
    ultimately show ?thesis
      using ok False x(2) by (simp add: Let_def)
  qed
qed (auto simp: result_simps split: if_split_asm)

declare json_obj_to_nrf.simps(2) [simp del]

definition nrf_of_json :: "text_env \<Rightarrow> json \<Rightarrow> nrf option" where
  "nrf_of_json T j = ok_opt (json_to_nrf T j)"

lemma nrf_of_json_Some: "nrf_of_json T j = Some v \<longleftrightarrow> json_to_nrf_with_path T j p = Inr v"
  unfolding nrf_of_json_def json_to_nrf_def
  by (metis ok_opt.simps json_to_nrf_path(1) option.discI option.inject sum.exhaust)

lemma json_obj_to_nrf_Cons:
  "json_obj_to_nrf T ((k, v) # m) p bt = Inr bt' \<longleftrightarrow> key_ok T k \<and>
    (if is_null v then json_obj_to_nrf T m p bt = Inr bt'
     else \<exists>x. nrf_of_json T v = Some x \<and> \<not> bt_contains k bt
       \<and> json_obj_to_nrf T m p (bt_insert k x bt) = Inr bt')"
  by (auto simp: json_obj_to_nrf.simps(2) Let_def key_ok_def result_simps
      nrf_of_json_Some [of T v _ "path_for_key T p k"])

text \<open>The map a successful conversion of an object denotes.\<close>

definition obj_image :: "text_env \<Rightarrow> json_obj \<Rightarrow> string \<Rightarrow> nrf option" where
  "obj_image T m k = (case map_of m k of
     None \<Rightarrow> None | Some v \<Rightarrow> if is_null v then None else nrf_of_json T v)"

lemma json_obj_to_nrf_sound:
  "json_obj_to_nrf T m p bt = Inr bt' \<Longrightarrow> bt_sorted bt \<Longrightarrow> distinct (map fst m) \<Longrightarrow>
   bt_sorted bt' \<and> list_all (\<lambda>(k, v). key_ok T k \<and> (is_null v \<or> nrf_of_json T v \<noteq> None)) m
   \<and> map_of bt' = map_of bt ++ obj_image T m"
proof (induction m arbitrary: bt)
  case Nil
  then show ?case
    by (auto simp: obj_image_def map_add_def)
next
  case (Cons q m)
  obtain k v where q: "q = (k, v)"
    by (cases q)
  have k: "k \<notin> fst ` set m" "obj_image T m k = None"
    using Cons.prems(3) by (auto simp: q obj_image_def split: option.split dest!: map_of_SomeD
        intro: rev_image_eqI)
  show ?case
  proof (cases "is_null v")
    case True
    have "obj_image T (q # m) = obj_image T m"
      using k(2) True by (auto simp: q obj_image_def fun_eq_iff)
    with Cons.IH [of bt] Cons.prems True show ?thesis
      by (simp add: q json_obj_to_nrf_Cons)
  next
    case False
    then obtain x where x: "nrf_of_json T v = Some x"
      "json_obj_to_nrf T m p (bt_insert k x bt) = Inr bt'" "key_ok T k"
      using Cons.prems(1) by (auto simp: q json_obj_to_nrf_Cons)
    have "map_of bt ++ obj_image T (q # m) = (map_of bt)(k \<mapsto> x) ++ obj_image T m"
      using k(2) x(1) False by (auto simp: q obj_image_def map_add_def fun_eq_iff split: option.split)
    with Cons.IH [OF x(2)] Cons.prems x False show ?thesis
      by (simp add: q bt_insert_sorted fun_upd_def)
  qed
qed

lemma json_obj_to_nrf_complete:
  "list_all (\<lambda>(k, v). key_ok T k \<and> (is_null v \<or> nrf_of_json T v \<noteq> None)) m \<Longrightarrow>
   distinct (map fst m) \<Longrightarrow> \<forall>k \<in> fst ` set m. \<not> bt_contains k bt \<Longrightarrow>
   \<exists>bt'. json_obj_to_nrf T m p bt = Inr bt'"
proof (induction m arbitrary: bt)
  case (Cons q m)
  obtain k v where q: "q = (k, v)"
    by (cases q)
  have "\<forall>k' \<in> fst ` set m. \<not> bt_contains k' (bt_insert k x bt)" for x
    using Cons.prems(2,3) by (auto simp: q bt_contains_def split: if_split_asm)
  with Cons.IH Cons.prems show ?case
    by (cases "is_null v") (auto simp: q json_obj_to_nrf_Cons)
qed simp

section \<open>Equal JSON values have equal canonical forms\<close>

lemma json_eq_map_of:
  assumes "json_eq (JObj m) (JObj n)" "map_of m k = Some v"
  shows "\<exists>w. map_of n k = Some w \<and> json_eq v w"
proof -
  have "(k, v) \<in> set m"
    using assms(2) by (rule map_of_SomeD)
  with assms(1) show ?thesis
    by (auto simp: list_all_iff split: option.split_asm dest!: bspec)
qed

lemma json_eq_keys:
  assumes "json_eq (JObj m) (JObj n)" "distinct (map fst m)" "distinct (map fst n)"
  shows "fst ` set m = fst ` set n"
proof (rule card_subset_eq)
  show "fst ` set m \<subseteq> fst ` set n"
  proof
    fix k
    assume "k \<in> fst ` set m"
    then obtain v where "map_of m k = Some v"
      by (metis map_of_eq_None_iff not_None_eq)
    then show "k \<in> fst ` set n"
      using json_eq_map_of [OF assms(1)] by (metis map_of_eq_None_iff option.discI)
  qed
  show "card (fst ` set m) = card (fst ` set n)"
    using assms distinct_card [of "map fst m"] distinct_card [of "map fst n"] by simp
qed simp

lemma json_eq_is_null: "json_eq v w \<Longrightarrow> is_null v \<longleftrightarrow> is_null w"
  by (cases v; cases w) auto

lemma json_eq_arr_nrf:
  assumes "list_all2 (\<lambda>v w. \<forall>x. nrf_of_json T v = Some x \<longrightarrow> nrf_of_json T w = Some x) vs ws"
    and "json_arr_to_nrf T vs p i = Inr xs"
  shows "json_arr_to_nrf T ws p i = Inr xs"
  using assms
proof (induction vs ws arbitrary: i xs rule: list_all2_induct)
  case (Cons v vs w ws)
  from Cons.prems obtain y ys where y: "json_to_nrf_with_path T v (path_for_index p i) = Inr y"
    "json_arr_to_nrf T vs p (Suc i) = Inr ys" "xs = y # ys"
    by (auto simp: result_simps)
  have "json_to_nrf_with_path T w (path_for_index p i) = Inr y"
    using Cons.hyps y(1) nrf_of_json_Some by metis
  with Cons.IH [OF y(2)] y(3) show ?case
    by simp
qed simp

lemma json_eq_obj_nrf:
  assumes eq: "json_eq (JObj m) (JObj n)" and d: "distinct (map fst m)" "distinct (map fst n)"
    and IH: "\<And>k v w x. map_of m k = Some v \<Longrightarrow> map_of n k = Some w \<Longrightarrow>
      nrf_of_json T v = Some x \<Longrightarrow> nrf_of_json T w = Some x"
    and m: "json_obj_to_nrf T m p [] = Inr bt"
  shows "json_obj_to_nrf T n p [] = Inr bt"
proof -
  note M = json_obj_to_nrf_sound [OF m _ d(1), simplified]
  have kv: "key_ok T k \<and> (is_null v \<or> (\<exists>x. nrf_of_json T v = Some x))" if "map_of m k = Some v" for k v
    using M that by (auto simp: list_all_iff dest!: map_of_SomeD)
  have v: "\<exists>v. map_of m k = Some v \<and> json_eq v w" if "map_of n k = Some w" for k w
    using that json_eq_keys [OF eq d] json_eq_map_of [OF eq]
    by (metis map_of_eq_None_iff not_None_eq option.inject)
  have ok: "list_all (\<lambda>(k, v). key_ok T k \<and> (is_null v \<or> nrf_of_json T v \<noteq> None)) n"
  proof (clarsimp simp: list_all_iff)
    fix k w
    assume "(k, w) \<in> set n"
    then have w: "map_of n k = Some w"
      using d(2) by simp
    then obtain v where "map_of m k = Some v" "json_eq v w"
      using v by blast
    with kv w IH show "key_ok T k \<and> (is_null w \<or> (\<exists>y. nrf_of_json T w = Some y))"
      by (metis json_eq_is_null)
  qed
  then obtain bt' where bt': "json_obj_to_nrf T n p [] = Inr bt'"
    using json_obj_to_nrf_complete [OF ok d(2), of "[]"] by (auto simp: bt_contains_def)
  note N = json_obj_to_nrf_sound [OF bt' _ d(2), simplified]
  have "obj_image T n k = obj_image T m k" for k
  proof (cases "map_of n k")
    case None
    then have "map_of m k = None"
      using json_eq_keys [OF eq d] by (simp add: map_of_eq_None_iff)
    with None show ?thesis
      by (simp add: obj_image_def)
  next
    case (Some w)
    then obtain v' where v': "map_of m k = Some v'" "json_eq v' w"
      using v by blast
    with kv have "is_null v' \<or> (\<exists>x. nrf_of_json T v' = Some x)"
      by blast
    with Some v' IH [OF v'(1) Some] show ?thesis
      by (auto simp: obj_image_def json_eq_is_null)
  qed
  then have "map_of bt' = map_of bt"
    using M N by (simp add: fun_eq_iff)
  with M N have "bt' = bt"
    by (intro bt_sorted_unique) simp_all
  with bt' show ?thesis
    by simp
qed

lemma json_eq_nrf:
  "json_eq j j' \<Longrightarrow> json_wf j \<Longrightarrow> json_wf j' \<Longrightarrow> nrf_of_json T j = Some v \<Longrightarrow>
   nrf_of_json T j' = Some v"
proof (induction j j' arbitrary: v rule: json_eq.induct)
  case (3 a b)
  then show ?case
    by (cases a; cases b) (auto simp: nrf_of_json_def json_to_nrf_def)
next
  case (5 xs ys)
  then obtain ws where ws: "json_arr_to_nrf T xs ''body'' 0 = Inr ws" "v = NArray ws"
    by (auto simp: nrf_of_json_Some [of T _ _ "''body''"] result_simps)
  have "nrf_of_json T b = Some x" if "(a, b) \<in> set (zip xs ys)" "nrf_of_json T a = Some x" for a b x
    using "5.prems" that
    by (intro "5.IH" [OF that(1) refl]) (auto simp: list_all_iff dest: set_zip_leftD set_zip_rightD)
  then have "list_all2 (\<lambda>v w. \<forall>x. nrf_of_json T v = Some x \<longrightarrow> nrf_of_json T w = Some x) xs ys"
    using "5.prems"(1) by (auto simp: list_all2_iff)
  from json_eq_arr_nrf [OF this ws(1)] ws(2) show ?case
    by (simp add: nrf_of_json_Some [of T _ _ "''body''"])
next
  case (6 m n)
  then obtain bt where bt: "json_obj_to_nrf T m ''body'' [] = Inr bt" "v = NMap bt"
    by (auto simp: nrf_of_json_Some [of T _ _ "''body''"] result_simps)
  have "json_obj_to_nrf T n ''body'' [] = Inr bt"
  proof (rule json_eq_obj_nrf [OF "6.prems"(1) _ _ _ bt(1)])
    fix k v w x
    assume k: "map_of m k = Some v" "map_of n k = Some w" "nrf_of_json T v = Some x"
    then have in_m: "(k, v) \<in> set m" and in_n: "(k, w) \<in> set n"
      by (auto dest: map_of_SomeD)
    have "json_eq v w"
      using json_eq_map_of [OF "6.prems"(1) k(1)] k(2) by simp
    with in_m in_n k show "nrf_of_json T w = Some x"
      using "6.prems"(2,3) by (intro "6.IH" [OF in_m refl k(2)]) (auto simp: list_all_iff)
  qed (use "6.prems" in auto)
  with bt(2) show ?case
    by (simp add: nrf_of_json_Some [of T _ _ "''body''"])
qed auto

section \<open>The result of a conversion is well formed\<close>

text \<open>Lengths that fit the \<open>u32\<close> counters of the binary format.\<close>

fun json_small :: "json \<Rightarrow> bool" where
  "json_small (JStr s) \<longleftrightarrow> length s < 2 ^ 32"
| "json_small (JArr xs) \<longleftrightarrow> length xs < 2 ^ 32 \<and> list_all json_small xs"
| "json_small (JObj m) \<longleftrightarrow>
     length m < 2 ^ 32 \<and> list_all (\<lambda>(k, v). length k < 2 ^ 32 \<and> json_small v) m"
| "json_small _ \<longleftrightarrow> True"

lemma json_arr_nrf_wf:
  "(\<And>v x. v \<in> set vs \<Longrightarrow> nrf_of_json T v = Some x \<Longrightarrow> nrf_wf T x) \<Longrightarrow>
   json_arr_to_nrf T vs p i = Inr xs \<Longrightarrow> length xs = length vs \<and> list_all (nrf_wf T) xs"
proof (induction vs arbitrary: i xs)
  case (Cons v vs)
  then obtain y ys where ys: "nrf_of_json T v = Some y" "json_arr_to_nrf T vs p (Suc i) = Inr ys"
    "xs = y # ys"
    by (auto simp: result_simps nrf_of_json_Some [symmetric])
  have "length ys = length vs \<and> list_all (nrf_wf T) ys"
    by (rule Cons.IH [OF _ ys(2)]) (use Cons.prems(1) in auto)
  with ys Cons.prems(1) [of v y] show ?case
    by simp
qed simp

lemma json_obj_nrf_wf:
  "(\<And>k v x. (k, v) \<in> set m \<Longrightarrow> nrf_of_json T v = Some x \<Longrightarrow> nrf_wf T x) \<Longrightarrow>
   list_all (\<lambda>(k, v). is_str k \<and> length k < 2 ^ 32) m \<Longrightarrow>
   list_all (\<lambda>(k, x). nrf_str T k \<and> nrf_wf T x) bt \<Longrightarrow> bt_sorted bt \<Longrightarrow>
   json_obj_to_nrf T m p bt = Inr bt' \<Longrightarrow>
   length bt' \<le> length bt + length m \<and> bt_sorted bt'
   \<and> list_all (\<lambda>(k, x). nrf_str T k \<and> nrf_wf T x) bt'"
proof (induction m arbitrary: bt)
  case (Cons q m)
  obtain k v where q: "q = (k, v)"
    by (cases q)
  show ?case
  proof (cases "is_null v")
    case True
    have "length bt' \<le> length bt + length m \<and> bt_sorted bt'
        \<and> list_all (\<lambda>(k, x). nrf_str T k \<and> nrf_wf T x) bt'"
      by (rule Cons.IH) (use Cons.prems True in \<open>auto simp: q json_obj_to_nrf_Cons\<close>)
    then show ?thesis
      by (simp add: q)
  next
    case False
    with Cons.prems(5) obtain x where x: "nrf_of_json T v = Some x" "key_ok T k"
      "json_obj_to_nrf T m p (bt_insert k x bt) = Inr bt'"
      by (auto simp: q json_obj_to_nrf_Cons)
    have "length bt' \<le> length (bt_insert k x bt) + length m \<and> bt_sorted bt'
        \<and> list_all (\<lambda>(k, x). nrf_str T k \<and> nrf_wf T x) bt'"
    proof (rule Cons.IH [OF _ _ _ _ x(3)])
      show "list_all (\<lambda>(k, x). nrf_str T k \<and> nrf_wf T x) (bt_insert k x bt)"
        using Cons.prems(1) [of k v x] Cons.prems(2,3) x(1,2)
        by (intro bt_insert_all) (auto simp: q nrf_str_def key_ok_def)
    qed (use Cons.prems in \<open>auto simp: q bt_insert_sorted\<close>)
    then show ?thesis
      using length_bt_insert [of k x bt] by (simp add: q)
  qed
qed simp

lemma json_nrf_wf:
  "json_wf j \<Longrightarrow> json_small j \<Longrightarrow> nrf_of_json T j = Some v \<Longrightarrow> nrf_wf T v"
proof (induction j arbitrary: v)
  case (JArr xs)
  then obtain ws where ws: "json_arr_to_nrf T xs ''body'' 0 = Inr ws" "v = NArray ws"
    by (auto simp: nrf_of_json_Some [of T _ _ "''body''"] result_simps)
  have "length ws = length xs \<and> list_all (nrf_wf T) ws"
    by (rule json_arr_nrf_wf [OF _ ws(1)]) (use JArr in \<open>auto simp: list_all_iff\<close>)
  with JArr.prems ws(2) show ?case
    by simp
next
  case (JObj m)
  then obtain bt where bt: "json_obj_to_nrf T m ''body'' [] = Inr bt" "v = NMap bt"
    by (auto simp: nrf_of_json_Some [of T _ _ "''body''"] result_simps)
  have "nrf_wf T x" if "(k, u) \<in> set m" "nrf_of_json T u = Some x" for k u x
    using JObj.prems that by (intro JObj.IH [OF that(1)]) (auto simp: list_all_iff)
  then have "length bt \<le> length ([] :: (string \<times> nrf) list) + length m \<and> bt_sorted bt
      \<and> list_all (\<lambda>(k, x). nrf_str T k \<and> nrf_wf T x) bt"
    by (rule json_obj_nrf_wf [OF _ _ _ _ bt(1)]) (use JObj.prems in \<open>auto simp: list_all_iff\<close>)
  with JObj.prems bt(2) show ?case
    by simp
qed (auto simp: nrf_of_json_Some [of T _ _ "''body''"] nrf_str_def result_simps split: if_split_asm)

lemma to_nrf1_bytes_iff: "to_nrf1_bytes T j = Inr b \<longleftrightarrow> (\<exists>v. nrf_of_json T j = Some v \<and> b = encode_to_vec v)"
  unfolding to_nrf1_bytes_def json_to_nrf_def
  by (simp add: result_simps nrf_of_json_Some [of T j _ "''body''"])

lemma json_to_nrf_Inr: "json_to_nrf T j = Inr v \<longleftrightarrow> nrf_of_json T j = Some v"
  by (simp add: json_to_nrf_def nrf_of_json_Some [of T j v "''body''"])

section \<open>Arrays as sets\<close>

lemma set_pairs_encode:
  "set_pairs T items p i = Inr ps \<Longrightarrow>
   map snd ps = items \<and> list_all (\<lambda>(b, j). to_nrf1_bytes T j = Inr b) ps"
proof (induction items arbitrary: i ps)
  case (Cons a items)
  then obtain x qs where qs: "json_to_nrf_with_path T a (path_for_index p i) = Inr x"
    "set_pairs T items p (Suc i) = Inr qs" "ps = (encode_to_vec x, a) # qs"
    by (auto simp: result_simps)
  then have "to_nrf1_bytes T a = Inr (encode_to_vec x)"
    by (auto simp: to_nrf1_bytes_iff nrf_of_json_Some [symmetric])
  with Cons.IH [OF qs(2)] qs(3) show ?case
    by simp
qed simp

lemma fst_dedup_by_key: "fst ` set (dedup_by_key ps) = fst ` set ps"
  by (induction ps rule: dedup_by_key.induct) (auto split: if_splits)

lemma set_dedup_by_key: "set (dedup_by_key ps) \<subseteq> set ps"
  by (induction ps rule: dedup_by_key.induct) (auto split: if_splits)

lemma dedup_by_key_strict:
  "sorted (map fst ps) \<Longrightarrow> sorted_wrt (<) (map fst (dedup_by_key ps))"
proof (induction ps rule: dedup_by_key.induct)
  case (1 x y xs)
  have "fst ` set (dedup_by_key (y # xs)) = fst ` set (y # xs)"
    by (rule fst_dedup_by_key)
  with 1 show ?case
    by (auto simp: image_iff dest!: equalityD1)
qed simp_all

lemma normalize_as_set_pairs:
  assumes "normalize_as_set_with_path T items p = Inr out"
  obtains ps where "list_all (\<lambda>(b, j). to_nrf1_bytes T j = Inr b) ps"
    and "map snd ps = items" and "out = map snd (dedup_by_key (sort_key fst ps))"
  using assms set_pairs_encode [of T items p 0]
  by (auto simp: normalize_as_set_with_path_def result_simps)

lemma map_snd_encoded:
  "list_all (\<lambda>(b, j). to_nrf1_bytes T j = Inr b) ps \<Longrightarrow>
   map (to_nrf1_bytes T) (map snd ps) = map Inr (map fst ps)"
  by (induction ps) auto

lemma list_all_dedup_sort:
  "list_all P ps \<Longrightarrow> list_all P (dedup_by_key (sort_key f ps))"
  using set_dedup_by_key [of "sort_key f ps"] by (auto simp: list_all_iff)

section \<open>Canonical bytes\<close>

text \<open>Text operations for which ASCII is already normalised, to run the model on examples.\<close>

definition plain_text :: text_env where
  "plain_text = \<lparr>nfc = (\<lambda>s. s), debug_str = (\<lambda>s. s), rfc3339_utc = (\<lambda>_. None)\<rparr>"

definition sample_json :: json where
  "sample_json = JObj [(''b'', JNum (N_Int 1)), (''n'', JNull), (''a'', JArr [JStr ''x'', JBool True])]"

text \<open>C1: Every JSON value that the strict conversion accepts survives the binary format: decoding
  the NRF bytes of an accepted value gives back exactly the converted value.\<close>

theorem to_nrf1_bytes_roundtrip:
  assumes "json_wf j" "json_small j" "to_nrf1_bytes T j = Inr b"
  shows "\<exists>v. json_to_nrf T j = Inr v \<and> decode_from_slice T b = Inr v"
proof -
  obtain v where v: "nrf_of_json T j = Some v" "b = encode_to_vec v"
    using assms(3) by (auto simp: to_nrf1_bytes_iff)
  have "decode_from_slice T b = Inr v"
    unfolding v(2) by (rule decode_encode_to_vec) (rule json_nrf_wf [OF assms(1,2) v(1)])
  with v(1) show ?thesis
    by (auto simp: json_to_nrf_Inr)
qed

theorem to_nrf1_bytes_roundtrip_witness:
  "\<exists>b v. to_nrf1_bytes plain_text sample_json = Inr b \<and> json_to_nrf plain_text sample_json = Inr v
     \<and> decode_from_slice plain_text b = Inr v"
proof -
  have "json_wf sample_json"
    by code_simp
  moreover have "json_small sample_json"
    by (simp add: sample_json_def)
  moreover have "to_nrf1_bytes plain_text sample_json = Inr (MAGIC
      @ [7, 2, 4, 1, 97, 6, 2, 4, 1, 120, 2, 4, 1, 98, 3, 0, 0, 0, 0, 0, 0, 0, 1])"
    by code_simp
  ultimately show ?thesis
    using to_nrf1_bytes_roundtrip [of sample_json plain_text] by blast
qed

text \<open>C2: The canonical bytes do not depend on how an object is written: two JSON values that
  are equal up to the order of object members have the same NRF bytes, hence the same content
  identifier.\<close>

theorem to_nrf1_bytes_canonical:
  assumes "json_wf j" "json_wf j'" "json_eq j j'" "to_nrf1_bytes T j = Inr b"
  shows "to_nrf1_bytes T j' = Inr b"
  using assms json_eq_nrf by (auto simp: to_nrf1_bytes_iff)

theorem to_nrf1_bytes_canonical_witness:
  "to_nrf1_bytes plain_text (JObj [(''a'', JArr [JStr ''x'', JBool True]), (''n'', JNull), (''b'', JNum (N_Int 1))])
   = to_nrf1_bytes plain_text sample_json"
proof -
  let ?j = "JObj [(''a'', JArr [JStr ''x'', JBool True]), (''n'', JNull), (''b'', JNum (N_Int 1))]"
  have "json_wf ?j" "json_wf sample_json" "json_eq sample_json ?j"
    by code_simp+
  moreover have "to_nrf1_bytes plain_text sample_json = Inr (MAGIC
      @ [7, 2, 4, 1, 97, 6, 2, 4, 1, 120, 2, 4, 1, 98, 3, 0, 0, 0, 0, 0, 0, 0, 1])"
    by code_simp
  ultimately show ?thesis
    using to_nrf1_bytes_canonical [of sample_json ?j plain_text] by simp
qed

lemma same_bytes_same_nrf:
  assumes "json_wf j" "json_small j" "json_wf j'" "json_small j'"
    and "to_nrf1_bytes T j = Inr b" "to_nrf1_bytes T j' = Inr b"
  shows "nrf_of_json T j = nrf_of_json T j'"
proof -
  obtain v v' where v: "nrf_of_json T j = Some v" "nrf_of_json T j' = Some v'"
    "encode_to_vec v = b" "encode_to_vec v' = b"
    using assms(5,6) by (auto simp: to_nrf1_bytes_iff)
  have "decode_from_slice T b = Inr v"
    using decode_encode_to_vec [OF json_nrf_wf [OF assms(1,2) v(1)]] v(3) by simp
  moreover have "decode_from_slice T b = Inr v'"
    using decode_encode_to_vec [OF json_nrf_wf [OF assms(3,4) v(2)]] v(4) by simp
  ultimately show ?thesis
    using v by simp
qed

lemma same_nrf_members:
  assumes "nrf_of_json T (JObj m) = Some v" "nrf_of_json T (JObj m') = Some v"
    and "distinct (map fst m)" "distinct (map fst m')"
  shows "obj_image T m = obj_image T m'"
proof -
  obtain bt where "v = NMap bt" "json_obj_to_nrf T m ''body'' [] = Inr bt" "json_obj_to_nrf T m' ''body'' [] = Inr bt"
    using assms(1,2) by (auto simp: nrf_of_json_Some [of T _ _ "''body''"] result_simps)
  then show ?thesis
    using json_obj_to_nrf_sound [of T m "''body''" "[]" bt] json_obj_to_nrf_sound [of T m' "''body''" "[]" bt] assms(3,4)
    by simp
qed

text \<open>C16: The canonical bytes determine the value: two accepted JSON values with the same NRF
  bytes convert to the same canonical value, so a content identifier collides only where the hash
  function does.\<close>

theorem to_nrf1_bytes_injective:
  assumes "json_wf j" "json_small j" "json_wf j'" "json_small j'"
    and "to_nrf1_bytes T j = Inr b" "to_nrf1_bytes T j' = Inr b"
  shows "json_to_nrf T j = json_to_nrf T j'"
proof -
  obtain v where "nrf_of_json T j = Some v"
    using assms(5) by (auto simp: to_nrf1_bytes_iff)
  with same_bytes_same_nrf [OF assms] have "json_to_nrf T j = Inr v" "json_to_nrf T j' = Inr v"
    by (simp_all add: json_to_nrf_Inr)
  then show ?thesis
    by simp
qed

theorem to_nrf1_bytes_injective_witness:
  "json_to_nrf plain_text (JObj [(''b'', JNull)]) = json_to_nrf plain_text (JObj [])"
proof -
  have "json_wf (JObj [(''b'', JNull)])" "json_small (JObj [(''b'', JNull)])"
    "json_wf (JObj [])" "json_small (JObj [])"
    by (code_simp, simp, code_simp, simp)
  moreover have "to_nrf1_bytes plain_text (JObj [(''b'', JNull)]) = Inr (MAGIC @ [7, 0])"
    "to_nrf1_bytes plain_text (JObj []) = Inr (MAGIC @ [7, 0])"
    by code_simp+
  ultimately show ?thesis
    by (rule to_nrf1_bytes_injective)
qed

text \<open>Normalising an array as a set gives its canonical listing: the result is strictly sorted
  by canonical bytes, so it has no duplicates, it holds exactly the canonical bytes of the
  input items, and every element of it is one of the input items.\<close>

theorem normalize_as_set_canonical:
  assumes "normalize_as_set T items = Inr out"
  shows "\<exists>bs. map (to_nrf1_bytes T) out = map Inr bs \<and> sorted_wrt (<) bs
    \<and> Inr ` set bs = to_nrf1_bytes T ` set items \<and> set out \<subseteq> set items"
proof -
  obtain ps where ps: "list_all (\<lambda>(b, j). to_nrf1_bytes T j = Inr b) ps" "map snd ps = items"
    "out = map snd (dedup_by_key (sort_key fst ps))"
    using assms unfolding normalize_as_set_def by (rule normalize_as_set_pairs)
  let ?qs = "dedup_by_key (sort_key fst ps)"
  have "map (to_nrf1_bytes T) out = map Inr (map fst ?qs)"
    unfolding ps(3) by (rule map_snd_encoded) (rule list_all_dedup_sort [OF ps(1)])
  moreover have "sorted_wrt (<) (map fst ?qs)"
    by (rule dedup_by_key_strict) simp
  moreover have "to_nrf1_bytes T ` set items = Inr ` set (map fst ?qs)"
  proof -
    have "to_nrf1_bytes T ` set items = set (map (to_nrf1_bytes T) (map snd ps))"
      by (simp only: ps(2) set_map)
    also have "\<dots> = Inr ` fst ` set ps"
      by (simp only: map_snd_encoded [OF ps(1)] set_map)
    also have "\<dots> = Inr ` set (map fst ?qs)"
      by (simp add: fst_dedup_by_key)
    finally show ?thesis .
  qed
  moreover have "set out \<subseteq> set items"
    using image_mono [OF set_dedup_by_key [of "sort_key fst ps"], of snd]
    by (simp add: ps(3) flip: ps(2))
  ultimately show ?thesis
    by (intro exI [of _ "map fst ?qs"]) simp
qed

theorem normalize_as_set_canonical_witness:
  "\<exists>out bs. normalize_as_set plain_text [JNum (N_Int 2), JNum (N_Int 1), JNum (N_Int 2)] = Inr out
     \<and> map (to_nrf1_bytes plain_text) out = map Inr bs \<and> sorted_wrt (<) bs"
proof -
  have "normalize_as_set plain_text [JNum (N_Int 2), JNum (N_Int 1), JNum (N_Int 2)]
      = Inr [JNum (N_Int 1), JNum (N_Int 2)]"
    by code_simp
  from this normalize_as_set_canonical [OF this] show ?thesis
    by blast
qed

section \<open>Normalised input is accepted\<close>

text \<open>What the code relies on of the text libraries: NFC is idempotent, leaves printable ASCII
  alone and introduces neither a byte order mark nor a control character; the formatted base of
  a timestamp is printable ASCII.\<close>

definition printable_ascii :: "string \<Rightarrow> bool" where
  "printable_ascii s \<longleftrightarrow> (\<forall>c \<in> set s. 32 \<le> (of_char c :: nat) \<and> of_char c < (127 :: nat))"

definition text_laws :: "text_env \<Rightarrow> bool" where
  "text_laws T \<longleftrightarrow>
     (\<forall>s. is_str s \<longrightarrow> nfc T (nfc T s) = nfc T s)
     \<and> (\<forall>s. is_str s \<and> \<not> contains_control s \<longrightarrow> \<not> contains_control (nfc T s))
     \<and> (\<forall>s. is_str s \<and> \<not> contains_bom s \<longrightarrow> \<not> contains_bom (nfc T s))
     \<and> (\<forall>s. printable_ascii s \<longrightarrow> nfc T s = s)
     \<and> (\<forall>s base nanos. rfc3339_utc T s = Some (base, nanos) \<longrightarrow> printable_ascii base)"

fun json_i64 :: "json \<Rightarrow> bool" where
  "json_i64 (JNum n) \<longleftrightarrow> num_is_i64 n"
| "json_i64 (JArr xs) \<longleftrightarrow> list_all json_i64 xs"
| "json_i64 (JObj m) \<longleftrightarrow> list_all (\<lambda>(k, v). json_i64 v) m"
| "json_i64 _ \<longleftrightarrow> True"

lemma contains_bom_high: "contains_bom s \<Longrightarrow> \<exists>c \<in> set s. of_char c = (0xEF :: nat)"
  by (induction s rule: contains_bom.induct) auto

lemma printable_ascii_clean:
  assumes "printable_ascii s"
  shows "\<not> contains_bom s" "\<not> contains_control s"
  using assms contains_bom_high [of s] by (fastforce simp: printable_ascii_def contains_control_def)+

lemma normalize_string_scalar_ok:
  assumes "text_laws T" "is_str s" "normalize_string_scalar T s = Inr s'"
  shows "key_ok T s'"
  using assms strip_bom_ok [OF assms(2)]
  by (auto simp: normalize_string_scalar_def text_laws_def contains_control_char_def Let_def
      key_ok_def split: if_split_asm)

lemma printable_trimmed: "printable_ascii (trim_zeros (pad_zero 9 (show_nat n)))"
proof -
  have "set (trim_zeros s) \<subseteq> set s" for s
    by (auto simp: trim_zeros_def dest: set_dropWhileD)
  moreover have "printable_ascii (pad_zero 9 (show_nat n))"
    using show_nat_digits [of n]
    by (auto simp: printable_ascii_def pad_zero_def is_digit_def list_all_iff)
  ultimately show ?thesis
    unfolding printable_ascii_def by blast
qed

lemma normalize_timestamp_ok:
  assumes "text_laws T" "normalize_timestamp T s = Some s'"
  shows "key_ok T s'"
proof -
  obtain base nanos where base: "rfc3339_utc T s = Some (base, nanos)"
    and s': "s' = base @ ''Z'' \<or> s' = base @ ''.'' @ trim_zeros (pad_zero 9 (show_nat nanos)) @ ''Z''"
    using assms(2) by (auto simp: normalize_timestamp_def split: option.split_asm if_split_asm)
  have "printable_ascii base"
    using assms(1) base unfolding text_laws_def by blast
  with s' have "printable_ascii s'"
    using printable_trimmed [of nanos] by (auto simp: printable_ascii_def)
  then show ?thesis
    using assms(1) printable_ascii_clean by (auto simp: key_ok_def text_laws_def)
qed

lemma json_arr_to_nrf_complete:
  "\<forall>v \<in> set vs. nrf_of_json T v \<noteq> None \<Longrightarrow> \<exists>xs. json_arr_to_nrf T vs p i = Inr xs"
proof (induction vs arbitrary: i)
  case (Cons v vs)
  then obtain x xs where "json_to_nrf_with_path T v (path_for_index p i) = Inr x"
    "json_arr_to_nrf T vs p (Suc i) = Inr xs"
    by (force simp: nrf_of_json_Some [of T v _ "path_for_index p i"])
  then show ?case
    by simp
qed simp

lemma nrf_of_json_arr: "(\<forall>v \<in> set vs. nrf_of_json T v \<noteq> None) \<Longrightarrow> nrf_of_json T (JArr vs) \<noteq> None"
  using json_arr_to_nrf_complete [of vs T "''body''" 0]
  by (auto simp: nrf_of_json_Some [of T "JArr vs" _ "''body''"])

definition accepted_obj :: "text_env \<Rightarrow> json_obj \<Rightarrow> bool" where
  "accepted_obj T m \<longleftrightarrow>
     distinct (map fst m) \<and> list_all (\<lambda>(k, v). key_ok T k \<and> nrf_of_json T v \<noteq> None) m"

lemma nrf_of_json_obj:
  assumes "accepted_obj T m"
  shows "nrf_of_json T (JObj m) \<noteq> None"
proof -
  have "list_all (\<lambda>(k, v). key_ok T k \<and> (is_null v \<or> nrf_of_json T v \<noteq> None)) m"
    using assms by (auto simp: accepted_obj_def elim: list.pred_mono_strong)
  then obtain bt where "json_obj_to_nrf T m ''body'' [] = Inr bt"
    using json_obj_to_nrf_complete [of T m "[]" "''body''"] assms
    by (auto simp: accepted_obj_def bt_contains_def)
  then show ?thesis
    by (simp add: nrf_of_json_Some [of T "JObj m" _ "''body''"])
qed

text \<open>Values whose keys are distinct and whose text is in canonical form, whatever their numbers.\<close>

fun text_ok :: "text_env \<Rightarrow> json \<Rightarrow> bool" where
  "text_ok T (JStr s) \<longleftrightarrow> key_ok T s"
| "text_ok T (JArr xs) \<longleftrightarrow> list_all (text_ok T) xs"
| "text_ok T (JObj m) \<longleftrightarrow> distinct (map fst m) \<and> list_all (\<lambda>(k, v). key_ok T k \<and> text_ok T v) m"
| "text_ok T _ \<longleftrightarrow> True"

lemma text_ok_insert:
  "text_ok T (JObj m) \<Longrightarrow> map_of m k = None \<Longrightarrow> key_ok T k \<Longrightarrow> text_ok T v \<Longrightarrow>
   text_ok T (JObj (obj_insert k v m))"
  by (simp add: map_of_eq_None_iff obj_insert_new)

lemma num_as_i64_ok: "num_is_i64 n \<Longrightarrow> \<exists>i. num_as_i64 n = Some i"
  by (cases n) auto

lemma normalize_input_text_ok:
  "text_laws T \<Longrightarrow> json_wf v \<Longrightarrow> normalize_value_for_input T v parent p = Inr v' \<Longrightarrow> text_ok T v'"
  "text_laws T \<Longrightarrow> list_all json_wf vs \<Longrightarrow> normalize_arr_for_input T vs p i = Inr vs' \<Longrightarrow> list_all (text_ok T) vs'"
  "text_laws T \<Longrightarrow> list_all (\<lambda>(k, v). is_str k \<and> json_wf v) m \<Longrightarrow> text_ok T (JObj out) \<Longrightarrow>
     normalize_obj_for_input T m p out = Inr m' \<Longrightarrow> text_ok T (JObj m')"
proof (induction T v parent p and T vs p i and T m p out arbitrary: v' and vs' and m'
    rule: normalize_value_for_input_normalize_arr_for_input_normalize_obj_for_input.induct)
  case (1 T s parent path)
  then obtain s1 where s1: "normalize_string_scalar T s = Inr s1"
    "v' = JStr s1 \<or> (\<exists>s2. normalize_timestamp T s1 = Some s2 \<and> v' = JStr s2)"
    by (cases parent) (auto simp: result_simps split: option.split_asm if_split_asm)
  have "key_ok T s1"
    using normalize_string_scalar_ok [OF "1.prems"(1) _ s1(1)] "1.prems"(2) by simp
  with s1(2) obtain s' where "key_ok T s'" "v' = JStr s'"
    using normalize_timestamp_ok [OF "1.prems"(1), of s1] by metis
  then show ?case
    by simp
next
  case (2 T arr parent path)
  then obtain out where out: "normalize_arr_for_input T arr path 0 = Inr out"
    and v': "v' = JArr out \<or> (\<exists>s. v' = JArr s \<and> normalize_as_set_with_path T out path = Inr s)"
    by (auto simp: result_simps split: option.split_asm if_split_asm)
  have ok: "list_all (text_ok T) out"
    using "2.IH" [OF "2.prems"(1) _ out] "2.prems"(2) by simp
  have "set s \<subseteq> set out" if "normalize_as_set_with_path T out path = Inr s" for s
    using that set_dedup_by_key
    by (metis (no_types, lifting) image_mono list.set_map normalize_as_set_pairs set_sort)
  with v' ok show ?case
    by (fastforce simp: list_all_iff)
next
  case (3 T m parent path)
  then obtain m' where m': "normalize_obj_for_input T m path [] = Inr m'" "v' = JObj m'"
    by (auto simp: result_simps)
  show ?case
    unfolding m'(2)
    by (rule "3.IH" [OF "3.prems"(1) _ _ m'(1)]) (use "3.prems" in \<open>auto simp: list_all_iff\<close>)
next
  case (6 T v vs path idx)
  then show ?case
    by (auto simp: result_simps)
next
  case (8 T k v m path out)
  then obtain nk nv where n: "normalize_key_scalar T k = Inr nk"
    "normalize_value_for_input T v (Some nk) (path_for_key T path k) = Inr nv"
    by (auto simp: result_simps Let_def)
  have nk: "key_ok T nk"
    using n(1) "8.prems"(1,2) normalize_string_scalar_ok
    by (auto simp: normalize_key_scalar_def result_simps split: if_split_asm)
  have nv: "text_ok T nv"
    by (rule "8.IH"(1) [OF refl _ _ _ n(2)]) (use n "8.prems" in auto)
  show ?case
  proof (cases "is_null nv")
    case True
    show ?thesis
      by (rule "8.IH"(2) [OF refl _ _ _ "8.prems"(1) _ "8.prems"(3)])
        (use n "8.prems" True in \<open>auto simp: Let_def\<close>)
  next
    case False
    with n "8.prems"(4) have new: "map_of out nk = None"
      "normalize_obj_for_input T m path (obj_insert nk nv out) = Inr m'"
      by (auto simp: Let_def split: if_split_asm)
    show ?thesis
      by (rule "8.IH"(3) [OF refl _ _ _ _ "8.prems"(1) _ _ new(2)])
        (use n new nk nv "8.prems" False text_ok_insert in auto)
  qed
qed auto

lemma text_ok_nrf: "text_ok T v \<Longrightarrow> json_i64 v \<Longrightarrow> nrf_of_json T v \<noteq> None"
proof (induction v)
  case (JNum n)
  then show ?case
    using num_as_i64_ok [of n] by (auto simp: nrf_of_json_Some [of _ _ _ "''body''"])
next
  case (JArr xs)
  then show ?case
    by (intro nrf_of_json_arr) (auto simp: list_all_iff)
next
  case (JObj m)
  have "nrf_of_json T v \<noteq> None" if "(k, v) \<in> set m" for k v
    using JObj.prems that by (intro JObj.IH [OF that]) (auto simp: list_all_iff)
  then show ?case
    using JObj.prems by (intro nrf_of_json_obj) (auto simp: accepted_obj_def list_all_iff)
qed (auto simp: key_ok_def nrf_of_json_Some [of _ _ _ "''body''"])


text \<open>Input normalisation feeds the strict conversion: for text libraries that obey their
  documented laws, whatever \<open>normalize_for_input\<close> returns for a well-formed JSON value, if its numbers
  are \<open>i64\<close> is accepted by the strict NRF conversion, so it has canonical bytes.\<close>

theorem normalize_for_input_accepted:
  assumes "text_laws T" "json_wf j" "normalize_for_input T j = Inr j'" "json_i64 j'"
  shows "\<exists>b. to_nrf1_bytes T j' = Inr b"
  using text_ok_nrf [OF normalize_input_text_ok(1) [OF assms(1,2)] assms(4)] assms(3)
  by (auto simp: normalize_for_input_def to_nrf1_bytes_iff)

lemma plain_text_laws: "text_laws plain_text"
  by (simp add: text_laws_def plain_text_def)

theorem normalize_for_input_accepted_witness:
  "\<exists>b. to_nrf1_bytes plain_text
     (JObj [(''audience'', JArr [JStr ''a'', JStr ''b'']), (''n'', JNum (N_Int 7))]) = Inr b"
proof (rule normalize_for_input_accepted [OF plain_text_laws])
  let ?j = "JObj [(''audience'', JArr [JStr ''b'', JStr ''a'', JStr ''b'']),
    (''gone'', JNull), (''n'', JNum (N_Int 7))]"
  show "normalize_for_input plain_text ?j
      = Inr (JObj [(''audience'', JArr [JStr ''a'', JStr ''b'']), (''n'', JNum (N_Int 7))])"
    by code_simp
  show "json_wf ?j" "json_i64 (JObj [(''audience'', JArr [JStr ''a'', JStr ''b'']), (''n'', JNum (N_Int 7))])"
    by code_simp+
qed

text \<open>The decoder is laxer than the encoder: it accepts a map whose keys are out of order, so
  two different byte strings decode to one value and only one of them is its canonical encoding.\<close>

theorem decode_accepts_unsorted_map:
  "decode_from_slice plain_text (MAGIC @ [7, 2, 4, 1, 98, 0, 4, 1, 97, 0])
     = decode_from_slice plain_text (MAGIC @ [7, 2, 4, 1, 97, 0, 4, 1, 98, 0])
   \<and> decode_from_slice plain_text (MAGIC @ [7, 2, 4, 1, 98, 0, 4, 1, 97, 0])
     = Inr (NMap [(''a'', NNull), (''b'', NNull)])"
  by code_simp

end
