(* ===== verification/Rho_Canon.thy ===== *)
theory Rho_Canon
  imports Nrf_Json
begin

text \<open>
  Canonicalisation of JSON inside the virtual machine (\<open>crates/ubl_vm/src/canon.rs\<close>): the
  development provider \<open>NaiveCanon\<close>, which sorts keys, and \<open>RhoCanon\<close>, whose \<open>validate\<close> reports
  every violation of the canonical rules and whose \<open>canon\<close> is the best-effort normal form
  used when receipts are signed. \<open>PipelineCanon\<close> of
  \<open>crates/ubl_runtime/src/pipeline/providers.rs\<close> delegates to the latter.
\<close>

section \<open>NaiveCanon\<close>

definition collect_map :: "(string \<times> 'v) list \<Rightarrow> (string \<times> 'v) list" where
  "collect_map ps = foldl (\<lambda>out (k, v). obj_insert k v out) [] ps"

function naive_canon :: "json \<Rightarrow> json" where
  "naive_canon (JObj m) =
     JObj (collect_map (map (\<lambda>(k, v). (k, naive_canon v)) (sort_key fst m)))"
| "naive_canon (JArr a) = JArr (map naive_canon a)"
| "naive_canon JNull = JNull"
| "naive_canon (JBool b) = JBool b"
| "naive_canon (JNum n) = JNum n"
| "naive_canon (JStr s) = JStr s"
  by pat_completeness auto
termination
  by (relation "measure size") (auto simp: size_json_arr size_json_obj simp del: json.size)

section \<open>RhoCanon\<close>

datatype canon_error_kind =
    RawFloat number
  | BomPresent
  | ControlCharacterPresent
  | NotNfcNormalized
  | BomPresentInKey
  | ControlCharacterPresentInKey
  | KeyNotNfcNormalized
  | DuplicateKeyAfterNfc string
  | NullValueInMap

type_synonym canon_error = "string \<times> canon_error_kind"

definition string_errors :: "text_env \<Rightarrow> string \<Rightarrow> string \<Rightarrow> canon_error list" where
  "string_errors T s path =
     (if contains_bom s then [(path, BomPresent)] else [])
     @ (if contains_control s then [(path, ControlCharacterPresent)] else [])
     @ (if nfc T s \<noteq> s then [(path, NotNfcNormalized)] else [])"

definition key_errors :: "text_env \<Rightarrow> string \<Rightarrow> json \<Rightarrow> string \<Rightarrow> string set \<Rightarrow> canon_error list" where
  "key_errors T k val path seen_norm_keys =
     (let key_path = path @ ''.'' @ k; key_nfc = nfc T k in
      (if contains_bom k then [(key_path, BomPresentInKey)] else [])
      @ (if contains_control k then [(key_path, ControlCharacterPresentInKey)] else [])
      @ (if key_nfc \<noteq> k then [(key_path, KeyNotNfcNormalized)] else [])
      @ (if key_nfc \<in> seen_norm_keys then [(path, DuplicateKeyAfterNfc key_nfc)] else [])
      @ (if is_null val then [(key_path, NullValueInMap)] else []))"

fun
  collect_errors :: "text_env \<Rightarrow> json \<Rightarrow> string \<Rightarrow> canon_error list" and
  collect_errors_arr :: "text_env \<Rightarrow> json list \<Rightarrow> string \<Rightarrow> nat \<Rightarrow> canon_error list" and
  collect_errors_obj :: "text_env \<Rightarrow> json_obj \<Rightarrow> string \<Rightarrow> string set \<Rightarrow> canon_error list" where
  "collect_errors T JNull path = []"
| "collect_errors T (JBool b) path = []"
| "collect_errors T (JNum n) path =
     (if \<not> num_is_i64 n \<and> \<not> num_is_u64 n then [(path, RawFloat n)] else [])"
| "collect_errors T (JStr s) path = string_errors T s path"
| "collect_errors T (JArr arr) path = collect_errors_arr T arr path 0"
| "collect_errors T (JObj m) path = collect_errors_obj T m path {}"
| "collect_errors_arr T [] path i = []"
| "collect_errors_arr T (item # items) path i =
     collect_errors T item (path_for_index path i) @ collect_errors_arr T items path (Suc i)"
| "collect_errors_obj T [] path seen = []"
| "collect_errors_obj T ((k, val) # m) path seen =
     key_errors T k val path seen
     @ collect_errors T val (path @ ''.'' @ k)
     @ collect_errors_obj T m path (insert (nfc T k) seen)"

definition rho_validate :: "text_env \<Rightarrow> json \<Rightarrow> canon_error list + unit" where
  "rho_validate T v =
     (let errors = collect_errors T v ''$'' in if errors = [] then Inr () else Inl errors)"

definition validate_string :: "text_env \<Rightarrow> string \<Rightarrow> rho_kind + string" where
  "validate_string T s =
     (if contains_bom s then Inl RhoBOM
      else if contains_control s then Inl RhoControl
      else Inr (nfc T s))"

function rho :: "text_env \<Rightarrow> json \<Rightarrow> json" where
  "rho T JNull = JNull"
| "rho T (JBool b) = JBool b"
| "rho T (JNum n) = JNum n"
| "rho T (JStr s) =
     (case validate_string T s of Inr normalized \<Rightarrow> JStr normalized | Inl _ \<Rightarrow> JStr s)"
| "rho T (JArr arr) = JArr (map (rho T) arr)"
| "rho T (JObj m) =
     JObj (collect_map (map (\<lambda>(k, val). (k, rho T val))
       (filter (\<lambda>(k, val). \<not> is_null val) (sort_key fst m))))"
  by pat_completeness auto
termination
  by (relation "measure (size \<circ> snd)") (auto simp: size_json_arr size_json_obj simp del: json.size)

section \<open>The normal form\<close>

lemma collect_map_distinct: "distinct (map fst ps) \<Longrightarrow> collect_map ps = ps"
proof -
  have "distinct (map fst (acc @ ps)) \<Longrightarrow> foldl (\<lambda>out (k, v). obj_insert k v out) acc ps = acc @ ps"
    for acc
    by (induction ps arbitrary: acc) (auto simp: obj_insert_new)
  from this [of "[]"] show "distinct (map fst ps) \<Longrightarrow> collect_map ps = ps"
    by (simp add: collect_map_def)
qed

lemma map_fst_sort_key: "map fst (sort_key fst m) = sort (map fst m)"
  by (rule properties_for_sort [symmetric]) simp_all

lemma sort_key_bt_sorted: "distinct (map fst m) \<Longrightarrow> bt_sorted (sort_key fst m)"
  by (simp add: map_fst_sort_key strict_sorted_iff)

lemma map_of_sort_key: "distinct (map fst m) \<Longrightarrow> map_of (sort_key fst m) = map_of m"
  by (subst map_of_inject_set) (simp_all add: map_fst_sort_key)

lemma map_of_filter_snd:
  "distinct (map fst m) \<Longrightarrow> map_of (filter (\<lambda>(k, v). P v) m) k =
    (case map_of m k of Some v \<Rightarrow> if P v then Some v else None | None \<Rightarrow> None)"
  by (induction m) (auto split: option.split simp: map_of_eq_None_iff rev_image_eqI)

lemma bt_sorted_filter: "bt_sorted m \<Longrightarrow> bt_sorted (filter P m)"
  by (induction m) auto

definition rho_entries :: "text_env \<Rightarrow> json_obj \<Rightarrow> json_obj" where
  "rho_entries T m = map (\<lambda>(k, val). (k, rho T val))
     (filter (\<lambda>(k, val). \<not> is_null val) (sort_key fst m))"

lemma rho_entries_sorted: "distinct (map fst m) \<Longrightarrow> bt_sorted (rho_entries T m)"
  using bt_sorted_filter [OF sort_key_bt_sorted, of m "\<lambda>(k, val). \<not> is_null val"]
  by (simp add: rho_entries_def comp_def case_prod_beta)

lemma map_of_rho_entries:
  "distinct (map fst m) \<Longrightarrow> map_of (rho_entries T m) k =
    (case map_of m k of Some v \<Rightarrow> if is_null v then None else Some (rho T v) | None \<Rightarrow> None)"
  unfolding rho_entries_def
  by (simp add: map_of_map map_of_filter_snd map_of_sort_key map_fst_sort_key split: option.split)

lemma rho_obj: "distinct (map fst m) \<Longrightarrow> rho T (JObj m) = JObj (rho_entries T m)"
  using bt_sorted_distinct [OF rho_entries_sorted, of m T]
  by (simp add: collect_map_distinct flip: rho_entries_def)

lemma set_rho_entries:
  "(k, w) \<in> set (rho_entries T m) \<longleftrightarrow> (\<exists>v. (k, v) \<in> set m \<and> \<not> is_null v \<and> w = rho T v)"
  by (auto simp: rho_entries_def)

declare rho.simps(6) [simp del]

lemma is_null_rho [simp]: "is_null (rho T v) = is_null v"
  by (cases v) (auto simp: rho.simps(6) split: sum.split)

fun rho_canonical :: "json \<Rightarrow> bool" where
  "rho_canonical (JArr arr) \<longleftrightarrow> list_all rho_canonical arr"
| "rho_canonical (JObj m) \<longleftrightarrow>
     bt_sorted m \<and> list_all (\<lambda>(k, v). \<not> is_null v \<and> rho_canonical v) m"
| "rho_canonical _ \<longleftrightarrow> True"

text \<open>The canonical form has sorted, duplicate-free object keys and no null member, at every
  depth.\<close>

theorem rho_is_canonical: "json_wf j \<Longrightarrow> rho_canonical (rho T j)"
proof (induction j)
  case (JObj m)
  have "rho_canonical (rho T v)" if "(k, v) \<in> set m" for k v
    using JObj.prems that by (intro JObj.IH [OF that]) (auto simp: list_all_iff)
  with JObj.prems show ?case
    by (auto simp: rho_obj list_all_iff set_rho_entries rho_entries_sorted)
qed (auto simp: list_all_iff split: sum.split)

lemma rho_validate_string:
  assumes "text_laws T" "is_str s" "validate_string T s = Inr s'"
  shows "validate_string T s' = Inr s'"
  using assms by (auto simp: validate_string_def text_laws_def split: if_split_asm)

text \<open>Canonicalisation is idempotent, as the source claims for \<open>RhoCanon\<close>: for NFC libraries
  that obey their laws, canonicalising a canonical form changes nothing.\<close>

theorem rho_idempotent: "text_laws T \<Longrightarrow> json_wf j \<Longrightarrow> rho T (rho T j) = rho T j"
proof (induction j)
  case (JStr s)
  then show ?case
    by (auto simp: rho_validate_string split: sum.split)
next
  case (JObj m)
  have IH: "rho T (rho T v) = rho T v" if "(k, v) \<in> set m" for k v
    using JObj.prems that by (intro JObj.IH [OF that]) (auto simp: list_all_iff)
  have d: "distinct (map fst m)"
    using JObj.prems by simp
  note s = rho_entries_sorted [OF d, of T]
  note s' = rho_entries_sorted [OF bt_sorted_distinct [OF s], of T]
  have "map_of (rho_entries T (rho_entries T m)) = map_of (rho_entries T m)"
    using d s by (auto simp: fun_eq_iff map_of_rho_entries bt_sorted_distinct IH
        dest: map_of_SomeD split: option.split)
  then have "rho_entries T (rho_entries T m) = rho_entries T m"
    by (rule bt_sorted_unique [OF s' s])
  with d s show ?case
    by (simp add: rho_obj bt_sorted_distinct)
qed (auto simp: list_all_iff)

theorem rho_is_canonical_witness:
  "rho_canonical (rho plain_text sample_json)"
proof (rule rho_is_canonical)
  show "json_wf sample_json"
    by code_simp
qed

theorem rho_idempotent_witness:
  "rho plain_text (rho plain_text sample_json) = rho plain_text sample_json"
proof (rule rho_idempotent [OF plain_text_laws])
  show "json_wf sample_json"
    by code_simp
qed

section \<open>Independence from member order\<close>

fun json_no_float :: "json \<Rightarrow> bool" where
  "json_no_float (JNum (N_Float b)) \<longleftrightarrow> False"
| "json_no_float (JArr arr) \<longleftrightarrow> list_all json_no_float arr"
| "json_no_float (JObj m) \<longleftrightarrow> list_all (\<lambda>(k, v). json_no_float v) m"
| "json_no_float _ \<longleftrightarrow> True"

lemma num_eq_no_float: "num_eq a b \<Longrightarrow> json_no_float (JNum a) \<Longrightarrow> a = b"
  by (cases a; cases b) auto

lemma rho_entries_eq:
  assumes eq: "json_eq (JObj m) (JObj n)" and d: "distinct (map fst m)" "distinct (map fst n)"
    and IH: "\<And>k v w. map_of m k = Some v \<Longrightarrow> map_of n k = Some w \<Longrightarrow> json_eq v w \<Longrightarrow> rho T v = rho T w"
  shows "rho_entries T m = rho_entries T n"
proof (rule bt_sorted_unique [OF rho_entries_sorted [OF d(1)] rho_entries_sorted [OF d(2)]])
  have "map_of (rho_entries T m) k = map_of (rho_entries T n) k" for k
  proof (cases "map_of m k")
    case None
    then have "map_of n k = None"
      using json_eq_keys [OF eq d] by (simp add: map_of_eq_None_iff)
    with None d show ?thesis
      by (simp add: map_of_rho_entries)
  next
    case (Some v)
    then obtain w where w: "map_of n k = Some w" "json_eq v w"
      using json_eq_map_of [OF eq] by blast
    with IH [OF Some w] Some d show ?thesis
      by (simp add: map_of_rho_entries json_eq_is_null)
  qed
  then show "map_of (rho_entries T m) = map_of (rho_entries T n)"
    by (rule ext)
qed

lemma rho_order_insensitive_lemma:
  "json_eq j j' \<Longrightarrow> json_wf j \<Longrightarrow> json_wf j' \<Longrightarrow> json_no_float j \<Longrightarrow> rho T j = rho T j'"
proof (induction j j' rule: json_eq.induct)
  case (3 a b)
  then show ?case
    using num_eq_no_float by simp
next
  case (5 xs ys)
  have "rho T a = rho T b" if "(a, b) \<in> set (zip xs ys)" for a b
    using "5.prems" that
    by (intro "5.IH" [OF that refl]) (auto simp: list_all_iff dest: set_zip_leftD set_zip_rightD)
  with "5.prems"(1) have "list_all2 (\<lambda>a b. rho T a = rho T b) xs ys"
    by (auto simp: list_all2_iff)
  then show ?case
    by (simp add: list_all2_map1 list_all2_map2 flip: list.rel_eq)
next
  case (6 m n)
  have "rho_entries T m = rho_entries T n"
  proof (rule rho_entries_eq [OF "6.prems"(1)])
    fix k v w
    assume k: "map_of m k = Some v" "map_of n k = Some w" and eq: "json_eq v w"
    then have "(k, v) \<in> set m" "(k, w) \<in> set n"
      by (auto dest: map_of_SomeD)
    with k eq "6.prems" show "rho T v = rho T w"
      by (intro "6.IH" [OF \<open>(k, v) \<in> set m\<close> refl k(2)]) (auto simp: list_all_iff)
  qed (use "6.prems" in auto)
  with "6.prems" show ?case
    by (simp add: rho_obj)
qed auto

text \<open>Key order and equivalent JSON forms cannot change the canonical form: two equal JSON values
  without raw floats have identical canonical forms, hence identical signing payloads.\<close>

theorem rho_order_insensitive:
  assumes "json_eq j j'" "json_wf j" "json_wf j'" "json_no_float j"
  shows "rho T j = rho T j'"
  by (rule rho_order_insensitive_lemma [OF assms])

theorem rho_order_insensitive_witness:
  "rho plain_text (JObj [(''b'', JNull), (''a'', JNum (N_Int 1))])
   = rho plain_text (JObj [(''a'', JNum (N_Int 1)), (''b'', JNull)])"
  by (rule rho_order_insensitive) code_simp+

section \<open>Strict validation\<close>

fun rho_valid :: "text_env \<Rightarrow> json \<Rightarrow> bool" where
  "rho_valid T (JNum n) \<longleftrightarrow> num_is_i64 n \<or> num_is_u64 n"
| "rho_valid T (JStr s) \<longleftrightarrow> key_ok T s"
| "rho_valid T (JArr arr) \<longleftrightarrow> list_all (rho_valid T) arr"
| "rho_valid T (JObj m) \<longleftrightarrow> list_all (\<lambda>(k, v). key_ok T k \<and> \<not> is_null v \<and> rho_valid T v) m"
| "rho_valid T _ \<longleftrightarrow> True"

lemma collect_errors_valid:
  "json_wf v \<Longrightarrow> collect_errors T v path = [] \<longleftrightarrow> rho_valid T v"
  "list_all json_wf vs \<Longrightarrow> collect_errors_arr T vs path i = [] \<longleftrightarrow> list_all (rho_valid T) vs"
  "distinct (map fst m) \<Longrightarrow> list_all (\<lambda>(k, v). is_str k \<and> json_wf v) m \<Longrightarrow> seen \<inter> fst ` set m = {} \<Longrightarrow>
   collect_errors_obj T m path seen = []
     \<longleftrightarrow> list_all (\<lambda>(k, v). key_ok T k \<and> \<not> is_null v \<and> rho_valid T v) m"
proof (induction T v path and T vs path i and T m path seen
    rule: collect_errors_collect_errors_arr_collect_errors_obj.induct)
  case (10 T k val m path seen)
  show ?case
  proof (cases "key_ok T k")
    case True
    with 10 have "collect_errors_obj T m path (insert (nfc T k) seen) = []
        \<longleftrightarrow> list_all (\<lambda>(k, v). key_ok T k \<and> \<not> is_null v \<and> rho_valid T v) m"
      by (intro "10.IH"(2)) (auto simp: key_ok_def)
    with True 10 show ?thesis
      by (auto simp: key_ok_def key_errors_def Let_def)
  next
    case False
    then show ?thesis
      by (auto simp: key_ok_def key_errors_def Let_def)
  qed
qed (auto simp: string_errors_def key_ok_def)

lemma rho_validate_iff: "json_wf v \<Longrightarrow> rho_validate T v = Inr () \<longleftrightarrow> rho_valid T v"
  by (simp add: rho_validate_def Let_def collect_errors_valid)

lemma rho_valid_eq: "json_wf j \<Longrightarrow> rho_valid T j \<Longrightarrow> json_eq j (rho T j)"
proof (induction j)
  case (JArr arr)
  then show ?case
    by (auto simp: list_all_iff set_zip)
next
  case (JObj m)
  have d: "distinct (map fst m)"
    using JObj.prems by simp
  have "length (rho_entries T m) = length m"
    using JObj.prems(2) unfolding rho_entries_def length_map
    by (subst filter_True) (auto simp: list_all_iff)
  moreover have "case map_of (rho_entries T m) k of Some w \<Rightarrow> json_eq v w | None \<Rightarrow> False"
    if "(k, v) \<in> set m" for k v
  proof -
    have "json_eq v (rho T v)"
      using JObj.prems that by (intro JObj.IH [OF that]) (auto simp: list_all_iff)
    moreover have "map_of m k = Some v" "\<not> is_null v"
      using d that JObj.prems(2) by (auto simp: list_all_iff)
    ultimately show ?thesis
      using d by (simp add: map_of_rho_entries)
  qed
  ultimately show ?case
    using d by (auto simp: rho_obj list_all_iff)
qed (auto simp: validate_string_def key_ok_def)

lemma rho_wf: "text_laws T \<Longrightarrow> json_wf j \<Longrightarrow> rho_valid T j \<Longrightarrow> json_wf (rho T j)"
proof (induction j)
  case (JObj m)
  have "json_wf (rho T v)" if "(k, v) \<in> set m" for k v
    using JObj.prems that by (intro JObj.IH [OF that]) (auto simp: list_all_iff)
  with JObj.prems show ?case
    by (auto simp: rho_obj list_all_iff set_rho_entries bt_sorted_distinct [OF rho_entries_sorted])
qed (auto simp: list_all_iff validate_string_def key_ok_def)

lemma rho_valid_nrf: "json_wf j \<Longrightarrow> rho_valid T j \<Longrightarrow> json_i64 j \<Longrightarrow> nrf_of_json T j \<noteq> None"
proof (induction j)
  case (JNum n)
  then show ?case
    by (cases n) (auto simp: nrf_of_json_Some [of _ _ _ "''body''"])
next
  case (JArr arr)
  then show ?case
    by (intro nrf_of_json_arr) (auto simp: list_all_iff)
next
  case (JObj m)
  have "nrf_of_json T v \<noteq> None" if "(k, v) \<in> set m" for k v
    using JObj.prems that by (intro JObj.IH [OF that]) (auto simp: list_all_iff)
  with JObj.prems show ?case
    by (intro nrf_of_json_obj) (auto simp: accepted_obj_def list_all_iff)
qed (auto simp: key_ok_def nrf_of_json_Some [of _ _ _ "''body''"])

text \<open>A value that the strict validator accepts and whose integers are \<open>i64\<close> has canonical
  bytes, and the machine's canonicalisation leaves these bytes, so the content identifier, as
  they are.\<close>

theorem rho_validate_sound:
  assumes "text_laws T" "json_wf j" "json_i64 j" "rho_validate T j = Inr ()"
  shows "\<exists>b. to_nrf1_bytes T j = Inr b \<and> to_nrf1_bytes T (rho T j) = Inr b"
proof -
  have valid: "rho_valid T j"
    using assms(2,4) by (simp add: rho_validate_iff)
  then obtain v where v: "nrf_of_json T j = Some v"
    using rho_valid_nrf [OF assms(2) _ assms(3)] by auto
  have "nrf_of_json T (rho T j) = Some v"
    using rho_valid_eq [OF assms(2) valid] assms(2) rho_wf [OF assms(1,2) valid] v by (rule json_eq_nrf)
  with v show ?thesis
    by (auto simp: to_nrf1_bytes_iff)
qed

theorem rho_validate_sound_witness:
  "\<exists>b. to_nrf1_bytes plain_text (JObj [(''b'', JStr ''x''), (''a'', JNum (N_Int 1))]) = Inr b
     \<and> to_nrf1_bytes plain_text (rho plain_text (JObj [(''b'', JStr ''x''), (''a'', JNum (N_Int 1))])) = Inr b"
  by (rule rho_validate_sound [OF plain_text_laws]) code_simp+

text \<open>The two gates disagree on large unsigned integers: the validator accepts \<open>2 ^ 63\<close>, which the
  NRF conversion then rejects.\<close>

theorem rho_validate_u64_gap:
  "rho_validate plain_text (JNum (N_Int 9223372036854775808)) = Inr ()
   \<and> to_nrf1_bytes plain_text (JNum (N_Int 9223372036854775808)) = Inl (Rho ''body'' NumberNotI64)"
  by code_simp

end
