(* ===== verification/Pipeline_Vm.thy ===== *)
theory Pipeline_Vm
  imports Vm_Laws Rho_Canon
begin

text \<open>
  The machine as the pipeline runs it (\<open>crates/ubl_runtime/src/pipeline/providers.rs\<close>): the
  in-memory content-addressed store \<open>PipelineCas\<close>, the signer \<open>PipelineSigner\<close> and the
  canonicaliser \<open>PipelineCanon\<close>, with the properties of a whole run.
\<close>

section \<open>The providers\<close>

type_synonym pipeline_cas = "string \<rightharpoonup> u8 list"

definition pipeline_cas_new :: pipeline_cas where
  "pipeline_cas_new = Map.empty"

definition pipeline_cas_put :: "(u8 list \<Rightarrow> u8 list) \<Rightarrow> pipeline_cas \<Rightarrow> u8 list \<Rightarrow> pipeline_cas \<times> string" where
  "pipeline_cas_put hash store bytes =
     (let cid = ''b3:'' @ hex_encode (hash bytes) in (store(cid \<mapsto> bytes), cid))"

definition pipeline_cas_get :: "pipeline_cas \<Rightarrow> string \<Rightarrow> u8 list option" where
  "pipeline_cas_get store cid = store cid"

text \<open>\<open>sign_bytes\<close> of the key management crate and the base64 decoder are arguments.\<close>

definition pipeline_sign_jws ::
  "(u8 list \<Rightarrow> string) \<Rightarrow> (string \<Rightarrow> u8 list option) \<Rightarrow> u8 list \<Rightarrow> u8 list" where
  "pipeline_sign_jws sign_bytes b64_decode p =
     (case strip_prefix ''ed25519:'' (sign_bytes p) of
        Some b64 \<Rightarrow> (case b64_decode b64 of Some sig \<Rightarrow> sig | None \<Rightarrow> replicate 64 0)
      | None \<Rightarrow> replicate 64 0)"

definition pipeline_canon :: "text_env \<Rightarrow> json \<Rightarrow> json" where
  "pipeline_canon T v = rho T v"

definition pipeline_providers ::
  "text_env \<Rightarrow> (u8 list \<Rightarrow> u8 list) \<Rightarrow> (u8 list \<Rightarrow> string) \<Rightarrow> (string \<Rightarrow> u8 list option)
    \<Rightarrow> pipeline_cas providers" where
  "pipeline_providers T hash sign_bytes b64_decode = \<lparr>
     cas_put = pipeline_cas_put hash,
     cas_get = pipeline_cas_get,
     sign_jws = pipeline_sign_jws sign_bytes b64_decode,
     canon = pipeline_canon T\<rparr>"

interpretation pcas: cas_provider "pipeline_cas_put hash" pipeline_cas_get "cid_from_nrf_bytes hash" for hash
  by unfold_locales (simp_all add: pipeline_cas_put_def pipeline_cas_get_def cid_from_nrf_bytes_def Let_def)

section \<open>Properties of a run\<close>

text \<open>Libraries to run the machine on examples.\<close>

definition demo_env :: vm_env where
  "demo_env = \<lparr>env_big = dec_text, blake3 = (\<lambda>b. take 32 (b @ replicate 32 0)),
     json_from_slice = (\<lambda>_. Some (JObj [])), json_to_vec = (\<lambda>j. [1]), num_from_value = (\<lambda>_. None),
     num_to_value = (\<lambda>_. JNull), verifying_key_ok = (\<lambda>_. True), ed25519_verify = (\<lambda>_ _ _. True),
     base64_url = string_of_bytes, unix_secs = (\<lambda>_. 0)\<rparr>"

definition demo_providers :: "pipeline_cas providers" where
  "demo_providers = pipeline_providers plain_text (\<lambda>b. take 32 (b @ replicate 32 0))
     (\<lambda>b. ''ed25519:'' @ string_of_bytes b) (\<lambda>s. Some (bytes_of s))"

definition demo_cfg :: "u64 \<Rightarrow> vm_config" where
  "demo_cfg l = \<lparr>fuel_limit = l, ghost = False, trace_on = True\<rparr>"

definition demo_code :: "instr list" where
  "demo_code = [\<lparr>ins_op = PushBool, ins_payload = [1]\<rparr>, \<lparr>ins_op = AssertTrue, ins_payload = []\<rparr>,
     \<lparr>ins_op = EmitRc, ins_payload = []\<rparr>]"

abbreviation demo_vm :: "u64 \<Rightarrow> pipeline_cas vm" where
  "demo_vm l \<equiv> with_body_size (vm_new (demo_cfg l) pipeline_cas_new [''b3:00'']) 0"

lemmas demo_defs = demo_env_def demo_providers_def demo_cfg_def demo_code_def pipeline_providers_def
  pipeline_cas_put_def pipeline_sign_jws_def strip_prefix_def with_body_size_def vm_new_def

lemma demo_run:
  assumes "unat l = 3 \<or> unat l = 5"
  shows "\<exists>m' out c. run demo_env demo_providers demo_code (demo_vm l) = Inr (m', out)
    \<and> out_steps out = 3 \<and> rc_cid out = Some c"
proof -
  have "\<not> l < 1" "\<not> l < 2" "\<not> l < 3"
    using assms by (auto simp: word_less_nat_alt)
  then show ?thesis
    by (simp add: demo_defs begin_step_def charge_def Let_def saturating_add_u64_def exec_op_def
        op_push_bool_def push_def op_assert_true_def pop_bool_def pop_def push_trace_def emit_rc_def
        rc_bytes_def finish_def)
qed

text \<open>C18: Fuel and steps account for each other: a finished run has charged exactly one unit per executed
  instruction, never more than the limit, and executes the whole program unless it emits a
  receipt.\<close>

theorem run_fuel_bound:
  assumes "run E P code (with_body_size (vm_new c s ins) sz) = Inr (m', out)" "length code < 2 ^ 64"
  shows "out_steps out = out_fuel_used out \<and> out_fuel_used out \<le> fuel_limit c
    \<and> unat (out_steps out) \<le> length code
    \<and> (EmitRc \<notin> set (map ins_op code) \<longrightarrow> unat (out_steps out) = length code)"
proof -
  have "\<exists>n \<le> length code. unat (out_fuel_used out) = n \<and> out_steps out = of_nat n
      \<and> unat (out_fuel_used out) \<le> unat (fuel_limit c)
      \<and> (EmitRc \<notin> set (map ins_op code) \<longrightarrow> n = length code)"
    using run_fuel_steps [OF assms(1)] assms(2) by (simp add: with_body_size_def vm_new_def)
  then obtain n where n: "n \<le> length code" "unat (out_fuel_used out) = n" "out_steps out = of_nat n"
    "unat (out_fuel_used out) \<le> unat (fuel_limit c)"
    "EmitRc \<notin> set (map ins_op code) \<longrightarrow> n = length code"
    by blast
  have "out_steps out = of_nat (unat (out_fuel_used out))"
    using n(2,3) by (simp only:)
  then have "out_steps out = out_fuel_used out"
    by simp
  with n(1,2,4,5) show ?thesis
    by (metis word_le_nat_alt)
qed

theorem run_fuel_bound_witness:
  "\<exists>m' out. run demo_env demo_providers demo_code (demo_vm 5) = Inr (m', out)
    \<and> out_steps out = out_fuel_used out \<and> out_fuel_used out \<le> 5"
proof -
  obtain m' out c where r: "run demo_env demo_providers demo_code (demo_vm 5) = Inr (m', out)"
    using demo_run [of 5] by auto
  from run_fuel_bound [OF r] show ?thesis
    using r by (auto simp: demo_code_def demo_cfg_def)
qed

text \<open>C19: Enough fuel is enough: a program no longer than the fuel limit never runs out of fuel, so a
  run returns a result or one of the other errors.\<close>

theorem run_terminates_within_limit:
  assumes "length code \<le> unat (fuel_limit c)"
  shows "run E P code (with_body_size (vm_new c s ins) sz) \<noteq> Inl FuelExhausted"
proof (rule run_enough_fuel)
  have "unat (fuel_limit c) < 2 ^ 64"
    using unsigned_less [of "fuel_limit c"] by simp
  with assms show "unat (fuel_used (with_body_size (vm_new c s ins) sz)) + length code < 2 ^ 64"
    by (simp add: with_body_size_def vm_new_def)
qed (use assms in \<open>simp add: with_body_size_def vm_new_def\<close>)

theorem run_terminates_within_limit_witness:
  "run demo_env demo_providers demo_code (demo_vm 5) \<noteq> Inl FuelExhausted"
  by (rule run_terminates_within_limit) (simp add: demo_code_def demo_cfg_def)

text \<open>Raising the fuel limit changes no result: a run that did not exhaust its fuel, whether it
  succeeded or failed otherwise, gives the same outcome under any larger limit.\<close>

theorem run_fuel_monotone:
  assumes "run E P code m \<noteq> Inl FuelExhausted" "fuel_limit (cfg m) \<le> l"
  shows "map_ok snd (run E P code (m\<lparr>cfg := (cfg m)\<lparr>fuel_limit := l\<rparr>\<rparr>)) = map_ok snd (run E P code m)"
  using run_more_fuel [OF assms] by (cases "run E P code m") auto

theorem run_fuel_monotone_witness:
  "map_ok snd (run demo_env demo_providers demo_code
     ((demo_vm 3)\<lparr>cfg := (cfg (demo_vm 3))\<lparr>fuel_limit := 5\<rparr>\<rparr>))
   = map_ok snd (run demo_env demo_providers demo_code (demo_vm 3))"
proof (rule run_fuel_monotone)
  show "run demo_env demo_providers demo_code (demo_vm 3) \<noteq> Inl FuelExhausted"
    using demo_run [of 3] by auto
qed (simp add: with_body_size_def vm_new_def demo_cfg_def)

text \<open>The trace is complete: with tracing on, a finished run reports one entry per executed
  instruction, numbered from one in order, each with the fuel used up to it.\<close>

theorem run_trace_complete:
  assumes "run E P code (with_body_size (vm_new c s ins) sz) = Inr (m', out)" "length code < 2 ^ 64"
    "trace_on c"
  shows "map ts_step (out_trace out) = map of_nat [1..<Suc (unat (out_steps out))]
    \<and> map ts_fuel_after (out_trace out) = map of_nat [1..<Suc (unat (out_steps out))]"
  using run_trace [OF assms(1), of 0] assms(2,3) by (simp add: with_body_size_def vm_new_def trace_ok_def)

theorem run_trace_complete_witness:
  "\<exists>m' out. run demo_env demo_providers demo_code (demo_vm 5) = Inr (m', out)
    \<and> map ts_step (out_trace out) = [1, 2, 3]"
proof -
  obtain m' out where r: "run demo_env demo_providers demo_code (demo_vm 5) = Inr (m', out)"
    "out_steps out = 3"
    using demo_run [of 5] by auto
  have "[1..<Suc (unat (3 :: u64))] = [1, 2, 3]"
    by (simp add: upt_rec)
  with run_trace_complete [OF r(1)] r show ?thesis
    by (auto simp: demo_code_def demo_cfg_def)
qed

text \<open>Runs are deterministic up to one instruction: a program without \<open>PushTimestamp\<close> gives the same
  result whatever the wall clock shows.\<close>

theorem run_clock_independent:
  assumes "PushTimestamp \<notin> set (map ins_op code)"
  shows "run (E\<lparr>unix_secs := clock\<rparr>) P code m = run E P code m"
  by (rule run_clock [OF assms])

theorem run_clock_independent_witness:
  "run (demo_env\<lparr>unix_secs := (\<lambda>_. 42)\<rparr>) demo_providers demo_code (demo_vm 5)
   = run demo_env demo_providers demo_code (demo_vm 5)"
  by (rule run_clock_independent) (simp add: demo_code_def)

text \<open>C9: Receipts are stored and signed: over the pipeline's store, a run that emits a receipt leaves
  bytes in the store whose content identifier is the reported one, and the reported signature is
  the signer's signature of exactly these bytes; every entry of the store stays content addressed.\<close>

theorem pipeline_receipt_integrity:
  assumes "run E (pipeline_providers T hash signer b64) code m = Inr (m', out)"
    and "\<forall>c b. cas m c = Some b \<longrightarrow> c = cid_from_nrf_bytes hash b"
  shows "(\<forall>c b. cas m' c = Some b \<longrightarrow> c = cid_from_nrf_bytes hash b)
    \<and> (case rc_cid out of None \<Rightarrow> rc_sig out = None
       | Some c \<Rightarrow> \<exists>b. c = cid_from_nrf_bytes hash b \<and> cas m' c = Some b
           \<and> rc_sig out = Some (''ed25519:'' @ base64_url E (pipeline_sign_jws signer b64 b)))"
proof -
  have P: "cas_put (pipeline_providers T hash signer b64) = pipeline_cas_put hash"
    "sign_jws (pipeline_providers T hash signer b64) = pipeline_sign_jws signer b64"
    by (simp_all add: pipeline_providers_def)
  show ?thesis
    using pcas.run_receipt [OF assms(1) P(1)] assms(2)
    unfolding pcas.addressed_def pipeline_cas_get_def P(2) .
qed

theorem pipeline_receipt_integrity_witness:
  "\<exists>m' out c b. run demo_env demo_providers demo_code (demo_vm 5) = Inr (m', out)
     \<and> rc_cid out = Some c \<and> cas m' c = Some b"
proof -
  obtain m' out c where r: "run demo_env demo_providers demo_code (demo_vm 5) = Inr (m', out)"
    "rc_cid out = Some c"
    using demo_run [of 5] by auto
  from pipeline_receipt_integrity [OF r(1) [unfolded demo_providers_def]] r show ?thesis
    by (auto simp: with_body_size_def vm_new_def pipeline_cas_new_def)
qed

text \<open>Equivalent bodies have one receipt: replacing the receipt body by an equal JSON value, with
  members in any order and without raw floats, leaves the bytes that are stored and signed
  unchanged.\<close>

theorem receipt_bytes_canonical:
  assumes "json_wf (rc_payload_value (rc_payload_of m))" "json_wf j"
    and "json_eq (rc_body m) j" "json_no_float (rc_body m)"
  shows "rc_bytes E (pipeline_providers T hash signer b64) (m\<lparr>rc_body := j\<rparr>)
    = rc_bytes E (pipeline_providers T hash signer b64) m"
proof -
  let ?v = "rc_payload_value (rc_payload_of m)" and ?v' = "rc_payload_value (rc_payload_of (m\<lparr>rc_body := j\<rparr>))"
  have wf': "json_wf ?v'"
    using assms(1,2) by (simp add: rc_payload_value_def rc_payload_of_def)
  have str: "list_all (\<lambda>(x, y). json_eq x y) (zip (map JStr xs) (map JStr xs))" for xs
    by (induction xs) auto
  have "json_eq ?v ?v'"
    using assms(3) str by (simp add: rc_payload_value_def rc_payload_of_def json_opt_str_def)
  moreover have "json_no_float ?v"
    using assms(4) by (simp add: rc_payload_value_def rc_payload_of_def json_opt_str_def list_all_iff)
  ultimately have "rho T ?v = rho T ?v'"
    using assms(1) wf' by (intro rho_order_insensitive_lemma)
  then show ?thesis
    by (simp add: rc_bytes_def pipeline_providers_def pipeline_canon_def)
qed

theorem receipt_bytes_canonical_witness:
  "rc_bytes demo_env demo_providers
     ((demo_vm 5)\<lparr>rc_body := JObj [(''b'', JBool True), (''a'', JNull)], rc_body := JObj [(''a'', JNull), (''b'', JBool True)]\<rparr>)
   = rc_bytes demo_env demo_providers ((demo_vm 5)\<lparr>rc_body := JObj [(''b'', JBool True), (''a'', JNull)]\<rparr>)"
  unfolding demo_providers_def
  by (rule receipt_bytes_canonical)
    (simp_all add: with_body_size_def vm_new_def rc_payload_value_def rc_payload_of_def json_opt_str_def
      is_str_def bytes_of_def demo_cfg_def)

end
