(* ===== verification/Policy.thy ===== *)
theory Policy
  imports Json
begin

text \<open>
  Decision making: reasoning bits (\<open>crates/ubl_runtime/src/reasoning_bit.rs\<close>), circuits that
  compose them (\<open>circuit.rs\<close>) and policies that compose circuits (\<open>policy_bit.rs\<close>). The wall-clock
  durations that results carry for monitoring are left out.
\<close>

section \<open>Reasoning bits\<close>

datatype decision = Allow | DenyDecision | Require

datatype expression =
    Always bool
  | ContextHas string
  | ContextEquals string json
  | BodySizeLte nat
  | TypeEquals string
  | And "expression list"
  | Or "expression list"
  | NotE expression

record reasoning_bit =
  rb_id :: string
  rb_name :: string
  rb_condition :: expression
  rb_on_true :: decision
  rb_on_false :: decision
  rb_requires_context :: "string list"

record eval_context =
  ctx_chip :: json
  ctx_body_size :: nat
  ctx_variables :: "string \<rightharpoonup> json"

record rb_result =
  res_rb_id :: string
  res_decision :: decision
  res_reason :: string
  res_inputs_used :: "string list"

definition show_decision :: "decision \<Rightarrow> string" where
  "show_decision d = (case d of Allow \<Rightarrow> ''Allow'' | DenyDecision \<Rightarrow> ''Deny'' | Require \<Rightarrow> ''Require'')"

definition show_bool :: "bool \<Rightarrow> string" where
  "show_bool b = (if b then ''true'' else ''false'')"

fun expr_evaluate :: "expression \<Rightarrow> eval_context \<Rightarrow> bool" where
  "expr_evaluate (Always v) ctx = v"
| "expr_evaluate (ContextHas key) ctx = (ctx_variables ctx key \<noteq> None)"
| "expr_evaluate (ContextEquals key expected) ctx =
     (case ctx_variables ctx key of Some v \<Rightarrow> json_eq v expected | None \<Rightarrow> False)"
| "expr_evaluate (BodySizeLte limit) ctx = (ctx_body_size ctx \<le> limit)"
| "expr_evaluate (TypeEquals expected) ctx =
     (case Option.bind (json_get (ctx_chip ctx) ''@type'') as_str of Some t \<Rightarrow> t = expected | None \<Rightarrow> False)"
| "expr_evaluate (And es) ctx = list_all (\<lambda>e. expr_evaluate e ctx) es"
| "expr_evaluate (Or es) ctx = list_ex (\<lambda>e. expr_evaluate e ctx) es"
| "expr_evaluate (NotE e) ctx = (\<not> expr_evaluate e ctx)"

fun collect_inputs :: "expression \<Rightarrow> string list" where
  "collect_inputs (ContextHas key) = [key]"
| "collect_inputs (ContextEquals key _) = [key]"
| "collect_inputs (TypeEquals _) = [''@type'']"
| "collect_inputs (And es) = concat (map collect_inputs es)"
| "collect_inputs (Or es) = concat (map collect_inputs es)"
| "collect_inputs (NotE e) = collect_inputs e"
| "collect_inputs (Always _) = []"
| "collect_inputs (BodySizeLte _) = []"

definition inputs_used :: "expression \<Rightarrow> string list" where
  "inputs_used e = remdups_adj (sort (collect_inputs e))"

definition rb_evaluate :: "reasoning_bit \<Rightarrow> eval_context \<Rightarrow> rb_result" where
  "rb_evaluate rb ctx =
     (let condition_result = expr_evaluate (rb_condition rb) ctx;
          d = (if condition_result then rb_on_true rb else rb_on_false rb)
      in \<lparr>res_rb_id = rb_id rb, res_decision = d,
          res_reason = rb_name rb @ '' evaluated to '' @ show_bool condition_result @ '' ''
            @ string_of_bytes [0xE2, 0x86, 0x92] @ '' '' @ show_decision d,
          res_inputs_used = inputs_used (rb_condition rb)\<rparr>)"

section \<open>Circuits\<close>

datatype aggregation_mode =
    AllMode
  | AnyMode
  | Majority
  | KofN (agg_k: nat) (agg_n: nat)
  | FirstDecisive

datatype circuit =
    Circuit (circuit_id: string) (circuit_name: string) (circuit_bits: "reasoning_bit list")
      (circuit_composition: composition_mode) (circuit_aggregator: aggregation_mode)
and composition_mode =
    Sequential
  | Parallel
  | Conditional "conditional_branch list"
and conditional_branch =
    ConditionalBranch (branch_condition: expression) (then_circuit: circuit)
      (else_circuit: "circuit option")

record circuit_result =
  cr_circuit_id :: string
  cr_decision :: decision
  cr_reason :: string
  cr_rb_results :: "rb_result list"
  cr_short_circuited :: bool

definition decided :: "decision \<Rightarrow> rb_result list \<Rightarrow> rb_result list" where
  "decided d rs = filter (\<lambda>r. res_decision r = d) rs"

fun join_comma :: "string list \<Rightarrow> string" where
  "join_comma [] = []"
| "join_comma [s] = s"
| "join_comma (s # t # ss) = s @ '', '' @ join_comma (t # ss)"

definition ids :: "rb_result list \<Rightarrow> string" where
  "ids rs = join_comma (map res_rb_id rs)"

definition aggregate_decision :: "aggregation_mode \<Rightarrow> rb_result list \<Rightarrow> decision \<times> string" where
  "aggregate_decision agg rs =
     (case agg of
        AllMode \<Rightarrow>
          if decided DenyDecision rs \<noteq> [] then (DenyDecision, ''Denied by: '' @ ids (decided DenyDecision rs))
          else if decided Require rs \<noteq> []
          then (Require, ''Requires consent from: '' @ ids (decided Require rs))
          else (Allow, ''All reasoning bits allowed'')
      | AnyMode \<Rightarrow>
          if decided Allow rs \<noteq> [] then (Allow, ''Allowed by: '' @ ids (decided Allow rs))
          else (DenyDecision, ''No reasoning bit allowed'')
      | Majority \<Rightarrow>
          (let allows = length (decided Allow rs); total = length rs
           in if allows > total div 2
              then (Allow, ''Majority allowed ('' @ show_nat allows @ ''/'' @ show_nat total @ '')'')
              else (DenyDecision,
                ''Majority denied ('' @ show_nat (total - allows) @ ''/'' @ show_nat total @ '')''))
      | KofN k n \<Rightarrow>
          (let allows = length (decided Allow rs)
           in if allows \<ge> k
              then (Allow, ''K-of-N satisfied ('' @ show_nat allows @ ''/'' @ show_nat n @ '')'')
              else (DenyDecision, ''K-of-N not satisfied ('' @ show_nat allows @ ''/'' @ show_nat n
                @ '', need '' @ show_nat k @ '')''))
      | FirstDecisive \<Rightarrow>
          (case find (\<lambda>r. res_decision r \<noteq> Require) rs of
             Some r \<Rightarrow> (res_decision r, ''First decisive: '' @ res_reason r)
           | None \<Rightarrow> (Require, ''All reasoning bits require consent'')))"

definition aggregate_results :: "string \<Rightarrow> aggregation_mode \<Rightarrow> rb_result list \<Rightarrow> circuit_result" where
  "aggregate_results cid agg rs =
     (if rs = [] then \<lparr>cr_circuit_id = cid, cr_decision = Allow, cr_reason = ''No reasoning bits to evaluate'',
        cr_rb_results = [], cr_short_circuited = False\<rparr>
      else (let (d, reason) = aggregate_decision agg rs
            in \<lparr>cr_circuit_id = cid, cr_decision = d, cr_reason = reason, cr_rb_results = rs,
                cr_short_circuited = False\<rparr>))"

text \<open>The sequential loop, with the results collected so far.\<close>

fun sequential_loop ::
  "string \<Rightarrow> aggregation_mode \<Rightarrow> eval_context \<Rightarrow> reasoning_bit list \<Rightarrow> rb_result list \<Rightarrow> circuit_result" where
  "sequential_loop cid agg ctx [] rs = aggregate_results cid agg rs"
| "sequential_loop cid agg ctx (rb # rbs) rs =
     (let result = rb_evaluate rb ctx; rs' = rs @ [result]
      in if res_decision result = DenyDecision
         then \<lparr>cr_circuit_id = cid, cr_decision = DenyDecision,
               cr_reason = ''Denied by '' @ res_rb_id result @ '': '' @ res_reason result,
               cr_rb_results = rs', cr_short_circuited = True\<rparr>
         else sequential_loop cid agg ctx rbs rs')"

definition evaluate_sequential ::
  "string \<Rightarrow> aggregation_mode \<Rightarrow> reasoning_bit list \<Rightarrow> eval_context \<Rightarrow> circuit_result" where
  "evaluate_sequential cid agg bits ctx = sequential_loop cid agg ctx bits []"

definition evaluate_parallel ::
  "string \<Rightarrow> aggregation_mode \<Rightarrow> reasoning_bit list \<Rightarrow> eval_context \<Rightarrow> circuit_result" where
  "evaluate_parallel cid agg bits ctx = aggregate_results cid agg (map (\<lambda>rb. rb_evaluate rb ctx) bits)"

definition no_branch_result :: "string \<Rightarrow> circuit_result" where
  "no_branch_result cid = \<lparr>cr_circuit_id = cid, cr_decision = DenyDecision,
     cr_reason = ''No matching condition in conditional circuit'', cr_rb_results = [],
     cr_short_circuited = False\<rparr>"

fun circuit_evaluate :: "circuit \<Rightarrow> eval_context \<Rightarrow> circuit_result"
and evaluate_conditional :: "string \<Rightarrow> conditional_branch list \<Rightarrow> eval_context \<Rightarrow> circuit_result option"
and evaluate_else :: "conditional_branch list \<Rightarrow> eval_context \<Rightarrow> circuit_result option" where
  "circuit_evaluate (Circuit cid name bits cm agg) ctx =
     (let result = (case cm of
          Sequential \<Rightarrow> evaluate_sequential cid agg bits ctx
        | Parallel \<Rightarrow> evaluate_parallel cid agg bits ctx
        | Conditional branches \<Rightarrow>
            (case evaluate_conditional cid branches ctx of
               Some r \<Rightarrow> r
             | None \<Rightarrow> (case evaluate_else branches ctx of Some r \<Rightarrow> r | None \<Rightarrow> no_branch_result cid)))
      in result\<lparr>cr_circuit_id := cid\<rparr>)"
| "evaluate_conditional cid [] ctx = None"
| "evaluate_conditional cid (ConditionalBranch c th el # bs) ctx =
     (if expr_evaluate c ctx then Some (circuit_evaluate th ctx) else evaluate_conditional cid bs ctx)"
| "evaluate_else (ConditionalBranch c th (Some el) # bs) ctx = Some (circuit_evaluate el ctx)"
| "evaluate_else _ ctx = None"

section \<open>Policies\<close>

record policy_scope =
  scope_chip_types :: "string list"
  scope_operations :: "string list"
  scope_level :: string

record policy_bit =
  pb_id :: string
  pb_name :: string
  pb_circuits :: "circuit list"
  pb_scope :: policy_scope

record policy_result =
  pr_policy_id :: string
  pr_decision :: decision
  pr_reason :: string
  pr_circuit_results :: "circuit_result list"
  pr_short_circuited :: bool

fun policy_loop :: "string \<Rightarrow> circuit list \<Rightarrow> eval_context \<Rightarrow> circuit_result list \<Rightarrow> policy_result" where
  "policy_loop pid [] ctx rs = \<lparr>pr_policy_id = pid, pr_decision = Allow, pr_reason = ''All circuits allowed'',
     pr_circuit_results = rs, pr_short_circuited = False\<rparr>"
| "policy_loop pid (c # cs) ctx rs =
     (let result = circuit_evaluate c ctx; rs' = rs @ [result]
      in if cr_decision result = DenyDecision
         then \<lparr>pr_policy_id = pid, pr_decision = DenyDecision, pr_reason = cr_reason result,
               pr_circuit_results = rs', pr_short_circuited = True\<rparr>
         else policy_loop pid cs ctx rs')"

definition policy_evaluate :: "policy_bit \<Rightarrow> eval_context \<Rightarrow> policy_result" where
  "policy_evaluate p ctx = policy_loop (pb_id p) (pb_circuits p) ctx []"

section \<open>What an expression depends on\<close>

lemma set_inputs_used: "set (inputs_used e) = set (collect_inputs e)"
  by (simp add: inputs_used_def)

lemma sorted_remdups_adj_strict: "sorted xs \<Longrightarrow> sorted_wrt (<) (remdups_adj (xs :: string list))"
  by (induction xs rule: remdups_adj.induct) (auto simp: order_le_less)

definition same_inputs :: "string set \<Rightarrow> eval_context \<Rightarrow> eval_context \<Rightarrow> bool" where
  "same_inputs ks a b \<longleftrightarrow> ctx_body_size a = ctx_body_size b
     \<and> (\<forall>k \<in> ks. ctx_variables a k = ctx_variables b k)
     \<and> (''@type'' \<in> ks \<longrightarrow> json_get (ctx_chip a) ''@type'' = json_get (ctx_chip b) ''@type'')"

lemma same_inputs_mono: "same_inputs ks a b \<Longrightarrow> ks' \<subseteq> ks \<Longrightarrow> same_inputs ks' a b"
  by (auto simp: same_inputs_def)

lemma expr_evaluate_inputs:
  "same_inputs (set (collect_inputs e)) a b \<Longrightarrow> expr_evaluate e a = expr_evaluate e b"
proof (induction e)
  case (And es)
  have "expr_evaluate e a = expr_evaluate e b" if "e \<in> set es" for e
    by (rule And.IH [OF that], rule same_inputs_mono [OF And.prems]) (use that in auto)
  then show ?case
    by (simp add: list_all_iff)
next
  case (Or es)
  have "expr_evaluate e a = expr_evaluate e b" if "e \<in> set es" for e
    by (rule Or.IH [OF that], rule same_inputs_mono [OF Or.prems]) (use that in auto)
  then show ?case
    by (simp add: list_ex_iff)
qed (auto simp: same_inputs_def)

text \<open>The reported inputs are complete: a reasoning bit gives the same result in any two contexts that
  agree on the body size and on the keys it reports as used, and the report lists them sorted and
  without duplicates.\<close>

theorem rb_evaluate_inputs_complete:
  assumes "same_inputs (set (inputs_used (rb_condition rb))) a b"
  shows "rb_evaluate rb a = rb_evaluate rb b \<and> sorted_wrt (<) (res_inputs_used (rb_evaluate rb a))"
proof -
  have "expr_evaluate (rb_condition rb) a = expr_evaluate (rb_condition rb) b"
    using assms by (intro expr_evaluate_inputs) (simp add: set_inputs_used)
  moreover have "sorted_wrt (<) (inputs_used (rb_condition rb))"
    unfolding inputs_used_def by (rule sorted_remdups_adj_strict) simp
  ultimately show ?thesis
    by (simp add: rb_evaluate_def Let_def)
qed

definition demo_bit :: reasoning_bit where
  "demo_bit = \<lparr>rb_id = ''r'', rb_name = ''r'', rb_condition = ContextHas ''k'', rb_on_true = Allow,
     rb_on_false = DenyDecision, rb_requires_context = []\<rparr>"

definition demo_ctx :: "json \<Rightarrow> eval_context" where
  "demo_ctx chip = \<lparr>ctx_chip = chip, ctx_body_size = 2, ctx_variables = [''k'' \<mapsto> JNull]\<rparr>"

theorem rb_evaluate_inputs_complete_witness:
  "rb_evaluate demo_bit (demo_ctx JNull) = rb_evaluate demo_bit (demo_ctx (JBool True))"
  using rb_evaluate_inputs_complete [of demo_bit "demo_ctx JNull" "demo_ctx (JBool True)"]
  by (simp add: demo_bit_def demo_ctx_def set_inputs_used same_inputs_def)

section \<open>What circuits decide\<close>

text \<open>Reference: the results of all bits, and the position of the first refusal.\<close>

definition bit_results :: "reasoning_bit list \<Rightarrow> eval_context \<Rightarrow> rb_result list" where
  "bit_results bits ctx = map (\<lambda>rb. rb_evaluate rb ctx) bits"

lemma bit_results_simps [simp]:
  "bit_results [] ctx = []" "bit_results (rb # bits) ctx = rb_evaluate rb ctx # bit_results bits ctx"
  by (simp_all add: bit_results_def)

lemma evaluate_parallel_eq: "evaluate_parallel cid agg bits ctx = aggregate_results cid agg (bit_results bits ctx)"
  by (simp add: evaluate_parallel_def bit_results_def)

abbreviation denies :: "rb_result \<Rightarrow> bool" where
  "denies r \<equiv> res_decision r = DenyDecision"

lemma sequential_loop_eq:
  "sequential_loop cid agg ctx bits rs =
    (case dropWhile (\<lambda>r. \<not> denies r) (bit_results bits ctx) of
       [] \<Rightarrow> aggregate_results cid agg (rs @ bit_results bits ctx)
     | r # _ \<Rightarrow> \<lparr>cr_circuit_id = cid, cr_decision = DenyDecision,
         cr_reason = ''Denied by '' @ res_rb_id r @ '': '' @ res_reason r,
         cr_rb_results = rs @ takeWhile (\<lambda>r. \<not> denies r) (bit_results bits ctx) @ [r],
         cr_short_circuited = True\<rparr>)"
proof (induction bits arbitrary: rs)
  case (Cons rb bits)
  show ?case
    by (cases "denies (rb_evaluate rb ctx)"; cases "dropWhile (\<lambda>r. \<not> denies r) (bit_results bits ctx)")
      (simp_all add: Cons.IH Let_def cong: list.case_cong)
qed simp

text \<open>C36: A sequential circuit stops exactly at the first refusing bit: if no bit refuses it is the
  parallel circuit, and otherwise it denies with the results up to and including the first
  refusal, whatever the aggregator.\<close>

theorem evaluate_sequential_spec:
  "evaluate_sequential cid agg bits ctx =
    (case dropWhile (\<lambda>r. \<not> denies r) (bit_results bits ctx) of
       [] \<Rightarrow> evaluate_parallel cid agg bits ctx
     | r # _ \<Rightarrow> \<lparr>cr_circuit_id = cid, cr_decision = DenyDecision,
         cr_reason = ''Denied by '' @ res_rb_id r @ '': '' @ res_reason r,
         cr_rb_results = takeWhile (\<lambda>r. \<not> denies r) (bit_results bits ctx) @ [r],
         cr_short_circuited = True\<rparr>)"
  unfolding evaluate_sequential_def sequential_loop_eq evaluate_parallel_eq append_Nil ..

lemma decided_ne: "decided d rs \<noteq> [] \<longleftrightarrow> (\<exists>r \<in> set rs. res_decision r = d)"
  by (auto simp: decided_def filter_empty_conv)

lemma aggregate_decision_of:
  "rs \<noteq> [] \<Longrightarrow> cr_decision (aggregate_results cid agg rs) = fst (aggregate_decision agg rs)"
  by (simp add: aggregate_results_def case_prod_beta)

text \<open>For circuits where all bits must allow, evaluation order does not matter: the sequential
  circuit, which stops early, and the parallel circuit, which evaluates every bit, decide the same.\<close>

theorem sequential_parallel_all:
  "cr_decision (evaluate_sequential cid AllMode bits ctx) = cr_decision (evaluate_parallel cid AllMode bits ctx)"
proof (cases "dropWhile (\<lambda>r. \<not> denies r) (bit_results bits ctx)")
  case Nil
  then show ?thesis
    unfolding evaluate_sequential_def sequential_loop_eq evaluate_parallel_eq Nil by simp
next
  case (Cons r rest)
  then have "r \<in> set (dropWhile (\<lambda>r. \<not> denies r) (bit_results bits ctx))" "denies r"
    using hd_dropWhile [of "\<lambda>r. \<not> denies r" "bit_results bits ctx"] by auto
  then have r: "r \<in> set (bit_results bits ctx)" "denies r"
    by (auto dest: set_dropWhileD)
  then have "decided DenyDecision (bit_results bits ctx) \<noteq> []" "bit_results bits ctx \<noteq> []"
    by (auto simp: decided_ne)
  then show ?thesis
    unfolding evaluate_sequential_def sequential_loop_eq evaluate_parallel_eq Cons
    by (simp add: aggregate_decision_of aggregate_decision_def)
qed

text \<open>The thresholds of the parallel aggregators are the documented ones: all allows only when every
  bit allows, any when some bit allows, majority when more than half of the bits allow, and K-of-N
  when at least K bits allow, for every non-empty circuit.\<close>

theorem aggregation_thresholds:
  assumes "bits \<noteq> []"
  shows "(cr_decision (evaluate_parallel cid agg bits ctx) = Allow) \<longleftrightarrow>
    (let rs = bit_results bits ctx; allows = length (filter (\<lambda>r. res_decision r = Allow) rs) in
     case agg of
       AllMode \<Rightarrow> allows = length rs
     | AnyMode \<Rightarrow> 1 \<le> allows
     | Majority \<Rightarrow> length rs < 2 * allows
     | KofN k n \<Rightarrow> k \<le> allows
     | FirstDecisive \<Rightarrow> (\<exists>r rest. dropWhile (\<lambda>r. res_decision r = Require) rs = r # rest \<and> res_decision r = Allow))"
proof -
  let ?rs = "bit_results bits ctx"
  have "?rs \<noteq> []"
    using assms by (simp add: bit_results_def)
  then have d: "cr_decision (evaluate_parallel cid agg bits ctx) = fst (aggregate_decision agg ?rs)"
    by (simp add: evaluate_parallel_eq aggregate_decision_of)
  have all: "length (filter (\<lambda>r. res_decision r = Allow) rs) = length rs \<longleftrightarrow> (\<forall>r \<in> set rs. res_decision r = Allow)" for rs
  proof (induction rs)
    case (Cons r rs)
    have "length (filter (\<lambda>r. res_decision r = Allow) rs) \<noteq> Suc (length rs)"
      by (metis Suc_n_not_le_n length_filter_le)
    with Cons.IH show ?case
      by (cases "res_decision r = Allow") simp_all
  qed simp
  have one: "1 \<le> length (filter (\<lambda>r. res_decision r = Allow) rs) \<longleftrightarrow> decided Allow rs \<noteq> []" for rs
    by (simp add: decided_def Suc_le_eq)
  have first: "(case find (\<lambda>r. res_decision r \<noteq> Require) rs of Some r \<Rightarrow> res_decision r | None \<Rightarrow> Require) = Allow
      \<longleftrightarrow> (\<exists>r rest. dropWhile (\<lambda>r. res_decision r = Require) rs = r # rest \<and> res_decision r = Allow)" for rs
    by (induction rs) auto
  show ?thesis
  proof (cases agg)
    case AllMode
    have "res_decision r = Allow \<longleftrightarrow> res_decision r \<noteq> DenyDecision \<and> res_decision r \<noteq> Require" for r
      by (cases "res_decision r") auto
    then have "(\<forall>r \<in> set ?rs. res_decision r = Allow)
        \<longleftrightarrow> decided DenyDecision ?rs = [] \<and> decided Require ?rs = []"
      by (auto simp: decided_def filter_empty_conv)
    with AllMode show ?thesis
      unfolding d Let_def by (simp add: aggregate_decision_def all)
  next
    case FirstDecisive
    then show ?thesis
      unfolding d Let_def using first [of ?rs] by (auto simp: aggregate_decision_def split: option.split_asm)
  qed (use d one [of ?rs] in \<open>auto simp: aggregate_decision_def Let_def decided_def\<close>)
qed

theorem aggregation_thresholds_witness:
  "cr_decision (evaluate_parallel ''c'' (KofN 1 2) [demo_bit, demo_bit] (demo_ctx JNull)) = Allow"
  by (subst aggregation_thresholds)
    (simp_all add: Let_def demo_bit_def demo_ctx_def rb_evaluate_def)

section \<open>What policies decide\<close>

lemma policy_loop_decision:
  "pr_decision (policy_loop pid cs ctx rs) =
    (if \<exists>c \<in> set cs. cr_decision (circuit_evaluate c ctx) = DenyDecision then DenyDecision else Allow)"
  by (induction cs arbitrary: rs) (auto simp: Let_def)

text \<open>A policy is a veto: it denies exactly when some circuit denies and allows otherwise, in whatever
  order the circuits stand.\<close>

theorem policy_denies_iff:
  "pr_decision (policy_evaluate p ctx) =
    (if \<exists>c \<in> set (pb_circuits p). cr_decision (circuit_evaluate c ctx) = DenyDecision
     then DenyDecision else Allow)"
  by (simp add: policy_evaluate_def policy_loop_decision)

text \<open>A policy forgets required consent: a policy whose only circuit answers that consent is required
  is allowed.\<close>

theorem policy_drops_require:
  "\<exists>p ctx c. pb_circuits p = [c] \<and> cr_decision (circuit_evaluate c ctx) = Require
     \<and> pr_decision (policy_evaluate p ctx) = Allow"
proof -
  let ?rb = "\<lparr>rb_id = ''r'', rb_name = ''r'', rb_condition = Always True, rb_on_true = Require,
    rb_on_false = DenyDecision, rb_requires_context = []\<rparr>"
  let ?c = "Circuit ''c'' ''c'' [?rb] Parallel AllMode"
  let ?p = "\<lparr>pb_id = ''p'', pb_name = ''p'', pb_circuits = [?c], 
    pb_scope = \<lparr>scope_chip_types = [], scope_operations = [], scope_level = ''chip''\<rparr>\<rparr>"
  let ?ctx = "\<lparr>ctx_chip = JNull, ctx_body_size = 0, ctx_variables = Map.empty\<rparr>"
  have "cr_decision (circuit_evaluate ?c ?ctx) = Require"
    by (simp add: evaluate_parallel_def aggregate_results_def aggregate_decision_def rb_evaluate_def
        decided_def Let_def)
  then show ?thesis
    by (intro exI [of _ ?p] exI [of _ ?ctx] exI [of _ ?c]) (simp add: policy_evaluate_def policy_loop_decision)
qed

end
