(* ===== verification/Ubl_Canon.thy ===== *)
theory Ubl_Canon
  imports Nrf_Json
begin

text \<open>
  The canonical path for identifiers and signatures (\<open>crates/ubl_canon/src/lib.rs\<close>): content
  identifiers, fingerprints, and signatures over NRF bytes in a domain, directly (v1) or over
  their hash (v2). BLAKE3, Ed25519 and base64 are fields of \<open>crypto_env\<close>.
\<close>

section \<open>Definitions\<close>

definition DOMAINS :: "string list" where
  "DOMAINS = [''ubl/receipt/v1'', ''ubl/rich-url/v1'', ''ubl-rb-vm/v1'', ''ubl-capability/v1'',
     ''ubl/runtime-attestation/v1'']"

datatype crypto_mode = CompatV1 | HashFirstV2

datatype sig_error = MissingPrefix | BadBase64 | BadLength

datatype canon_error = CanonNrf rho_error | CanonSignature sig_error

record ('sk, 'vk) crypto_env =
  ce_text :: text_env
  ce_hash :: "u8 list \<Rightarrow> u8 list"
  ce_sign :: "'sk \<Rightarrow> u8 list \<Rightarrow> u8 list"
  ce_verify :: "'vk \<Rightarrow> u8 list \<Rightarrow> u8 list \<Rightarrow> bool"
  ce_b64 :: "u8 list \<Rightarrow> string"
  ce_b64_decode :: "string \<Rightarrow> u8 list option"

definition to_nrf_bytes :: "('sk, 'vk) crypto_env \<Rightarrow> json \<Rightarrow> canon_error + u8 list" where
  "to_nrf_bytes K v = map_err CanonNrf (to_nrf1_bytes (ce_text K) v)"

definition cid_of_value :: "('sk, 'vk) crypto_env \<Rightarrow> json \<Rightarrow> canon_error + string" where
  "cid_of_value K v =
     and_then (to_nrf_bytes K v) (\<lambda>nrf. Inr (''b3:'' @ hex_encode (ce_hash K nrf)))"

record canon_fingerprint =
  fp_hash :: string
  fp_type :: string
  fp_ver :: string
  fp_world :: string

definition str_or_empty :: "json \<Rightarrow> string \<Rightarrow> string" where
  "str_or_empty body key = (case Option.bind (json_get body key) as_str of Some s \<Rightarrow> s | None \<Rightarrow> [])"

definition from_chip_body :: "('sk, 'vk) crypto_env \<Rightarrow> json \<Rightarrow> canon_fingerprint option" where
  "from_chip_body K body =
     map_option (\<lambda>nrf. \<lparr>fp_hash = hex_encode (ce_hash K nrf), fp_type = str_or_empty body ''@type'',
         fp_ver = str_or_empty body ''@ver'', fp_world = str_or_empty body ''@world''\<rparr>)
       (ok_opt (to_nrf_bytes K body))"

definition rate_key :: "canon_fingerprint \<Rightarrow> string" where
  "rate_key fp = fp_type fp @ ''|'' @ fp_ver fp @ ''|'' @ fp_world fp @ ''|'' @ fp_hash fp"

text \<open>The ellipsis is one character of three bytes; the hash is ASCII.\<close>

definition fp_display :: "canon_fingerprint \<Rightarrow> string" where
  "fp_display fp =
     (let h = fp_hash fp
      in if length h < 12 then ''canon:'' @ h
         else ''canon:'' @ take 8 h @ string_of_bytes [0xE2, 0x80, 0xA6] @ drop (length h - 4) h)"

definition sign_raw_v1 :: "('sk, 'vk) crypto_env \<Rightarrow> u8 list \<Rightarrow> string \<Rightarrow> 'sk \<Rightarrow> string" where
  "sign_raw_v1 K payload domain sk =
     (let msg = bytes_of domain @ payload; sig = ce_sign K sk msg in ''ed25519:'' @ ce_b64 K sig)"

definition verify_signature ::
  "('sk, 'vk) crypto_env \<Rightarrow> 'vk \<Rightarrow> u8 list \<Rightarrow> string \<Rightarrow> canon_error + bool" where
  "verify_signature K vk message sig =
     and_then (ok_or (CanonSignature MissingPrefix) (strip_prefix ''ed25519:'' sig)) (\<lambda>b64.
     and_then (ok_or (CanonSignature BadBase64) (ce_b64_decode K b64)) (\<lambda>sig_bytes.
       if length sig_bytes \<noteq> 64 then Inl (CanonSignature BadLength)
       else Inr (ce_verify K vk message sig_bytes)))"

definition verify_raw_v1 ::
  "('sk, 'vk) crypto_env \<Rightarrow> u8 list \<Rightarrow> string \<Rightarrow> 'vk \<Rightarrow> string \<Rightarrow> canon_error + bool" where
  "verify_raw_v1 K payload domain vk sig = verify_signature K vk (bytes_of domain @ payload) sig"

definition sign_raw_v2_hash_first :: "('sk, 'vk) crypto_env \<Rightarrow> u8 list \<Rightarrow> string \<Rightarrow> 'sk \<Rightarrow> string" where
  "sign_raw_v2_hash_first K payload domain sk =
     (let digest = ce_hash K (bytes_of domain @ payload); sig = ce_sign K sk digest
      in ''ed25519:'' @ ce_b64 K sig)"

definition verify_raw_v2_hash_first ::
  "('sk, 'vk) crypto_env \<Rightarrow> u8 list \<Rightarrow> string \<Rightarrow> 'vk \<Rightarrow> string \<Rightarrow> canon_error + bool" where
  "verify_raw_v2_hash_first K payload domain vk sig =
     verify_signature K vk (ce_hash K (bytes_of domain @ payload)) sig"

definition sign_domain_v1 :: "('sk, 'vk) crypto_env \<Rightarrow> json \<Rightarrow> string \<Rightarrow> 'sk \<Rightarrow> canon_error + string" where
  "sign_domain_v1 K v domain sk = map_ok (\<lambda>nrf. sign_raw_v1 K nrf domain sk) (to_nrf_bytes K v)"

definition verify_domain_v1 ::
  "('sk, 'vk) crypto_env \<Rightarrow> json \<Rightarrow> string \<Rightarrow> 'vk \<Rightarrow> string \<Rightarrow> canon_error + bool" where
  "verify_domain_v1 K v domain vk sig = and_then (to_nrf_bytes K v) (\<lambda>nrf. verify_raw_v1 K nrf domain vk sig)"

definition sign_domain_v2_hash_first ::
  "('sk, 'vk) crypto_env \<Rightarrow> json \<Rightarrow> string \<Rightarrow> 'sk \<Rightarrow> canon_error + string" where
  "sign_domain_v2_hash_first K v domain sk =
     map_ok (\<lambda>nrf. sign_raw_v2_hash_first K nrf domain sk) (to_nrf_bytes K v)"

definition verify_domain_v2_hash_first ::
  "('sk, 'vk) crypto_env \<Rightarrow> json \<Rightarrow> string \<Rightarrow> 'vk \<Rightarrow> string \<Rightarrow> canon_error + bool" where
  "verify_domain_v2_hash_first K v domain vk sig =
     and_then (to_nrf_bytes K v) (\<lambda>nrf. verify_raw_v2_hash_first K nrf domain vk sig)"

section \<open>Signing modes\<close>

text \<open>
  What the code relies on of its libraries: base64 is invertible, signatures have 64 bytes, and a
  signature verifies under the key of its signer.
\<close>

definition sound_crypto :: "('sk, 'vk) crypto_env \<Rightarrow> ('sk \<Rightarrow> 'vk) \<Rightarrow> bool" where
  "sound_crypto K pub \<longleftrightarrow> (\<forall>b. ce_b64_decode K (ce_b64 K b) = Some b)
     \<and> (\<forall>sk m. length (ce_sign K sk m) = 64 \<and> ce_verify K (pub sk) m (ce_sign K sk m))"

text \<open>
  The interface of a signing mode: a message to sign per domain and payload, and raw and domain
  operations that agree on it.
\<close>

locale signing_mode =
  fixes message :: "('sk, 'vk) crypto_env \<Rightarrow> string \<Rightarrow> u8 list \<Rightarrow> u8 list"
    and sign :: "('sk, 'vk) crypto_env \<Rightarrow> json \<Rightarrow> string \<Rightarrow> 'sk \<Rightarrow> canon_error + string"
    and verify :: "('sk, 'vk) crypto_env \<Rightarrow> json \<Rightarrow> string \<Rightarrow> 'vk \<Rightarrow> string \<Rightarrow> canon_error + bool"
  assumes sign_message: "sign K v domain sk
      = map_ok (\<lambda>nrf. ''ed25519:'' @ ce_b64 K (ce_sign K sk (message K domain nrf))) (to_nrf_bytes K v)"
    and verify_message: "verify K v domain vk sig
      = and_then (to_nrf_bytes K v) (\<lambda>nrf. verify_signature K vk (message K domain nrf) sig)"
begin

lemma verify_sign:
  assumes "sound_crypto K pub" "sign K v domain sk = Inr sig" "json_wf v" "json_wf w" "json_eq v w"
  shows "verify K w domain (pub sk) sig = Inr True"
proof -
  obtain nrf where nrf: "to_nrf1_bytes (ce_text K) v = Inr nrf"
    "sig = ''ed25519:'' @ ce_b64 K (ce_sign K sk (message K domain nrf))"
    using assms(2) by (auto simp: sign_message to_nrf_bytes_def result_simps)
  have "to_nrf1_bytes (ce_text K) w = Inr nrf"
    using nrf(1) json_eq_nrf [OF assms(5,3,4)] by (auto simp: to_nrf1_bytes_iff)
  then show ?thesis
    using assms(1) by (simp add: verify_message to_nrf_bytes_def nrf(2) verify_signature_def sound_crypto_def
        del: append_Cons append_Nil)
qed

lemma verify_malformed:
  assumes "to_nrf_bytes K v = Inr nrf" "strip_prefix ''ed25519:'' sig = None"
  shows "verify K v domain vk sig = Inl (CanonSignature MissingPrefix)"
  using assms by (simp add: verify_message verify_signature_def)

end

interpretation v1: signing_mode "\<lambda>K domain nrf. bytes_of domain @ nrf" sign_domain_v1 verify_domain_v1
  by unfold_locales
    (simp_all add: sign_domain_v1_def sign_raw_v1_def verify_domain_v1_def verify_raw_v1_def Let_def)

interpretation v2: signing_mode "\<lambda>K domain nrf. ce_hash K (bytes_of domain @ nrf)"
  sign_domain_v2_hash_first verify_domain_v2_hash_first
  by unfold_locales
    (simp_all add: sign_domain_v2_hash_first_def sign_raw_v2_hash_first_def verify_domain_v2_hash_first_def
      verify_raw_v2_hash_first_def Let_def)

section \<open>Properties\<close>

text \<open>C20: Signatures survive re-serialisation: a value signed in a domain, in either mode, verifies under
  the signer's key for every equal JSON value, whatever the order of its members.\<close>

theorem sign_verify_roundtrip:
  assumes "sound_crypto K pub" "json_wf v" "json_wf w" "json_eq v w"
  shows "(sign_domain_v1 K v domain sk = Inr s1 \<longrightarrow> verify_domain_v1 K w domain (pub sk) s1 = Inr True)
    \<and> (sign_domain_v2_hash_first K v domain sk = Inr s2 \<longrightarrow>
        verify_domain_v2_hash_first K w domain (pub sk) s2 = Inr True)"
  using v1.verify_sign [OF assms(1) _ assms(2-4)] v2.verify_sign [OF assms(1) _ assms(2-4)] by blast

text \<open>An abstract signature scheme to run the definitions on: a signature repeats the key and the
  start of the message.\<close>

definition toy_crypto :: "(u8, u8) crypto_env" where
  "toy_crypto = \<lparr>ce_text = plain_text, ce_hash = (\<lambda>b. take 32 (b @ replicate 32 0)),
     ce_sign = (\<lambda>sk m. sk # take 63 (m @ replicate 63 0)),
     ce_verify = (\<lambda>vk m s. s = vk # take 63 (m @ replicate 63 0)),
     ce_b64 = string_of_bytes, ce_b64_decode = (\<lambda>s. Some (bytes_of s))\<rparr>"

lemma toy_sound: "sound_crypto toy_crypto id"
  by (auto simp: sound_crypto_def toy_crypto_def min_def)

theorem sign_verify_roundtrip_witness:
  "verify_domain_v1 toy_crypto (JObj [(''a'', JNull), (''b'', JBool True)]) ''ubl/receipt/v1'' 7
    (sign_raw_v1 toy_crypto (MAGIC @ [7, 1, 4, 1, 98, 2]) ''ubl/receipt/v1'' 7) = Inr True"
proof -
  let ?v = "JObj [(''b'', JBool True), (''a'', JNull)]" and ?w = "JObj [(''a'', JNull), (''b'', JBool True)]"
  have wf: "json_wf ?v" "json_wf ?w" "json_eq ?v ?w"
    by code_simp+
  have "to_nrf1_bytes plain_text ?v = Inr (MAGIC @ [7, 1, 4, 1, 98, 2])"
    by code_simp
  then have "sign_domain_v1 toy_crypto ?v ''ubl/receipt/v1'' 7
      = Inr (sign_raw_v1 toy_crypto (MAGIC @ [7, 1, 4, 1, 98, 2]) ''ubl/receipt/v1'' 7)"
    by (simp add: sign_domain_v1_def to_nrf_bytes_def toy_crypto_def)
  then show ?thesis
    using sign_verify_roundtrip [OF toy_sound wf] by auto
qed

lemma prefix_comparable: "a @ x = b @ y \<Longrightarrow> length a \<le> length b \<Longrightarrow> take (length a) b = a"
  by (auto simp: append_eq_append_conv_if)

text \<open>Domains are separated: although a v1 message is the domain followed by the payload without a
  separator, no payloads make the messages of two of the declared domains equal.\<close>

theorem domains_separated:
  assumes "d \<in> set DOMAINS" "d' \<in> set DOMAINS"
  shows "bytes_of d @ p = bytes_of d' @ p' \<longleftrightarrow> d = d' \<and> p = p'"
proof
  assume eq: "bytes_of d @ p = bytes_of d' @ p'"
  have "take (length d) d' = d \<or> take (length d') d = d'"
    using prefix_comparable [OF eq] prefix_comparable [OF eq [symmetric]]
    by (metis bytes_of_inject length_bytes_of linear bytes_of_def take_map)
  moreover have "\<forall>d \<in> set DOMAINS. \<forall>d' \<in> set DOMAINS. take (length d) d' = d \<longrightarrow> d = d'"
    by code_simp
  ultimately have "d = d'"
    using assms by metis
  with eq show "d = d' \<and> p = p'"
    by simp
qed simp

theorem domains_separated_witness:
  "(bytes_of ''ubl/receipt/v1'' @ [1] = bytes_of ''ubl/rich-url/v1'' @ [2]) = False"
  using domains_separated [of "''ubl/receipt/v1''" "''ubl/rich-url/v1''" "[1]" "[2]"] by (simp add: DOMAINS_def)

lemma json_eq_str: "json_eq v w \<Longrightarrow> as_str v = as_str w"
  by (cases v; cases w) simp_all

lemma json_eq_get_str:
  assumes "json_eq v w" "json_wf v" "json_wf w"
  shows "str_or_empty v key = str_or_empty w key"
proof (cases v)
  case (JObj m)
  then obtain n where w: "w = JObj n"
    using assms(1) by (cases w) simp_all
  have d: "distinct (map fst m)" "distinct (map fst n)"
    using assms(2,3) JObj w by simp_all
  show ?thesis
  proof (cases "map_of m key")
    case None
    then have "map_of n key = None"
      using json_eq_keys [OF assms(1) [unfolded JObj w] d] by (simp add: map_of_eq_None_iff)
    with None show ?thesis
      by (simp add: str_or_empty_def JObj w)
  next
    case (Some x)
    then obtain y where "map_of n key = Some y" "json_eq x y"
      using json_eq_map_of [OF assms(1) [unfolded JObj w]] by blast
    with Some show ?thesis
      by (simp add: str_or_empty_def JObj w json_eq_str)
  qed
qed (use assms(1) in \<open>cases w; simp add: str_or_empty_def\<close>)+

lemma from_chip_body_canonical:
  assumes "json_wf v" "json_wf w" "json_eq v w" "from_chip_body K v = Some fp"
  shows "from_chip_body K w = Some fp"
proof -
  obtain nrf where "to_nrf1_bytes (ce_text K) v = Inr nrf"
    using assms(4) by (cases "to_nrf1_bytes (ce_text K) v") (simp_all add: from_chip_body_def to_nrf_bytes_def)
  moreover from this have "to_nrf1_bytes (ce_text K) w = Inr nrf"
    using json_eq_nrf [OF assms(3,1,2)] by (auto simp: to_nrf1_bytes_iff)
  ultimately show ?thesis
    using assms(4) by (simp add: from_chip_body_def to_nrf_bytes_def json_eq_get_str [OF assms(3,1,2)])
qed

end
