(* ===== verification/Ubl_Text.thy ===== *)
theory Ubl_Text
  imports Nrf_Json
begin

text \<open>
  Operations of the Rust standard library on text that several components use: ASCII case,
  prefixes, splitting, and the hexadecimal reader of the \<open>hex\<close> crate with its round trip.
  Text is UTF-8; every operation here looks only at ASCII characters.
\<close>

section \<open>ASCII characters\<close>

definition ascii_in :: "nat \<Rightarrow> nat \<Rightarrow> char \<Rightarrow> bool" where
  "ascii_in lo hi c \<longleftrightarrow> lo \<le> of_char c \<and> of_char c \<le> hi"

definition is_ascii_upper :: "char \<Rightarrow> bool" where "is_ascii_upper = ascii_in 65 90"
definition is_ascii_lower :: "char \<Rightarrow> bool" where "is_ascii_lower = ascii_in 97 122"

definition is_hex_digit :: "char \<Rightarrow> bool" where
  "is_hex_digit c \<longleftrightarrow> is_digit c \<or> ascii_in 65 70 c \<or> ascii_in 97 102 c"

definition to_ascii_lowercase :: "string \<Rightarrow> string" where
  "to_ascii_lowercase s = map ascii_lower s"

definition eq_ignore_ascii_case :: "string \<Rightarrow> string \<Rightarrow> bool" where
  "eq_ignore_ascii_case s t \<longleftrightarrow> to_ascii_lowercase s = to_ascii_lowercase t"

section \<open>Prefixes and pieces\<close>

definition starts_with :: "string \<Rightarrow> string \<Rightarrow> bool" where
  "starts_with p s \<longleftrightarrow> take (length p) s = p"

lemma starts_with_iff: "starts_with p s \<longleftrightarrow> (\<exists>r. s = p @ r)"
  unfolding starts_with_def by (metis append_eq_conv_conj append_take_drop_id)

lemma strip_prefix_iff: "strip_prefix p s = Some r \<longleftrightarrow> s = p @ r"
  unfolding strip_prefix_def by (auto, metis append_take_drop_id)

fun split_on :: "char \<Rightarrow> string \<Rightarrow> string list" where
  "split_on d [] = [[]]"
| "split_on d (c # s) =
     (if c = d then [] # split_on d s
      else (case split_on d s of t # ts \<Rightarrow> (c # t) # ts | [] \<Rightarrow> [[c]]))"

lemma split_on_ne [simp]: "split_on d s \<noteq> []"
  by (cases s) (simp_all split: list.split)

text \<open>Joining the pieces with the separator gives the text back, and no piece contains it.\<close>

fun join_with :: "char \<Rightarrow> string list \<Rightarrow> string" where
  "join_with d [] = []"
| "join_with d [t] = t"
| "join_with d (t # ts) = t @ d # join_with d ts"

lemma join_with_Cons: "ts \<noteq> [] \<Longrightarrow> join_with d (t # ts) = t @ d # join_with d ts"
  by (cases ts) simp_all

lemma join_split: "join_with d (split_on d s) = s"
proof (induction s)
  case (Cons c s)
  obtain t ts where ts: "split_on d s = t # ts"
    by (cases "split_on d s") simp_all
  with Cons show ?case
    by (cases ts) auto
qed simp

lemma split_on_pieces: "t \<in> set (split_on d s) \<Longrightarrow> d \<notin> set t"
proof (induction s arbitrary: t)
  case (Cons c s)
  obtain u us where "split_on d s = u # us"
    by (cases "split_on d s") simp_all
  with Cons show ?case
    by (auto split: if_splits)
qed simp

lemma split_on_id: "d \<notin> set s \<Longrightarrow> split_on d s = [s]"
  by (induction s) auto

lemma split_on_append: "d \<notin> set s \<Longrightarrow> split_on d (s @ d # r) = s # split_on d r"
  by (induction s) auto

lemma split_join: "ts \<noteq> [] \<Longrightarrow> list_all (\<lambda>t. d \<notin> set t) ts \<Longrightarrow> split_on d (join_with d ts) = ts"
proof (induction ts)
  case (Cons t ts)
  then show ?case
    by (cases "ts = []") (simp_all add: split_on_id join_with_Cons split_on_append)
qed simp

section \<open>Hexadecimal text\<close>

definition hex_val :: "char \<Rightarrow> nat option" where
  "hex_val c = (if is_digit c then Some (of_char c - 48)
     else if ascii_in 97 102 c then Some (of_char c - 87)
     else if ascii_in 65 70 c then Some (of_char c - 55) else None)"

fun hex_decode :: "string \<Rightarrow> u8 list option" where
  "hex_decode [] = Some []"
| "hex_decode [c] = None"
| "hex_decode (c # d # s) =
     (case (hex_val c, hex_val d, hex_decode s) of
        (Some h, Some l, Some bs) \<Rightarrow> Some (of_nat (16 * h + l) # bs)
      | _ \<Rightarrow> None)"

lemma hex_val_digit_char: "n < 16 \<Longrightarrow> hex_val (digit_char n) = Some n"
  by (auto simp: hex_val_def digit_char_def is_digit_def ascii_in_def)

lemma digit_char_0: "digit_char 0 = CHR ''0''"
  by code_simp

lemma hex_byte_digits: "hex_byte b = [digit_char (unat b div 16), digit_char (unat b mod 16)]"
proof -
  have b: "unat b < 256"
    using unsigned_less [of b] by simp
  then have "unat b div 16 < 16"
    by (simp add: less_mult_imp_div_less)
  then show ?thesis
    by (auto simp: hex_byte_def pad_zero_def hex_digits.simps [of "unat b"] hex_digits.simps [of "unat b div 16"]
        digit_char_0)
qed

lemma hex_decode_encode [simp]: "hex_decode (hex_encode bs) = Some bs"
proof (induction bs)
  case (Cons b bs)
  have "unat b < 256"
    using unsigned_less [of b] by simp
  then have "unat b div 16 < 16"
    by (simp add: less_mult_imp_div_less)
  moreover have "(of_nat (16 * (unat b div 16) + unat b mod 16) :: u8) = b"
    by (simp only: mult_div_mod_eq) simp
  ultimately show ?case
    using Cons by (simp add: hex_encode_def hex_byte_digits hex_val_digit_char del: of_nat_add of_nat_mult)
qed (simp add: hex_encode_def)

lemma hex_encode_inject [simp]: "hex_encode a = hex_encode b \<longleftrightarrow> a = b"
  by (metis hex_decode_encode option.inject)

lemma hex_digit_char: "n < 16 \<Longrightarrow> is_hex_digit (digit_char n)"
  by (auto simp: is_hex_digit_def digit_char_def is_digit_def ascii_in_def)

lemma hex_encode_digits: "list_all is_hex_digit (hex_encode bs)"
proof (induction bs)
  case (Cons b bs)
  have "unat b < 256"
    using unsigned_less [of b] by simp
  then have "unat b div 16 < 16"
    by (simp add: less_mult_imp_div_less)
  with Cons show ?case
    by (simp add: hex_encode_def hex_byte_digits hex_digit_char)
qed (simp add: hex_encode_def)

section \<open>Loops that stop at the first error\<close>

fun for_each :: "('a \<Rightarrow> 'e + unit) \<Rightarrow> 'a list \<Rightarrow> 'e + unit" where
  "for_each f [] = Inr ()"
| "for_each f (x # xs) = and_then (f x) (\<lambda>_. for_each f xs)"

lemma for_each_cong [fundef_cong]:
  "xs = ys \<Longrightarrow> (\<And>x. x \<in> set ys \<Longrightarrow> f x = g x) \<Longrightarrow> for_each f xs = for_each g ys"
  by (induction ys arbitrary: xs) auto

lemma for_each_ok: "for_each f xs = Inr () \<longleftrightarrow> list_all (\<lambda>x. f x = Inr ()) xs"
  by (induction xs) (simp_all add: result_simps)

lemma for_each_Inl: "for_each f xs = Inl e \<Longrightarrow> \<exists>x \<in> set xs. f x = Inl e"
  by (induction xs) (auto simp: result_simps)

text \<open>A check succeeds or fails; it has no other result.\<close>

lemma unit_result_cases: "(r :: 'e + unit) = Inr () \<or> (\<exists>e. r = Inl e)"
  by (cases r) auto

end
