(* ===== verification/Chip_Store.thy ===== *)
theory Chip_Store
  imports Ubl_Canon Ubl_Text
begin

text \<open>
  The chip store (\<open>crates/ubl_chipstore/src\<close>): stored chips and queries (\<open>lib.rs\<close>, \<open>query.rs\<close>), the secondary
  indexes (\<open>indexing.rs\<close>) and the in-memory, embedded-database and file-system backends (\<open>backends.rs\<close>). A hash map
  is an association list whose order stands for its iteration order, a hash set a list without repetitions; no
  property depends on the order. A tree of the embedded database is the association list of its entries.
  The serialised form of a chip, the clock and the reading of dates are arguments. Writing a chip may fail at any of
  its calls; reading and deleting do not fail. The S3 backend delegates every operation to the file-system backend.
\<close>

section \<open>Chips and queries\<close>

record execution_metadata =
  em_runtime_version :: string
  em_execution_time_ms :: i64
  em_fuel_consumed :: u64
  em_policies_applied :: "string list"
  em_executor_did :: string
  em_reproducible :: bool

record stored_chip =
  sc_cid :: string
  sc_type :: string
  sc_data :: json
  sc_receipt_cid :: string
  sc_created_at :: string
  sc_meta :: execution_metadata
  sc_tags :: "string list"
  sc_related :: "string list"

record chip_query =
  cq_type :: "string option"
  cq_tags :: "string list"
  cq_created_after :: "string option"
  cq_created_before :: "string option"
  cq_executor_did :: "string option"
  cq_limit :: "nat option"
  cq_offset :: "nat option"

record query_result =
  qr_chips :: "stored_chip list"
  qr_total_count :: nat
  qr_has_more :: bool

datatype store_error =
    StoreSerialization
  | StoreBackend string
  | StoreNotFound string
  | StoreInvalidCid string
  | StoreIndex string

definition holds_for :: "'a option \<Rightarrow> ('a \<Rightarrow> bool) \<Rightarrow> bool" where
  "holds_for limit P = (case limit of None \<Rightarrow> True | Some x \<Rightarrow> P x)"

definition matches_query :: "stored_chip \<Rightarrow> chip_query \<Rightarrow> bool" where
  "matches_query chip query \<longleftrightarrow>
     holds_for (cq_type query) (\<lambda>t. sc_type chip = t)
     \<and> list_all (\<lambda>tag. tag \<in> set (sc_tags chip)) (cq_tags query)
     \<and> holds_for (cq_created_after query) (\<lambda>after. \<not> sc_created_at chip \<le> after)
     \<and> holds_for (cq_created_before query) (\<lambda>before. \<not> sc_created_at chip \<ge> before)
     \<and> holds_for (cq_executor_did query) (\<lambda>did. em_executor_did (sc_meta chip) = did)"

text \<open>A stable sort, newest first.\<close>

definition newest_first :: "stored_chip list \<Rightarrow> stored_chip list" where
  "newest_first chips = rev (sort_key sc_created_at (rev chips))"

definition apply_pagination :: "stored_chip list \<Rightarrow> chip_query \<Rightarrow> query_result" where
  "apply_pagination results query =
     (let sorted = newest_first results;
          total_count = length sorted;
          offset = (case cq_offset query of Some n \<Rightarrow> n | None \<Rightarrow> 0);
          limit = (case cq_limit query of Some n \<Rightarrow> n | None \<Rightarrow> 100);
          page = take limit (drop offset sorted)
      in \<lparr>qr_chips = page, qr_total_count = total_count, qr_has_more = (offset + length page < total_count)\<rparr>)"

section \<open>Indexes\<close>

type_synonym index = "(string \<times> string list) list"

definition index_entry :: "index \<Rightarrow> string \<Rightarrow> string list" where
  "index_entry m k = (case map_of m k of Some cids \<Rightarrow> cids | None \<Rightarrow> [])"

definition index_add :: "string \<Rightarrow> string \<Rightarrow> index \<Rightarrow> index" where
  "index_add cid k m = obj_insert k (List.insert cid (index_entry m k)) m"

definition index_remove :: "string \<Rightarrow> string \<Rightarrow> index \<Rightarrow> index" where
  "index_remove cid k m =
     (case map_of m k of
        None \<Rightarrow> m
      | Some cids \<Rightarrow>
          let cids' = removeAll cid cids
          in if cids' = [] then filter (\<lambda>p. fst p \<noteq> k) m else obj_insert k cids' m)"

record chip_indexes =
  ix_type :: index
  ix_tag :: index
  ix_executor :: index

definition empty_indexes :: chip_indexes where
  "empty_indexes = \<lparr>ix_type = [], ix_tag = [], ix_executor = []\<rparr>"

definition index_chip :: "stored_chip \<Rightarrow> chip_indexes \<Rightarrow> chip_indexes" where
  "index_chip chip ix =
     \<lparr>ix_type = index_add (sc_cid chip) (sc_type chip) (ix_type ix),
      ix_tag = fold (index_add (sc_cid chip)) (sc_tags chip) (ix_tag ix),
      ix_executor = index_add (sc_cid chip) (em_executor_did (sc_meta chip)) (ix_executor ix)\<rparr>"

definition remove_chip_from_indexes :: "stored_chip \<Rightarrow> chip_indexes \<Rightarrow> chip_indexes" where
  "remove_chip_from_indexes chip ix =
     \<lparr>ix_type = index_remove (sc_cid chip) (sc_type chip) (ix_type ix),
      ix_tag = fold (index_remove (sc_cid chip)) (sc_tags chip) (ix_tag ix),
      ix_executor = index_remove (sc_cid chip) (em_executor_did (sc_meta chip)) (ix_executor ix)\<rparr>"

definition intersect_sets :: "string list option \<Rightarrow> string list \<Rightarrow> string list" where
  "intersect_sets current next_set = (case current of Some existing \<Rightarrow> filter (\<lambda>c. c \<in> set next_set) existing | None \<Rightarrow> next_set)"

text \<open>The candidate sets of a query in the order type, tags, executor; the readers of the three indexes are arguments.\<close>

definition candidate_cids ::
  "(string \<Rightarrow> string list) \<Rightarrow> (string \<Rightarrow> string list) \<Rightarrow> (string \<Rightarrow> string list) \<Rightarrow> chip_query \<Rightarrow> string list option" where
  "candidate_cids by_type by_tag by_executor query =
     (if cq_type query = None \<and> cq_tags query = [] \<and> cq_executor_did query = None then None
      else
        let c0 = None;
            c1 = (case cq_type query of Some t \<Rightarrow> Some (intersect_sets c0 (by_type t)) | None \<Rightarrow> c0);
            c2 = fold (\<lambda>tag c. Some (intersect_sets c (by_tag tag))) (cq_tags query) c1;
            c3 = (case cq_executor_did query of Some d \<Rightarrow> Some (intersect_sets c2 (by_executor d)) | None \<Rightarrow> c2)
        in Some (case c3 of Some c \<Rightarrow> c | None \<Rightarrow> []))"

subsection \<open>The indexer\<close>

definition get_cids_by_type :: "chip_indexes \<Rightarrow> string \<Rightarrow> string list" where
  "get_cids_by_type ix t = index_entry (ix_type ix) t"

definition get_cids_by_tag :: "chip_indexes \<Rightarrow> string \<Rightarrow> string list" where
  "get_cids_by_tag ix tag = index_entry (ix_tag ix) tag"

definition get_cids_by_executor :: "chip_indexes \<Rightarrow> string \<Rightarrow> string list" where
  "get_cids_by_executor ix did = index_entry (ix_executor ix) did"

definition find_intersection :: "chip_indexes \<Rightarrow> string option \<Rightarrow> string list \<Rightarrow> string option \<Rightarrow> string list" where
  "find_intersection ix chip_type tags executor_did =
     (let r1 = (case chip_type of Some t \<Rightarrow> Some (intersect_sets None (get_cids_by_type ix t)) | None \<Rightarrow> None);
          r2 = fold (\<lambda>tag r. Some (intersect_sets r (get_cids_by_tag ix tag))) tags r1;
          r3 = (case executor_did of Some d \<Rightarrow> Some (intersect_sets r2 (get_cids_by_executor ix d)) | None \<Rightarrow> r2)
      in case r3 of Some c \<Rightarrow> c | None \<Rightarrow> [])"

definition rebuild_from :: "stored_chip list \<Rightarrow> chip_indexes" where
  "rebuild_from chips = fold index_chip chips empty_indexes"

section \<open>The in-memory backend\<close>

record mem_backend =
  mb_chips :: "(string \<times> stored_chip) list"
  mb_receipts :: "(string \<times> string) list"
  mb_indexes :: chip_indexes

definition mem_new :: mem_backend where
  "mem_new = \<lparr>mb_chips = [], mb_receipts = [], mb_indexes = empty_indexes\<rparr>"

definition mem_put :: "stored_chip \<Rightarrow> mem_backend \<Rightarrow> mem_backend" where
  "mem_put chip s =
     \<lparr>mb_chips = obj_insert (sc_cid chip) chip (mb_chips s),
      mb_receipts = obj_insert (sc_receipt_cid chip) (sc_cid chip) (mb_receipts s),
      mb_indexes = index_chip chip (mb_indexes s)\<rparr>"

definition mem_get :: "mem_backend \<Rightarrow> string \<Rightarrow> stored_chip option" where
  "mem_get s cid = map_of (mb_chips s) cid"

definition mem_get_by_receipt :: "mem_backend \<Rightarrow> string \<Rightarrow> stored_chip option" where
  "mem_get_by_receipt s receipt_cid =
     (case map_of (mb_receipts s) receipt_cid of Some cid \<Rightarrow> map_of (mb_chips s) cid | None \<Rightarrow> None)"

definition mem_exists :: "mem_backend \<Rightarrow> string \<Rightarrow> bool" where
  "mem_exists s cid \<longleftrightarrow> map_of (mb_chips s) cid \<noteq> None"

definition mem_candidates :: "mem_backend \<Rightarrow> chip_query \<Rightarrow> string list option" where
  "mem_candidates s query = candidate_cids (index_entry (ix_type (mb_indexes s))) (index_entry (ix_tag (mb_indexes s)))
     (index_entry (ix_executor (mb_indexes s))) query"

definition mem_query :: "mem_backend \<Rightarrow> chip_query \<Rightarrow> query_result" where
  "mem_query s query =
     (let results = (case mem_candidates s query of
          Some cids \<Rightarrow> filter (\<lambda>chip. matches_query chip query) (List.map_filter (map_of (mb_chips s)) cids)
        | None \<Rightarrow> filter (\<lambda>chip. matches_query chip query) (map snd (mb_chips s)))
      in apply_pagination results query)"

definition mem_by_type :: "mem_backend \<Rightarrow> string \<Rightarrow> stored_chip list" where
  "mem_by_type s chip_type =
     newest_first (List.map_filter (map_of (mb_chips s)) (index_entry (ix_type (mb_indexes s)) chip_type))"

definition mem_related :: "mem_backend \<Rightarrow> string \<Rightarrow> stored_chip list" where
  "mem_related s cid =
     (case map_of (mb_chips s) cid of
        Some chip \<Rightarrow> List.map_filter (map_of (mb_chips s)) (sc_related chip)
      | None \<Rightarrow> [])"

definition mem_delete :: "string \<Rightarrow> mem_backend \<Rightarrow> mem_backend" where
  "mem_delete cid s =
     (case map_of (mb_chips s) cid of
        Some chip \<Rightarrow> \<lparr>mb_chips = filter (\<lambda>p. fst p \<noteq> cid) (mb_chips s),
           mb_receipts = filter (\<lambda>p. fst p \<noteq> sc_receipt_cid chip) (mb_receipts s),
           mb_indexes = remove_chip_from_indexes chip (mb_indexes s)\<rparr>
      | None \<Rightarrow> s)"

definition mem_scan_all :: "mem_backend \<Rightarrow> stored_chip list" where
  "mem_scan_all s = map snd (mb_chips s)"

definition mem_rebuild_indexes :: "mem_backend \<Rightarrow> mem_backend" where
  "mem_rebuild_indexes s = s\<lparr>mb_indexes := rebuild_from (mem_scan_all s)\<rparr>"

section \<open>The embedded-database backend\<close>

text \<open>An index tree has the entries \<open>key, 0, cid\<close> without values. The values of the main tree are serialised chips.\<close>

record chip_codec =
  cc_to_vec :: "stored_chip \<Rightarrow> string"
  cc_from_slice :: "string \<Rightarrow> stored_chip option"

record sled_backend =
  sl_db :: "(string \<times> string) list"
  sl_receipts :: "(string \<times> string) list"
  sl_types :: "string list"
  sl_tags :: "string list"
  sl_executors :: "string list"

datatype sled_site = SledDb | SledReceipt | SledType | SledTag nat | SledExecutor | SledClear nat

type_synonym sled_faults = "sled_site \<Rightarrow> string option"

definition sled_call :: "sled_faults \<Rightarrow> sled_site \<Rightarrow> store_error option" where
  "sled_call io site = map_option StoreBackend (io site)"

definition NUL :: char where "NUL = char_of (0 :: nat)"

definition index_composite_key :: "string \<Rightarrow> string \<Rightarrow> string" where
  "index_composite_key k cid = k @ [NUL] @ cid"

definition index_prefix :: "string \<Rightarrow> string" where
  "index_prefix k = k @ [NUL]"

definition read_index_set :: "string list \<Rightarrow> string \<Rightarrow> string list" where
  "read_index_set tree k =
     remdups (map (drop (length (index_prefix k))) (filter (starts_with (index_prefix k)) tree))"

text \<open>An operation that stops at a failed call leaves what it had written: each step takes the state and either goes on
  with a new one or stops.\<close>

definition sled_step :: "sled_faults \<Rightarrow> sled_site \<Rightarrow> (sled_backend \<Rightarrow> sled_backend) \<Rightarrow>
    (store_error + unit) \<times> sled_backend \<Rightarrow> (store_error + unit) \<times> sled_backend" where
  "sled_step io site f r =
     (case r of
        (Inl e, s) \<Rightarrow> (Inl e, s)
      | (Inr _, s) \<Rightarrow> (case sled_call io site of Some e \<Rightarrow> (Inl e, s) | None \<Rightarrow> (Inr (), f s)))"

fun sled_add_tags :: "sled_faults \<Rightarrow> nat \<Rightarrow> string \<Rightarrow> string list \<Rightarrow> (store_error + unit) \<times> sled_backend \<Rightarrow> (store_error + unit) \<times> sled_backend" where
  "sled_add_tags io i cid [] r = r"
| "sled_add_tags io i cid (tag # tags) r =
     sled_add_tags io (Suc i) cid tags
       (sled_step io (SledTag i) (\<lambda>s. s\<lparr>sl_tags := List.insert (index_composite_key tag cid) (sl_tags s)\<rparr>) r)"

definition sled_add_chip_to_indexes ::
  "sled_faults \<Rightarrow> stored_chip \<Rightarrow> (store_error + unit) \<times> sled_backend \<Rightarrow> (store_error + unit) \<times> sled_backend" where
  "sled_add_chip_to_indexes io chip r =
     sled_step io SledExecutor
       (\<lambda>s. s\<lparr>sl_executors := List.insert (index_composite_key (em_executor_did (sc_meta chip)) (sc_cid chip)) (sl_executors s)\<rparr>)
       (sled_add_tags io 0 (sc_cid chip) (sc_tags chip)
         (sled_step io SledType
           (\<lambda>s. s\<lparr>sl_types := List.insert (index_composite_key (sc_type chip) (sc_cid chip)) (sl_types s)\<rparr>) r))"

definition sled_put :: "chip_codec \<Rightarrow> sled_faults \<Rightarrow> stored_chip \<Rightarrow> sled_backend \<Rightarrow> (store_error + unit) \<times> sled_backend" where
  "sled_put C io chip s =
     sled_add_chip_to_indexes io chip
       (sled_step io SledReceipt (\<lambda>s. s\<lparr>sl_receipts := obj_insert (sc_receipt_cid chip) (sc_cid chip) (sl_receipts s)\<rparr>)
         (sled_step io SledDb (\<lambda>s. s\<lparr>sl_db := obj_insert (sc_cid chip) (cc_to_vec C chip) (sl_db s)\<rparr>) (Inr (), s)))"

definition sled_load :: "chip_codec \<Rightarrow> sled_backend \<Rightarrow> string \<Rightarrow> store_error + stored_chip option" where
  "sled_load C s cid =
     (case map_of (sl_db s) cid of
        None \<Rightarrow> Inr None
      | Some data \<Rightarrow> map_ok Some (ok_or StoreSerialization (cc_from_slice C data)))"

definition sled_get_by_receipt :: "chip_codec \<Rightarrow> sled_backend \<Rightarrow> string \<Rightarrow> store_error + stored_chip option" where
  "sled_get_by_receipt C s receipt_cid =
     (case map_of (sl_receipts s) receipt_cid of None \<Rightarrow> Inr None | Some cid \<Rightarrow> sled_load C s cid)"

definition sled_exists :: "sled_backend \<Rightarrow> string \<Rightarrow> bool" where
  "sled_exists s cid \<longleftrightarrow> map_of (sl_db s) cid \<noteq> None"

definition sled_scan_all :: "chip_codec \<Rightarrow> sled_backend \<Rightarrow> store_error + stored_chip list" where
  "sled_scan_all C s = collect_results (\<lambda>(_, data). ok_or StoreSerialization (cc_from_slice C data)) (sl_db s)"

definition sled_candidates :: "sled_backend \<Rightarrow> chip_query \<Rightarrow> string list option" where
  "sled_candidates s query =
     candidate_cids (read_index_set (sl_types s)) (read_index_set (sl_tags s)) (read_index_set (sl_executors s)) query"

definition sled_load_all :: "chip_codec \<Rightarrow> sled_backend \<Rightarrow> string list \<Rightarrow> store_error + stored_chip list" where
  "sled_load_all C s cids = map_ok (List.map_filter id) (collect_results (sled_load C s) cids)"

definition sled_query :: "chip_codec \<Rightarrow> sled_backend \<Rightarrow> chip_query \<Rightarrow> store_error + query_result" where
  "sled_query C s query =
     and_then (case sled_candidates s query of
         Some cids \<Rightarrow> sled_load_all C s cids
       | None \<Rightarrow> sled_scan_all C s) (\<lambda>chips.
       Inr (apply_pagination (filter (\<lambda>chip. matches_query chip query) chips) query))"

definition sled_by_type :: "chip_codec \<Rightarrow> sled_backend \<Rightarrow> string \<Rightarrow> store_error + stored_chip list" where
  "sled_by_type C s chip_type =
     map_ok (\<lambda>chips. newest_first (filter (\<lambda>chip. sc_type chip = chip_type) chips)) (sled_load_all C s (read_index_set (sl_types s) chip_type))"

definition sled_related :: "chip_codec \<Rightarrow> sled_backend \<Rightarrow> string \<Rightarrow> store_error + stored_chip list" where
  "sled_related C s cid =
     and_then (sled_load C s cid) (\<lambda>found.
       case found of Some chip \<Rightarrow> sled_load_all C s (sc_related chip) | None \<Rightarrow> Inr [])"

definition sled_delete :: "chip_codec \<Rightarrow> string \<Rightarrow> sled_backend \<Rightarrow> (store_error + unit) \<times> sled_backend" where
  "sled_delete C cid s =
     (case sled_load C s cid of
        Inl e \<Rightarrow> (Inl e, s)
      | Inr found \<Rightarrow>
          let s1 = (case found of
                Some chip \<Rightarrow> s\<lparr>sl_receipts := filter (\<lambda>p. fst p \<noteq> sc_receipt_cid chip) (sl_receipts s),
                  sl_types := removeAll (index_composite_key (sc_type chip) (sc_cid chip)) (sl_types s),
                  sl_tags := filter (\<lambda>e. e \<notin> (\<lambda>tag. index_composite_key tag (sc_cid chip)) ` set (sc_tags chip)) (sl_tags s),
                  sl_executors := removeAll (index_composite_key (em_executor_did (sc_meta chip)) (sc_cid chip)) (sl_executors s)\<rparr>
              | None \<Rightarrow> s)
          in (Inr (), s1\<lparr>sl_db := filter (\<lambda>p. fst p \<noteq> cid) (sl_db s1)\<rparr>))"

text \<open>Reopening a database rebuilds every index, the receipts included, from the stored chips.\<close>

definition sled_reindex :: "stored_chip \<Rightarrow> sled_backend \<Rightarrow> sled_backend" where
  "sled_reindex chip s = snd (sled_add_chip_to_indexes (\<lambda>_. None) chip
     (Inr (), s\<lparr>sl_receipts := obj_insert (sc_receipt_cid chip) (sc_cid chip) (sl_receipts s)\<rparr>))"

definition sled_rebuild_indexes :: "chip_codec \<Rightarrow> sled_backend \<Rightarrow> store_error + sled_backend" where
  "sled_rebuild_indexes C s =
     map_ok (\<lambda>chips. fold sled_reindex chips (s\<lparr>sl_receipts := [], sl_types := [], sl_tags := [], sl_executors := []\<rparr>))
       (sled_scan_all C s)"

section \<open>The file-system backend\<close>

text \<open>The files of the \<open>chips\<close> directory by name. A chip is written to a temporary file that is then renamed.\<close>

type_synonym fs_files = "(string \<times> string) list"

definition sanitize_cid :: "string \<Rightarrow> string" where
  "sanitize_cid cid = map (\<lambda>c. if c = CHR '':'' then CHR ''_'' else c) cid"

definition chip_path :: "string \<Rightarrow> string" where
  "chip_path cid = sanitize_cid cid @ ''.json''"

definition tmp_path :: "string \<Rightarrow> string" where
  "tmp_path cid = sanitize_cid cid @ ''.json.tmp''"

definition fs_put :: "chip_codec \<Rightarrow> bool \<Rightarrow> bool \<Rightarrow> stored_chip \<Rightarrow> fs_files \<Rightarrow> (store_error + unit) \<times> fs_files" where
  "fs_put C write_fails rename_fails chip fs =
     (if write_fails then (Inl (StoreBackend ''FsBackend write tmp''), fs)
      else
        let fs1 = obj_insert (tmp_path (sc_cid chip)) (cc_to_vec C chip) fs
        in if rename_fails then (Inl (StoreBackend ''FsBackend rename''), fs1)
           else (Inr (), obj_insert (chip_path (sc_cid chip)) (cc_to_vec C chip) (filter (\<lambda>p. fst p \<noteq> tmp_path (sc_cid chip)) fs1)))"

definition fs_load :: "chip_codec \<Rightarrow> fs_files \<Rightarrow> string \<Rightarrow> store_error + stored_chip option" where
  "fs_load C fs cid =
     (case map_of fs (chip_path cid) of
        None \<Rightarrow> Inr None
      | Some bytes \<Rightarrow> map_ok Some (ok_or StoreSerialization (cc_from_slice C bytes)))"

definition has_suffix :: "string \<Rightarrow> string \<Rightarrow> bool" where
  "has_suffix suffix s \<longleftrightarrow> starts_with (rev suffix) (rev s)"

text \<open>A name that is only the suffix has no extension.\<close>

definition json_file :: "string \<Rightarrow> bool" where
  "json_file name \<longleftrightarrow> has_suffix ''.json'' name \<and> name \<noteq> ''.json''"

definition fs_iter_all :: "chip_codec \<Rightarrow> fs_files \<Rightarrow> store_error + stored_chip list" where
  "fs_iter_all C fs =
     collect_results (\<lambda>(_, bytes). ok_or StoreSerialization (cc_from_slice C bytes)) (filter (\<lambda>p. json_file (fst p)) fs)"

definition fs_get_by_receipt :: "chip_codec \<Rightarrow> fs_files \<Rightarrow> string \<Rightarrow> store_error + stored_chip option" where
  "fs_get_by_receipt C fs receipt_cid = map_ok (find (\<lambda>chip. sc_receipt_cid chip = receipt_cid)) (fs_iter_all C fs)"

definition fs_exists :: "fs_files \<Rightarrow> string \<Rightarrow> bool" where
  "fs_exists fs cid \<longleftrightarrow> map_of fs (chip_path cid) \<noteq> None"

definition fs_query :: "chip_codec \<Rightarrow> fs_files \<Rightarrow> chip_query \<Rightarrow> store_error + query_result" where
  "fs_query C fs query =
     map_ok (\<lambda>chips. apply_pagination (filter (\<lambda>chip. matches_query chip query) chips) query) (fs_iter_all C fs)"

definition fs_by_type :: "chip_codec \<Rightarrow> fs_files \<Rightarrow> string \<Rightarrow> store_error + stored_chip list" where
  "fs_by_type C fs chip_type = map_ok (\<lambda>chips. newest_first (filter (\<lambda>chip. sc_type chip = chip_type) chips)) (fs_iter_all C fs)"

definition fs_related :: "chip_codec \<Rightarrow> fs_files \<Rightarrow> string \<Rightarrow> store_error + stored_chip list" where
  "fs_related C fs cid =
     and_then (fs_load C fs cid) (\<lambda>found.
       case found of
         Some chip \<Rightarrow> map_ok (List.map_filter id) (collect_results (fs_load C fs) (sc_related chip))
       | None \<Rightarrow> Inr [])"

definition fs_delete :: "string \<Rightarrow> fs_files \<Rightarrow> fs_files" where
  "fs_delete cid fs = filter (\<lambda>p. fst p \<noteq> chip_path cid) fs"

section \<open>The store\<close>

definition TAG_FIELDS :: "string list" where
  "TAG_FIELDS = [''email'', ''id'', ''slug'', ''status'', ''target_cid'', ''passport_cid'', ''actor_cid'', ''user_cid'',
     ''tenant_cid'', ''creator_cid'', ''app_cid'', ''old_did'', ''old_kid'', ''new_did'', ''new_kid'',
     ''rotation_chip_cid'', ''rotation_receipt_cid'']"

definition text_at :: "json \<Rightarrow> string \<Rightarrow> string option" where
  "text_at v k = Option.bind (json_get v k) as_str"

definition tag_of :: "string \<Rightarrow> string \<Rightarrow> string" where
  "tag_of field v = field @ '':'' @ v"

definition world_tags :: "string \<Rightarrow> string list" where
  "world_tags world =
     (let parts = split_on (CHR ''/'') world
      in [tag_of ''world'' world]
         @ (if length parts \<ge> 2 \<and> parts ! 0 = ''a'' \<and> parts ! 1 \<noteq> [] then [tag_of ''app'' (parts ! 1)] else [])
         @ (if length parts = 4 \<and> parts ! 2 = ''t'' \<and> parts ! 3 \<noteq> [] then [tag_of ''tenant'' (parts ! 3)] else []))"

text \<open>The argument gives the day of an RFC 3339 date, if the text is one.\<close>

definition extract_tags :: "(string \<Rightarrow> string option) \<Rightarrow> json \<Rightarrow> string \<Rightarrow> string list" where
  "extract_tags day_of chip_data chip_type =
     [tag_of ''type'' chip_type]
     @ List.map_filter (\<lambda>field. map_option (tag_of field) (text_at chip_data field)) TAG_FIELDS
     @ (case text_at chip_data ''@id'' of Some i \<Rightarrow> [tag_of ''id'' i] | None \<Rightarrow> [])
     @ (case text_at chip_data ''@world'' of Some w \<Rightarrow> world_tags w | None \<Rightarrow> [])
     @ (case Option.bind (text_at chip_data ''date'') day_of of Some d \<Rightarrow> [tag_of ''date'' d] | None \<Rightarrow> [])"

fun extract_cids :: "json \<Rightarrow> string list" where
  "extract_cids (JStr s) = (if starts_with ''b3:'' s then [s] else [])"
| "extract_cids (JObj m) = concat (map (\<lambda>(k, v). extract_cids v) m)"
| "extract_cids (JArr xs) = concat (map extract_cids xs)"
| "extract_cids _ = []"

text \<open>A backend as the store sees it, with state \<open>'s\<close>; the hash and text environment, the clock and the dates.\<close>

record 's backend_ops =
  bo_put :: "stored_chip \<Rightarrow> 's \<Rightarrow> (store_error + unit) \<times> 's"
  bo_get :: "'s \<Rightarrow> string \<Rightarrow> store_error + stored_chip option"
  bo_get_by_receipt :: "'s \<Rightarrow> string \<Rightarrow> store_error + stored_chip option"
  bo_exists :: "'s \<Rightarrow> string \<Rightarrow> store_error + bool"
  bo_query :: "'s \<Rightarrow> chip_query \<Rightarrow> store_error + query_result"
  bo_scan_all :: "'s \<Rightarrow> store_error + stored_chip list"
  bo_by_type :: "'s \<Rightarrow> string \<Rightarrow> store_error + stored_chip list"

record store_env =
  se_text :: text_env
  se_hash :: "u8 list \<Rightarrow> u8 list"
  se_day_of :: "string \<Rightarrow> string option"

definition stored_form :: "store_env \<Rightarrow> json \<Rightarrow> string \<Rightarrow> string \<Rightarrow> execution_metadata \<Rightarrow> store_error + stored_chip" where
  "stored_form E chip_data receipt_cid now metadata =
     and_then (map_err (\<lambda>_. StoreSerialization) (to_nrf1_bytes (se_text E) chip_data)) (\<lambda>nrf1_bytes.
       let chip_type = (case text_at chip_data ''@type'' of Some t \<Rightarrow> t | None \<Rightarrow> ''unknown'')
       in Inr \<lparr>sc_cid = compute_cid (se_hash E) nrf1_bytes, sc_type = chip_type, sc_data = chip_data,
            sc_receipt_cid = receipt_cid, sc_created_at = now, sc_meta = metadata,
            sc_tags = extract_tags (se_day_of E) chip_data chip_type, sc_related = extract_cids chip_data\<rparr>)"

definition store_executed_chip :: "'s backend_ops \<Rightarrow> store_env \<Rightarrow> json \<Rightarrow> string \<Rightarrow> string \<Rightarrow> execution_metadata \<Rightarrow>
    's \<times> chip_indexes \<Rightarrow> (store_error + string) \<times> 's \<times> chip_indexes" where
  "store_executed_chip B E chip_data receipt_cid now metadata st =
     (case stored_form E chip_data receipt_cid now metadata of
        Inl e \<Rightarrow> (Inl e, st)
      | Inr chip \<Rightarrow>
          (case bo_put B chip (fst st) of
             (Inl e, s') \<Rightarrow> (Inl e, s', snd st)
           | (Inr _, s') \<Rightarrow> (Inr (sc_cid chip), s', index_chip chip (snd st))))"

definition query_of :: "string option \<Rightarrow> string list \<Rightarrow> nat option \<Rightarrow> chip_query" where
  "query_of chip_type tags limit = \<lparr>cq_type = chip_type, cq_tags = tags, cq_created_after = None, cq_created_before = None,
     cq_executor_did = None, cq_limit = limit, cq_offset = None\<rparr>"

definition get_customer_by_email :: "'s backend_ops \<Rightarrow> 's \<Rightarrow> string \<Rightarrow> store_error + stored_chip option" where
  "get_customer_by_email B s email =
     map_ok (\<lambda>result. case qr_chips result of chip # _ \<Rightarrow> Some chip | [] \<Rightarrow> None)
       (bo_query B s (query_of (Some ''ubl/customer.register'') [tag_of ''email'' email] (Some 1)))"

definition mem_ops :: "mem_backend backend_ops" where
  "mem_ops = \<lparr>bo_put = (\<lambda>chip s. (Inr (), mem_put chip s)), bo_get = (\<lambda>s cid. Inr (mem_get s cid)),
     bo_get_by_receipt = (\<lambda>s r. Inr (mem_get_by_receipt s r)), bo_exists = (\<lambda>s cid. Inr (mem_exists s cid)),
     bo_query = (\<lambda>s q. Inr (mem_query s q)), bo_scan_all = (\<lambda>s. Inr (mem_scan_all s)),
     bo_by_type = (\<lambda>s t. Inr (mem_by_type s t))\<rparr>"

definition sled_ops :: "chip_codec \<Rightarrow> sled_backend backend_ops" where
  "sled_ops C = \<lparr>bo_put = sled_put C (\<lambda>_. None), bo_get = sled_load C, bo_get_by_receipt = sled_get_by_receipt C,
     bo_exists = (\<lambda>s cid. Inr (sled_exists s cid)), bo_query = sled_query C, bo_scan_all = sled_scan_all C,
     bo_by_type = sled_by_type C\<rparr>"

definition fs_ops :: "chip_codec \<Rightarrow> fs_files backend_ops" where
  "fs_ops C = \<lparr>bo_put = fs_put C False False, bo_get = fs_load C, bo_get_by_receipt = fs_get_by_receipt C,
     bo_exists = (\<lambda>fs cid. Inr (fs_exists fs cid)), bo_query = fs_query C, bo_scan_all = fs_iter_all C,
     bo_by_type = fs_by_type C\<rparr>"

end
