(* ===== verification/Silicon.thy ===== *)
theory Silicon
  imports Pipeline_Vm Policy Chip_Store
begin

text \<open>
  Silicon chips (\<open>crates/ubl_runtime/src/silicon_chip.rs\<close>): bits, circuits and chips as JSON
  bodies, their parsers and checks against the chip store, the resolution of a chip graph and
  the compiler to machine bytecode. The functions of the Rust standard library over the
  Unicode tables (\<open>to_lowercase\<close>, \<open>trim\<close>) and the compact JSON printer of \<open>serde_json\<close>
  are fields of \<open>silicon_text\<close>; the chip store is the function its \<open>get_chip\<close> computes.
\<close>

section \<open>Types and errors\<close>

abbreviation TYPE_SILICON_BIT :: string where "TYPE_SILICON_BIT \<equiv> ''ubl/silicon.bit''"
abbreviation TYPE_SILICON_CIRCUIT :: string where "TYPE_SILICON_CIRCUIT \<equiv> ''ubl/silicon.circuit''"
abbreviation TYPE_SILICON_CHIP :: string where "TYPE_SILICON_CHIP \<equiv> ''ubl/silicon.chip''"
abbreviation TYPE_SILICON_COMPILE :: string where "TYPE_SILICON_COMPILE \<equiv> ''ubl/silicon.compile''"

definition SILICON_TYPES :: "string list" where
  "SILICON_TYPES = [TYPE_SILICON_BIT, TYPE_SILICON_CIRCUIT, TYPE_SILICON_CHIP, TYPE_SILICON_COMPILE]"

definition is_silicon_type :: "string \<Rightarrow> bool" where
  "is_silicon_type chip_type = List.member SILICON_TYPES chip_type"

datatype silicon_error =
    MissingField string
  | InvalidField string
  | BitNotFound string
  | BitTypeMismatch string
  | CircuitNotFound string
  | CircuitTypeMismatch string
  | ChipNotFound string
  | ChipTypeMismatch string
  | UnsupportedTarget string
  | CompileError string
  | ChipStoreRequired
  | ChipStoreError string
  | CyclicChipGraph string

record silicon_text =
  to_lowercase :: "string \<Rightarrow> string"
  trim :: "string \<Rightarrow> string"
  value_to_string :: "json \<Rightarrow> string"

type_synonym chip_store = "string \<Rightarrow> string + stored_chip option"

section \<open>Conditions\<close>

datatype condition_spec =
    C_Always bool
  | C_ContextHas string
  | C_ContextEquals string json
  | C_BodySizeLte nat
  | C_TypeEquals string
  | C_And "condition_spec list"
  | C_Or "condition_spec list"
  | C_Not condition_spec
  | C_AmountLte string i64
  | C_TimestampWithinSecs string i64

fun to_expression :: "condition_spec \<Rightarrow> expression" where
  "to_expression (C_Always v) = Always v"
| "to_expression (C_ContextHas key) = ContextHas key"
| "to_expression (C_ContextEquals key v) = ContextEquals key v"
| "to_expression (C_BodySizeLte limit) = BodySizeLte limit"
| "to_expression (C_TypeEquals ct) = TypeEquals ct"
| "to_expression (C_And cs) = And (map to_expression cs)"
| "to_expression (C_Or cs) = Or (map to_expression cs)"
| "to_expression (C_Not c) = NotE (to_expression c)"
| "to_expression (C_AmountLte _ _) = Always True"
| "to_expression (C_TimestampWithinSecs _ _) = Always True"

definition get_str :: "json \<Rightarrow> string \<Rightarrow> string option" where
  "get_str v k = Option.bind (json_get v k) as_str"

definition get_array :: "json \<Rightarrow> string \<Rightarrow> json list option" where
  "get_array v k = Option.bind (json_get v k) as_array"

lemma json_get_size: "json_get v k = Some w \<Longrightarrow> size w < size v"
  by (cases v) (auto simp del: json.size dest!: map_of_SomeD intro: size_json_obj)

lemma get_array_size: "get_array v k = Some xs \<Longrightarrow> x \<in> set xs \<Longrightarrow> size x < size v"
  unfolding get_array_def
  by (auto simp: bind_eq_Some_conv dest!: json_get_size elim!: as_array.elims dest: size_json_arr
      simp del: json.size)

definition parse_context_equals :: "json list \<Rightarrow> silicon_error + condition_spec" where
  "parse_context_equals arr =
     (if length arr \<noteq> 2 then Inl (InvalidField ''ContextEquals must be [key, value]'')
      else and_then (ok_or (InvalidField ''ContextEquals key must be string'') (as_str (arr ! 0))) (\<lambda>key.
        Inr (C_ContextEquals key (arr ! 1))))"

text \<open>
  The compact members without sub-conditions, in the order the code tries them; a member of
  the wrong type is skipped, and \<^term>\<open>None\<close> says that none of them was present.
\<close>

definition legacy_leaf :: "json \<Rightarrow> (silicon_error + condition_spec) option" where
  "legacy_leaf v =
     (case json_get v ''Always'' of
        Some w \<Rightarrow> Some (map_ok C_Always (ok_or (InvalidField ''Always value must be bool'') (as_bool w)))
      | None \<Rightarrow>
      case get_str v ''ContextHas'' of
        Some key \<Rightarrow> Some (Inr (C_ContextHas key))
      | None \<Rightarrow>
      case get_array v ''ContextEquals'' of
        Some arr \<Rightarrow> Some (parse_context_equals arr)
      | None \<Rightarrow>
      case Option.bind (json_get v ''BodySizeLte'') as_u64 of
        Some n \<Rightarrow> Some (Inr (C_BodySizeLte (unat n)))
      | None \<Rightarrow> map_option (\<lambda>t. Inr (C_TypeEquals t)) (get_str v ''TypeEquals''))"

text \<open>The tagged operations without sub-conditions.\<close>

definition tagged_leaf :: "string \<Rightarrow> json \<Rightarrow> silicon_error + condition_spec" where
  "tagged_leaf opn v =
     (if opn = ''always'' then
        map_ok C_Always (ok_or (MissingField ''condition.value'') (Option.bind (json_get v ''value'') as_bool))
      else if opn = ''context_has'' then
        map_ok C_ContextHas (ok_or (MissingField ''condition.key'') (get_str v ''key''))
      else if opn = ''context_equals'' then
        and_then (ok_or (MissingField ''condition.key'') (get_str v ''key'')) (\<lambda>key.
        map_ok (C_ContextEquals key) (ok_or (MissingField ''condition.value'') (json_get v ''value'')))
      else if opn = ''body_size_lte'' then
        map_ok (C_BodySizeLte \<circ> unat)
          (ok_or (MissingField ''condition.limit'') (Option.bind (json_get v ''limit'') as_u64))
      else if opn = ''type_equals'' then
        map_ok C_TypeEquals (ok_or (MissingField ''condition.chip_type'') (get_str v ''chip_type''))
      else if opn = ''amount_lte'' then
        and_then (ok_or (MissingField ''condition.field'') (get_str v ''field'')) (\<lambda>fld.
        map_ok (C_AmountLte fld)
          (ok_or (MissingField ''condition.amount'') (Option.bind (json_get v ''amount'') as_i64)))
      else if opn = ''timestamp_within_secs'' then
        and_then (ok_or (MissingField ''condition.field'') (get_str v ''field'')) (\<lambda>fld.
        map_ok (C_TimestampWithinSecs fld)
          (ok_or (MissingField ''condition.window_secs'') (Option.bind (json_get v ''window_secs'') as_i64)))
      else Inl (InvalidField (''unknown condition op: '' @ opn)))"

function (sequential) from_value :: "json \<Rightarrow> silicon_error + condition_spec"
and parse_tagged :: "string \<Rightarrow> json \<Rightarrow> silicon_error + condition_spec" where
  "from_value v =
     (case get_str v ''op'' of
        Some opn \<Rightarrow> parse_tagged opn v
      | None \<Rightarrow>
        case legacy_leaf v of
          Some r \<Rightarrow> r
        | None \<Rightarrow>
        case get_array v ''And'' of
          Some cs \<Rightarrow> map_ok C_And (collect_results from_value cs)
        | None \<Rightarrow>
        case get_array v ''Or'' of
          Some cs \<Rightarrow> map_ok C_Or (collect_results from_value cs)
        | None \<Rightarrow>
        case json_get v ''Not'' of
          Some inner \<Rightarrow> map_ok C_Not (from_value inner)
        | None \<Rightarrow>
          Inl (InvalidField ''condition must have 'op' field or be a legacy compact object''))"
| "parse_tagged opn v =
     (if opn = ''and'' then
        (case get_array v ''conditions'' of
           None \<Rightarrow> Inl (MissingField ''condition.conditions'')
         | Some cs \<Rightarrow> map_ok C_And (collect_results from_value cs))
      else if opn = ''or'' then
        (case get_array v ''conditions'' of
           None \<Rightarrow> Inl (MissingField ''condition.conditions'')
         | Some cs \<Rightarrow> map_ok C_Or (collect_results from_value cs))
      else if opn = ''not'' then
        (case json_get v ''condition'' of
           None \<Rightarrow> Inl (MissingField ''condition.condition'')
         | Some inner \<Rightarrow> map_ok C_Not (from_value inner))
      else tagged_leaf opn v)"
  by pat_completeness auto
termination
  by (relation "measure (case_sum (\<lambda>v. 2 * size v + 1) (\<lambda>(_, v). 2 * size v))")
    (auto dest: json_get_size get_array_size)

declare from_value.simps [simp del] parse_tagged.simps [simp del]

section \<open>Bodies\<close>

record silicon_bit_body =
  bit_id :: string
  bit_name :: string
  bit_condition :: condition_spec
  bit_on_true :: decision
  bit_on_false :: decision
  bit_requires_context :: "string list"

record silicon_circuit_body =
  sc_id :: string
  sc_name :: string
  sc_bits :: "string list"
  sc_composition :: string
  sc_aggregator :: string

definition get_composition_mode :: "silicon_text \<Rightarrow> silicon_circuit_body \<Rightarrow> silicon_error + composition_mode" where
  "get_composition_mode T b =
     (let m = to_lowercase T (sc_composition b)
      in if m = ''sequential'' then Inr Sequential
         else if m = ''parallel'' then Inr Parallel
         else Inl (InvalidField (''composition must be Sequential|Parallel, got '' @ [CHR 0x27] @ m @ [CHR 0x27])))"

definition parse_k_of_n :: "string \<Rightarrow> aggregation_mode option" where
  "parse_k_of_n other =
     Option.bind (strip_prefix ''k_of_n:'' other) (\<lambda>rest.
       let parts = split_on (CHR '':'') rest
       in if length parts = 2
          then (case (parse_usize (parts ! 0), parse_usize (parts ! 1)) of
                  (Some k, Some n) \<Rightarrow> Some (KofN k n)
                | _ \<Rightarrow> None)
          else None)"

definition get_aggregation_mode :: "silicon_text \<Rightarrow> silicon_circuit_body \<Rightarrow> silicon_error + aggregation_mode" where
  "get_aggregation_mode T b =
     (let m = to_lowercase T (sc_aggregator b)
      in if m = ''all'' then Inr AllMode
         else if m = ''any'' then Inr AnyMode
         else if m = ''majority'' then Inr Majority
         else if m = ''first_decisive'' \<or> m = ''firstdecisive'' then Inr FirstDecisive
         else ok_or (InvalidField (''aggregator must be All|Any|Majority|FirstDecisive|k_of_n:K:N, got ''
           @ [CHR 0x27] @ m @ [CHR 0x27])) (parse_k_of_n m))"

record hal_profile =
  hal_profile_name :: string
  hal_targets :: "string list"
  hal_deterministic :: bool
  hal_timebase_ns :: "u64 option"
  hal_energy_unit :: "string option"
  hal_cost_unit :: "string option"

definition str_members :: "json \<Rightarrow> string \<Rightarrow> string list" where
  "str_members v k = (case get_array v k of Some arr \<Rightarrow> List.map_filter as_str arr | None \<Rightarrow> [])"

definition hal_from_value :: "json \<Rightarrow> silicon_error + hal_profile" where
  "hal_from_value v =
     map_ok (\<lambda>profile. \<lparr>hal_profile_name = profile,
         hal_targets = str_members v ''targets'',
         hal_deterministic = (case Option.bind (json_get v ''deterministic'') as_bool of Some b \<Rightarrow> b | None \<Rightarrow> True),
         hal_timebase_ns = Option.bind (json_get v ''timebase_ns'') as_u64,
         hal_energy_unit = get_str v ''energy_unit'',
         hal_cost_unit = get_str v ''cost_unit''\<rparr>)
       (ok_or (MissingField ''hal.profile'') (get_str v ''profile''))"

record silicon_chip_body =
  chip_body_id :: string
  chip_body_name :: string
  chip_circuits :: "string list"
  chip_hal :: hal_profile
  chip_version :: string

datatype compile_target = UblVm

definition compile_target_parse :: "silicon_text \<Rightarrow> string \<Rightarrow> compile_target option" where
  "compile_target_parse T s =
     (let t = to_lowercase T (trim T s) in if t = ''ubl_vm'' \<or> t = ''ubl_vm/v1'' then Some UblVm else None)"

fun compile_target_as_str :: "compile_target \<Rightarrow> string" where
  "compile_target_as_str UblVm = ''ubl_vm/v1''"

record silicon_compile_body =
  compile_chip_cid :: string
  compile_body_target :: compile_target

datatype silicon_request =
    R_Bit silicon_bit_body
  | R_Circuit silicon_circuit_body
  | R_Chip silicon_chip_body
  | R_Compile silicon_compile_body

section \<open>Parsing\<close>

definition req_str :: "json \<Rightarrow> string \<Rightarrow> silicon_error + string" where
  "req_str body fld = ok_or (MissingField fld) (get_str body fld)"

definition quoted :: "string \<Rightarrow> string" where
  "quoted s = [CHR 0x27] @ s @ [CHR 0x27]"

definition parse_decision :: "silicon_text \<Rightarrow> json \<Rightarrow> string \<Rightarrow> silicon_error + decision" where
  "parse_decision T body fld =
     and_then (ok_or (MissingField fld) (get_str body fld)) (\<lambda>s.
       let d = to_lowercase T s
       in if d = ''allow'' then Inr Allow
          else if d = ''deny'' then Inr DenyDecision
          else if d = ''require'' then Inr Require
          else Inl (InvalidField (fld @ '' must be allow|deny|require, got '' @ quoted d)))"

definition parse_bit :: "silicon_text \<Rightarrow> json \<Rightarrow> silicon_error + silicon_bit_body" where
  "parse_bit T body =
     and_then (req_str body ''id'') (\<lambda>i.
     and_then (req_str body ''name'') (\<lambda>name.
     and_then (ok_or (MissingField ''condition'') (json_get body ''condition'')) (\<lambda>condition_val.
     and_then (from_value condition_val) (\<lambda>condition.
     and_then (parse_decision T body ''on_true'') (\<lambda>on_true.
     and_then (parse_decision T body ''on_false'') (\<lambda>on_false.
       Inr \<lparr>bit_id = i, bit_name = name, bit_condition = condition, bit_on_true = on_true,
         bit_on_false = on_false, bit_requires_context = str_members body ''requires_context''\<rparr>))))))"

text \<open>The list of identifiers under \<open>fld\<close>: an array of strings, not empty, each starting with \<open>b3:\<close>.\<close>

definition indexed :: "string \<Rightarrow> nat \<Rightarrow> string" where
  "indexed fld i = fld @ ''['' @ show_nat i @ '']''"

definition parse_cids :: "string \<Rightarrow> json \<Rightarrow> silicon_error + string list" where
  "parse_cids fld body =
     and_then (ok_or (MissingField fld) (get_array body fld)) (\<lambda>arr.
     and_then (collect_results (\<lambda>(i, v). ok_or (InvalidField (indexed fld i @ '' must be string'')) (as_str v))
         (List.enumerate 0 arr)) (\<lambda>cids.
       if cids = [] then Inl (InvalidField (fld @ '' cannot be empty''))
       else and_then (collect_results (\<lambda>(i, cid).
           if strip_prefix ''b3:'' cid = None
           then Inl (InvalidField (indexed fld i @ '' must be a CID (b3:...)'')) else Inr cid)
         (List.enumerate 0 cids)) (\<lambda>_. Inr cids)))"

definition parse_circuit :: "silicon_text \<Rightarrow> json \<Rightarrow> silicon_error + silicon_circuit_body" where
  "parse_circuit T body =
     and_then (req_str body ''id'') (\<lambda>i.
     and_then (req_str body ''name'') (\<lambda>name.
     and_then (parse_cids ''bits'' body) (\<lambda>bits.
     and_then (req_str body ''composition'') (\<lambda>comp_text.
     and_then (req_str body ''aggregator'') (\<lambda>agg_text.
       let circuit = \<lparr>sc_id = i, sc_name = name, sc_bits = bits, sc_composition = comp_text,
         sc_aggregator = agg_text\<rparr>
       in and_then (get_composition_mode T circuit) (\<lambda>_.
          and_then (get_aggregation_mode T circuit) (\<lambda>_. Inr circuit)))))))"

definition parse_chip :: "json \<Rightarrow> silicon_error + silicon_chip_body" where
  "parse_chip body =
     and_then (req_str body ''id'') (\<lambda>i.
     and_then (req_str body ''name'') (\<lambda>name.
     and_then (parse_cids ''circuits'' body) (\<lambda>circuits.
     and_then (ok_or (MissingField ''hal'') (json_get body ''hal'')) (\<lambda>hal_value.
     and_then (hal_from_value hal_value) (\<lambda>hal.
       Inr \<lparr>chip_body_id = i, chip_body_name = name, chip_circuits = circuits, chip_hal = hal,
         chip_version = (case get_str body ''version'' of Some v \<Rightarrow> v | None \<Rightarrow> ''1.0'')\<rparr>)))))"

definition parse_compile :: "silicon_text \<Rightarrow> json \<Rightarrow> silicon_error + silicon_compile_body" where
  "parse_compile T body =
     and_then (req_str body ''chip_cid'') (\<lambda>chip_cid.
       if strip_prefix ''b3:'' chip_cid = None then Inl (InvalidField ''chip_cid must be a CID (b3:...)'')
       else (let target_str = (case get_str body ''target'' of Some s \<Rightarrow> s | None \<Rightarrow> ''ubl_vm'')
             in map_ok (\<lambda>target. \<lparr>compile_chip_cid = chip_cid, compile_body_target = target\<rparr>)
                  (ok_or (UnsupportedTarget target_str) (compile_target_parse T target_str))))"

definition parse_silicon :: "silicon_text \<Rightarrow> string \<Rightarrow> json \<Rightarrow> silicon_error + silicon_request" where
  "parse_silicon T ct body =
     (if ct = TYPE_SILICON_BIT then map_ok R_Bit (parse_bit T body)
      else if ct = TYPE_SILICON_CIRCUIT then map_ok R_Circuit (parse_circuit T body)
      else if ct = TYPE_SILICON_CHIP then map_ok R_Chip (parse_chip body)
      else if ct = TYPE_SILICON_COMPILE then map_ok R_Compile (parse_compile T body)
      else Inl (InvalidField (''not a silicon chip type: '' @ ct)))"

section \<open>Checks against the store\<close>

definition get_chip :: "chip_store \<Rightarrow> string \<Rightarrow> silicon_error + stored_chip option" where
  "get_chip store cid = map_err ChipStoreError (store cid)"

definition verify_chip_type ::
  "chip_store \<Rightarrow> string \<Rightarrow> (string \<Rightarrow> silicon_error) \<Rightarrow> silicon_error + string" where
  "verify_chip_type store cid not_found =
     and_then (get_chip store cid) (\<lambda>stored. map_ok sc_type (ok_or (not_found cid) stored))"

definition check_bit_ref :: "chip_store \<Rightarrow> string \<Rightarrow> silicon_error + string" where
  "check_bit_ref store cid =
     and_then (map_err (\<lambda>_. BitNotFound cid) (verify_chip_type store cid BitNotFound)) (\<lambda>found_type.
       if found_type \<noteq> TYPE_SILICON_BIT \<and> found_type \<noteq> TYPE_SILICON_CHIP
       then Inl (InvalidField (''circuit bits['' @ cid @ ''] must be ubl/silicon.bit or ubl/silicon.chip, got ''
         @ quoted found_type))
       else Inr found_type)"

definition check_circuit_ref :: "chip_store \<Rightarrow> string \<Rightarrow> silicon_error + string" where
  "check_circuit_ref store cid =
     and_then (map_err (\<lambda>_. CircuitNotFound cid) (verify_chip_type store cid CircuitNotFound)) (\<lambda>found_type.
       if found_type \<noteq> TYPE_SILICON_CIRCUIT then Inl (CircuitTypeMismatch cid) else Inr found_type)"

definition check_chip_ref :: "chip_store \<Rightarrow> string \<Rightarrow> silicon_error + string" where
  "check_chip_ref store cid =
     and_then (map_err (\<lambda>_. ChipNotFound cid) (verify_chip_type store cid ChipNotFound)) (\<lambda>found_type.
       if found_type \<noteq> TYPE_SILICON_CHIP then Inl (ChipTypeMismatch cid) else Inr found_type)"

definition validate_for_check ::
  "silicon_text \<Rightarrow> string \<Rightarrow> json \<Rightarrow> chip_store option \<Rightarrow> silicon_error + silicon_request" where
  "validate_for_check T ct body store_opt =
     and_then (parse_silicon T ct body) (\<lambda>parsed.
       case parsed of
         R_Bit _ \<Rightarrow> Inr parsed
       | R_Circuit circuit \<Rightarrow>
           and_then (ok_or ChipStoreRequired store_opt) (\<lambda>store.
             map_ok (\<lambda>_. parsed) (collect_results (check_bit_ref store) (sc_bits circuit)))
       | R_Chip chip \<Rightarrow>
           and_then (ok_or ChipStoreRequired store_opt) (\<lambda>store.
             map_ok (\<lambda>_. parsed) (collect_results (check_circuit_ref store) (chip_circuits chip)))
       | R_Compile c \<Rightarrow>
           and_then (ok_or ChipStoreRequired store_opt) (\<lambda>store.
             map_ok (\<lambda>_. parsed) (check_chip_ref store (compile_chip_cid c))))"

section \<open>Resolution of a chip graph\<close>

record resolved_bit =
  rbit_cid :: string
  rbit_body :: silicon_bit_body

datatype resolved_node =
    RN_Bit resolved_bit
  | RN_SubChip "resolved_circuit list"
and resolved_circuit =
    ResolvedCircuit (rcirc_cid: string) (rcirc_body: silicon_circuit_body) (rcirc_nodes: "resolved_node list")

text \<open>
  The recursion descends into sub-chips; its depth is the fuel, and \<^const>\<open>None\<close> means that the
  fuel did not suffice. The set \<open>visiting\<close> is threaded through as the code does.
\<close>

type_synonym 'a resolving = "(silicon_error + 'a \<times> string set) option"

definition rbind :: "'a resolving \<Rightarrow> ('a \<Rightarrow> string set \<Rightarrow> 'b resolving) \<Rightarrow> 'b resolving" where
  "rbind m f = (case m of
     None \<Rightarrow> None
   | Some (Inl e) \<Rightarrow> Some (Inl e)
   | Some (Inr (x, vis)) \<Rightarrow> f x vis)"

lemma rbind_simps [simp]:
  "rbind None f = None" "rbind (Some (Inl e)) f = Some (Inl e)"
  "rbind (Some (Inr (x, vis))) f = f x vis"
  by (simp_all add: rbind_def)

lemma rbind_cong [fundef_cong]:
  "m = m' \<Longrightarrow> (\<And>x vis. m' = Some (Inr (x, vis)) \<Longrightarrow> f x vis = g x vis) \<Longrightarrow> rbind m f = rbind m' g"
  by (auto simp: rbind_def split: option.split sum.split)

definition lift_result :: "silicon_error + 'a \<Rightarrow> string set \<Rightarrow> 'a resolving" where
  "lift_result r vis = Some (map_ok (\<lambda>x. (x, vis)) r)"

lemma lift_result_simps [simp]:
  "lift_result (Inl e) vis = Some (Inl e)" "lift_result (Inr x) vis = Some (Inr (x, vis))"
  by (simp_all add: lift_result_def)

definition load_circuit :: "silicon_text \<Rightarrow> chip_store \<Rightarrow> string \<Rightarrow> silicon_error + silicon_circuit_body" where
  "load_circuit T store circuit_cid =
     and_then (get_chip store circuit_cid) (\<lambda>stored.
     and_then (ok_or (CircuitNotFound circuit_cid) stored) (\<lambda>circuit_stored.
       parse_circuit T (sc_data circuit_stored)))"

definition load_entry :: "chip_store \<Rightarrow> string \<Rightarrow> silicon_error + stored_chip" where
  "load_entry store entry_cid =
     and_then (get_chip store entry_cid) (\<lambda>stored. ok_or (BitNotFound entry_cid) stored)"

definition load_sub_chip :: "silicon_text \<Rightarrow> string \<Rightarrow> json \<Rightarrow> silicon_error + silicon_chip_body" where
  "load_sub_chip T entry_cid data =
     and_then (parse_silicon T TYPE_SILICON_CHIP data) (\<lambda>r.
       case r of R_Chip c \<Rightarrow> Inr c | _ \<Rightarrow> Inl (ChipTypeMismatch entry_cid))"

function resolve_chip_graph_inner ::
  "nat \<Rightarrow> silicon_text \<Rightarrow> chip_store \<Rightarrow> string list \<Rightarrow> string set \<Rightarrow> resolved_circuit list resolving"
and resolve_nodes ::
  "nat \<Rightarrow> silicon_text \<Rightarrow> chip_store \<Rightarrow> string list \<Rightarrow> string set \<Rightarrow> resolved_node list resolving" where
  "resolve_chip_graph_inner depth T store [] visiting = Some (Inr ([], visiting))"
| "resolve_chip_graph_inner depth T store (circuit_cid # cids) visiting =
     rbind (lift_result (load_circuit T store circuit_cid) visiting) (\<lambda>circuit_body vis.
     rbind (resolve_nodes depth T store (sc_bits circuit_body) vis) (\<lambda>nodes vis.
     rbind (resolve_chip_graph_inner depth T store cids vis) (\<lambda>rest vis.
       Some (Inr (ResolvedCircuit circuit_cid circuit_body nodes # rest, vis)))))"
| "resolve_nodes depth T store [] visiting = Some (Inr ([], visiting))"
| "resolve_nodes depth T store (entry_cid # cids) visiting =
     rbind (lift_result (load_entry store entry_cid) visiting) (\<lambda>entry_stored vis.
     rbind (if sc_type entry_stored = TYPE_SILICON_BIT then
              lift_result (map_ok (\<lambda>b. RN_Bit \<lparr>rbit_cid = entry_cid, rbit_body = b\<rparr>)
                (parse_bit T (sc_data entry_stored))) vis
            else if sc_type entry_stored = TYPE_SILICON_CHIP then
              (if entry_cid \<in> vis then Some (Inl (CyclicChipGraph entry_cid))
               else case depth of
                   0 \<Rightarrow> None
                 | Suc depth' \<Rightarrow>
                     rbind (lift_result (load_sub_chip T entry_cid (sc_data entry_stored)) (insert entry_cid vis))
                       (\<lambda>sub_chip_body vis.
                     rbind (resolve_chip_graph_inner depth' T store (chip_circuits sub_chip_body) vis)
                       (\<lambda>sub_circuits vis.
                       Some (Inr (RN_SubChip sub_circuits, vis - {entry_cid})))))
            else Some (Inl (InvalidField (''circuit bits['' @ entry_cid @ ''] has unsupported type ''
              @ quoted (sc_type entry_stored) @ ''; expected bit or chip''))))
     (\<lambda>node vis.
     rbind (resolve_nodes depth T store cids vis) (\<lambda>rest vis.
       Some (Inr (node # rest, vis)))))"
  by pat_completeness auto
termination
  by (relation "inv_image (less_than <*lex*> less_than <*lex*> less_than)
      (case_sum (\<lambda>(d, _, _, cs, _). (d, 1, length cs)) (\<lambda>(d, _, _, cs, _). (d, 0, length cs)))") auto

definition resolve_chip_graph ::
  "nat \<Rightarrow> silicon_text \<Rightarrow> chip_store \<Rightarrow> silicon_chip_body \<Rightarrow> (silicon_error + resolved_circuit list) option" where
  "resolve_chip_graph depth T store chip =
     map_option (map_ok fst) (resolve_chip_graph_inner depth T store (chip_circuits chip) {})"

section \<open>The compiler\<close>

abbreviation push_input_0 :: "u8 list" where
  "push_input_0 \<equiv> tlv_instr PushInput (be_bytes 2 (0 :: u16))"

abbreviation load_body :: "u8 list" where
  "load_body \<equiv> push_input_0 @ tlv_instr CasGet [] @ tlv_instr JsonNormalize []"

definition repeat_instr :: "nat \<Rightarrow> opcode \<Rightarrow> u8 list" where
  "repeat_instr n opc = concat (replicate n (tlv_instr opc []))"

definition expected_bytes :: "silicon_text \<Rightarrow> json \<Rightarrow> u8 list" where
  "expected_bytes T v = bytes_of (case as_str v of Some s \<Rightarrow> s | None \<Rightarrow> value_to_string T v)"

fun compile_to_bool :: "silicon_text \<Rightarrow> condition_spec \<Rightarrow> silicon_error + u8 list" where
  "compile_to_bool T (C_Always v) = Inr (tlv_instr PushBool [if v then 1 else 0])"
| "compile_to_bool T (C_ContextHas key) = Inr (load_body @ tlv_instr JsonHasKey (bytes_of key))"
| "compile_to_bool T (C_ContextEquals key v) =
     Inr (load_body @ tlv_instr JsonGetKeyBytes (bytes_of key) @ tlv_instr ConstBytes (expected_bytes T v)
       @ tlv_instr EqBytes [])"
| "compile_to_bool T (C_TypeEquals ct) =
     Inr (load_body @ tlv_instr JsonGetKeyBytes (bytes_of ''@type'') @ tlv_instr ConstBytes (bytes_of ct)
       @ tlv_instr EqBytes [])"
| "compile_to_bool T (C_BodySizeLte limit) =
     Inr (tlv_instr PushBodySize [] @ tlv_instr ConstI64 (be_bytes 8 (of_nat limit :: i64)) @ tlv_instr CmpI64 [3])"
| "compile_to_bool T (C_And cs) =
     (if cs = [] then Inr (tlv_instr PushBool [1])
      else map_ok (\<lambda>codes. concat codes @ repeat_instr (length cs - 1) BoolAnd)
        (collect_results (compile_to_bool T) cs))"
| "compile_to_bool T (C_Or cs) =
     (if cs = [] then Inr (tlv_instr PushBool [0])
      else map_ok (\<lambda>codes. concat codes @ repeat_instr (length cs - 1) BoolOr)
        (collect_results (compile_to_bool T) cs))"
| "compile_to_bool T (C_Not c) = map_ok (\<lambda>code. code @ tlv_instr BoolNot []) (compile_to_bool T c)"
| "compile_to_bool T (C_AmountLte fld amount) =
     Inr (load_body @ tlv_instr JsonGetKey (bytes_of fld) @ tlv_instr ConstI64 (be_bytes 8 amount)
       @ tlv_instr CmpI64 [3])"
| "compile_to_bool T (C_TimestampWithinSecs fld window_secs) =
     Inr (tlv_instr PushTimestamp [] @ load_body @ tlv_instr JsonGetKey (bytes_of fld) @ tlv_instr SubI64 []
       @ tlv_instr ConstI64 (be_bytes 8 window_secs) @ tlv_instr CmpI64 [3])"

definition compile_condition :: "silicon_text \<Rightarrow> condition_spec \<Rightarrow> decision \<Rightarrow> silicon_error + u8 list" where
  "compile_condition T c on_false =
     map_ok (\<lambda>code. code @ (if on_false = DenyDecision then tlv_instr AssertTrue [] else tlv_instr Drop []))
       (compile_to_bool T c)"

text \<open>The code of one node as a Boolean, and of the circuits of a sub-chip.\<close>

function emit_node_as_bool :: "silicon_text \<Rightarrow> resolved_node \<Rightarrow> silicon_error + u8 list" where
  "emit_node_as_bool T (RN_Bit b) = compile_to_bool T (bit_condition (rbit_body b))"
| "emit_node_as_bool T (RN_SubChip circuits) =
     map_ok (\<lambda>codes. if codes = [] then tlv_instr PushBool [1]
         else concat codes @ repeat_instr (length codes - 1) BoolAnd)
       (collect_results (emit_node_as_bool T) (concat (map rcirc_nodes circuits)))"
  by pat_completeness auto


lemma size_sub_node:
  "c \<in> set cs \<Longrightarrow> n \<in> set (rcirc_nodes c) \<Longrightarrow> size n < size (RN_SubChip cs)"
proof (induction cs)
  case (Cons d cs)
  have "size n < size c"
    using Cons.prems(2) by (cases c) (auto simp: less_Suc_eq_le dest!: size_list_estimation' [where f = size, OF _ order_refl])
  with Cons show ?case
    by auto
qed simp

termination emit_node_as_bool
  by (relation "measure (size \<circ> snd)") (auto intro: size_sub_node simp del: resolved_node.size)

definition compile_subchip_as_bool :: "silicon_text \<Rightarrow> resolved_circuit list \<Rightarrow> silicon_error + u8 list" where
  "compile_subchip_as_bool T sub_circuits =
     map_ok (\<lambda>codes. if codes = [] then tlv_instr PushBool [1]
         else concat codes @ repeat_instr (length codes - 1) BoolAnd)
       (collect_results (emit_node_as_bool T) (concat (map rcirc_nodes sub_circuits)))"

definition count_code :: "nat \<Rightarrow> u8 list" where
  "count_code n = concat (map (\<lambda>i. tlv_instr BoolToI64 [] @ (if i > 0 then tlv_instr AddI64 [] else [])) [0..<n])"

definition at_least :: "i64 \<Rightarrow> u8 list" where
  "at_least t = tlv_instr ConstI64 (be_bytes 8 t) @ tlv_instr CmpI64 [5] @ tlv_instr AssertTrue []"

fun is_bit :: "resolved_node \<Rightarrow> bool" where
  "is_bit (RN_Bit _) \<longleftrightarrow> True"
| "is_bit (RN_SubChip _) \<longleftrightarrow> False"

fun node_bit :: "resolved_node \<Rightarrow> resolved_bit option" where
  "node_bit (RN_Bit b) = Some b"
| "node_bit (RN_SubChip _) = None"

fun node_code :: "silicon_text \<Rightarrow> resolved_node \<Rightarrow> silicon_error + u8 list" where
  "node_code T (RN_Bit b) = compile_to_bool T (bit_condition (rbit_body b))"
| "node_code T (RN_SubChip sub_circuits) = compile_subchip_as_bool T sub_circuits"

definition fold_code :: "aggregation_mode \<Rightarrow> nat \<Rightarrow> u8 list" where
  "fold_code agg n =
     (case agg of
        AllMode \<Rightarrow> repeat_instr (n - 1) BoolAnd @ tlv_instr AssertTrue []
      | FirstDecisive \<Rightarrow> repeat_instr (n - 1) BoolAnd @ tlv_instr AssertTrue []
      | AnyMode \<Rightarrow> repeat_instr (n - 1) BoolOr @ tlv_instr AssertTrue []
      | Majority \<Rightarrow> count_code n @ at_least (of_nat (n div 2 + 1))
      | KofN k _ \<Rightarrow> count_code n @ at_least (of_nat k))"

text \<open>The emitted code and, when every node is a bit, the bits for the caller to aggregate.\<close>

definition collect_bits ::
  "silicon_text \<Rightarrow> resolved_node list \<Rightarrow> aggregation_mode \<Rightarrow> silicon_error + u8 list \<times> resolved_bit list option" where
  "collect_bits T nodes agg =
     (if list_all is_bit nodes then Inr ([], Some (List.map_filter node_bit nodes))
      else if nodes = [] then Inl (CompileError ''circuit has no nodes'')
      else map_ok (\<lambda>codes. (concat codes @ fold_code agg (length nodes), None))
        (collect_results (node_code T) nodes))"

definition bits_to_bool :: "silicon_text \<Rightarrow> resolved_bit list \<Rightarrow> u8 list \<Rightarrow> silicon_error + u8 list" where
  "bits_to_bool T bits suffix =
     map_ok concat (collect_results (\<lambda>b.
       map_ok (\<lambda>code. code @ suffix) (compile_to_bool T (bit_condition (rbit_body b)))) bits)"

definition assert_bits :: "silicon_text \<Rightarrow> resolved_bit list \<Rightarrow> silicon_error + u8 list" where
  "assert_bits T bits =
     map_ok concat (collect_results (\<lambda>b.
       compile_condition T (bit_condition (rbit_body b)) (bit_on_false (rbit_body b))) bits)"

definition aggregate_code ::
  "silicon_text \<Rightarrow> composition_mode \<Rightarrow> aggregation_mode \<Rightarrow> resolved_bit list \<Rightarrow> silicon_error + u8 list" where
  "aggregate_code T comp_mode agg bits =
     (let n = length bits; all_or_first =
        (case comp_mode of
           Sequential \<Rightarrow> assert_bits T bits
         | Parallel \<Rightarrow>
             map_ok (\<lambda>code. code @ repeat_instr (n - 1) BoolAnd @ tlv_instr AssertTrue []) (bits_to_bool T bits [])
         | Conditional _ \<Rightarrow> assert_bits T bits)
      in case agg of
           AllMode \<Rightarrow> all_or_first
         | FirstDecisive \<Rightarrow> all_or_first
         | AnyMode \<Rightarrow>
             map_ok (\<lambda>code. code @ repeat_instr (n - 1) BoolOr @ tlv_instr AssertTrue []) (bits_to_bool T bits [])
         | Majority \<Rightarrow>
             map_ok (\<lambda>code. code @ repeat_instr (n - 1) AddI64 @ at_least (of_nat (n div 2) + 1))
               (bits_to_bool T bits (tlv_instr BoolToI64 []))
         | KofN k _ \<Rightarrow>
             map_ok (\<lambda>code. code @ repeat_instr (n - 1) AddI64 @ at_least (of_nat k))
               (bits_to_bool T bits (tlv_instr BoolToI64 [])))"

definition compile_circuit :: "silicon_text \<Rightarrow> resolved_circuit \<Rightarrow> silicon_error + u8 list" where
  "compile_circuit T circuit =
     and_then (get_composition_mode T (rcirc_body circuit)) (\<lambda>comp_mode.
     and_then (get_aggregation_mode T (rcirc_body circuit)) (\<lambda>agg.
     and_then (collect_bits T (rcirc_nodes circuit) agg) (\<lambda>(code, bits).
       case bits of
         None \<Rightarrow> Inr code
       | Some bits \<Rightarrow>
           if bits = [] then Inl (CompileError ''circuit has no bits'')
           else map_ok (\<lambda>code'. code @ code') (aggregate_code T comp_mode agg bits))))"

definition compile_circuits_inner :: "silicon_text \<Rightarrow> resolved_circuit list \<Rightarrow> silicon_error + u8 list" where
  "compile_circuits_inner T circuits = map_ok concat (collect_results (compile_circuit T) circuits)"

definition compile_chip_to_ubl_vm :: "silicon_text \<Rightarrow> resolved_circuit list \<Rightarrow> silicon_error + u8 list" where
  "compile_chip_to_ubl_vm T circuits =
     map_ok (\<lambda>code. code @ push_input_0 @ tlv_instr EmitRc []) (compile_circuits_inner T circuits)"

definition gate_compile ::
  "nat \<Rightarrow> silicon_text \<Rightarrow> chip_store \<Rightarrow> string \<Rightarrow> (silicon_error + u8 list) option" where
  "gate_compile depth T store gate_chip_cid =
     (case and_then (get_chip store gate_chip_cid) (\<lambda>found.
           and_then (ok_or (ChipNotFound gate_chip_cid) found) (\<lambda>stored.
             if sc_type stored \<noteq> TYPE_SILICON_CHIP then Inl (ChipTypeMismatch gate_chip_cid)
             else load_sub_chip T gate_chip_cid (sc_data stored))) of
        Inl e \<Rightarrow> Some (Inl e)
      | Inr chip_body \<Rightarrow>
          map_option (\<lambda>r. and_then r (compile_chip_to_ubl_vm T)) (resolve_chip_graph depth T store chip_body))"

section \<open>The gate of the check stage\<close>

text \<open>
  \<open>@silicon_gate\<close> in \<open>pipeline/stages/check.rs\<close>: the gate's bytecode runs in ghost mode against the
  NRF bytes of the body; only the error \<^const>\<open>Deny\<close> rejects. The reason of a numeric denial is its
  prefix followed by the library's text, which is left out, as is the timed trace entry of the
  result.
\<close>

datatype gate_outcome =
    GatePass
  | GatePanicked
  | GateDenied string
  | GateInvalidChip silicon_error
  | GateInternal string

definition gate_vm :: "(u8 list \<Rightarrow> u8 list) \<Rightarrow> u64 \<Rightarrow> u8 list \<Rightarrow> pipeline_cas vm" where
  "gate_vm hash limit chip_nrf =
     (let (cas, input_cid) = pipeline_cas_put hash pipeline_cas_new chip_nrf
      in with_body_size (vm_new \<lparr>fuel_limit = limit, ghost = True, trace_on = False\<rparr> cas [input_cid])
           (of_nat (length chip_nrf)))"

definition gate_verdict :: "exec_error + 'a \<Rightarrow> gate_outcome" where
  "gate_verdict r = (case r of
     Inl (Deny reason) \<Rightarrow> GateDenied reason
   | Inl (DenyNum prefix e) \<Rightarrow> GateDenied prefix
   | Inl Panicked \<Rightarrow> GatePanicked
   | _ \<Rightarrow> GatePass)"

definition run_gate ::
  "vm_env \<Rightarrow> text_env \<Rightarrow> (u8 list \<Rightarrow> u8 list) \<Rightarrow> (u8 list \<Rightarrow> string) \<Rightarrow> (string \<Rightarrow> u8 list option)
    \<Rightarrow> u64 \<Rightarrow> json \<Rightarrow> silicon_error + u8 list \<Rightarrow> gate_outcome" where
  "run_gate E N hash sign_bytes b64_decode limit body compiled =
     (case compiled of
        Inl e \<Rightarrow> GateInvalidChip e
      | Inr bytecode \<Rightarrow>
          (case decode_stream bytecode of
             Inl e \<Rightarrow> GateInternal ''@silicon_gate decode''
           | Inr instructions \<Rightarrow>
               (case to_nrf1_bytes N body of
                  Inl e \<Rightarrow> GateInternal ''@silicon_gate nrf''
                | Inr chip_nrf \<Rightarrow>
                    gate_verdict (run E (pipeline_providers N hash sign_bytes b64_decode) instructions
                      (gate_vm hash limit chip_nrf)))))"

definition gate_reason :: "string \<Rightarrow> gate_outcome \<Rightarrow> gate_outcome" where
  "gate_reason gate_cid g = (case g of
     GateDenied reason \<Rightarrow> GateDenied (''@silicon_gate '' @ quoted gate_cid @ '' denied: '' @ reason)
   | _ \<Rightarrow> g)"

definition silicon_gate ::
  "nat \<Rightarrow> silicon_text \<Rightarrow> chip_store option \<Rightarrow> vm_env \<Rightarrow> text_env \<Rightarrow> (u8 list \<Rightarrow> u8 list)
    \<Rightarrow> (u8 list \<Rightarrow> string) \<Rightarrow> (string \<Rightarrow> u8 list option) \<Rightarrow> u64 \<Rightarrow> json \<Rightarrow> gate_outcome option" where
  "silicon_gate depth T store_opt E N hash sign_bytes b64_decode limit body =
     (case (get_str body ''@silicon_gate'', store_opt) of
        (Some gate_cid, Some store) \<Rightarrow>
          map_option (\<lambda>compiled. gate_reason gate_cid (run_gate E N hash sign_bytes b64_decode limit body compiled))
            (gate_compile depth T store gate_cid)
      | _ \<Rightarrow> Some GatePass)"

end
