(* ===== verification/Silicon_Stack.thy ===== *)
theory Silicon_Stack
  imports Silicon
begin

text \<open>
  The output of the silicon compiler as instruction lists, and the execution of code that only
  works on the stack: on enough fuel such code is a function of the stack.
\<close>

section \<open>Code as instructions\<close>

abbreviation ins :: "opcode \<Rightarrow> u8 list \<Rightarrow> instr" where
  "ins opc p \<equiv> \<lparr>ins_op = opc, ins_payload = p\<rparr>"

lemma tlv_instr_assemble: "tlv_instr opc p = assemble [ins opc p]"
  by (simp add: encode_instr_def)

lemma repeat_instr_assemble: "repeat_instr n opc = assemble (replicate n (ins opc []))"
  by (induction n) (simp_all add: repeat_instr_def encode_instr_def)

lemma concat_assemble: "concat (map (\<lambda>x. assemble (f x)) xs) = assemble (concat (map f xs))"
  by (induction xs) simp_all

lemma collect_results_Inr_map:
  "(\<And>x. x \<in> set xs \<Longrightarrow> f x = Inr (g x)) \<Longrightarrow> collect_results f xs = Inr (map g xs)"
  by (induction xs) simp_all

definition load_ins :: "instr list" where
  "load_ins = [ins PushInput (be_bytes 2 (0 :: u16)), ins CasGet [], ins JsonNormalize []]"

fun bool_code :: "silicon_text \<Rightarrow> condition_spec \<Rightarrow> instr list" where
  "bool_code T (C_Always v) = [ins PushBool [if v then 1 else 0]]"
| "bool_code T (C_ContextHas key) = load_ins @ [ins JsonHasKey (bytes_of key)]"
| "bool_code T (C_ContextEquals key v) =
     load_ins @ [ins JsonGetKeyBytes (bytes_of key), ins ConstBytes (expected_bytes T v), ins EqBytes []]"
| "bool_code T (C_TypeEquals ct) =
     load_ins @ [ins JsonGetKeyBytes (bytes_of ''@type''), ins ConstBytes (bytes_of ct), ins EqBytes []]"
| "bool_code T (C_BodySizeLte limit) =
     [ins PushBodySize [], ins ConstI64 (be_bytes 8 (of_nat limit :: i64)), ins CmpI64 [3]]"
| "bool_code T (C_And cs) =
     (if cs = [] then [ins PushBool [1]]
      else concat (map (bool_code T) cs) @ replicate (length cs - 1) (ins BoolAnd []))"
| "bool_code T (C_Or cs) =
     (if cs = [] then [ins PushBool [0]]
      else concat (map (bool_code T) cs) @ replicate (length cs - 1) (ins BoolOr []))"
| "bool_code T (C_Not c) = bool_code T c @ [ins BoolNot []]"
| "bool_code T (C_AmountLte fld amount) =
     load_ins @ [ins JsonGetKey (bytes_of fld), ins ConstI64 (be_bytes 8 amount), ins CmpI64 [3]]"
| "bool_code T (C_TimestampWithinSecs fld window_secs) =
     ins PushTimestamp [] # load_ins @ [ins JsonGetKey (bytes_of fld), ins SubI64 [],
       ins ConstI64 (be_bytes 8 window_secs), ins CmpI64 [3]]"

lemma compile_to_bool_code: "compile_to_bool T c = Inr (assemble (bool_code T c))"
proof (induction c)
  case (C_And cs)
  then have "collect_results (compile_to_bool T) cs = Inr (map (\<lambda>c. assemble (bool_code T c)) cs)"
    by (intro collect_results_Inr_map) simp
  then show ?case
    by (simp add: concat_assemble repeat_instr_assemble tlv_instr_assemble)
next
  case (C_Or cs)
  then have "collect_results (compile_to_bool T) cs = Inr (map (\<lambda>c. assemble (bool_code T c)) cs)"
    by (intro collect_results_Inr_map) simp
  then show ?case
    by (simp add: concat_assemble repeat_instr_assemble tlv_instr_assemble)
qed (simp_all add: tlv_instr_assemble load_ins_def)

function node_ins :: "silicon_text \<Rightarrow> resolved_node \<Rightarrow> instr list" where
  "node_ins T (RN_Bit b) = bool_code T (bit_condition (rbit_body b))"
| "node_ins T (RN_SubChip circuits) =
     (let nodes = concat (map rcirc_nodes circuits)
      in if nodes = [] then [ins PushBool [1]]
         else concat (map (node_ins T) nodes) @ replicate (length nodes - 1) (ins BoolAnd []))"
  by pat_completeness auto
termination
  by (relation "measure (size \<circ> snd)") (auto intro: size_sub_node simp del: resolved_node.size)

declare node_ins.simps(2) [simp del]

lemma emit_node_code: "emit_node_as_bool T n = Inr (assemble (node_ins T n))"
proof (induction T n rule: emit_node_as_bool.induct)
  case (2 T circuits)
  then have "collect_results (emit_node_as_bool T) (concat (map rcirc_nodes circuits))
      = Inr (map (\<lambda>n. assemble (node_ins T n)) (concat (map rcirc_nodes circuits)))"
    by (intro collect_results_Inr_map) auto
  then show ?case
    by (simp add: concat_assemble repeat_instr_assemble tlv_instr_assemble node_ins.simps Let_def)
qed (simp add: compile_to_bool_code)

lemma node_code_ins: "node_code T n = Inr (assemble (node_ins T n))"
  using emit_node_code [of T n] by (cases n) (simp_all add: compile_to_bool_code compile_subchip_as_bool_def)

section \<open>Code that only works on the stack\<close>

definition stack_op :: "opcode \<Rightarrow> bool" where
  "stack_op opc \<longleftrightarrow> opc \<in> {PushBool, PushInput, CasGet, JsonNormalize, JsonHasKey, JsonGetKeyBytes, ConstBytes,
     EqBytes, PushBodySize, ConstI64, CmpI64, BoolAnd, BoolOr, BoolNot, JsonGetKey, PushTimestamp, SubI64,
     BoolToI64, AddI64, AssertTrue, Drop}"

definition stack_code :: "instr list \<Rightarrow> bool" where
  "stack_code code \<longleftrightarrow> list_all (\<lambda>i. stack_op (ins_op i)) code"

lemma stack_code_simps [simp]:
  "stack_code []" "stack_code (i # code) \<longleftrightarrow> stack_op (ins_op i) \<and> stack_code code"
  "stack_code (a @ b) \<longleftrightarrow> stack_code a \<and> stack_code b"
  "stack_code (concat codes) \<longleftrightarrow> list_all stack_code codes"
  "stack_op (ins_op i) \<Longrightarrow> stack_code (replicate n i)"
  by (induction codes) (auto simp: stack_code_def list_all_iff)

fun stack_exec :: "vm_env \<Rightarrow> 'c providers \<Rightarrow> 'c vm \<Rightarrow> instr list \<Rightarrow> vm_value list \<Rightarrow> exec_error + vm_value list" where
  "stack_exec E P m0 [] st = Inr st"
| "stack_exec E P m0 (i # code) st =
     and_then (exec_op E P i (m0\<lparr>stack := st\<rparr>)) (\<lambda>m. stack_exec E P m0 code (stack m))"

lemma stack_exec_append [simp]:
  "stack_exec E P m0 (a @ b) st = and_then (stack_exec E P m0 a st) (stack_exec E P m0 b)"
proof (induction a arbitrary: st)
  case (Cons i a)
  then show ?case
    by (cases "exec_op E P i (m0\<lparr>stack := st\<rparr>)") simp_all
qed simp

text \<open>Two machines that agree on what such code can read.\<close>

definition same_reads :: "'c vm \<Rightarrow> 'c vm \<Rightarrow> bool" where
  "same_reads m m0 \<longleftrightarrow> inputs m = inputs m0 \<and> cas m = cas m0 \<and> body_size m = body_size m0"

definition steady_clock :: "vm_env \<Rightarrow> i64 \<Rightarrow> bool" where
  "steady_clock E now \<longleftrightarrow> (\<forall>n. unix_secs E n = now)"

lemma pop_local:
  "pop_i64 opc m = map_ok (\<lambda>(x, m'). (x, m\<lparr>stack := stack m'\<rparr>)) (pop_i64 opc (m0\<lparr>stack := stack m\<rparr>))"
  "pop_bool opc m = map_ok (\<lambda>(y, m'). (y, m\<lparr>stack := stack m'\<rparr>)) (pop_bool opc (m0\<lparr>stack := stack m\<rparr>))"
  "pop_bytes opc m = map_ok (\<lambda>(z, m'). (z, m\<lparr>stack := stack m'\<rparr>)) (pop_bytes opc (m0\<lparr>stack := stack m\<rparr>))"
  "pop_json opc m = map_ok (\<lambda>(j, m'). (j, m\<lparr>stack := stack m'\<rparr>)) (pop_json opc (m0\<lparr>stack := stack m\<rparr>))"
  "pop_cid opc m = map_ok (\<lambda>(c, m'). (c, m\<lparr>stack := stack m'\<rparr>)) (pop_cid opc (m0\<lparr>stack := stack m\<rparr>))"
  "pop_bytes_or_cid opc m =
     map_ok (\<lambda>(z, m'). (z, m\<lparr>stack := stack m'\<rparr>)) (pop_bytes_or_cid opc (m0\<lparr>stack := stack m\<rparr>))"
  unfolding pop_i64_def pop_bool_def pop_bytes_def pop_json_def pop_cid_def pop_bytes_or_cid_def pop_def
  by (cases "stack m"; auto split: vm_value.split)+

lemmas pop_defs = pop_i64_def pop_bool_def pop_bytes_def pop_json_def pop_cid_def pop_bytes_or_cid_def pop_def

lemma map_ok_case:
  "map_ok f (case x of None \<Rightarrow> a | Some y \<Rightarrow> b y) = (case x of None \<Rightarrow> map_ok f a | Some y \<Rightarrow> map_ok f (b y))"
  "map_ok f (if c then r else s) = (if c then map_ok f r else map_ok f s)"
  by (cases x) simp_all

lemma exec_op_local:
  assumes "stack_op (ins_op i)" "same_reads m m0" "steady_clock E now"
  shows "exec_op E P i m = map_ok (\<lambda>m'. m\<lparr>stack := stack m'\<rparr>) (exec_op E P i (m0\<lparr>stack := stack m\<rparr>))"
proof -
  have reads: "inputs m = inputs m0" "cas m = cas m0" "body_size m = body_size m0" "unix_secs E k = now" for k
    using assms(2,3) by (simp_all add: same_reads_def steady_clock_def)
  note ops = stack_op_def exec_op_def Let_def op_defs pop_defs push_def reads payload_str_def map_ok_and_then map_ok_case
  consider "stack m = []" | v where "stack m = [v]" | v w st where "stack m = v # w # st"
    by (cases "stack m"; cases "tl (stack m)") auto
  then show ?thesis
  proof cases
    case 1
    then show ?thesis
      using assms(1) by (cases "ins_op i") (simp_all add: ops)
  next
    case 2
    then show ?thesis
      using assms(1) by (cases "ins_op i"; cases v) (simp_all add: ops cong: option.case_cong if_cong)
  next
    case 3
    then show ?thesis
      using assms(1) by (cases "ins_op i"; cases v) (simp_all add: ops split: vm_value.split cong: option.case_cong if_cong)
  qed
qed

text \<open>With enough fuel and no tracing, stack code is a function of the stack.\<close>

definition advance :: "nat \<Rightarrow> vm_value list \<Rightarrow> 'c vm \<Rightarrow> 'c vm" where
  "advance n st m = m\<lparr>stack := st, steps := steps m + of_nat n, fuel_used := fuel_used m + of_nat n\<rparr>"

lemma advance_sel [simp]:
  "stack (advance n st m) = st" "cfg (advance n st m) = cfg m" "inputs (advance n st m) = inputs m"
  "cas (advance n st m) = cas m" "body_size (advance n st m) = body_size m"
  "fuel_used (advance n st m) = fuel_used m + of_nat n" "steps (advance n st m) = steps m + of_nat n"
  by (simp_all add: advance_def)

definition fuel_for :: "nat \<Rightarrow> 'c vm \<Rightarrow> bool" where
  "fuel_for n m \<longleftrightarrow> unat (fuel_used m) + n \<le> unat (fuel_limit (cfg m))"

lemma fuel_for_Suc:
  assumes "fuel_for (Suc n) m"
  shows "begin_step m = Inr (advance 1 (stack m) m)" "fuel_for n (advance 1 st m)"
proof -
  have lim: "unat (fuel_limit (cfg m)) < 2 ^ 64"
    using unsigned_less [of "fuel_limit (cfg m)"] by simp
  then have fuel: "unat (fuel_used m) + 1 < 2 ^ 64" "unat (fuel_used m) < unat (fuel_limit (cfg m))"
    using assms by (auto simp: fuel_for_def)
  have "unat (fuel_used m + 1) = unat (fuel_used m) + 1"
    using unat_Suc_word [OF fuel(1)] .
  with assms show "fuel_for n (advance 1 st m)"
    by (simp add: fuel_for_def)
  show "begin_step m = Inr (advance 1 (stack m) m)"
    using begin_step_Inr [OF fuel(1)] fuel(2) by (simp add: advance_def)
qed

lemma advance_advance: "advance a st (advance b st' m) = advance (b + a) st m"
  by (simp add: advance_def add.assoc)

lemma exec_list_stack:
  assumes "stack_code code" "steady_clock E now" "same_reads m m0" "fuel_for (length code) m" "\<not> trace_on (cfg m)"
  shows "exec_list E P code m = map_ok (\<lambda>st. advance (length code) st m) (stack_exec E P m0 code (stack m))"
  using assms
proof (induction code arbitrary: m)
  case Nil
  then show ?case
    by (simp add: advance_def)
next
  case (Cons i code)
  let ?m1 = "advance 1 (stack m) m"
  have b: "begin_step m = Inr ?m1"
    using Cons.prems(4) by (intro fuel_for_Suc) simp
  have loc: "exec_op E P i ?m1 = map_ok (\<lambda>m'. ?m1\<lparr>stack := stack m'\<rparr>) (exec_op E P i (m0\<lparr>stack := stack m\<rparr>))"
    using exec_op_local [of i ?m1 m0 E now P] Cons.prems by (simp add: same_reads_def)
  have upd: "?m1\<lparr>stack := st\<rparr> = advance 1 st m" for st
    by (simp add: advance_def)
  have tr: "push_trace opc nt (advance 1 st m) = advance 1 st m" for opc nt st
    using Cons.prems(5) by (simp add: push_trace_def)
  have IH: "exec_list E P code (advance 1 st m)
      = map_ok (\<lambda>st'. advance (length (i # code)) st' m) (stack_exec E P m0 code st)" for st
    using Cons.IH [of "advance 1 st m"] Cons.prems fuel_for_Suc(2) [of "length code" m st]
    by (simp add: same_reads_def advance_advance)
  show ?case
    by (cases "exec_op E P i (m0\<lparr>stack := stack m\<rparr>)") (simp_all add: b loc upd tr IH del: One_nat_def)
qed

end
