(* ===== verification/Silicon_Laws.thy ===== *)
theory Silicon_Laws
  imports Silicon_Stack
begin

text \<open>
  The meaning of conditions and circuits, the correctness of the compiler against it, agreement
  with the policy evaluator, the gate of the check stage, and the resolution of chip graphs.
\<close>

section \<open>The meaning of conditions\<close>

text \<open>What loading the first input as JSON yields.\<close>

definition load_result :: "vm_env \<Rightarrow> 'c providers \<Rightarrow> 'c vm \<Rightarrow> exec_error + json" where
  "load_result E P m =
     (case inputs m of
        [] \<Rightarrow> Inl (InvalidPayload PushInput)
      | cid # _ \<Rightarrow>
          and_then (ok_or (Deny ''cas_get_not_found'') (cas_get P (cas m) cid)) (\<lambda>bytes.
          map_ok (canon P) (ok_or (Deny ''json_parse_error'') (json_from_slice E bytes))))"

definition str_member :: "json \<Rightarrow> string \<Rightarrow> exec_error + string" where
  "str_member j key = ok_or (Deny (''json_key_missing_or_not_string: '' @ key)) (get_str j key)"

text \<open>An integer member; a number object reaches the instruction that follows and is rejected there.\<close>

definition int_member :: "vm_env \<Rightarrow> opcode \<Rightarrow> json \<Rightarrow> string \<Rightarrow> exec_error + i64" where
  "int_member E opc j fld =
     (case json_get j fld of
        None \<Rightarrow> Inl (Deny ''json_key_missing_or_not_i64'')
      | Some x \<Rightarrow>
          (case as_i64 x of
             Some n \<Rightarrow> Inr n
           | None \<Rightarrow>
               if json_get x ''@num'' \<noteq> None \<and> num_from_value E x \<noteq> None then Inl (TypeMismatch opc)
               else Inl (Deny ''json_key_missing_or_not_i64'')))"

text \<open>What a condition can depend on, and what it is on a machine.\<close>

record gate_ctx =
  gc_env :: vm_env
  gc_text :: silicon_text
  gc_body :: "exec_error + json"
  gc_size :: u64
  gc_now :: i64

definition machine_ctx :: "vm_env \<Rightarrow> silicon_text \<Rightarrow> 'c providers \<Rightarrow> 'c vm \<Rightarrow> i64 \<Rightarrow> gate_ctx" where
  "machine_ctx E T P m now =
     \<lparr>gc_env = E, gc_text = T, gc_body = load_result E P m, gc_size = body_size m, gc_now = now\<rparr>"

lemma machine_ctx_sel [simp]:
  "gc_env (machine_ctx E T P m now) = E" "gc_text (machine_ctx E T P m now) = T"
  "gc_body (machine_ctx E T P m now) = load_result E P m" "gc_size (machine_ctx E T P m now) = body_size m"
  "gc_now (machine_ctx E T P m now) = now"
  by (simp_all add: machine_ctx_def)

fun cond_eval :: "gate_ctx \<Rightarrow> condition_spec \<Rightarrow> exec_error + bool" where
  "cond_eval G (C_Always v) = Inr v"
| "cond_eval G (C_ContextHas key) =
     map_ok (\<lambda>j. case json_get j key of Some v \<Rightarrow> \<not> is_null v | None \<Rightarrow> False) (gc_body G)"
| "cond_eval G (C_ContextEquals key v) =
     and_then (gc_body G) (\<lambda>j. map_ok (\<lambda>s. bytes_of s = expected_bytes (gc_text G) v) (str_member j key))"
| "cond_eval G (C_TypeEquals ct) =
     and_then (gc_body G) (\<lambda>j. map_ok (\<lambda>s. s = ct) (str_member j ''@type''))"
| "cond_eval G (C_BodySizeLte limit) = Inr (sint (gc_size G) \<le> sint (of_nat limit :: i64))"
| "cond_eval G (C_And cs) = map_ok (list_all id) (collect_results (cond_eval G) cs)"
| "cond_eval G (C_Or cs) = map_ok (list_ex id) (collect_results (cond_eval G) cs)"
| "cond_eval G (C_Not c) = map_ok Not (cond_eval G c)"
| "cond_eval G (C_AmountLte fld amount) =
     and_then (gc_body G) (\<lambda>j. map_ok (\<lambda>n. sint n \<le> sint amount) (int_member (gc_env G) CmpI64 j fld))"
| "cond_eval G (C_TimestampWithinSecs fld window_secs) =
     and_then (gc_body G) (\<lambda>j. map_ok (\<lambda>n. sint (saturating_sub_i64 (gc_now G) n) \<le> sint window_secs)
       (int_member (gc_env G) SubI64 j fld))"

text \<open>Keys are Rust strings, and payloads fit the 16-bit length field.\<close>

definition payload_ok :: "u8 list \<Rightarrow> bool" where
  "payload_ok p \<longleftrightarrow> length p < 2 ^ 16"

fun cond_ok :: "silicon_text \<Rightarrow> condition_spec \<Rightarrow> bool" where
  "cond_ok T (C_ContextHas key) \<longleftrightarrow> is_str key \<and> payload_ok (bytes_of key)"
| "cond_ok T (C_ContextEquals key v) \<longleftrightarrow>
     is_str key \<and> payload_ok (bytes_of key) \<and> payload_ok (expected_bytes T v)"
| "cond_ok T (C_TypeEquals ct) \<longleftrightarrow> payload_ok (bytes_of ct)"
| "cond_ok T (C_And cs) \<longleftrightarrow> list_all (cond_ok T) cs"
| "cond_ok T (C_Or cs) \<longleftrightarrow> list_all (cond_ok T) cs"
| "cond_ok T (C_Not c) \<longleftrightarrow> cond_ok T c"
| "cond_ok T (C_AmountLte fld _) \<longleftrightarrow> is_str fld \<and> payload_ok (bytes_of fld)"
| "cond_ok T (C_TimestampWithinSecs fld _) \<longleftrightarrow> is_str fld \<and> payload_ok (bytes_of fld)"
| "cond_ok T _ \<longleftrightarrow> True"

section \<open>Single instructions\<close>

lemma and_then_ok [simp]: "and_then m (\<lambda>x. Inr (f x)) = map_ok f m"
  by (cases m) simp_all

declare map_ok_map_ok [simp]

named_theorems stack_step

lemma stack_step_simps [stack_step]:
  "stack_exec E P m0 (ins PushBool [u] # code) st = stack_exec E P m0 code (V_Bool (u \<noteq> 0) # st)"
  "stack_exec E P m0 (ins ConstBytes p # code) st = stack_exec E P m0 code (V_Bytes p # st)"
  "stack_exec E P m0 (ins ConstI64 (be_bytes 8 w) # code) st = stack_exec E P m0 code (V_I64 w # st)"
  "stack_exec E P m0 (ins PushBodySize [] # code) st = stack_exec E P m0 code (V_I64 (body_size m0) # st)"
  "stack_exec E P m0 (ins BoolNot [] # code) (V_Bool b # st) = stack_exec E P m0 code (V_Bool (\<not> b) # st)"
  "stack_exec E P m0 (ins BoolAnd [] # code) (V_Bool b # V_Bool a # st) = stack_exec E P m0 code (V_Bool (a \<and> b) # st)"
  "stack_exec E P m0 (ins BoolOr [] # code) (V_Bool b # V_Bool a # st) = stack_exec E P m0 code (V_Bool (a \<or> b) # st)"
  "stack_exec E P m0 (ins BoolToI64 [] # code) (V_Bool b # st) = stack_exec E P m0 code (V_I64 (if b then 1 else 0) # st)"
  "stack_exec E P m0 (ins AddI64 [] # code) (V_I64 y # V_I64 x # st) =
     stack_exec E P m0 code (V_I64 (saturating_add_i64 x y) # st)"
  "stack_exec E P m0 (ins SubI64 [] # code) (V_I64 y # V_I64 x # st) =
     stack_exec E P m0 code (V_I64 (saturating_sub_i64 x y) # st)"
  "stack_exec E P m0 (ins SubI64 [] # code) (V_Num q # st) = Inl (TypeMismatch SubI64)"
  "stack_exec E P m0 (ins CmpI64 [3] # code) (V_I64 y # V_I64 x # st) =
     stack_exec E P m0 code (V_Bool (sint x \<le> sint y) # st)"
  "stack_exec E P m0 (ins CmpI64 [3] # code) (V_I64 y # V_Num q # st) = Inl (TypeMismatch CmpI64)"
  "stack_exec E P m0 (ins CmpI64 [5] # code) (V_I64 y # V_I64 x # st) =
     stack_exec E P m0 code (V_Bool (sint x \<ge> sint y) # st)"
  "stack_exec E P m0 (ins AssertTrue [] # code) (V_Bool b # st) =
     (if b then stack_exec E P m0 code st else Inl (Deny ''assert_false''))"
  "stack_exec E P m0 (ins Drop [] # code) (v # st) = stack_exec E P m0 code st"
  "stack_exec E P m0 (ins EqBytes [] # code) (V_Bytes r # V_Bytes q' # st) = stack_exec E P m0 code (V_Bool (q' = r) # st)"
  by (simp_all add: exec_op_def op_defs pop_defs push_def cmp_i64_def from_be_u64)

lemma stack_step_keys [stack_step]:
  assumes "is_str key"
  shows "stack_exec E P m0 (ins JsonHasKey (bytes_of key) # code) (V_Json j # st) = stack_exec E P m0 code
      (V_Bool (case json_get j key of Some v \<Rightarrow> \<not> is_null v | None \<Rightarrow> False) # st)"
    and "stack_exec E P m0 (ins JsonGetKeyBytes (bytes_of key) # code) (V_Json j # st) =
      and_then (str_member j key) (\<lambda>s. stack_exec E P m0 code (V_Bytes (bytes_of s) # st))"
  using assms
  by (simp_all add: exec_op_def op_defs pop_defs push_def payload_str_def str_member_def get_str_def Let_def)
    (cases "Option.bind (json_get j key) as_str"; simp)

lemma stack_load [stack_step]:
  "stack_exec E P m0 (load_ins @ code) st =
     and_then (load_result E P m0) (\<lambda>j. stack_exec E P m0 code (V_Json j # st))"
proof (cases "inputs m0")
  case (Cons c rest)
  then show ?thesis
    by (cases "cas_get P (cas m0) c"; cases "json_from_slice E (the (cas_get P (cas m0) c))")
      (simp_all add: load_ins_def load_result_def exec_op_def op_defs pop_defs push_def from_be_u16)
qed (simp add: load_ins_def load_result_def exec_op_def op_defs from_be_u16)

lemma stack_timestamp [stack_step]:
  "steady_clock E now \<Longrightarrow>
   stack_exec E P m0 (ins PushTimestamp [] # code) st = stack_exec E P m0 code (V_I64 now # st)"
  by (simp add: exec_op_def op_defs push_def steady_clock_def)

lemma stack_int_member:
  assumes "is_str fld"
    and "\<And>n. stack_exec E P m0 code (V_I64 n # st) = k n"
    and "\<And>q. stack_exec E P m0 code (V_Num q # st) = Inl (TypeMismatch opc)"
  shows "stack_exec E P m0 (ins JsonGetKey (bytes_of fld) # code) (V_Json j # st) = and_then (int_member E opc j fld) k"
proof (cases "json_get j fld")
  case (Some x)
  with assms show ?thesis
    by (simp add: exec_op_def op_defs pop_defs push_def payload_str_def int_member_def split: option.split)
qed (use assms in \<open>simp add: exec_op_def op_defs pop_defs push_def payload_str_def int_member_def\<close>)

section \<open>Folding Booleans\<close>

lemma stack_exec_concat:
  assumes "\<And>x st. x \<in> set xs \<Longrightarrow> stack_exec E P m0 (code x) st = map_ok (\<lambda>b. f b # st) (ev x)"
  shows "stack_exec E P m0 (concat (map code xs)) st = map_ok (\<lambda>bs. rev (map f bs) @ st) (collect_results ev xs)"
  using assms
proof (induction xs arbitrary: st)
  case (Cons x xs)
  show ?case
    using Cons.prems [of x st] Cons.IH [OF Cons.prems]
    by (cases "ev x"; cases "collect_results ev xs") simp_all
qed simp

lemma stack_fold_and:
  "length cs = n \<Longrightarrow>
   stack_exec E P m0 (replicate n (ins BoolAnd [])) (V_Bool b # map V_Bool cs @ st) = Inr (V_Bool (b \<and> list_all id cs) # st)"
proof (induction n arbitrary: b cs)
  case (Suc n)
  then obtain c cs' where "cs = c # cs'" "length cs' = n"
    by (auto simp: length_Suc_conv)
  with Suc.IH [of cs' "c \<and> b"] show ?case
    by (simp add: stack_step conj_ac del: stack_exec.simps(2))
qed simp

lemma stack_fold_or:
  "length cs = n \<Longrightarrow>
   stack_exec E P m0 (replicate n (ins BoolOr [])) (V_Bool b # map V_Bool cs @ st) = Inr (V_Bool (b \<or> list_ex id cs) # st)"
proof (induction n arbitrary: b cs)
  case (Suc n)
  then obtain c cs' where "cs = c # cs'" "length cs' = n"
    by (auto simp: length_Suc_conv)
  with Suc.IH [of cs' "c \<or> b"] show ?case
    by (simp add: stack_step disj_ac del: stack_exec.simps(2))
qed simp

lemma collect_results_length: "collect_results f xs = Inr ys \<Longrightarrow> length ys = length xs"
  by (induction xs arbitrary: ys) (auto simp: result_simps)

text \<open>The Booleans of a non-empty list, last on top, folded to one.\<close>

lemma stack_fold_bools:
  assumes "bs \<noteq> []"
  shows "stack_exec E P m0 (replicate (length bs - 1) (ins BoolAnd [])) (rev (map V_Bool bs) @ st) = Inr (V_Bool (list_all id bs) # st)"
    and "stack_exec E P m0 (replicate (length bs - 1) (ins BoolOr [])) (rev (map V_Bool bs) @ st) = Inr (V_Bool (list_ex id bs) # st)"
proof -
  obtain cs b where "rev bs = b # cs"
    using assms by (cases "rev bs") auto
  then have "bs = rev cs @ [b]"
    by (metis rev.simps(2) rev_rev_ident)
  then show "stack_exec E P m0 (replicate (length bs - 1) (ins BoolAnd [])) (rev (map V_Bool bs) @ st) = Inr (V_Bool (list_all id bs) # st)"
    "stack_exec E P m0 (replicate (length bs - 1) (ins BoolOr [])) (rev (map V_Bool bs) @ st) = Inr (V_Bool (list_ex id bs) # st)"
    by (auto simp: rev_map stack_fold_and stack_fold_or list_all_iff list_ex_iff)
qed

lemma stack_concat_and:
  assumes "xs \<noteq> []" "\<And>x st. x \<in> set xs \<Longrightarrow> stack_exec E P m0 (code x) st = map_ok (\<lambda>b. V_Bool b # st) (ev x)"
  shows "stack_exec E P m0 (concat (map code xs) @ replicate (length xs - 1) (ins BoolAnd [])) st
      = map_ok (\<lambda>b. V_Bool b # st) (map_ok (list_all id) (collect_results ev xs))"
    and "stack_exec E P m0 (concat (map code xs) @ replicate (length xs - 1) (ins BoolOr [])) st
      = map_ok (\<lambda>b. V_Bool b # st) (map_ok (list_ex id) (collect_results ev xs))"
proof -
  note concat_code = stack_exec_concat [of xs E P m0 code V_Bool ev st, OF assms(2)]
  consider e where "collect_results ev xs = Inl e"
    | bs where "collect_results ev xs = Inr bs" "bs \<noteq> []" "length bs = length xs"
    using assms(1) collect_results_length [of ev xs] by (cases "collect_results ev xs") fastforce+
  note cases = this
  show "stack_exec E P m0 (concat (map code xs) @ replicate (length xs - 1) (ins BoolAnd [])) st
      = map_ok (\<lambda>b. V_Bool b # st) (map_ok (list_all id) (collect_results ev xs))"
    by (rule cases) (use stack_fold_bools(1) in \<open>fastforce simp: concat_code\<close>)+
  show "stack_exec E P m0 (concat (map code xs) @ replicate (length xs - 1) (ins BoolOr [])) st
      = map_ok (\<lambda>b. V_Bool b # st) (map_ok (list_ex id) (collect_results ev xs))"
    by (rule cases) (use stack_fold_bools(2) in \<open>fastforce simp: concat_code\<close>)+
qed

section \<open>Conditions are compiled correctly\<close>

lemma is_str_type [simp]: "is_str ''@type''"
  by (simp add: is_str_def bytes_of_def)

lemma stack_bool_code:
  assumes "steady_clock E now" "cond_ok T c"
  shows "stack_exec E P m0 (bool_code T c) st
    = map_ok (\<lambda>b. V_Bool b # st) (cond_eval (machine_ctx E T P m0 now) c)"
  using assms(2)
proof (induction c arbitrary: st)
  case (C_And cs)
  show ?case
  proof (cases "cs = []")
    case False
    from stack_concat_and(1) [OF this, of E P m0 "bool_code T" "cond_eval (machine_ctx E T P m0 now)" st]
      C_And show ?thesis
      using False by (simp add: list_all_iff)
  qed (simp add: stack_step del: stack_exec.simps(2))
next
  case (C_Or cs)
  show ?case
  proof (cases "cs = []")
    case False
    from stack_concat_and(2) [OF this, of E P m0 "bool_code T" "cond_eval (machine_ctx E T P m0 now)" st]
      C_Or show ?thesis
      using False by (simp add: list_all_iff)
  qed (simp add: stack_step del: stack_exec.simps(2))
next
  case (C_Not c)
  then show ?case
    by (cases "cond_eval (machine_ctx E T P m0 now) c")
      (simp_all add: stack_step del: stack_exec.simps(2))
next
  case (C_ContextHas key)
  then show ?case
    by (cases "load_result E P m0") (simp_all add: stack_step del: stack_exec.simps(2) stack_exec_append)
next
  case (C_ContextEquals key v)
  then have "stack_exec E P m0 [ins JsonGetKeyBytes (bytes_of key), ins ConstBytes (expected_bytes T v), ins EqBytes []]
      (V_Json j # st) = map_ok (\<lambda>b. V_Bool b # st) (map_ok (\<lambda>s. bytes_of s = expected_bytes T v) (str_member j key))" for j
    by (cases "str_member j key") (simp_all add: stack_step del: stack_exec.simps(2))
  then show ?case
    by (cases "load_result E P m0") (simp_all add: stack_load del: stack_exec.simps(2) stack_exec_append)
next
  case (C_TypeEquals ct)
  have "stack_exec E P m0 [ins JsonGetKeyBytes (bytes_of ''@type''), ins ConstBytes (bytes_of ct), ins EqBytes []]
      (V_Json j # st) = map_ok (\<lambda>b. V_Bool b # st) (map_ok (\<lambda>s. s = ct) (str_member j ''@type''))" for j
    by (cases "str_member j ''@type''") (simp_all add: stack_step del: stack_exec.simps(2))
  then show ?case
    by (cases "load_result E P m0") (simp_all add: stack_load del: stack_exec.simps(2) stack_exec_append)
next
  case (C_AmountLte fld amount)
  have "stack_exec E P m0 [ins JsonGetKey (bytes_of fld), ins ConstI64 (be_bytes 8 amount), ins CmpI64 [3]] (V_Json j # st)
      = and_then (int_member E CmpI64 j fld) (\<lambda>n. Inr (V_Bool (sint n \<le> sint amount) # st))" for j
    using C_AmountLte by (intro stack_int_member) (simp_all add: stack_step del: stack_exec.simps(2))
  then show ?case
    by (cases "load_result E P m0") (simp_all add: stack_load del: stack_exec.simps(2) stack_exec_append)
next
  case (C_TimestampWithinSecs fld w)
  have "stack_exec E P m0 [ins JsonGetKey (bytes_of fld), ins SubI64 [], ins ConstI64 (be_bytes 8 w), ins CmpI64 [3]]
      (V_Json j # V_I64 now # st) = and_then (int_member E SubI64 j fld)
        (\<lambda>n. Inr (V_Bool (sint (saturating_sub_i64 now n) \<le> sint w) # st))" for j
    using C_TimestampWithinSecs by (intro stack_int_member) (simp_all add: stack_step del: stack_exec.simps(2))
  then show ?case
    using assms(1) by (cases "load_result E P m0") (simp_all add: stack_load stack_timestamp del: stack_exec.simps(2) stack_exec_append)
qed (simp_all add: stack_step del: stack_exec.simps(2))

section \<open>The meaning of circuits\<close>

text \<open>A node counts as one Boolean; an inlined sub-chip is the conjunction of all its nodes.\<close>

function node_eval :: "gate_ctx \<Rightarrow> resolved_node \<Rightarrow> exec_error + bool" where
  "node_eval G (RN_Bit b) = cond_eval G (bit_condition (rbit_body b))"
| "node_eval G (RN_SubChip circuits) =
     map_ok (list_all id) (collect_results (node_eval G) (concat (map rcirc_nodes circuits)))"
  by pat_completeness auto
termination
  by (relation "measure (size \<circ> snd)") (auto intro: size_sub_node simp del: resolved_node.size)

definition assert_holds :: "bool \<Rightarrow> exec_error + unit" where
  "assert_holds b = (if b then Inr () else Inl (Deny ''assert_false''))"

definition trues :: "bool list \<Rightarrow> nat" where
  "trues bs = length (filter id bs)"

text \<open>The threshold an aggregator sets on the Booleans of its nodes.\<close>

fun agg_holds :: "aggregation_mode \<Rightarrow> bool list \<Rightarrow> bool" where
  "agg_holds AllMode bs \<longleftrightarrow> list_all id bs"
| "agg_holds FirstDecisive bs \<longleftrightarrow> list_all id bs"
| "agg_holds AnyMode bs \<longleftrightarrow> list_ex id bs"
| "agg_holds Majority bs \<longleftrightarrow> length bs < 2 * trues bs"
| "agg_holds (KofN k n) bs \<longleftrightarrow> k \<le> trues bs"

text \<open>Sequential circuits under \<open>All\<close>: each bit whose \<open>on_false\<close> denies is asserted in turn.\<close>

fun seq_eval :: "gate_ctx \<Rightarrow> resolved_bit list \<Rightarrow> exec_error + unit" where
  "seq_eval G [] = Inr ()"
| "seq_eval G (b # bits) =
     and_then (cond_eval G (bit_condition (rbit_body b))) (\<lambda>v.
     and_then (assert_holds (v \<or> bit_on_false (rbit_body b) \<noteq> DenyDecision)) (\<lambda>_. seq_eval G bits))"

fun all_like :: "aggregation_mode \<Rightarrow> bool" where
  "all_like AllMode \<longleftrightarrow> True"
| "all_like FirstDecisive \<longleftrightarrow> True"
| "all_like _ \<longleftrightarrow> False"

fun counting :: "aggregation_mode \<Rightarrow> bool" where
  "counting Majority \<longleftrightarrow> True"
| "counting (KofN k n) \<longleftrightarrow> True"
| "counting _ \<longleftrightarrow> False"

text \<open>
  Circuits with a sub-chip are folded whatever their composition, and the counting aggregators
  convert a second Boolean that is no longer on top of the stack.
\<close>

definition circuit_eval :: "gate_ctx \<Rightarrow> composition_mode \<Rightarrow> aggregation_mode \<Rightarrow> resolved_node list \<Rightarrow> exec_error + unit" where
  "circuit_eval G comp_mode agg nodes =
     (if list_all is_bit nodes then
        (if all_like agg \<and> comp_mode \<noteq> Parallel then seq_eval G (List.map_filter node_bit nodes)
         else and_then (collect_results (node_eval G) nodes) (\<lambda>bs. assert_holds (agg_holds agg bs)))
      else and_then (collect_results (node_eval G) nodes) (\<lambda>bs.
        if counting agg \<and> 2 \<le> length bs then Inl (TypeMismatch BoolToI64)
        else assert_holds (agg_holds agg bs)))"

definition chip_eval :: "gate_ctx \<Rightarrow> resolved_circuit list \<Rightarrow> exec_error + unit" where
  "chip_eval G circuits =
     map_ok (\<lambda>_. ()) (collect_results (\<lambda>c.
       case (get_composition_mode (gc_text G) (rcirc_body c), get_aggregation_mode (gc_text G) (rcirc_body c)) of
         (Inr comp_mode, Inr agg) \<Rightarrow> circuit_eval G comp_mode agg (rcirc_nodes c)
       | _ \<Rightarrow> Inr ()) circuits)"

section \<open>Circuits are compiled correctly\<close>

function node_ok :: "silicon_text \<Rightarrow> resolved_node \<Rightarrow> bool" where
  "node_ok T (RN_Bit b) \<longleftrightarrow> cond_ok T (bit_condition (rbit_body b))"
| "node_ok T (RN_SubChip circuits) \<longleftrightarrow> list_all (node_ok T) (concat (map rcirc_nodes circuits))"
  by pat_completeness auto
termination
  by (relation "measure (size \<circ> snd)") (auto intro: size_sub_node simp del: resolved_node.size)

lemma stack_node_ins:
  assumes "steady_clock E now"
  shows "node_ok T n \<Longrightarrow> stack_exec E P m0 (node_ins T n) st
    = map_ok (\<lambda>b. V_Bool b # st) (node_eval (machine_ctx E T P m0 now) n)"
proof (induction T n arbitrary: st rule: emit_node_as_bool.induct)
  case (1 T b)
  with stack_bool_code [OF assms] show ?case
    by simp
next
  case (2 T circuits)
  let ?nodes = "concat (map rcirc_nodes circuits)"
  show ?case
  proof (cases "?nodes = []")
    case True
    then show ?thesis
      by (simp add: node_ins.simps stack_step del: stack_exec.simps(2) concat_eq_Nil_conv)
  next
    case False
    have "stack_exec E P m0 (node_ins T n) st = map_ok (\<lambda>b. V_Bool b # st) (node_eval (machine_ctx E T P m0 now) n)"
      if "n \<in> set ?nodes" for n st
      using "2.IH" [OF that, of st] "2.prems" that by (auto simp: list_all_iff)
    from stack_concat_and(1) [OF False this] show ?thesis
      using False by (simp add: node_ins.simps Let_def del: concat_eq_Nil_conv)
  qed
qed

abbreviation b2i :: "bool \<Rightarrow> vm_value" where
  "b2i b \<equiv> V_I64 (if b then 1 else 0)"

lemma sint_of_nat_i64: "k < 2 ^ 63 \<Longrightarrow> sint (of_nat k :: i64) = int k"
  by (simp add: signed_of_nat signed_take_bit_int_eq_self take_bit_int_eq_self)

lemma saturating_add_small:
  "Suc k < 2 ^ 63 \<Longrightarrow> saturating_add_i64 (if c then 1 else 0) (of_nat k) = of_nat (if c then Suc k else k)"
  by (simp add: saturating_add_i64_def clamp_i64_def sint_of_nat_i64)

lemma stack_fold_add:
  "length cs = n \<Longrightarrow> k + n < 2 ^ 63 \<Longrightarrow>
   stack_exec E P m0 (replicate n (ins AddI64 [])) (V_I64 (of_nat k) # map b2i cs @ st)
     = Inr (V_I64 (of_nat (k + trues cs)) # st)"
proof (induction n arbitrary: k cs)
  case (Suc n)
  then obtain c cs' where "cs = c # cs'" "length cs' = n"
    by (auto simp: length_Suc_conv)
  with Suc.IH [of cs' "if c then Suc k else k"] Suc.prems saturating_add_small [of k c] show ?case
    by (simp add: stack_step trues_def del: stack_exec.simps(2) of_nat_Suc of_nat_add)
qed (simp add: trues_def)

definition at_least_ins :: "i64 \<Rightarrow> instr list" where
  "at_least_ins t = [ins ConstI64 (be_bytes 8 t), ins CmpI64 [5], ins AssertTrue []]"

definition count_ins :: "nat \<Rightarrow> instr list" where
  "count_ins n = concat (map (\<lambda>i. ins BoolToI64 [] # (if i > 0 then [ins AddI64 []] else [])) [0..<n])"

definition assert_ins :: "silicon_text \<Rightarrow> resolved_bit \<Rightarrow> instr list" where
  "assert_ins T b = bool_code T (bit_condition (rbit_body b))
     @ [if bit_on_false (rbit_body b) = DenyDecision then ins AssertTrue [] else ins Drop []]"

fun threshold :: "aggregation_mode \<Rightarrow> nat \<Rightarrow> nat" where
  "threshold (KofN k _) n = k"
| "threshold _ n = n div 2 + 1"

definition bool_op :: "aggregation_mode \<Rightarrow> opcode" where
  "bool_op agg = (if all_like agg then BoolAnd else BoolOr)"

text \<open>The instructions of a circuit of bits, and of one with sub-chips.\<close>

definition bits_ins :: "silicon_text \<Rightarrow> composition_mode \<Rightarrow> aggregation_mode \<Rightarrow> resolved_bit list \<Rightarrow> instr list" where
  "bits_ins T comp_mode agg bits =
     (let code = (\<lambda>b. bool_code T (bit_condition (rbit_body b))); n = length bits in
      if all_like agg \<and> comp_mode \<noteq> Parallel then concat (map (assert_ins T) bits)
      else if counting agg then concat (map (\<lambda>b. code b @ [ins BoolToI64 []]) bits)
        @ replicate (n - 1) (ins AddI64 []) @ at_least_ins (of_nat (threshold agg n))
      else concat (map code bits) @ replicate (n - 1) (ins (bool_op agg) []) @ [ins AssertTrue []])"

definition mixed_ins :: "silicon_text \<Rightarrow> aggregation_mode \<Rightarrow> resolved_node list \<Rightarrow> instr list" where
  "mixed_ins T agg nodes =
     concat (map (node_ins T) nodes) @
     (if counting agg then count_ins (length nodes) @ at_least_ins (of_nat (threshold agg (length nodes)))
      else replicate (length nodes - 1) (ins (bool_op agg) []) @ [ins AssertTrue []])"

definition circuit_ins :: "silicon_text \<Rightarrow> composition_mode \<Rightarrow> aggregation_mode \<Rightarrow> resolved_node list \<Rightarrow> instr list" where
  "circuit_ins T comp_mode agg nodes =
     (if list_all is_bit nodes then bits_ins T comp_mode agg (List.map_filter node_bit nodes)
      else mixed_ins T agg nodes)"

lemma at_least_assemble: "at_least t = assemble (at_least_ins t)"
  by (simp add: at_least_def at_least_ins_def encode_instr_def)

lemma count_assemble: "count_code n = assemble (count_ins n)"
  unfolding count_code_def count_ins_def by (subst concat_assemble [symmetric]) (simp add: encode_instr_def if_distrib cong: if_cong)

lemma bits_to_bool_ins:
  "bits_to_bool T bits (assemble suffix)
    = Inr (assemble (concat (map (\<lambda>b. bool_code T (bit_condition (rbit_body b)) @ suffix) bits)))"
  unfolding bits_to_bool_def by (subst concat_assemble [symmetric]) (simp add: compile_to_bool_code collect_results_Inr_map)

lemma assert_bits_ins: "assert_bits T bits = Inr (assemble (concat (map (assert_ins T) bits)))"
proof -
  have "compile_condition T (bit_condition (rbit_body b)) (bit_on_false (rbit_body b)) = Inr (assemble (assert_ins T b))" for b
    by (simp add: compile_condition_def compile_to_bool_code assert_ins_def tlv_instr_assemble)
  then show ?thesis
    by (simp add: assert_bits_def collect_results_Inr_map concat_assemble)
qed

lemmas code_assemble = at_least_assemble count_assemble repeat_instr_assemble tlv_instr_assemble

lemma aggregate_code_ins: "aggregate_code T comp_mode agg bits = Inr (assemble (bits_ins T comp_mode agg bits))"
proof -
  note [simp] = bits_to_bool_ins [of T bits "[]", simplified] bits_to_bool_ins [of T bits "[ins BoolToI64 []]"]
    assert_bits_ins bits_ins_def aggregate_code_def Let_def bool_op_def
  show ?thesis
    by (cases agg; cases comp_mode) (simp_all add: code_assemble add.commute del: assemble_simps(2))
qed

lemma collect_bits_mixed:
  assumes "\<not> list_all is_bit nodes"
  shows "collect_bits T nodes agg = Inr (assemble (mixed_ins T agg nodes), None)"
proof -
  have "nodes \<noteq> []"
    using assms by auto
  moreover have "fold_code agg n = assemble (if counting agg then count_ins n @ at_least_ins (of_nat (threshold agg n))
      else replicate (n - 1) (ins (bool_op agg) []) @ [ins AssertTrue []])" for n
    by (cases agg) (simp_all add: fold_code_def code_assemble bool_op_def add.commute)
  ultimately show ?thesis
    using assms
    by (simp add: collect_bits_def node_code_ins collect_results_Inr_map mixed_ins_def concat_assemble)
qed

lemma map_filter_node_bit: "list_all is_bit nodes \<Longrightarrow> map RN_Bit (List.map_filter node_bit nodes) = nodes"
proof (induction nodes)
  case (Cons n nodes)
  then show ?case
    by (cases n) (simp_all add: List.map_filter_def)
qed (simp add: List.map_filter_def)

lemma compile_circuit_ins:
  "compile_circuit T c = Inr code \<longleftrightarrow> rcirc_nodes c \<noteq> [] \<and> (\<exists>comp_mode agg.
     get_composition_mode T (rcirc_body c) = Inr comp_mode \<and> get_aggregation_mode T (rcirc_body c) = Inr agg
     \<and> code = assemble (circuit_ins T comp_mode agg (rcirc_nodes c)))"
proof (cases "list_all is_bit (rcirc_nodes c)")
  case True
  have "List.map_filter node_bit (rcirc_nodes c) = [] \<longleftrightarrow> rcirc_nodes c = []"
    using map_filter_node_bit [OF True] by (metis list.simps(8) map_is_Nil_conv)
  with True show ?thesis
    by (auto simp: compile_circuit_def result_simps collect_bits_def aggregate_code_ins circuit_ins_def)
next
  case False
  then have "rcirc_nodes c \<noteq> []"
    by auto
  with False show ?thesis
    by (auto simp: compile_circuit_def result_simps collect_bits_mixed circuit_ins_def)
qed

text \<open>The bound of a counting aggregator fits the signed comparison.\<close>

fun agg_ok :: "aggregation_mode \<Rightarrow> bool" where
  "agg_ok (KofN k n) \<longleftrightarrow> k < 2 ^ 63"
| "agg_ok _ \<longleftrightarrow> True"

lemma trues_le: "trues bs \<le> length bs"
  by (simp add: trues_def)

lemma trues_simps [simp]: "trues [] = 0" "trues (b # bs) = (if b then Suc (trues bs) else trues bs)"
  "trues (rev bs) = trues bs" "trues (bs @ cs) = trues bs + trues cs"
  by (simp_all add: trues_def rev_filter [symmetric])

lemma stack_assert: "stack_exec E P m0 [ins AssertTrue []] (V_Bool b # st) = map_ok (\<lambda>_. st) (assert_holds b)"
  by (simp add: stack_step assert_holds_def del: stack_exec.simps(2))

lemma stack_at_least:
  assumes "a < 2 ^ 63" "t < 2 ^ 63"
  shows "stack_exec E P m0 (at_least_ins (of_nat t)) (V_I64 (of_nat a) # st) = map_ok (\<lambda>_. st) (assert_holds (t \<le> a))"
  using assms by (simp add: at_least_ins_def stack_step sint_of_nat_i64 assert_holds_def del: stack_exec.simps(2))

lemma agg_holds_counting:
  assumes "counting agg" "agg_ok agg" "length bs < 2 ^ 63"
  shows "threshold agg (length bs) < 2 ^ 63" "threshold agg (length bs) \<le> trues bs \<longleftrightarrow> agg_holds agg bs"
  using assms by (cases agg; auto)+

lemma stack_count_bools:
  assumes "bs \<noteq> []" "length bs < 2 ^ 63" "counting agg" "agg_ok agg"
  shows "stack_exec E P m0 (replicate (length bs - 1) (ins AddI64 []) @ at_least_ins (of_nat (threshold agg (length bs))))
      (rev (map b2i bs) @ st) = map_ok (\<lambda>_. st) (assert_holds (agg_holds agg bs))"
proof -
  obtain cs b where "rev bs = b # cs"
    using assms(1) by (cases "rev bs") auto
  then have bs: "bs = rev cs @ [b]"
    by (metis rev.simps(2) rev_rev_ident)
  have "stack_exec E P m0 (replicate (length cs) (ins AddI64 [])) (V_I64 (of_nat (if b then 1 else 0)) # map b2i cs @ st)
      = Inr (V_I64 (of_nat ((if b then 1 else 0) + trues cs)) # st)"
    by (rule stack_fold_add) (use assms(2) bs in auto)
  then have add: "stack_exec E P m0 (replicate (length bs - 1) (ins AddI64 [])) (rev (map b2i bs) @ st)
      = Inr (V_I64 (of_nat (trues bs)) # st)"
    by (simp add: bs rev_map add.commute del: of_nat_add) (cases b; simp)
  have "trues bs < 2 ^ 63"
    using assms(2) trues_le [of bs] by linarith
  with add show ?thesis
    using agg_holds_counting [OF assms(3,4,2)] by (simp add: stack_at_least)
qed

lemma stack_fold_agg:
  assumes "bs \<noteq> []" "\<not> counting agg"
  shows "stack_exec E P m0 (replicate (length bs - 1) (ins (bool_op agg) []) @ [ins AssertTrue []]) (rev (map V_Bool bs) @ st)
    = map_ok (\<lambda>_. st) (assert_holds (agg_holds agg bs))"
  using assms(2) stack_fold_bools [OF assms(1), of E P m0 st]
  by (cases agg) (simp_all add: bool_op_def stack_assert del: stack_exec.simps(2))

text \<open>Counting after all nodes: the second conversion meets an integer.\<close>

lemma stack_count_ins:
  assumes "bs \<noteq> []"
  shows "stack_exec E P m0 (count_ins (length bs)) (rev (map V_Bool bs) @ st)
    = (if 2 \<le> length bs then Inl (TypeMismatch BoolToI64) else Inr (rev (map b2i bs) @ st))"
proof -
  obtain b cs where bcs: "rev bs = b # cs"
    using assms by (cases "rev bs") auto
  then have len: "length bs = Suc (length cs)"
    by (metis length_Cons length_rev)
  show ?thesis
  proof (cases cs)
    case Nil
    with bcs show ?thesis
      by (simp add: rev_map len count_ins_def stack_step del: stack_exec.simps(2))
  next
    case (Cons c cs')
    have "[0..<length bs] = 0 # 1 # [2..<length bs]"
      using len Cons by (simp add: upt_conv_Cons numeral_2_eq_2 del: upt_Suc)
    then have "\<exists>code. count_ins (length bs) = ins BoolToI64 [] # ins BoolToI64 [] # code"
      by (simp add: count_ins_def)
    then obtain code where code: "count_ins (length bs) = ins BoolToI64 [] # ins BoolToI64 [] # code" ..
    have "stack_exec E P m0 (ins BoolToI64 [] # code) (V_I64 i # st') = Inl (TypeMismatch BoolToI64)" for i st'
      by (simp add: exec_op_def op_defs pop_defs)
    then show ?thesis
      unfolding code using len Cons by (simp add: rev_map bcs stack_step del: stack_exec.simps(2))
  qed
qed

lemma stack_seq_bits:
  assumes "steady_clock E now" "list_all (\<lambda>b. cond_ok T (bit_condition (rbit_body b))) bits"
  shows "stack_exec E P m0 (concat (map (assert_ins T) bits)) st
    = map_ok (\<lambda>_. st) (seq_eval (machine_ctx E T P m0 now) bits)"
  using assms(2)
proof (induction bits)
  case (Cons b bits)
  have "stack_exec E P m0 (assert_ins T b) st =
      map_ok (\<lambda>_. st) (and_then (cond_eval (machine_ctx E T P m0 now) (bit_condition (rbit_body b)))
        (\<lambda>v. assert_holds (v \<or> bit_on_false (rbit_body b) \<noteq> DenyDecision)))"
    using stack_bool_code [OF assms(1), of T "bit_condition (rbit_body b)" P m0 st] Cons.prems
    by (cases "cond_eval (machine_ctx E T P m0 now) (bit_condition (rbit_body b))")
      (simp_all add: assert_ins_def stack_step assert_holds_def del: stack_exec.simps(2))
  with Cons show ?case
    by (cases "cond_eval (machine_ctx E T P m0 now) (bit_condition (rbit_body b))")
      (simp_all add: assert_holds_def)
qed simp

lemma stack_nodes:
  assumes "steady_clock E now" "list_all (node_ok T) nodes"
  shows "stack_exec E P m0 (concat (map (node_ins T) nodes)) st
    = map_ok (\<lambda>bs. rev (map V_Bool bs) @ st) (collect_results (node_eval (machine_ctx E T P m0 now)) nodes)"
  using assms by (intro stack_exec_concat stack_node_ins) (auto simp: list_all_iff)

lemma stack_counted_nodes:
  assumes "steady_clock E now" "list_all (node_ok T) nodes"
  shows "stack_exec E P m0 (concat (map (\<lambda>n. node_ins T n @ [ins BoolToI64 []]) nodes)) st
    = map_ok (\<lambda>bs. rev (map b2i bs) @ st) (collect_results (node_eval (machine_ctx E T P m0 now)) nodes)"
proof (rule stack_exec_concat)
  fix n st assume "n \<in> set nodes"
  then have "stack_exec E P m0 (node_ins T n) st
      = map_ok (\<lambda>b. V_Bool b # st) (node_eval (machine_ctx E T P m0 now) n)"
    using assms by (intro stack_node_ins) (auto simp: list_all_iff)
  then show "stack_exec E P m0 (node_ins T n @ [ins BoolToI64 []]) st
      = map_ok (\<lambda>b. b2i b # st) (node_eval (machine_ctx E T P m0 now) n)"
    by (cases "node_eval (machine_ctx E T P m0 now) n") (simp_all add: stack_step del: stack_exec.simps(2))
qed

lemma stack_agg_nodes:
  fixes P :: "'c providers" and m0 :: "'c vm"
  assumes "steady_clock E now" "list_all (node_ok T) nodes" "nodes \<noteq> []"
  defines "ev \<equiv> node_eval (machine_ctx E T P m0 now)" and "n \<equiv> length nodes"
  shows "\<not> counting agg \<Longrightarrow> stack_exec E P m0 (concat (map (node_ins T) nodes)
      @ replicate (n - 1) (ins (bool_op agg) []) @ [ins AssertTrue []]) st
      = map_ok (\<lambda>_. st) (and_then (collect_results ev nodes) (\<lambda>bs. assert_holds (agg_holds agg bs)))"
    and "counting agg \<Longrightarrow> agg_ok agg \<Longrightarrow> n < 2 ^ 63 \<Longrightarrow>
      stack_exec E P m0 (concat (map (\<lambda>n. node_ins T n @ [ins BoolToI64 []]) nodes)
      @ replicate (n - 1) (ins AddI64 []) @ at_least_ins (of_nat (threshold agg n))) st
      = map_ok (\<lambda>_. st) (and_then (collect_results ev nodes) (\<lambda>bs. assert_holds (agg_holds agg bs)))"
    and "counting agg \<Longrightarrow> agg_ok agg \<Longrightarrow> n < 2 ^ 63 \<Longrightarrow>
      stack_exec E P m0 (concat (map (node_ins T) nodes) @ count_ins n @ at_least_ins (of_nat (threshold agg n))) st
      = map_ok (\<lambda>_. st) (and_then (collect_results ev nodes) (\<lambda>bs.
        if 2 \<le> length bs then Inl (TypeMismatch BoolToI64) else assert_holds (agg_holds agg bs)))"
proof -
  note nodes = stack_nodes [OF assms(1,2), of P m0 st, folded ev_def]
    stack_counted_nodes [OF assms(1,2), of P m0 st, folded ev_def]
  consider e where "collect_results ev nodes = Inl e"
    | bs where "collect_results ev nodes = Inr bs" "bs \<noteq> []" "length bs = n"
    using assms(3) collect_results_length [of ev nodes] unfolding n_def by (cases "collect_results ev nodes") fastforce+
  note results = this
  show "stack_exec E P m0 (concat (map (node_ins T) nodes)
      @ replicate (n - 1) (ins (bool_op agg) []) @ [ins AssertTrue []]) st
      = map_ok (\<lambda>_. st) (and_then (collect_results ev nodes) (\<lambda>bs. assert_holds (agg_holds agg bs)))"
    if "\<not> counting agg"
  proof (rule results)
    fix bs assume bs: "collect_results ev nodes = Inr bs" "bs \<noteq> []" "length bs = n"
    show ?thesis
      using stack_fold_agg [OF bs(2) that, of E P m0 st]
      unfolding stack_exec_append [of _ _ _ "concat (map (node_ins T) nodes)"] nodes(1) bs(1) bs(3)
      by (simp del: stack_exec_append)
  qed (simp add: nodes)
  show "stack_exec E P m0 (concat (map (\<lambda>n. node_ins T n @ [ins BoolToI64 []]) nodes)
      @ replicate (n - 1) (ins AddI64 []) @ at_least_ins (of_nat (threshold agg n))) st
      = map_ok (\<lambda>_. st) (and_then (collect_results ev nodes) (\<lambda>bs. assert_holds (agg_holds agg bs)))"
    if "counting agg" "agg_ok agg" "n < 2 ^ 63"
  proof (rule results)
    fix bs assume bs: "collect_results ev nodes = Inr bs" "bs \<noteq> []" "length bs = n"
    show ?thesis
      using stack_count_bools [OF bs(2) _ that(1,2), of E P m0 st] that(3)
      unfolding stack_exec_append [of _ _ _ "concat (map (\<lambda>n. node_ins T n @ [ins BoolToI64 []]) nodes)"]
        nodes(2) bs(1) bs(3)
      by (simp del: stack_exec_append)
  qed (simp add: nodes)
  show "stack_exec E P m0 (concat (map (node_ins T) nodes) @ count_ins n @ at_least_ins (of_nat (threshold agg n))) st
      = map_ok (\<lambda>_. st) (and_then (collect_results ev nodes) (\<lambda>bs.
        if 2 \<le> length bs then Inl (TypeMismatch BoolToI64) else assert_holds (agg_holds agg bs)))"
    if "counting agg" "agg_ok agg" "n < 2 ^ 63"
  proof (rule results)
    fix bs assume bs: "collect_results ev nodes = Inr bs" "bs \<noteq> []" "length bs = n"
    have "stack_exec E P m0 (at_least_ins (of_nat (threshold agg n))) (rev (map b2i bs) @ st)
        = map_ok (\<lambda>_. st) (assert_holds (agg_holds agg bs))" if "\<not> 2 \<le> n"
      using stack_count_bools [OF bs(2) _ \<open>counting agg\<close> \<open>agg_ok agg\<close>, of E P m0 st] that bs(2,3) by simp
    then show ?thesis
      using stack_count_ins [OF bs(2), of E P m0 st] by (simp add: nodes(1) bs(1,3))
  qed (simp add: nodes)
qed

lemma stack_circuit_ins:
  assumes "steady_clock E now" "list_all (node_ok T) nodes" "nodes \<noteq> []" "length nodes < 2 ^ 63" "agg_ok agg"
  shows "stack_exec E P m0 (circuit_ins T comp_mode agg nodes) st
    = map_ok (\<lambda>_. st) (circuit_eval (machine_ctx E T P m0 now) comp_mode agg nodes)"
proof (cases "list_all is_bit nodes")
  case True
  define bits where "bits = List.map_filter node_bit nodes"
  have bits: "nodes = map RN_Bit bits"
    using map_filter_node_bit [OF True] by (simp add: bits_def)
  have conds: "list_all (\<lambda>b. cond_ok T (bit_condition (rbit_body b))) bits"
    using assms(2) by (simp add: bits list_all_iff)
  have code: "(\<lambda>b. bool_code T (bit_condition (rbit_body b)) @ suffix) = (\<lambda>n. node_ins T n @ suffix) \<circ> RN_Bit" for suffix
    by auto
  show ?thesis
  proof (cases "all_like agg \<and> comp_mode \<noteq> Parallel")
    case seq: True
    then show ?thesis
      using stack_seq_bits [OF assms(1) conds] True
      by (simp add: circuit_ins_def circuit_eval_def bits_ins_def bits_def)
  next
    case par: False
    have "bits_ins T comp_mode agg bits = (if counting agg
        then concat (map (\<lambda>n. node_ins T n @ [ins BoolToI64 []]) nodes)
          @ replicate (length nodes - 1) (ins AddI64 []) @ at_least_ins (of_nat (threshold agg (length nodes)))
        else concat (map (node_ins T) nodes) @ replicate (length nodes - 1) (ins (bool_op agg) []) @ [ins AssertTrue []])"
      using code [of "[]"] code [of "[ins BoolToI64 []]"] unfolding bits_ins_def Let_def if_not_P [OF par]
      by (simp add: bits)
    then show ?thesis
      using stack_agg_nodes [OF assms(1-3), where P = P and ?m0.0 = m0 and st = st and agg = agg] assms(4,5)
      unfolding circuit_ins_def circuit_eval_def if_P [OF True] if_not_P [OF par] bits_def [symmetric]
      by (simp del: stack_exec_append)
  qed
next
  case False
  then show ?thesis
    using stack_agg_nodes [OF assms(1-3), where P = P and ?m0.0 = m0 and st = st and agg = agg] assms(4,5)
    by (cases "counting agg") (simp_all add: circuit_ins_def circuit_eval_def mixed_ins_def del: stack_exec_append)
qed

section \<open>Well-formed code\<close>

definition code_ok :: "instr list \<Rightarrow> bool" where
  "code_ok code \<longleftrightarrow> stack_code code \<and> list_all instr_wf code"

lemma code_ok_simps [simp]:
  "code_ok []" "code_ok (i # code) \<longleftrightarrow> stack_op (ins_op i) \<and> instr_wf i \<and> code_ok code"
  "code_ok (a @ b) \<longleftrightarrow> code_ok a \<and> code_ok b"
  by (auto simp: code_ok_def)

lemma code_ok_concat [simp]: "code_ok (concat codes) \<longleftrightarrow> list_all code_ok codes"
  by (induction codes) simp_all

lemma code_ok_replicate [simp]: "code_ok (replicate n i) \<longleftrightarrow> n = 0 \<or> stack_op (ins_op i) \<and> instr_wf i"
  by (induction n) auto

lemma code_ok_load [simp]: "code_ok load_ins"
  by (simp add: load_ins_def stack_op_def instr_wf_def)

lemma bool_code_ok: "cond_ok T c \<Longrightarrow> code_ok (bool_code T c)"
  by (induction c) (auto simp: stack_op_def instr_wf_def payload_ok_def list_all_iff bytes_of_def)

lemma node_ins_ok: "node_ok T n \<Longrightarrow> code_ok (node_ins T n)"
proof (induction T n rule: emit_node_as_bool.induct)
  case (2 T circuits)
  then have "\<forall>n \<in> set (concat (map rcirc_nodes circuits)). code_ok (node_ins T n)"
    by (auto simp: list_all_iff)
  then show ?case
    by (auto simp: node_ins.simps Let_def list_all_iff stack_op_def instr_wf_def)
qed (simp add: bool_code_ok)

lemma circuit_ins_ok:
  assumes "list_all (node_ok T) nodes"
  shows "code_ok (circuit_ins T comp_mode agg nodes)"
proof -
  have basic: "stack_op BoolAnd" "stack_op BoolOr" "stack_op BoolToI64" "stack_op AddI64" "stack_op AssertTrue"
    "stack_op Drop" "stack_op CmpI64" "stack_op ConstI64" "stack_op (bool_op agg)" for agg
    by (simp_all add: stack_op_def bool_op_def)
  have small: "instr_wf (ins opc [])" "instr_wf (ins opc [u])" "instr_wf (ins opc (be_bytes 8 w))" for opc u and w :: i64
    by (simp_all add: instr_wf_def)
  show ?thesis
  proof (cases "list_all is_bit nodes")
    case True
    define bits where "bits = List.map_filter node_bit nodes"
    have "nodes = map RN_Bit bits"
      using map_filter_node_bit [OF True] by (simp add: bits_def)
    then have "\<forall>b \<in> set bits. code_ok (bool_code T (bit_condition (rbit_body b)))"
      using assms by (auto simp: list_all_iff bool_code_ok)
    then show ?thesis
      using True by (auto simp: circuit_ins_def bits_def [symmetric] bits_ins_def Let_def list_all_iff
          assert_ins_def at_least_ins_def basic small)
  next
    case False
    then show ?thesis
      using assms by (auto simp: circuit_ins_def mixed_ins_def list_all_iff node_ins_ok at_least_ins_def
          count_ins_def basic small)
  qed
qed

section \<open>Chips are compiled correctly\<close>

definition circuit_ok :: "silicon_text \<Rightarrow> resolved_circuit \<Rightarrow> bool" where
  "circuit_ok T c \<longleftrightarrow> list_all (node_ok T) (rcirc_nodes c) \<and> length (rcirc_nodes c) < 2 ^ 63
     \<and> (case get_aggregation_mode T (rcirc_body c) of Inr agg \<Rightarrow> agg_ok agg | Inl _ \<Rightarrow> True)"

lemma compile_circuits_ins:
  assumes "compile_circuits_inner T circuits = Inr code" "list_all (circuit_ok T) circuits" "steady_clock E now"
  shows "\<exists>is. code = assemble is \<and> code_ok is \<and> (\<forall>st. stack_exec E P m0 is st
    = map_ok (\<lambda>_. st) (chip_eval (machine_ctx E T P m0 now) circuits))"
  using assms(1,2)
proof (induction circuits arbitrary: code)
  case Nil
  then show ?case
    by (intro exI [of _ "[]"]) (simp add: compile_circuits_inner_def chip_eval_def)
next
  case (Cons c circuits)
  let ?G = "machine_ctx E T P m0 now"
  obtain code1 code2 where code: "compile_circuit T c = Inr code1" "compile_circuits_inner T circuits = Inr code2"
    "code = code1 @ code2"
    using Cons.prems(1) by (auto simp: compile_circuits_inner_def result_simps)
  obtain comp_mode agg where modes: "get_composition_mode T (rcirc_body c) = Inr comp_mode"
    "get_aggregation_mode T (rcirc_body c) = Inr agg" and ne: "rcirc_nodes c \<noteq> []"
    and code1: "code1 = assemble (circuit_ins T comp_mode agg (rcirc_nodes c))"
    using code(1) by (auto simp: compile_circuit_ins)
  have ok: "list_all (node_ok T) (rcirc_nodes c)" "length (rcirc_nodes c) < 2 ^ 63" "agg_ok agg"
    using Cons.prems(2) modes(2) by (auto simp: circuit_ok_def)
  obtain "is" where tail: "code2 = assemble is" "code_ok is"
    "\<forall>st. stack_exec E P m0 is st = map_ok (\<lambda>_. st) (chip_eval ?G circuits)"
    using Cons.IH [OF code(2)] Cons.prems(2) by auto
  have "stack_exec E P m0 (circuit_ins T comp_mode agg (rcirc_nodes c) @ is) st
      = map_ok (\<lambda>_. st) (chip_eval ?G (c # circuits))" for st
    using stack_circuit_ins [OF assms(3) ok(1) ne ok(2,3), of P m0 comp_mode st] tail(3)
    by (cases "circuit_eval ?G comp_mode agg (rcirc_nodes c)") (simp_all add: chip_eval_def modes)
  then show ?case
    using tail(1,2) code(3) code1 circuit_ins_ok [OF ok(1)]
    by (intro exI [of _ "circuit_ins T comp_mode agg (rcirc_nodes c) @ is"]) auto
qed

lemma run_epilogue:
  assumes "fuel_for 2 m" "\<not> trace_on (cfg m)" "inputs m \<noteq> []" "\<And>b. sign_jws P b \<noteq> []"
  shows "\<exists>m' out c. run E P [ins PushInput (be_bytes 2 (0 :: u16)), ins EmitRc []] m = Inr (m', out) \<and> rc_cid out = Some c"
proof -
  let ?m1 = "advance 1 (stack m) m" and ?m2 = "advance 1 (V_Cid (hd (inputs m)) # stack m) m"
  have b: "begin_step m = Inr ?m1" "fuel_for 1 ?m2"
    using fuel_for_Suc [of 1 m] assms(1) by (simp_all add: numeral_2_eq_2)
  have "exec_op E P (ins PushInput (be_bytes 2 (0 :: u16))) ?m1 = Inr ?m2"
    using assms(3) by (simp add: exec_op_def op_defs from_be_u16 push_def hd_conv_nth advance_def)
  moreover have "push_trace PushInput None ?m2 = ?m2"
    using assms(2) by (simp add: push_trace_def)
  moreover have "\<exists>m' out c. emit_rc E P m3 = Inr (m', out) \<and> rc_cid out = Some c" for m3
    using assms(4) by (auto simp: emit_rc_def Let_def finish_def split: prod.split)
  moreover have "begin_step ?m2 = Inr (advance 1 (stack ?m2) ?m2)"
    using fuel_for_Suc(1) [of 0 ?m2] b(2) by simp
  ultimately show ?thesis
    using b(1) by (simp del: One_nat_def)
qed

end
