(* ===== verification/Silicon_Gate.thy ===== *)
theory Silicon_Gate
  imports Silicon_Laws
begin

text \<open>
  Whole chips: what a compiled chip decides on the machine, what the gate of the check stage makes
  of it, agreement with the policy evaluator, and the resolution of chip graphs.
\<close>

section \<open>Conditions on the machine\<close>

text \<open>C17: Compiled conditions mean what they say: the bytecode of a condition decodes, and on a machine with
  enough fuel it leaves the machine as it was with one Boolean pushed, the value of the condition,
  or stops with exactly the error the condition's evaluation gives.\<close>

theorem compile_to_bool_correct:
  assumes "cond_ok T c" "steady_clock E now" "\<not> trace_on (cfg m)"
  shows "\<exists>code instrs. compile_to_bool T c = Inr code \<and> decode_stream code = Inr instrs
    \<and> (fuel_for (length instrs) m \<longrightarrow> exec_list E P instrs m
        = map_ok (\<lambda>b. advance (length instrs) (V_Bool b # stack m) m) (cond_eval (machine_ctx E T P m now) c))"
proof (intro exI conjI impI)
  have ok: "code_ok (bool_code T c)"
    by (rule bool_code_ok [OF assms(1)])
  show "compile_to_bool T c = Inr (assemble (bool_code T c))"
    by (rule compile_to_bool_code)
  show "decode_stream (assemble (bool_code T c)) = Inr (bool_code T c)"
    using ok by (intro decode_assemble) (simp add: code_ok_def)
  assume "fuel_for (length (bool_code T c)) m"
  then have "exec_list E P (bool_code T c) m
      = map_ok (\<lambda>st. advance (length (bool_code T c)) st m) (stack_exec E P m (bool_code T c) (stack m))"
    using ok assms(2,3) by (intro exec_list_stack) (simp_all add: code_ok_def same_reads_def)
  then show "exec_list E P (bool_code T c) m
      = map_ok (\<lambda>b. advance (length (bool_code T c)) (V_Bool b # stack m) m) (cond_eval (machine_ctx E T P m now) c)"
    by (simp add: stack_bool_code [OF assms(2,1)])
qed

definition demo_text :: silicon_text where
  "demo_text = \<lparr>to_lowercase = id, trim = id, value_to_string = (\<lambda>_. ''null'')\<rparr>"

definition demo_gate_vm :: "u64 \<Rightarrow> pipeline_cas vm" where
  "demo_gate_vm limit = gate_vm (\<lambda>b. take 32 (b @ replicate 32 0)) limit [1]"

lemma demo_gate_vm_sel [simp]:
  "\<not> trace_on (cfg (demo_gate_vm l))" "fuel_limit (cfg (demo_gate_vm l)) = l" "fuel_used (demo_gate_vm l) = 0"
  "inputs (demo_gate_vm l) \<noteq> []"
  by (simp_all add: demo_gate_vm_def gate_vm_def pipeline_cas_put_def with_body_size_def vm_new_def Let_def)

theorem compile_to_bool_correct_witness:
  "\<exists>code instrs. compile_to_bool demo_text (C_Not (C_Always False)) = Inr code \<and> decode_stream code = Inr instrs
    \<and> (fuel_for (length instrs) (demo_gate_vm 9) \<longrightarrow> exec_list demo_env demo_providers instrs (demo_gate_vm 9)
        = Inr (advance (length instrs) (V_Bool True # stack (demo_gate_vm 9)) (demo_gate_vm 9)))"
  using compile_to_bool_correct [of demo_text "C_Not (C_Always False)" demo_env 0 "demo_gate_vm 9" demo_providers]
  by (simp add: steady_clock_def demo_env_def)

section \<open>Chips on the machine\<close>

lemma compiled_chip_run:
  assumes "compile_chip_to_ubl_vm T circuits = Inr code" "list_all (circuit_ok T) circuits"
    and "steady_clock E now" "\<not> trace_on (cfg m)" "inputs m \<noteq> []" "\<And>b. sign_jws P b \<noteq> []"
  shows "\<exists>instrs. decode_stream code = Inr instrs \<and> (fuel_for (length instrs) m \<longrightarrow>
    (case chip_eval (machine_ctx E T P m now) circuits of
       Inl e \<Rightarrow> run E P instrs m = Inl e
     | Inr _ \<Rightarrow> \<exists>m' out cid. run E P instrs m = Inr (m', out) \<and> rc_cid out = Some cid))"
proof -
  let ?tail = "[ins PushInput (be_bytes 2 (0 :: u16)), ins EmitRc []]"
  obtain body where body: "compile_circuits_inner T circuits = Inr body"
    "code = body @ push_input_0 @ tlv_instr EmitRc []"
    using assms(1) by (auto simp: compile_chip_to_ubl_vm_def result_simps)
  from compile_circuits_ins [OF body(1) assms(2,3), of P m] obtain "is" where
    "is": "body = assemble is" "code_ok is"
    "\<And>st. stack_exec E P m is st = map_ok (\<lambda>_. st) (chip_eval (machine_ctx E T P m now) circuits)"
    by blast
  have "code = assemble (is @ ?tail)"
    using body(2) "is"(1) by (simp add: encode_instr_def)
  moreover have "list_all instr_wf (is @ ?tail)"
    using "is"(2) by (simp add: code_ok_def instr_wf_def)
  ultimately have dec: "decode_stream code = Inr (is @ ?tail)"
    by (simp add: decode_assemble del: assemble_simps)
  have noemit: "EmitRc \<notin> set (map ins_op is)"
    using "is"(2) by (auto simp: code_ok_def stack_code_def list_all_iff stack_op_def)
  have "case chip_eval (machine_ctx E T P m now) circuits of
       Inl e \<Rightarrow> run E P (is @ ?tail) m = Inl e
     | Inr _ \<Rightarrow> \<exists>m' out cid. run E P (is @ ?tail) m = Inr (m', out) \<and> rc_cid out = Some cid"
    if fuel: "fuel_for (length (is @ ?tail)) m"
  proof -
    have "exec_list E P is m = map_ok (\<lambda>st. advance (length is) st m) (stack_exec E P m is (stack m))"
      using "is"(2) assms(3,4) fuel
      by (intro exec_list_stack) (simp_all add: code_ok_def same_reads_def fuel_for_def)
    then have ex: "exec_list E P is m
        = map_ok (\<lambda>_. advance (length is) (stack m) m) (chip_eval (machine_ctx E T P m now) circuits)"
      by (simp add: "is"(3))
    have "fuel_for 2 (advance (length is) (stack m) m)"
      using fuel unsigned_less [of "fuel_limit (cfg m)"]
      by (simp add: fuel_for_def unat_word_ariths unat_of_nat)
    from run_epilogue [OF this] assms(4-6) show ?thesis
      by (cases "chip_eval (machine_ctx E T P m now) circuits") (simp_all add: run_append [OF noemit] ex del: run.simps)
  qed
  with dec show ?thesis
    by blast
qed

text \<open>C3: Compiled chips decide correctly: the bytecode of a chip decodes and, on a machine with enough fuel
  and a signer, it emits a receipt exactly when every circuit of the chip passes, and otherwise
  stops with the error of the first circuit that does not. A circuit passes by the threshold of its aggregator, where
  \<open>FirstDecisive\<close> asks for all of its bits like \<open>All\<close>, as it is compiled, and not for any of them, as the comment on the compiler says.\<close>

theorem compiled_chip_decides:
  assumes "compile_chip_to_ubl_vm T circuits = Inr code" "list_all (circuit_ok T) circuits"
    and "steady_clock E now" "\<not> trace_on (cfg m)" "inputs m \<noteq> []" "\<And>b. sign_jws P b \<noteq> []"
  shows "\<exists>instrs. decode_stream code = Inr instrs \<and> (fuel_for (length instrs) m \<longrightarrow>
    (case chip_eval (machine_ctx E T P m now) circuits of
       Inl e \<Rightarrow> run E P instrs m = Inl e
     | Inr _ \<Rightarrow> \<exists>m' out cid. run E P instrs m = Inr (m', out) \<and> rc_cid out = Some cid))"
  using assms by (rule compiled_chip_run)

definition demo_rbit :: "condition_spec \<Rightarrow> resolved_bit" where
  "demo_rbit c = \<lparr>rbit_cid = ''b3:1'', rbit_body = \<lparr>bit_id = ''b'', bit_name = ''b'', bit_condition = c,
     bit_on_true = Allow, bit_on_false = DenyDecision, bit_requires_context = []\<rparr>\<rparr>"

definition demo_body_of :: "string \<Rightarrow> silicon_circuit_body" where
  "demo_body_of agg = \<lparr>sc_id = ''c'', sc_name = ''c'', sc_bits = [''b3:1''],
     sc_composition = ''sequential'', sc_aggregator = agg\<rparr>"

abbreviation demo_circuit :: "string \<Rightarrow> resolved_node list \<Rightarrow> resolved_circuit" where
  "demo_circuit agg nodes \<equiv> ResolvedCircuit ''b3:2'' (demo_body_of agg) nodes"

lemma demo_modes [simp]:
  "get_composition_mode demo_text (demo_body_of agg) = Inr Sequential"
  "get_aggregation_mode demo_text (demo_body_of ''all'') = Inr AllMode"
  "get_aggregation_mode demo_text (demo_body_of ''majority'') = Inr Majority"
  by (simp_all add: demo_body_of_def demo_text_def get_composition_mode_def get_aggregation_mode_def)

lemma demo_compile:
  "\<exists>code. compile_chip_to_ubl_vm demo_text [demo_circuit ''all'' [RN_Bit (demo_rbit c)]] = Inr code"
proof -
  have "\<exists>code. compile_circuit demo_text (demo_circuit ''all'' [RN_Bit (demo_rbit c)]) = Inr code"
    by (simp add: compile_circuit_ins)
  then show ?thesis
    by (auto simp: compile_chip_to_ubl_vm_def compile_circuits_inner_def)
qed

lemma demo_steady [simp]: "steady_clock demo_env 0"
  by (simp add: steady_clock_def demo_env_def)

theorem compiled_chip_decides_witness:
  "\<exists>code instrs. compile_chip_to_ubl_vm demo_text [demo_circuit ''all'' [RN_Bit (demo_rbit (C_Always False))]] = Inr code
    \<and> decode_stream code = Inr instrs \<and> (fuel_for (length instrs) (demo_gate_vm 99) \<longrightarrow>
      run demo_env (demo_providers\<lparr>sign_jws := (\<lambda>_. [1])\<rparr>) instrs (demo_gate_vm 99) = Inl (Deny ''assert_false''))"
proof -
  let ?cs = "[demo_circuit ''all'' [RN_Bit (demo_rbit (C_Always False))]]"
  obtain code where code: "compile_chip_to_ubl_vm demo_text ?cs = Inr code"
    using demo_compile by blast
  have ok: "list_all (circuit_ok demo_text) ?cs"
    by (simp add: circuit_ok_def demo_rbit_def)
  have ev: "chip_eval (machine_ctx demo_env demo_text (demo_providers\<lparr>sign_jws := (\<lambda>_. [1])\<rparr>) (demo_gate_vm 99) 0) ?cs
      = Inl (Deny ''assert_false'')"
    by (simp add: chip_eval_def circuit_eval_def assert_holds_def demo_rbit_def List.map_filter_def)
  show ?thesis
    using compiled_chip_decides [OF code ok demo_steady, of "demo_gate_vm 99" "demo_providers\<lparr>sign_jws := (\<lambda>_. [1])\<rparr>"]
      code ev by simp
qed

text \<open>\<open>FirstDecisive\<close> is compiled to the code of \<open>All\<close>, so one false bit stops the circuit, which \<open>Any\<close> would let pass.\<close>

lemma first_decisive_as_all:
  "circuit_ins T comp_mode FirstDecisive nodes = circuit_ins T comp_mode AllMode nodes"
  "circuit_eval G Sequential FirstDecisive [RN_Bit (demo_rbit (C_Always True)), RN_Bit (demo_rbit (C_Always False))] = Inl (Deny ''assert_false'')"
  "circuit_eval G Sequential AnyMode [RN_Bit (demo_rbit (C_Always True)), RN_Bit (demo_rbit (C_Always False))] = Inr ()"
  by (simp_all add: circuit_ins_def bits_ins_def mixed_ins_def bool_op_def Let_def circuit_eval_def assert_holds_def demo_rbit_def
      List.map_filter_simps)

section \<open>The gate of the check stage\<close>

lemma gate_vm_sel [simp]:
  "\<not> trace_on (cfg (gate_vm hash limit nrf))" "inputs (gate_vm hash limit nrf) = [cid_from_nrf_bytes hash nrf]"
  "fuel_limit (cfg (gate_vm hash limit nrf)) = limit" "fuel_used (gate_vm hash limit nrf) = 0"
  "cas (gate_vm hash limit nrf) (cid_from_nrf_bytes hash nrf) = Some nrf"
  "body_size (gate_vm hash limit nrf) = of_nat (length nrf)"
  by (simp_all add: gate_vm_def pipeline_cas_put_def with_body_size_def vm_new_def Let_def cid_from_nrf_bytes_def)

text \<open>JSON text never starts with the magic of NRF bytes; \<open>serde_json\<close> rejects it.\<close>

definition rejects_nrf :: "vm_env \<Rightarrow> bool" where
  "rejects_nrf E \<longleftrightarrow> (\<forall>bytes. json_from_slice E (MAGIC @ bytes) = None)"

definition gate_machine_ctx :: "vm_env \<Rightarrow> silicon_text \<Rightarrow> nat \<Rightarrow> i64 \<Rightarrow> gate_ctx" where
  "gate_machine_ctx E T sz now = \<lparr>gc_env = E, gc_text = T, gc_body = Inl (Deny ''json_parse_error''),
     gc_size = of_nat sz, gc_now = now\<rparr>"

lemma gate_machine_ctx:
  assumes "rejects_nrf E" "to_nrf1_bytes N body = Inr nrf"
  shows "machine_ctx E T (pipeline_providers N hash signer b64) (gate_vm hash limit nrf) now
    = gate_machine_ctx E T (length nrf) now"
proof -
  obtain v where "nrf = MAGIC @ encode_value v"
    using assms(2) by (auto simp: to_nrf1_bytes_def result_simps encode_to_vec_def)
  then have "json_from_slice E nrf = None"
    using assms(1) by (simp add: rejects_nrf_def)
  then show ?thesis
    by (simp add: machine_ctx_def gate_machine_ctx_def load_result_def pipeline_providers_def pipeline_cas_get_def)
qed

lemma run_gate_verdict:
  assumes "compile_chip_to_ubl_vm T circuits = Inr code" "list_all (circuit_ok T) circuits"
    and "steady_clock E now" "rejects_nrf E" "to_nrf1_bytes N body = Inr nrf"
    and "\<And>b. pipeline_sign_jws signer b64 b \<noteq> []" "length code \<le> unat limit"
  shows "run_gate E N hash signer b64 limit body (Inr code)
    = gate_verdict (chip_eval (gate_machine_ctx E T (length nrf) now) circuits)"
proof -
  let ?P = "pipeline_providers N hash signer b64" and ?m = "gate_vm hash limit nrf"
  have sign: "sign_jws ?P b \<noteq> []" for b
    using assms(6) by (simp add: pipeline_providers_def)
  have "inputs ?m \<noteq> []"
    by simp
  from compiled_chip_run [OF assms(1-3) gate_vm_sel(1) this sign] obtain instrs where
    dec: "decode_stream code = Inr instrs" and
    r: "fuel_for (length instrs) ?m \<Longrightarrow> (case chip_eval (machine_ctx E T ?P ?m now) circuits of
       Inl e \<Rightarrow> run E ?P instrs ?m = Inl e
     | Inr _ \<Rightarrow> \<exists>m' out cid. run E ?P instrs ?m = Inr (m', out) \<and> rc_cid out = Some cid)"
    by blast
  have "length instrs \<le> length (assemble instrs)"
    by (induction instrs) (auto simp: encode_instr_def tlv_instr_def)
  then have "fuel_for (length instrs) ?m"
    using assemble_decode [OF dec] assms(7) by (simp add: fuel_for_def)
  from r [OF this] show ?thesis
    unfolding gate_machine_ctx [OF assms(4,5)]
    by (cases "chip_eval (gate_machine_ctx E T (length nrf) now) circuits")
      (auto simp: run_gate_def dec assms(5) gate_verdict_def split: exec_error.split)
qed

text \<open>The conditions, nodes and circuits that read the body.\<close>

fun reads_cond :: "condition_spec \<Rightarrow> bool" where
  "reads_cond (C_And cs) \<longleftrightarrow> list_ex reads_cond cs"
| "reads_cond (C_Or cs) \<longleftrightarrow> list_ex reads_cond cs"
| "reads_cond (C_Not c) \<longleftrightarrow> reads_cond c"
| "reads_cond (C_Always v) \<longleftrightarrow> False"
| "reads_cond (C_BodySizeLte limit) \<longleftrightarrow> False"
| "reads_cond _ \<longleftrightarrow> True"

function reads_node :: "resolved_node \<Rightarrow> bool" where
  "reads_node (RN_Bit b) \<longleftrightarrow> reads_cond (bit_condition (rbit_body b))"
| "reads_node (RN_SubChip circuits) \<longleftrightarrow> list_ex reads_node (concat (map rcirc_nodes circuits))"
  by pat_completeness auto
termination
  by (relation "measure size") (auto intro: size_sub_node simp del: resolved_node.size)

definition reads_circuit :: "resolved_circuit \<Rightarrow> bool" where
  "reads_circuit c \<longleftrightarrow> list_ex reads_node (rcirc_nodes c)"

text \<open>The circuits that end in a type error: a counting aggregator over two or more nodes with a sub-chip among them, none of which reads the body.\<close>

definition fails_open :: "silicon_text \<Rightarrow> resolved_circuit \<Rightarrow> bool" where
  "fails_open T c \<longleftrightarrow>
     (\<exists>agg. get_aggregation_mode T (rcirc_body c) = Inr agg \<and> counting agg)
     \<and> \<not> list_all is_bit (rcirc_nodes c) \<and> 2 \<le> length (rcirc_nodes c) \<and> \<not> reads_circuit c"

text \<open>Evaluation when the body cannot be read: what reads it fails, and nothing else does.\<close>

definition blocked :: "exec_error \<Rightarrow> bool \<Rightarrow> exec_error + 'a \<Rightarrow> bool" where
  "blocked e reads r \<longleftrightarrow> (if reads then r = Inl e else (\<exists>v. r = Inr v))"

lemma blocked_map [simp]: "blocked e reads (map_ok f r) \<longleftrightarrow> blocked e reads r"
  by (cases r) (auto simp: blocked_def)

lemma blocked_collect: "(\<And>x. x \<in> set xs \<Longrightarrow> blocked e (P x) (f x)) \<Longrightarrow> blocked e (list_ex P xs) (collect_results f xs)"
proof (induction xs)
  case (Cons x xs)
  then have "blocked e (P x) (f x)" "blocked e (list_ex P xs) (collect_results f xs)"
    by simp_all
  then show ?case
    by (auto simp: blocked_def split: if_split_asm)
qed (simp add: blocked_def)

lemma blocked_cond: "gc_body G = Inl e \<Longrightarrow> blocked e (reads_cond c) (cond_eval G c)"
proof (induction c)
  case (C_And cs)
  then show ?case
    by (simp add: blocked_collect)
next
  case (C_Or cs)
  then show ?case
    by (simp add: blocked_collect)
next
  case (C_Not c)
  then show ?case
    by simp
qed (simp_all add: blocked_def)

lemma blocked_node: "gc_body G = Inl e \<Longrightarrow> blocked e (reads_node n) (node_eval G n)"
proof (induction n rule: reads_node.induct)
  case (2 circuits)
  then have "blocked e (list_ex reads_node (concat (map rcirc_nodes circuits)))
      (collect_results (node_eval G) (concat (map rcirc_nodes circuits)))"
    by (intro blocked_collect) auto
  then show ?case
    by simp
qed (simp add: blocked_cond)

lemma blocked_nodes: "gc_body G = Inl e \<Longrightarrow> blocked e (list_ex reads_node ns) (collect_results (node_eval G) ns)"
  by (simp add: blocked_collect blocked_node)

lemma assert_holds_cases: "assert_holds b = Inr () \<or> assert_holds b = Inl (Deny ''assert_false'')"
  by (simp add: assert_holds_def)

lemma blocked_seq:
  assumes "gc_body G = Inl e"
  shows "if list_ex (\<lambda>b. reads_cond (bit_condition (rbit_body b))) bits then seq_eval G bits \<in> {Inl e, Inl (Deny ''assert_false'')}
     else seq_eval G bits \<in> {Inr (), Inl (Deny ''assert_false'')}"
proof (induction bits)
  case (Cons b bits)
  then show ?case
    using blocked_cond [OF assms, of "bit_condition (rbit_body b)"]
      assert_holds_cases [of "the (case cond_eval G (bit_condition (rbit_body b)) of Inr v \<Rightarrow> Some v | Inl _ \<Rightarrow> None) \<or> bit_on_false (rbit_body b) \<noteq> DenyDecision"]
    by (auto simp: blocked_def split: if_split_asm)
qed simp

lemma bits_read: "list_all is_bit ns \<Longrightarrow>
    list_ex reads_node ns \<longleftrightarrow> list_ex (\<lambda>b. reads_cond (bit_condition (rbit_body b))) (List.map_filter node_bit ns)"
proof (induction ns)
  case (Cons n ns)
  then show ?case
    by (cases n) (simp_all add: List.map_filter_simps)
qed (simp add: List.map_filter_simps)

lemma blocked_circuit:
  assumes "gc_body G = Inl e" "get_aggregation_mode T (rcirc_body c) = Inr agg"
  shows "circuit_eval G comp_mode agg (rcirc_nodes c) \<in>
    (if reads_circuit c then {Inl e, Inl (Deny ''assert_false'')}
     else if fails_open T c then {Inl (TypeMismatch BoolToI64)} else {Inr (), Inl (Deny ''assert_false'')})"
proof (cases "list_all is_bit (rcirc_nodes c) \<and> all_like agg \<and> comp_mode \<noteq> Parallel")
  case True
  then show ?thesis
    using blocked_seq [OF assms(1), of "List.map_filter node_bit (rcirc_nodes c)"] bits_read [of "rcirc_nodes c"]
    by (auto simp: circuit_eval_def reads_circuit_def fails_open_def split: if_split_asm)
next
  case False
  show ?thesis
  proof (cases "collect_results (node_eval G) (rcirc_nodes c)")
    case (Inl e')
    then have "reads_circuit c" "e' = e"
      using blocked_nodes [OF assms(1), of "rcirc_nodes c"] by (auto simp: blocked_def reads_circuit_def split: if_split_asm)
    then show ?thesis
      using Inl False by (auto simp: circuit_eval_def)
  next
    case (Inr bs)
    then have "\<not> reads_circuit c" "length bs = length (rcirc_nodes c)"
      using blocked_nodes [OF assms(1), of "rcirc_nodes c"] collect_results_length [OF Inr]
      by (auto simp: blocked_def reads_circuit_def split: if_split_asm)
    then show ?thesis
      using Inr False assms(2) assert_holds_cases [of "agg_holds agg bs"] by (auto simp: circuit_eval_def fails_open_def)
  qed
qed

text \<open>A chip is evaluated circuit by circuit; a chip that compiles has modes in all of its circuits.\<close>

definition circuit_verdict :: "gate_ctx \<Rightarrow> resolved_circuit \<Rightarrow> exec_error + unit" where
  "circuit_verdict G c =
     (case (get_composition_mode (gc_text G) (rcirc_body c), get_aggregation_mode (gc_text G) (rcirc_body c)) of
        (Inr comp_mode, Inr agg) \<Rightarrow> circuit_eval G comp_mode agg (rcirc_nodes c)
      | _ \<Rightarrow> Inr ())"

lemma chip_eval_verdicts: "chip_eval G circuits = map_ok (\<lambda>_. ()) (collect_results (circuit_verdict G) circuits)"
  by (simp add: chip_eval_def circuit_verdict_def [abs_def])

lemma chip_eval_Nil [simp]: "chip_eval G [] = Inr ()"
  by (simp add: chip_eval_def)

lemma chip_eval_Cons [simp]: "chip_eval G (c # cs) = and_then (circuit_verdict G c) (\<lambda>_. chip_eval G cs)"
  by (cases "circuit_verdict G c"; cases "collect_results (circuit_verdict G) cs") (simp_all add: chip_eval_verdicts)

lemma chip_eval_append [simp]: "chip_eval G (cs @ ds) = and_then (chip_eval G cs) (\<lambda>_. chip_eval G ds)"
proof (induction cs)
  case (Cons c cs)
  then show ?case
    by (cases "circuit_verdict G c") simp_all
qed simp

lemma compiled_modes:
  assumes "compile_chip_to_ubl_vm T circuits = Inr code" "c \<in> set circuits"
  obtains comp_mode agg where "get_composition_mode T (rcirc_body c) = Inr comp_mode" "get_aggregation_mode T (rcirc_body c) = Inr agg"
proof -
  have "\<exists>x. compile_circuit T c = Inr x" if "collect_results (compile_circuit T) cs = Inr ys" "c \<in> set cs" for cs ys
    using that by (induction cs arbitrary: ys) (auto simp: result_simps)
  then obtain x where "compile_circuit T c = Inr x"
    using assms by (auto simp: compile_chip_to_ubl_vm_def compile_circuits_inner_def result_simps)
  then show thesis
    using that by (cases c) (auto simp: compile_circuit_ins result_simps)
qed

lemma gate_ctx_sel [simp]: "gc_body (gate_machine_ctx E T sz now) = Inl (Deny ''json_parse_error'')"
  "gc_text (gate_machine_ctx E T sz now) = T"
  by (simp_all add: gate_machine_ctx_def)

lemma gate_circuit_verdict:
  assumes "compile_chip_to_ubl_vm T circuits = Inr code" "c \<in> set circuits"
  shows "circuit_verdict (gate_machine_ctx E T sz now) c \<in>
    (if reads_circuit c then {Inl (Deny ''json_parse_error''), Inl (Deny ''assert_false'')}
     else if fails_open T c then {Inl (TypeMismatch BoolToI64)} else {Inr (), Inl (Deny ''assert_false'')})"
proof -
  obtain comp_mode agg where "get_composition_mode T (rcirc_body c) = Inr comp_mode" "get_aggregation_mode T (rcirc_body c) = Inr agg"
    using assms by (rule compiled_modes)
  then show ?thesis
    using blocked_circuit [of "gate_machine_ctx E T sz now" _ T c agg comp_mode] by (simp add: circuit_verdict_def)
qed

lemma gate_first_node:
  assumes "compile_chip_to_ubl_vm T (pre @ c # post) = Inr code" "reads_circuit c" "reads_node (hd (rcirc_nodes c))"
  shows "circuit_verdict (gate_machine_ctx E T sz now) c = Inl (Deny ''json_parse_error'')"
proof -
  let ?G = "gate_machine_ctx E T sz now"
  obtain comp_mode agg where modes: "get_composition_mode T (rcirc_body c) = Inr comp_mode" "get_aggregation_mode T (rcirc_body c) = Inr agg"
    using compiled_modes [OF assms(1), of c] by auto
  obtain n ns where nodes: "rcirc_nodes c = n # ns"
    using assms(2) by (cases "rcirc_nodes c") (auto simp: reads_circuit_def)
  then have "node_eval ?G n = Inl (Deny ''json_parse_error'')"
    using blocked_node [of ?G _ n] assms(3) by (simp add: blocked_def)
  then show ?thesis
    using modes by (cases n) (auto simp: circuit_verdict_def circuit_eval_def nodes List.map_filter_simps)
qed

lemma gate_prefix:
  assumes "compile_chip_to_ubl_vm T circuits = Inr code" "set pre \<subseteq> set circuits" "\<not> list_ex (fails_open T) pre"
  shows "chip_eval (gate_machine_ctx E T sz now) pre \<in> {Inr (), Inl (Deny ''json_parse_error''), Inl (Deny ''assert_false'')}"
  using assms(2,3)
proof (induction pre)
  case (Cons c pre)
  then show ?case
    using gate_circuit_verdict [OF assms(1), of c E sz now] by (auto split: if_split_asm)
qed simp

text \<open>C38: The gate cannot read the body it guards: it hands the machine the NRF bytes of the body while
  compiled conditions parse JSON text. A gate whose program is within the fuel limit and has a circuit that reads the body, in whatever
  condition and at whatever depth, rejects every body that has canonical bytes, whatever the body holds, unless an earlier circuit fails open; and with a parse error
  when its first circuit reads the body in its first node.\<close>

theorem gate_cannot_read_body:
  assumes "compile_chip_to_ubl_vm T (pre @ c # post) = Inr code" "list_all (circuit_ok T) (pre @ c # post)"
    and "reads_circuit c" "\<not> list_ex (fails_open T) pre"
    and "steady_clock E now" "rejects_nrf E" "to_nrf1_bytes N body = Inr nrf"
    and "\<And>bs. pipeline_sign_jws signer b64 bs \<noteq> []" "length code \<le> unat limit"
  shows "run_gate E N hash signer b64 limit body (Inr code) \<in> {GateDenied ''json_parse_error'', GateDenied ''assert_false''}
    \<and> (pre = [] \<and> reads_node (hd (rcirc_nodes c)) \<longrightarrow> run_gate E N hash signer b64 limit body (Inr code) = GateDenied ''json_parse_error'')"
proof -
  let ?G = "gate_machine_ctx E T (length nrf) now"
  note run = run_gate_verdict [OF assms(1,2,5-9)]
  have "chip_eval ?G pre \<in> {Inr (), Inl (Deny ''json_parse_error''), Inl (Deny ''assert_false'')}"
    by (rule gate_prefix [OF assms(1) _ assms(4)]) auto
  moreover have "circuit_verdict ?G c \<in> {Inl (Deny ''json_parse_error''), Inl (Deny ''assert_false'')}"
    using gate_circuit_verdict [OF assms(1), of c E "length nrf" now] assms(3) by simp
  moreover have "circuit_verdict ?G c = Inl (Deny ''json_parse_error'')" if "reads_node (hd (rcirc_nodes c))"
    using gate_first_node [OF assms(1,3) that] by simp
  ultimately show ?thesis
    by (auto simp: run gate_verdict_def)
qed

text \<open>C39: The gate fails open on type errors: a circuit that has two or more nodes under a counting aggregator, a sub-chip among them,
  and that reads nothing of the body, stops with a type error whatever its conditions say, and the check stage, which rejects on
  \<open>Deny\<close> only, lets the body pass, provided that every circuit before it passes and the program is within the fuel limit; circuits after it are not run.\<close>

theorem gate_fails_open:
  assumes "compile_chip_to_ubl_vm T (pre @ c # post) = Inr code" "list_all (circuit_ok T) (pre @ c # post)"
    and "fails_open T c" "chip_eval (gate_machine_ctx E T (length nrf) now) pre = Inr ()"
    and "steady_clock E now" "rejects_nrf E" "to_nrf1_bytes N body = Inr nrf"
    and "\<And>bs. pipeline_sign_jws signer b64 bs \<noteq> []" "length code \<le> unat limit"
  shows "run_gate E N hash signer b64 limit body (Inr code) = GatePass"
proof -
  have "\<not> reads_circuit c"
    using assms(3) by (simp add: fails_open_def)
  then have "circuit_verdict (gate_machine_ctx E T (length nrf) now) c = Inl (TypeMismatch BoolToI64)"
    using gate_circuit_verdict [OF assms(1), of c E "length nrf" now] assms(3) by simp
  then show ?thesis
    using run_gate_verdict [OF assms(1,2,5-9)] assms(4) by (simp add: gate_verdict_def)
qed

definition strict_env :: vm_env where
  "strict_env = demo_env\<lparr>json_from_slice := (\<lambda>b. if take 4 b = MAGIC then None else Some JNull)\<rparr>"

lemma strict_env: "rejects_nrf strict_env" "steady_clock strict_env 0"
  by (simp_all add: rejects_nrf_def strict_env_def steady_clock_def demo_env_def MAGIC_def)

abbreviation demo_signer :: "u8 list \<Rightarrow> string" where "demo_signer \<equiv> (\<lambda>_. ''ed25519:x'')"
abbreviation demo_b64 :: "string \<Rightarrow> u8 list option" where "demo_b64 \<equiv> (\<lambda>_. Some [1])"

lemma demo_signs: "pipeline_sign_jws demo_signer demo_b64 bs \<noteq> []"
  by (simp add: pipeline_sign_jws_def strip_prefix_def)

lemma demo_body: "to_nrf1_bytes plain_text (JObj [(''b'', JBool True)]) = Inr (MAGIC @ [7, 1, 4, 1, 98, 2])"
  by code_simp

lemma length_encode_instr: "length (encode_instr i) = 3 + length (ins_payload i)"
  by (simp add: encode_instr_def tlv_instr_def)

lemma demo_compile_length:
  assumes "get_aggregation_mode demo_text (demo_body_of a) = Inr agg" "nodes \<noteq> []"
  shows "\<exists>code. compile_chip_to_ubl_vm demo_text [demo_circuit a nodes] = Inr code
    \<and> length code = length (assemble (circuit_ins demo_text Sequential agg nodes)) + 8"
proof -
  have "compile_circuit demo_text (demo_circuit a nodes) = Inr (assemble (circuit_ins demo_text Sequential agg nodes))"
    using assms by (simp add: compile_circuit_ins)
  then show ?thesis
    by (simp add: compile_chip_to_ubl_vm_def compile_circuits_inner_def tlv_instr_def)
qed

lemmas demo_ins_defs = circuit_ins_def bits_ins_def mixed_ins_def assert_ins_def load_ins_def count_ins_def
  at_least_ins_def length_encode_instr demo_rbit_def List.map_filter_def node_ins.simps Let_def

theorem gate_cannot_read_body_witness:
  "\<exists>code. compile_chip_to_ubl_vm demo_text [demo_circuit ''all'' [RN_Bit (demo_rbit (C_Not (C_ContextHas ''b'')))]] = Inr code
    \<and> run_gate strict_env plain_text id demo_signer demo_b64 1000 (JObj [(''b'', JBool True)]) (Inr code)
      = GateDenied ''json_parse_error''"
proof -
  let ?nodes = "[RN_Bit (demo_rbit (C_Not (C_ContextHas ''b'')))]"
  let ?c = "demo_circuit ''all'' ?nodes"
  obtain code where code: "compile_chip_to_ubl_vm demo_text ([] @ ?c # []) = Inr code" and "length code
      = length (assemble (circuit_ins demo_text Sequential AllMode ?nodes)) + 8"
    using demo_compile_length [OF demo_modes(2), of ?nodes] by auto
  then have len: "length code \<le> unat (1000 :: u64)"
    by (simp add: demo_ins_defs)
  have ok: "list_all (circuit_ok demo_text) ([] @ ?c # [])"
    by (simp add: circuit_ok_def demo_rbit_def is_str_def bytes_of_def payload_ok_def)
  have reads: "reads_circuit ?c" "\<not> list_ex (fails_open demo_text) []"
    by (simp_all add: reads_circuit_def demo_rbit_def)
  have "run_gate strict_env plain_text id demo_signer demo_b64 1000 (JObj [(''b'', JBool True)]) (Inr code)
      = GateDenied ''json_parse_error''"
    using gate_cannot_read_body [OF code ok reads strict_env(2) strict_env(1) demo_body demo_signs len, of id]
    by (simp add: demo_rbit_def)
  with code show ?thesis
    by auto
qed

theorem gate_fails_open_witness:
  "\<exists>code. compile_chip_to_ubl_vm demo_text [demo_circuit ''majority'' [RN_Bit (demo_rbit (C_Always False)),
      RN_SubChip [demo_circuit ''all'' [RN_Bit (demo_rbit (C_Always False))]]]] = Inr code
    \<and> run_gate strict_env plain_text id demo_signer demo_b64 1000 (JObj [(''b'', JBool True)]) (Inr code) = GatePass"
proof -
  let ?nodes = "[RN_Bit (demo_rbit (C_Always False)), RN_SubChip [demo_circuit ''all'' [RN_Bit (demo_rbit (C_Always False))]]]"
  let ?c = "demo_circuit ''majority'' ?nodes"
  obtain code where code: "compile_chip_to_ubl_vm demo_text ([] @ ?c # []) = Inr code" and
      "length code = length (assemble (circuit_ins demo_text Sequential Majority ?nodes)) + 8"
    using demo_compile_length [OF demo_modes(3), of ?nodes] by auto
  then have "length code \<le> 1000"
    by (simp add: demo_ins_defs numeral_2_eq_2)
  then have len: "length code \<le> unat (1000 :: u64)"
    by simp
  have ok: "list_all (circuit_ok demo_text) ([] @ ?c # [])"
    by (simp add: circuit_ok_def demo_rbit_def)
  have "fails_open demo_text ?c"
    by (simp add: fails_open_def reads_circuit_def demo_rbit_def)
  from gate_fails_open [OF code ok this chip_eval_Nil strict_env(2) strict_env(1) demo_body demo_signs len, of id]
  show ?thesis
    using code by auto
qed

section \<open>Agreement with the policy evaluator\<close>

text \<open>
  Where a condition can be evaluated both ways: the context variables it names are the members of
  the same body, equality compares strings, sizes fit the signed comparison, and it uses no
  condition that only the machine has.
\<close>

fun both_ways :: "json \<Rightarrow> u64 \<Rightarrow> eval_context \<Rightarrow> condition_spec \<Rightarrow> bool" where
  "both_ways j sz ctx (C_ContextHas key) \<longleftrightarrow>
     ctx_variables ctx key = json_get j key \<and> json_get j key \<noteq> Some JNull"
| "both_ways j sz ctx (C_ContextEquals key v) \<longleftrightarrow>
     as_str v \<noteq> None \<and> get_str j key \<noteq> None \<and> ctx_variables ctx key = json_get j key"
| "both_ways j sz ctx (C_TypeEquals ct) \<longleftrightarrow> ctx_chip ctx = j \<and> get_str j ''@type'' \<noteq> None"
| "both_ways j sz ctx (C_BodySizeLte limit) \<longleftrightarrow>
     limit < 2 ^ 63 \<and> ctx_body_size ctx < 2 ^ 63 \<and> sz = of_nat (ctx_body_size ctx)"
| "both_ways j sz ctx (C_And cs) \<longleftrightarrow> list_all (both_ways j sz ctx) cs"
| "both_ways j sz ctx (C_Or cs) \<longleftrightarrow> list_all (both_ways j sz ctx) cs"
| "both_ways j sz ctx (C_Not c) \<longleftrightarrow> both_ways j sz ctx c"
| "both_ways j sz ctx (C_Always _) \<longleftrightarrow> True"
| "both_ways j sz ctx _ \<longleftrightarrow> False"

text \<open>Gates and policies agree: on a machine that reads the same body, the compiled form of a condition
  computes the value the policy evaluator gives to the expression it converts to, for conditions
  that both can evaluate.\<close>

theorem gate_policy_agree:
  assumes "both_ways j sz ctx c" "gc_body G = Inr j" "gc_size G = sz"
  shows "cond_eval G c = Inr (expr_evaluate (to_expression c) ctx)"
  using assms(1)
proof (induction c)
  case (C_ContextHas key)
  then show ?case
    using assms(2) by (auto split: option.split elim: is_null.elims)
next
  case (C_And cs)
  then have "collect_results (cond_eval G) cs = Inr (map (\<lambda>c. expr_evaluate (to_expression c) ctx) cs)"
    by (intro collect_results_Inr_map) (auto simp: list_all_iff)
  then show ?case
    by (simp add: list_all_iff)
next
  case (C_Or cs)
  then have "collect_results (cond_eval G) cs = Inr (map (\<lambda>c. expr_evaluate (to_expression c) ctx) cs)"
    by (intro collect_results_Inr_map) (auto simp: list_all_iff)
  then show ?case
    by (simp add: list_ex_iff)
next
  case (C_BodySizeLte limit)
  then show ?case
    using assms(3) by (simp add: sint_of_nat_i64)
qed (use assms(2) in \<open>auto simp: str_member_def get_str_def expected_bytes_def as_str_Some bind_eq_Some_conv\<close>)

theorem gate_policy_agree_witness:
  "cond_eval \<lparr>gc_env = demo_env, gc_text = demo_text, gc_body = Inr (JObj [(''role'', JStr ''admin'')]), gc_size = 9, gc_now = 0\<rparr>
     (C_And [C_ContextEquals ''role'' (JStr ''admin''), C_BodySizeLte 100])
   = Inr (expr_evaluate (And [ContextEquals ''role'' (JStr ''admin''), BodySizeLte 100])
       \<lparr>ctx_chip = JNull, ctx_body_size = 9, ctx_variables = [''role'' \<mapsto> JStr ''admin'']\<rparr>)"
  by (subst gate_policy_agree [where sz = 9 and j = "JObj [(''role'', JStr ''admin'')]"
        and ctx = "\<lparr>ctx_chip = JNull, ctx_body_size = 9, ctx_variables = [''role'' \<mapsto> JStr ''admin'']\<rparr>"])
    (simp_all add: get_str_def)

section \<open>Resolution of chip graphs\<close>

definition chips_of :: "chip_store \<Rightarrow> string set" where
  "chips_of store = {cid. \<exists>s. store cid = Inr (Some s) \<and> sc_type s = TYPE_SILICON_CHIP}"

lemma rbind_Inr:
  "rbind m f = Some (Inr r) \<longleftrightarrow> (\<exists>x vis. m = Some (Inr (x, vis)) \<and> f x vis = Some (Inr r))"
  by (auto simp: rbind_def split: option.split sum.split)

lemma rbind_None:
  "rbind m f = None \<longleftrightarrow> m = None \<or> (\<exists>x vis. m = Some (Inr (x, vis)) \<and> f x vis = None)"
  by (auto simp: rbind_def split: option.split sum.split)

lemma lift_result_iff:
  "lift_result r vis = Some (Inr (x, vis')) \<longleftrightarrow> r = Inr x \<and> vis' = vis" "lift_result r vis \<noteq> None"
  by (cases r; auto simp: lift_result_def)+

lemmas resolving_iff = rbind_Inr rbind_None lift_result_iff

lemma resolve_nodes_Cons:
  assumes "resolve_nodes depth T store (e # es) vis = Some (Inr (ns, vis'))"
  obtains (bit) stored b ns' where "load_entry store e = Inr stored" "parse_bit T (sc_data stored) = Inr b"
      "resolve_nodes depth T store es vis = Some (Inr (ns', vis'))" "ns = RN_Bit \<lparr>rbit_cid = e, rbit_body = b\<rparr> # ns'"
    | (chip) stored d c scs vis1 ns' where "load_entry store e = Inr stored" "e \<notin> vis" "depth = Suc d"
      "load_sub_chip T e (sc_data stored) = Inr c"
      "resolve_chip_graph_inner d T store (chip_circuits c) (insert e vis) = Some (Inr (scs, vis1))"
      "resolve_nodes depth T store es (vis1 - {e}) = Some (Inr (ns', vis'))" "ns = RN_SubChip scs # ns'"
  using assms by (auto simp: resolving_iff result_simps split: if_split_asm nat.split_asm)

lemma resolve_circuits_Cons:
  assumes "resolve_chip_graph_inner depth T store (cid # cids) vis = Some (Inr (cs, vis'))"
  obtains body nodes vis1 cs' where "load_circuit T store cid = Inr body"
    "resolve_nodes depth T store (sc_bits body) vis = Some (Inr (nodes, vis1))"
    "resolve_chip_graph_inner depth T store cids vis1 = Some (Inr (cs', vis'))" "cs = ResolvedCircuit cid body nodes # cs'"
  using assms by (auto simp: resolving_iff)

text \<open>Every chip is left again: resolution returns the set of chips in progress unchanged.\<close>

lemma resolve_visiting:
  "resolve_chip_graph_inner depth T store cids vis = Some (Inr (cs, vis')) \<Longrightarrow> vis' = vis"
  "resolve_nodes depth T store entries vis = Some (Inr (ns, vis')) \<Longrightarrow> vis' = vis"
proof (induction depth arbitrary: cids entries vis cs ns vis' rule: less_induct)
  case (less depth)
  have nodes: "resolve_nodes depth T store entries vis = Some (Inr (ns, vis')) \<Longrightarrow> vis' = vis" for entries vis ns vis'
  proof (induction entries arbitrary: vis ns)
    case (Cons e es)
    from Cons.prems show ?case
    proof (cases rule: resolve_nodes_Cons)
      case bit
      then show ?thesis
        by (intro Cons.IH)
    next
      case (chip stored d c scs vis1 ns')
      then have "vis1 = insert e vis"
        using less.IH(1) [of d] by auto
      then show ?thesis
        using Cons.IH [OF chip(6)] chip(2) by simp
    qed
  qed simp
  have circuits: "resolve_chip_graph_inner depth T store cids vis = Some (Inr (cs, vis')) \<Longrightarrow> vis' = vis" for cids vis cs vis'
  proof (induction cids arbitrary: vis cs)
    case (Cons cid cids)
    from Cons.prems show ?case
      by (rule resolve_circuits_Cons) (use nodes Cons.IH in blast)
  qed simp
  {
    case 1
    then show ?case
      by (rule circuits)
  next
    case 2
    then show ?case
      by (rule nodes)
  }
qed

lemma load_entry_chip:
  "load_entry store e = Inr stored \<Longrightarrow> sc_type stored = TYPE_SILICON_CHIP \<Longrightarrow> e \<in> chips_of store"
  by (auto simp: load_entry_def get_chip_def chips_of_def result_simps)

lemma resolve_total:
  assumes "finite (chips_of store)"
  shows "card (chips_of store - vis) \<le> depth \<Longrightarrow> resolve_chip_graph_inner depth T store cids vis \<noteq> None"
    and "card (chips_of store - vis) \<le> depth \<Longrightarrow> resolve_nodes depth T store entries vis \<noteq> None"
proof (induction depth arbitrary: cids entries vis rule: less_induct)
  case (less depth)
  have sub: "\<exists>d. depth = Suc d \<and> resolve_chip_graph_inner d T store cids (insert e vis) \<noteq> None"
    if "card (chips_of store - vis) \<le> depth" "e \<in> chips_of store" "e \<notin> vis" for cids e vis
  proof -
    have "Suc (card (chips_of store - vis - {e})) = card (chips_of store - vis)"
      by (rule card_Suc_Diff1) (use assms that(2,3) in auto)
    then have "card (chips_of store - vis) = Suc (card (chips_of store - insert e vis))"
      by (subst Diff_insert) (rule sym)
    with that(1) obtain d where "depth = Suc d" "card (chips_of store - insert e vis) \<le> d"
      by (metis Suc_le_D Suc_le_mono)
    then show ?thesis
      using less.IH(1) [of d "insert e vis" cids] by (metis lessI)
  qed
  have nodes: "resolve_nodes depth T store entries vis \<noteq> None" if "card (chips_of store - vis) \<le> depth" for entries vis
    using that
  proof (induction entries arbitrary: vis)
    case (Cons e es)
    show ?case
    proof (cases "load_entry store e")
      case (Inr stored)
      show ?thesis
      proof (cases "sc_type stored = TYPE_SILICON_CHIP \<and> e \<notin> vis")
        case True
        then obtain d where d: "depth = Suc d"
          using sub [OF Cons.prems load_entry_chip [OF Inr]] by blast
        have "resolve_chip_graph_inner d T store cids (insert e vis) \<noteq> None" for cids
          using sub [OF Cons.prems load_entry_chip [OF Inr], of cids] True d by auto
        moreover have "v - {e} = vis" if "resolve_chip_graph_inner d T store cs (insert e vis) = Some (Inr (r, v))" for d cs r v
          using resolve_visiting(1) [OF that] True by auto
        ultimately show ?thesis
          using Inr True Cons.IH [OF Cons.prems] d by (auto simp: resolving_iff)
      next
        case False
        then show ?thesis
          using Inr Cons.IH [OF Cons.prems] by (auto simp: resolving_iff, auto simp: lift_result_def)
      qed
    qed simp
  qed simp
  have circuits: "resolve_chip_graph_inner depth T store cids vis \<noteq> None"
    if "card (chips_of store - vis) \<le> depth" for cids vis
    using that
  proof (induction cids arbitrary: vis)
    case (Cons cid cids)
    show ?case
      using nodes [OF Cons.prems] Cons.IH [OF Cons.prems]
      by (auto simp: resolving_iff) (metis resolve_visiting(2))
  qed simp
  {
    case 1
    then show ?case
      by (rule circuits)
  next
    case 2
    then show ?case
      by (rule nodes)
  }
qed

text \<open>C37: Resolution of a chip graph terminates, cyclic or not: over a store with finitely many silicon chips,
  a recursion depth of their number is enough for every chip.\<close>

theorem resolve_terminates:
  assumes "finite (chips_of store)" "card (chips_of store) \<le> depth"
  shows "\<exists>r. resolve_chip_graph depth T store chip = Some r"
  using resolve_total(1) [of store "{}" depth T "chip_circuits chip"] assms by (auto simp: resolve_chip_graph_def)

lemma resolve_nodes_length:
  "resolve_nodes depth T store entries vis = Some (Inr (ns, vis')) \<Longrightarrow> length ns = length entries"
proof (induction entries arbitrary: vis ns)
  case (Cons e es)
  from Cons.prems show ?case
    by (cases rule: resolve_nodes_Cons) (use Cons.IH in auto)
qed simp

lemma parse_cids_ne: "parse_cids fld body = Inr cids \<Longrightarrow> cids \<noteq> []"
  by (auto simp: parse_cids_def result_simps split: if_split_asm)

lemma parse_circuit_modes:
  assumes "parse_circuit T j = Inr body"
  shows "sc_bits body \<noteq> [] \<and> (\<exists>cm agg. get_composition_mode T body = Inr cm \<and> get_aggregation_mode T body = Inr agg)"
  using assms by (auto simp: parse_circuit_def Let_def result_simps dest: parse_cids_ne)

lemma resolved_circuits:
  "resolve_chip_graph_inner depth T store cids vis = Some (Inr (cs, vis')) \<Longrightarrow>
   \<forall>c \<in> set cs. \<exists>code. compile_circuit T c = Inr code"
proof (induction cids arbitrary: vis cs)
  case (Cons cid cids)
  from Cons.prems show ?case
  proof (cases rule: resolve_circuits_Cons)
    case (1 body nodes vis1 cs')
    have "sc_bits body \<noteq> [] \<and> (\<exists>cm agg. get_composition_mode T body = Inr cm \<and> get_aggregation_mode T body = Inr agg)"
      using 1(1) by (auto simp: load_circuit_def result_simps dest: parse_circuit_modes)
    moreover have "length nodes = length (sc_bits body)"
      using resolve_nodes_length [OF 1(2)] .
    ultimately have "\<exists>code. compile_circuit T (ResolvedCircuit cid body nodes) = Inr code"
      by (auto simp: compile_circuit_ins)
    then show ?thesis
      using Cons.IH [OF 1(3)] 1(4) by auto
  qed
qed simp

text \<open>What resolution accepts, the compiler accepts: a chip graph that resolves always compiles, so a
  compilation of a stored chip fails only with an error of the store, of parsing or of resolution.\<close>

theorem resolved_chip_compiles:
  assumes "resolve_chip_graph depth T store chip = Some (Inr circuits)"
  shows "\<exists>code. compile_chip_to_ubl_vm T circuits = Inr code"
proof -
  have "\<forall>c \<in> set circuits. \<exists>code. compile_circuit T c = Inr code"
    using assms by (auto simp: resolve_chip_graph_def result_simps dest: resolved_circuits)
  then have "collect_results (compile_circuit T) circuits = Inr (map (\<lambda>c. projr (compile_circuit T c)) circuits)"
    by (intro collect_results_Inr_map) auto
  then show ?thesis
    by (auto simp: compile_chip_to_ubl_vm_def compile_circuits_inner_def)
qed

definition demo_entry :: "string \<Rightarrow> json \<Rightarrow> stored_chip" where
  "demo_entry t data = \<lparr>sc_cid = ''b3:x'', sc_type = t, sc_data = data, sc_receipt_cid = ''b3:r'', sc_created_at = ''2025'',
     sc_meta = \<lparr>em_runtime_version = [], em_execution_time_ms = 0, em_fuel_consumed = 0, em_policies_applied = [],
       em_executor_did = ''did:x'', em_reproducible = True\<rparr>, sc_tags = [], sc_related = []\<rparr>"

definition demo_store :: chip_store where
  "demo_store cid =
     (if cid = ''b3:b'' then Inr (Some (demo_entry TYPE_SILICON_BIT (JObj [(''id'', JStr ''b''),
        (''name'', JStr ''b''), (''condition'', JObj [(''Always'', JBool True)]), (''on_true'', JStr ''allow''),
        (''on_false'', JStr ''deny'')])))
      else if cid = ''b3:c'' then Inr (Some (demo_entry TYPE_SILICON_CIRCUIT (JObj [(''id'', JStr ''c''),
        (''name'', JStr ''c''), (''bits'', JArr [JStr ''b3:b'']), (''composition'', JStr ''sequential''),
        (''aggregator'', JStr ''all'')])))
      else Inr None)"

definition demo_chip :: silicon_chip_body where
  "demo_chip = \<lparr>chip_body_id = ''x'', chip_body_name = ''x'', chip_circuits = [''b3:c''],
     chip_hal = \<lparr>hal_profile_name = ''HAL/v0/cpu'', hal_targets = [], hal_deterministic = True, hal_timebase_ns = None,
       hal_energy_unit = None, hal_cost_unit = None\<rparr>, chip_version = ''1.0''\<rparr>"

lemma demo_chips: "chips_of demo_store = {}"
  by (auto simp: chips_of_def demo_store_def demo_entry_def split: if_split_asm)

theorem resolve_terminates_witness: "\<exists>r. resolve_chip_graph 0 demo_text demo_store demo_chip = Some r"
  by (rule resolve_terminates) (simp_all add: demo_chips)

lemma demo_resolves: "\<exists>cs. resolve_chip_graph 0 demo_text demo_store demo_chip = Some (Inr cs)"
  by (simp add: resolve_chip_graph_def demo_chip_def demo_text_def load_circuit_def get_chip_def demo_store_def demo_entry_def
      parse_circuit_def req_str_def get_str_def parse_cids_def get_array_def strip_prefix_def get_composition_mode_def
      get_aggregation_mode_def load_entry_def parse_bit_def from_value.simps legacy_leaf_def parse_decision_def Let_def)

theorem resolved_chip_compiles_witness:
  "\<exists>cs code. resolve_chip_graph 0 demo_text demo_store demo_chip = Some (Inr cs)
    \<and> compile_chip_to_ubl_vm demo_text cs = Inr code"
  using demo_resolves resolved_chip_compiles by blast

end
