(* ===== verification/Rate_Limit.thy ===== *)
theory Rate_Limit
  imports Ubl_Canon
begin

text \<open>
  Rate limiting (\<open>crates/ubl_runtime/src/rate_limit.rs\<close>): sliding windows per key, the limiter of
  one dimension, the combined limiter of the gate and the limiter on canonical payloads. An
  instant and a duration are integers of nanoseconds; each operation takes the instant it reads
  from the clock as an argument. A panic is \<^const>\<open>None\<close>. An operation reads the clock first and then
  waits for the limiter's lock, under which the rest of it is atomic: \<open>rl_conc\<close> interleaves operations this
  way, and \<open>rl_reach\<close> is the special case in which none waits.
\<close>

section \<open>Windows\<close>

type_synonym instant = int

record rate_limit_config =
  max_requests :: u32
  window :: instant

definition per_minute :: "u32 \<Rightarrow> rate_limit_config" where
  "per_minute n = \<lparr>max_requests = n, window = 60 * 1000000000\<rparr>"

definition default_did_limit :: rate_limit_config where
  "default_did_limit = per_minute 100"

definition default_tenant_limit :: rate_limit_config where
  "default_tenant_limit = per_minute 1000"

definition default_ip_limit :: rate_limit_config where
  "default_ip_limit = per_minute 10"

record window_entry =
  timestamps :: "instant list"

definition window_entry_new :: window_entry where
  "window_entry_new = \<lparr>timestamps = []\<rparr>"

datatype rate_limit_result =
    Allowed (result_limit: u32) (result_remaining: u32)
  | Limited (result_limit: u32) (result_remaining: u32) (result_retry_after: instant)

fun is_allowed :: "rate_limit_result \<Rightarrow> bool" where
  "is_allowed (Allowed _ _) \<longleftrightarrow> True"
| "is_allowed (Limited _ _ _) \<longleftrightarrow> False"

fun is_limited :: "rate_limit_result \<Rightarrow> bool" where
  "is_limited (Allowed _ _) \<longleftrightarrow> False"
| "is_limited (Limited _ _ _) \<longleftrightarrow> True"

fun retry_after_secs :: "rate_limit_result \<Rightarrow> int option" where
  "retry_after_secs (Limited _ _ d) = Some (d div 1000000000 + 1)"
| "retry_after_secs (Allowed _ _) = None"

definition live :: "instant \<Rightarrow> rate_limit_config \<Rightarrow> instant list \<Rightarrow> instant list" where
  "live now c ts = filter (\<lambda>t. t > now - window c) ts"

text \<open>The index panics on an empty window, and subtraction of instants saturates at zero.\<close>

definition check_and_record ::
  "instant \<Rightarrow> rate_limit_config \<Rightarrow> window_entry \<Rightarrow> (rate_limit_result \<times> window_entry) option" where
  "check_and_record now c e =
     (let ts = live now c (timestamps e); current = of_nat (length ts) :: u32
      in if current \<ge> max_requests c
         then (case ts of
                 [] \<Rightarrow> None
               | oldest # _ \<Rightarrow> Some (Limited (max_requests c) 0 (window c - max 0 (now - oldest)), \<lparr>timestamps = ts\<rparr>))
         else Some (Allowed (max_requests c) (max_requests c - current - 1), \<lparr>timestamps = ts @ [now]\<rparr>))"

definition saturating_sub_u32 :: "u32 \<Rightarrow> u32 \<Rightarrow> u32" where
  "saturating_sub_u32 a b = (if a < b then 0 else a - b)"

definition entry_remaining :: "instant \<Rightarrow> rate_limit_config \<Rightarrow> window_entry \<Rightarrow> u32" where
  "entry_remaining now c e = saturating_sub_u32 (max_requests c) (of_nat (length (live now c (timestamps e))))"

section \<open>Limiters\<close>

record rate_limiter =
  rl_config :: rate_limit_config
  rl_entries :: "string \<rightharpoonup> window_entry"

definition rate_limiter_new :: "rate_limit_config \<Rightarrow> rate_limiter" where
  "rate_limiter_new c = \<lparr>rl_config = c, rl_entries = Map.empty\<rparr>"

definition entry_or_new :: "rate_limiter \<Rightarrow> string \<Rightarrow> window_entry" where
  "entry_or_new rl key = (case rl_entries rl key of Some e \<Rightarrow> e | None \<Rightarrow> window_entry_new)"

definition rl_check :: "instant \<Rightarrow> string \<Rightarrow> rate_limiter \<Rightarrow> (rate_limit_result \<times> rate_limiter) option" where
  "rl_check now key rl =
     map_option (\<lambda>(r, e). (r, rl\<lparr>rl_entries := (rl_entries rl)(key \<mapsto> e)\<rparr>))
       (check_and_record now (rl_config rl) (entry_or_new rl key))"

definition rl_remaining :: "instant \<Rightarrow> string \<Rightarrow> rate_limiter \<Rightarrow> u32" where
  "rl_remaining now key rl =
     (case rl_entries rl key of
        Some e \<Rightarrow> entry_remaining now (rl_config rl) e
      | None \<Rightarrow> max_requests (rl_config rl))"

definition rl_prune :: "instant \<Rightarrow> rate_limiter \<Rightarrow> rate_limiter" where
  "rl_prune now rl = rl\<lparr>rl_entries := (\<lambda>key.
     case rl_entries rl key of
       None \<Rightarrow> None
     | Some e \<Rightarrow>
         (let ts = live now (rl_config rl) (timestamps e)
          in if ts = [] then None else Some \<lparr>timestamps = ts\<rparr>))\<rparr>"

record gate_rate_limiter =
  did_limiter :: rate_limiter
  tenant_limiter :: rate_limiter
  ip_limiter :: rate_limiter

definition gate_rate_limiter_new :: gate_rate_limiter where
  "gate_rate_limiter_new = \<lparr>did_limiter = rate_limiter_new default_did_limit,
     tenant_limiter = rate_limiter_new default_tenant_limit, ip_limiter = rate_limiter_new default_ip_limit\<rparr>"

definition gate_with_config ::
  "rate_limit_config \<Rightarrow> rate_limit_config \<Rightarrow> rate_limit_config \<Rightarrow> gate_rate_limiter" where
  "gate_with_config did_config tenant_config ip_config = \<lparr>did_limiter = rate_limiter_new did_config,
     tenant_limiter = rate_limiter_new tenant_config, ip_limiter = rate_limiter_new ip_config\<rparr>"

record gate_rate_limit_result =
  gr_allowed :: bool
  gr_limited_by :: string
  gr_result :: rate_limit_result

text \<open>The check of an optional key; \<open>now\<close> is read from the clock once per dimension.\<close>

definition opt_check ::
  "instant \<Rightarrow> string option \<Rightarrow> rate_limiter \<Rightarrow> (rate_limit_result option \<times> rate_limiter) option" where
  "opt_check now key rl =
     (case key of
        None \<Rightarrow> Some (None, rl)
      | Some k \<Rightarrow> map_option (\<lambda>(r, rl'). (Some r, rl')) (rl_check now k rl))"

definition limits :: "rate_limit_result option \<Rightarrow> rate_limit_result option" where
  "limits r = (case r of Some q \<Rightarrow> if is_limited q then Some q else None | None \<Rightarrow> None)"

definition gate_check ::
  "instant \<times> instant \<times> instant \<Rightarrow> string \<Rightarrow> string option \<Rightarrow> string option \<Rightarrow> gate_rate_limiter
    \<Rightarrow> (gate_rate_limit_result \<times> gate_rate_limiter) option" where
  "gate_check clock ip tenant did g =
     (case clock of (now_ip, now_tenant, now_did) \<Rightarrow>
      Option.bind (rl_check now_ip ip (ip_limiter g)) (\<lambda>(ip_result, ip_rl).
        let g1 = g\<lparr>ip_limiter := ip_rl\<rparr>
        in if is_limited ip_result
           then Some (\<lparr>gr_allowed = False, gr_limited_by = ''ip'', gr_result = ip_result\<rparr>, g1)
           else Option.bind (opt_check now_tenant tenant (tenant_limiter g1)) (\<lambda>(tenant_result, tenant_rl).
             let g2 = g1\<lparr>tenant_limiter := tenant_rl\<rparr>
             in case limits tenant_result of
                  Some r \<Rightarrow> Some (\<lparr>gr_allowed = False, gr_limited_by = ''tenant'', gr_result = r\<rparr>, g2)
                | None \<Rightarrow> Option.bind (opt_check now_did did (did_limiter g2)) (\<lambda>(did_result, did_rl).
                    let g3 = g2\<lparr>did_limiter := did_rl\<rparr>
                    in case limits did_result of
                         Some r \<Rightarrow> Some (\<lparr>gr_allowed = False, gr_limited_by = ''did'', gr_result = r\<rparr>, g3)
                       | None \<Rightarrow> Some (\<lparr>gr_allowed = True, gr_limited_by = [], gr_result = ip_result\<rparr>, g3)))))"

definition gate_prune_all :: "instant \<Rightarrow> gate_rate_limiter \<Rightarrow> gate_rate_limiter" where
  "gate_prune_all now g = \<lparr>did_limiter = rl_prune now (did_limiter g),
     tenant_limiter = rl_prune now (tenant_limiter g), ip_limiter = rl_prune now (ip_limiter g)\<rparr>"

definition canon_default_config :: rate_limit_config where
  "canon_default_config = per_minute 5"

text \<open>\<open>CanonRateLimiter\<close> wraps one limiter keyed by the canonical fingerprint; the outer option is
  the panic of the limiter.\<close>

definition check_body ::
  "('sk, 'vk) crypto_env \<Rightarrow> instant \<Rightarrow> json \<Rightarrow> rate_limiter
    \<Rightarrow> ((canon_fingerprint \<times> rate_limit_result) option \<times> rate_limiter) option" where
  "check_body K now body rl =
     (case from_chip_body K body of
        None \<Rightarrow> Some (None, rl)
      | Some fp \<Rightarrow> map_option (\<lambda>(r, rl'). (Some (fp, r), rl')) (rl_check now (rate_key fp) rl))"

section \<open>Reachable limiters\<close>

text \<open>
  Sequences of operations that get the lock at the instant they read the clock, which does not run backwards, with the
  admitted requests in order.
\<close>

inductive rl_reach :: "rate_limit_config \<Rightarrow> rate_limiter \<Rightarrow> instant \<Rightarrow> (instant \<times> string) list \<Rightarrow> bool"
  for c :: rate_limit_config where
  fresh: "rl_reach c (rate_limiter_new c) t []"
| check: "rl_reach c rl t h \<Longrightarrow> t \<le> now \<Longrightarrow> rl_check now key rl = Some (r, rl') \<Longrightarrow>
    rl_reach c rl' now (if is_allowed r then h @ [(now, key)] else h)"
| prune: "rl_reach c rl t h \<Longrightarrow> t \<le> now \<Longrightarrow> rl_reach c (rl_prune now rl) now h"

definition admitted :: "string \<Rightarrow> (instant \<times> string) list \<Rightarrow> instant list" where
  "admitted key h = map fst (filter (\<lambda>p. snd p = key) h)"

definition in_window :: "rate_limit_config \<Rightarrow> instant \<Rightarrow> instant list \<Rightarrow> instant list" where
  "in_window c u ts = filter (\<lambda>t. u - window c < t \<and> t \<le> u) ts"

lemma admitted_append [simp]:
  "admitted key [] = []" "admitted key (h @ [(now, k)]) = (if k = key then admitted key h @ [now] else admitted key h)"
  by (simp_all add: admitted_def)

abbreviation entry_times :: "rate_limiter \<Rightarrow> string \<Rightarrow> instant list" where
  "entry_times rl key \<equiv> timestamps (entry_or_new rl key)"

text \<open>
  The window of a key holds its admitted requests after some cutoff that is old enough, at most as
  many as allowed, and no window of the past has more.
\<close>

definition rl_inv :: "rate_limit_config \<Rightarrow> rate_limiter \<Rightarrow> instant \<Rightarrow> (instant \<times> string) list \<Rightarrow> bool" where
  "rl_inv c rl t h \<longleftrightarrow> rl_config rl = c \<and> (\<forall>p \<in> set h. fst p \<le> t)
     \<and> (\<forall>key. \<exists>lo \<le> t - window c. entry_times rl key = filter (\<lambda>a. lo < a) (admitted key h))
     \<and> (\<forall>key. length (entry_times rl key) \<le> unat (max_requests c))
     \<and> (\<forall>key u. length (in_window c u (admitted key h)) \<le> unat (max_requests c))"

lemma length_live_le: "length (live now c ts) \<le> length ts"
  by (simp add: live_def)

lemma unat_count: "n \<le> unat (w :: u32) \<Longrightarrow> unat (of_nat n :: u32) = n"
proof -
  assume "n \<le> unat w"
  moreover have "unat w < 2 ^ 32"
    using unsigned_less [of w] by simp
  ultimately show ?thesis
    by (simp add: unat_of_nat)
qed

lemma check_and_record_cases:
  assumes "check_and_record now c e = Some (r, e')" "length (timestamps e) \<le> unat (max_requests c)"
  obtains (allowed) "is_allowed r" "length (live now c (timestamps e)) < unat (max_requests c)"
      "timestamps e' = live now c (timestamps e) @ [now]"
    | (limited) "\<not> is_allowed r" "length (live now c (timestamps e)) = unat (max_requests c)"
      "timestamps e' = live now c (timestamps e)"
proof -
  have len: "length (live now c (timestamps e)) \<le> unat (max_requests c)"
    using length_live_le assms(2) by (rule order_trans)
  show thesis
    using assms(1) len that unat_count [OF len]
    by (auto simp: check_and_record_def Let_def word_le_nat_alt split: if_split_asm list.split_asm)
qed

lemma live_filter:
  "lo \<le> now - window c \<Longrightarrow> live now c (filter (\<lambda>a. lo < a) ts) = filter (\<lambda>a. now - window c < a) ts"
  by (auto simp: live_def intro!: filter_cong)

lemma entry_or_new_update [simp]:
  "entry_or_new (rl\<lparr>rl_entries := (rl_entries rl)(key \<mapsto> e)\<rparr>) k = (if k = key then e else entry_or_new rl k)"
  by (simp add: entry_or_new_def)

lemma entry_times_prune: "entry_times (rl_prune now rl) key = live now (rl_config rl) (entry_times rl key)"
  by (simp add: entry_or_new_def rl_prune_def window_entry_new_def live_def Let_def split: option.split)

lemma rl_inv_later:
  assumes "rl_inv c rl t h" "t \<le> now"
  shows "rl_inv c rl now h"
proof -
  have "\<exists>lo \<le> now - window c. entry_times rl key = filter (\<lambda>a. lo < a) (admitted key h)" for key
  proof -
    obtain lo where "lo \<le> t - window c" "entry_times rl key = filter (\<lambda>a. lo < a) (admitted key h)"
      using assms(1) unfolding rl_inv_def by blast
    with assms(2) show ?thesis
      by (intro exI [of _ lo]) simp
  qed
  with assms show ?thesis
    unfolding rl_inv_def by force
qed

lemma in_window_push:
  assumes "length (filter (\<lambda>a. now - window c < a) ts) < n" "length (in_window c u ts) \<le> n"
  shows "length (in_window c u (ts @ [now])) \<le> n"
proof (cases "u - window c < now \<and> now \<le> u")
  case True
  have "length (in_window c u ts) \<le> length (filter (\<lambda>a. now - window c < a) ts)"
    unfolding in_window_def using True by (induction ts) auto
  with assms(1) True show ?thesis
    by (simp add: in_window_def)
qed (use assms(2) in \<open>auto simp: in_window_def\<close>)

lemma rl_inv_check:
  assumes inv: "rl_inv c rl now h" and W: "0 < window c" and r: "rl_check now key rl = Some (r, rl')"
  shows "rl_inv c rl' now (if is_allowed r then h @ [(now, key)] else h)"
proof -
  let ?e = "entry_or_new rl key" and ?H = "admitted key h" and ?n = "unat (max_requests c)"
  have c: "rl_config rl = c" and times: "\<forall>p \<in> set h. fst p \<le> now"
    and len: "\<And>key. length (entry_times rl key) \<le> ?n"
    and win: "\<And>key u. length (in_window c u (admitted key h)) \<le> ?n"
    and lo: "\<And>key. \<exists>lo \<le> now - window c. entry_times rl key = filter (\<lambda>a. lo < a) (admitted key h)"
    using inv by (auto simp: rl_inv_def)
  obtain e' where e': "check_and_record now c ?e = Some (r, e')" "rl' = rl\<lparr>rl_entries := (rl_entries rl)(key \<mapsto> e')\<rparr>"
    using r by (auto simp: rl_check_def c)
  have live: "live now c (timestamps ?e) = filter (\<lambda>a. now - window c < a) ?H"
    using lo [of key] live_filter by metis
  have other: "\<exists>lo \<le> now - window c. entry_times rl' k = filter (\<lambda>a. lo < a) (admitted k h)"
    "length (entry_times rl' k) \<le> ?n" if "k \<noteq> key" for k
    using lo [of k] len [of k] that by (simp_all add: e'(2))
  from e'(1) len [of key] show ?thesis
  proof (cases rule: check_and_record_cases)
    case allowed
    have "entry_times rl' key = filter (\<lambda>a. now - window c < a) (?H @ [now])"
      using allowed(3) W by (simp add: e'(2) live)
    moreover have "length (entry_times rl' key) \<le> ?n"
      using allowed(2,3) by (simp add: e'(2))
    moreover have "length (in_window c u (?H @ [now])) \<le> ?n" for u
      using allowed(2) win by (intro in_window_push) (simp_all add: live)
    ultimately have "\<exists>lo \<le> now - window c. entry_times rl' k = filter (\<lambda>a. lo < a) (admitted k (h @ [(now, key)]))"
      "length (entry_times rl' k) \<le> ?n" "length (in_window c u (admitted k (h @ [(now, key)]))) \<le> ?n" for k u
      using other [of k] win [of u k] by (cases "k = key"; force)+
    then show ?thesis
      unfolding rl_inv_def using allowed(1) c times by (auto simp: e'(2))
  next
    case limited
    have "entry_times rl' key = filter (\<lambda>a. now - window c < a) ?H" "length (entry_times rl' key) \<le> ?n"
      using limited(2,3) by (simp_all add: e'(2) live)
    then have "\<exists>lo \<le> now - window c. entry_times rl' k = filter (\<lambda>a. lo < a) (admitted k h)"
      "length (entry_times rl' k) \<le> ?n" for k
      using other [of k] by (cases "k = key"; force)+
    then show ?thesis
      unfolding rl_inv_def using limited(1) c times win by (auto simp: e'(2))
  qed
qed

lemma rl_inv_prune:
  assumes inv: "rl_inv c rl now h"
  shows "rl_inv c (rl_prune now rl) now h"
proof -
  have "entry_times (rl_prune now rl) key = filter (\<lambda>a. now - window c < a) (admitted key h)
      \<and> length (entry_times (rl_prune now rl) key) \<le> unat (max_requests c)" for key
  proof -
    obtain lo where "lo \<le> now - window c" "entry_times rl key = filter (\<lambda>a. lo < a) (admitted key h)"
      "length (entry_times rl key) \<le> unat (max_requests c)" "rl_config rl = c"
      using inv unfolding rl_inv_def by blast
    with live_filter [of lo now c] length_live_le [of now c "entry_times rl key"] show ?thesis
      by (simp add: entry_times_prune)
  qed
  moreover have "rl_config (rl_prune now rl) = rl_config rl"
    by (simp add: rl_prune_def)
  ultimately show ?thesis
    using inv unfolding rl_inv_def by (metis order_refl)
qed

lemma rl_reach_inv: "rl_reach c rl t h \<Longrightarrow> 0 < window c \<Longrightarrow> rl_inv c rl t h"
proof (induction rule: rl_reach.induct)
  case (fresh t)
  show ?case
    by (auto simp: rl_inv_def rate_limiter_new_def entry_or_new_def window_entry_new_def in_window_def)
next
  case (check rl t h now key r rl')
  then show ?case
    by (intro rl_inv_check) (simp_all add: rl_inv_later)
next
  case (prune rl t h now)
  then show ?case
    by (intro rl_inv_prune) (simp add: rl_inv_later)
qed

section \<open>Concurrent operations\<close>

text \<open>
  Operations that wait for the lock: \<open>T\<close> is the clock, \<open>ps\<close> holds the operations between their reading of the clock and
  the lock (\<open>Some key\<close> a check, \<open>None\<close> a prune) with the instants they read, \<open>h\<close> the admitted requests with their instants in the order
  of the lock. The waiting operations are served in any order; \<open>d\<close> bounds the wait: the clock does not pass the
  instant of a waiting operation by more than \<open>d\<close>.
\<close>

inductive rl_conc :: "rate_limit_config \<Rightarrow> instant \<Rightarrow> rate_limiter \<Rightarrow> instant \<Rightarrow> (instant \<times> string option) list
    \<Rightarrow> (instant \<times> string) list \<Rightarrow> bool" for c :: rate_limit_config and d :: instant where
  conc_fresh: "rl_conc c d (rate_limiter_new c) T [] []"
| conc_tick: "rl_conc c d rl T ps h \<Longrightarrow> T \<le> T' \<Longrightarrow> (\<forall>p \<in> set ps. T' - d \<le> fst p) \<Longrightarrow> rl_conc c d rl T' ps h"
| conc_read: "rl_conc c d rl T ps h \<Longrightarrow> rl_conc c d rl T (ps @ [(T, job)]) h"
| conc_check: "rl_conc c d rl T (ps @ (now, Some key) # qs) h \<Longrightarrow> rl_check now key rl = Some (r, rl') \<Longrightarrow>
    rl_conc c d rl' T (ps @ qs) (if is_allowed r then h @ [(now, key)] else h)"
| conc_prune: "rl_conc c d rl T (ps @ (now, None) # qs) h \<Longrightarrow> rl_conc c d (rl_prune now rl) T (ps @ qs) h"

definition in_span :: "instant \<Rightarrow> instant \<Rightarrow> instant list \<Rightarrow> instant list" where
  "in_span l u ts = filter (\<lambda>t. u - l < t \<and> t \<le> u) ts"

text \<open>
  What is in force at the lock: waiting operations are not older than the bound; the window of a key holds all of its admitted
  requests of the last window of the clock; it never holds more than allowed, and neither does any span that is shorter by the bound.
\<close>

definition conc_inv :: "rate_limit_config \<Rightarrow> instant \<Rightarrow> rate_limiter \<Rightarrow> instant \<Rightarrow> (instant \<times> string option) list \<Rightarrow> (instant \<times> string) list \<Rightarrow> bool" where
  "conc_inv c d rl T ps h \<longleftrightarrow> rl_config rl = c \<and> (\<forall>p \<in> set ps. T - d \<le> fst p \<and> fst p \<le> T)
     \<and> (\<forall>key. live T c (entry_times rl key) = live T c (admitted key h))
     \<and> (\<forall>key. length (entry_times rl key) \<le> unat (max_requests c))
     \<and> (\<forall>key u. length (in_span (window c - d) u (admitted key h)) \<le> unat (max_requests c))"

lemma live_live: "now \<le> T \<Longrightarrow> live T c (live now c ts) = live T c ts"
  by (auto simp: live_def intro!: filter_cong)

lemma live_append: "live T c (ts @ us) = live T c ts @ live T c us"
  by (simp add: live_def)

lemma in_span_push:
  assumes "length (live now c es) < n" "live T c es = live T c ts" "T - d \<le> now" "now \<le> T" "length (in_span (window c - d) u ts) \<le> n"
  shows "length (in_span (window c - d) u (ts @ [now])) \<le> n"
proof (cases "u - (window c - d) < now \<and> now \<le> u")
  case True
  have "length (in_span (window c - d) u ts) \<le> length (live T c ts)"
    unfolding in_span_def live_def using True assms(3) by (induction ts) auto
  also have "\<dots> = length (live T c (live now c es))"
    by (simp add: assms(2) live_live [OF assms(4)])
  also have "\<dots> \<le> length (live now c es)"
    by (rule length_live_le)
  finally show ?thesis
    using assms(1) True by (simp add: in_span_def)
qed (use assms(5) in \<open>auto simp: in_span_def\<close>)

lemma conc_inv_check:
  assumes inv: "conc_inv c d rl T (ps @ (now, Some key) # qs) h" and r: "rl_check now key rl = Some (r, rl')"
  shows "conc_inv c d rl' T (ps @ qs) (if is_allowed r then h @ [(now, key)] else h)"
proof -
  let ?e = "entry_or_new rl key" and ?n = "unat (max_requests c)"
  have c: "rl_config rl = c" and waiting: "\<forall>p \<in> set (ps @ qs). T - d \<le> fst p \<and> fst p \<le> T" and now: "T - d \<le> now" "now \<le> T"
    and kept: "\<And>key. live T c (entry_times rl key) = live T c (admitted key h)" and len: "\<And>key. length (entry_times rl key) \<le> ?n"
    and bound: "\<And>key u. length (in_span (window c - d) u (admitted key h)) \<le> ?n"
    using inv by (auto simp: conc_inv_def)
  obtain e' where e': "check_and_record now c ?e = Some (r, e')" "rl' = rl\<lparr>rl_entries := (rl_entries rl)(key \<mapsto> e')\<rparr>"
    using r by (auto simp: rl_check_def c)
  from e'(1) len [of key] show ?thesis
  proof (cases rule: check_and_record_cases)
    case allowed
    have "length (in_span (window c - d) u (admitted k (h @ [(now, key)]))) \<le> ?n" for k u
      using in_span_push [OF allowed(2) kept now bound] bound by (cases "k = key") simp_all
    moreover have "live T c (entry_times rl' k) = live T c (admitted k (h @ [(now, key)]))" for k
      using allowed(3) kept by (simp add: e'(2) live_append live_live [OF now(2)])
    moreover have "length (entry_times rl' k) \<le> ?n" for k
      using allowed(2,3) len by (simp add: e'(2))
    ultimately show ?thesis
      unfolding conc_inv_def using allowed(1) c waiting by (simp add: e'(2))
  next
    case limited
    then have "live T c (entry_times rl' k) = live T c (admitted k h)" "length (entry_times rl' k) \<le> ?n" for k
      using kept len by (simp_all add: e'(2) live_live [OF now(2)])
    then show ?thesis
      unfolding conc_inv_def using limited(1) c waiting bound by (simp add: e'(2))
  qed
qed

lemma conc_inv_prune:
  assumes "conc_inv c d rl T (ps @ (now, None) # qs) h"
  shows "conc_inv c d (rl_prune now rl) T (ps @ qs) h"
proof -
  have now: "now \<le> T" and c: "rl_config rl = c"
    using assms by (auto simp: conc_inv_def)
  have "length (entry_times (rl_prune now rl) key) \<le> unat (max_requests c)" for key
    using assms length_live_le [of now c "entry_times rl key"] unfolding conc_inv_def entry_times_prune c by (meson order_trans)
  moreover have "rl_config (rl_prune now rl) = c"
    by (simp add: rl_prune_def c)
  ultimately show ?thesis
    using assms by (simp add: conc_inv_def entry_times_prune live_live [OF now])
qed

lemma conc_inv_tick:
  assumes "conc_inv c d rl T ps h" "T \<le> T'" "\<forall>p \<in> set ps. T' - d \<le> fst p"
  shows "conc_inv c d rl T' ps h"
proof -
  have "live T' c (entry_times rl key) = live T' c (admitted key h)" for key
    using assms(1) live_live [OF assms(2), of c] unfolding conc_inv_def by metis
  with assms show ?thesis
    unfolding conc_inv_def by force
qed

lemma rl_conc_inv: "rl_conc c d rl T ps h \<Longrightarrow> 0 \<le> d \<Longrightarrow> conc_inv c d rl T ps h"
proof (induction rule: rl_conc.induct)
  case (conc_fresh T)
  show ?case
    by (simp add: conc_inv_def rate_limiter_new_def entry_or_new_def window_entry_new_def in_span_def)
next
  case (conc_read rl T ps h job)
  then show ?case
    by (auto simp: conc_inv_def)
qed (simp_all add: conc_inv_tick conc_inv_check conc_inv_prune)

text \<open>The sequential runs are the concurrent ones without waiting.\<close>

lemma sequential_conc: "rl_reach c rl t h \<Longrightarrow> rl_conc c 0 rl t [] h"
proof (induction rule: rl_reach.induct)
  case (check rl t h now key r rl')
  then have "rl_conc c 0 rl now ([] @ [(now, Some key)]) h"
    by (intro conc_read conc_tick [OF check.IH]) simp_all
  from conc_check [where ps = "[]" and qs = "[]", OF this check.hyps(3)] show ?case
    by simp
next
  case (prune rl t h now)
  then have "rl_conc c 0 rl now ([] @ [(now, None)]) h"
    by (intro conc_read conc_tick [OF prune.IH]) simp_all
  then show ?case
    using conc_prune [of c 0 rl now "[]" now "[]" h] by simp
qed (rule conc_fresh)

section \<open>Properties\<close>

text \<open>C11: The limit holds in every window, not only in aligned ones, and under concurrency: operations read the clock, wait for the
  lock and are served in any order, and no span of time that is shorter than the configured window by the longest wait \<open>d\<close> between the
  reading of the clock and the lock contains more admitted requests of a key than the configured maximum. Without waiting (\<open>d = 0\<close>)
  this is the configured window itself; with waiting, a full window can contain more (\<open>out_of_order_exceeds\<close>).\<close>

theorem sliding_window_bound:
  assumes "rl_conc c d rl T ps h" "0 \<le> d"
  shows "length (in_span (window c - d) u (admitted key h)) \<le> unat (max_requests c)"
  using rl_conc_inv [OF assms] by (simp add: conc_inv_def)

definition demo_limit :: rate_limit_config where
  "demo_limit = \<lparr>max_requests = 1, window = 10\<rparr>"

lemma demo_reach:
  "rl_reach demo_limit (rate_limiter_new demo_limit\<lparr>rl_entries := [''k'' \<mapsto> \<lparr>timestamps = [5]\<rparr>]\<rparr>) 5 [(5, ''k'')]"
proof -
  have "rl_check 5 ''k'' (rate_limiter_new demo_limit)
      = Some (Allowed 1 0, rate_limiter_new demo_limit\<lparr>rl_entries := [''k'' \<mapsto> \<lparr>timestamps = [5]\<rparr>]\<rparr>)"
    by (simp add: rl_check_def rate_limiter_new_def entry_or_new_def window_entry_new_def check_and_record_def
        live_def demo_limit_def)
  from rl_reach.check [OF rl_reach.fresh [of _ 0] _ this] show ?thesis
    by simp
qed

text \<open>Two checks of a key read the clock at 5 and at 6; the later one gets the lock first.\<close>

definition demo_limiter :: rate_limiter where
  "demo_limiter = rate_limiter_new demo_limit\<lparr>rl_entries := [''k'' \<mapsto> \<lparr>timestamps = [6]\<rparr>]\<rparr>"

lemma demo_checks:
  "rl_check 6 ''k'' (rate_limiter_new demo_limit) = Some (Allowed 1 0, demo_limiter)"
  "rl_check 5 ''k'' demo_limiter = Some (Limited 1 0 10, demo_limiter)"
  by (simp_all add: rl_check_def demo_limiter_def rate_limiter_new_def entry_or_new_def window_entry_new_def check_and_record_def
      live_def demo_limit_def)

lemma demo_conc: "rl_conc demo_limit 1 demo_limiter 6 [] [(6, ''k'')]"
proof -
  have "rl_conc demo_limit 1 (rate_limiter_new demo_limit) 5 ([] @ [(5, Some ''k'')]) []"
    by (intro conc_read conc_fresh)
  from conc_tick [OF this, of 6] have "rl_conc demo_limit 1 (rate_limiter_new demo_limit) 6 [(5, Some ''k'')] []"
    by simp
  from conc_read [OF this] have "rl_conc demo_limit 1 (rate_limiter_new demo_limit) 6 ([(5, Some ''k'')] @ [(6, Some ''k'')]) []" .
  from conc_check [OF this demo_checks(1)] have "rl_conc demo_limit 1 demo_limiter 6 ([] @ (5, Some ''k'') # []) [(6, ''k'')]"
    by simp
  from conc_check [OF this demo_checks(2)] show ?thesis
    by simp
qed

theorem sliding_window_bound_witness: "length (in_span 9 7 (admitted ''k'' [(6, ''k'')])) \<le> 1"
  using sliding_window_bound [OF demo_conc, of 7 "''k''"] by (simp add: demo_limit_def)

text \<open>Requests are limited only when they must be: a check admits a request exactly when fewer than the
  maximum were admitted for its key in the window that ends now, and reports the quota that is
  left.\<close>

theorem sliding_window_exact:
  assumes "rl_reach c rl t h" "0 < window c" "t \<le> now" "rl_check now key rl = Some (r, rl')"
  shows "(is_allowed r \<longleftrightarrow> length (in_window c now (admitted key h)) < unat (max_requests c))
    \<and> unat (result_remaining r) = unat (max_requests c) - length (in_window c now (admitted key h)) - 1"
proof -
  have inv: "rl_inv c rl now h"
    using rl_inv_later [OF rl_reach_inv [OF assms(1,2)] assms(3)] .
  then obtain lo where c: "rl_config rl = c" and lo: "lo \<le> now - window c"
      "entry_times rl key = filter (\<lambda>a. lo < a) (admitted key h)"
    and len: "length (entry_times rl key) \<le> unat (max_requests c)" and times: "\<forall>p \<in> set h. fst p \<le> now"
    unfolding rl_inv_def by blast
  have live: "live now c (entry_times rl key) = in_window c now (admitted key h)"
    using times unfolding lo(2) live_filter [OF lo(1)]
    by (auto simp: in_window_def admitted_def intro!: filter_cong)
  let ?n = "length (in_window c now (admitted key h))"
  have n: "?n \<le> unat (max_requests c)"
    using len length_live_le [of now c "entry_times rl key"] by (simp add: live)
  obtain e' where e': "check_and_record now c (entry_or_new rl key) = Some (r, e')"
    using assms(4) by (auto simp: rl_check_def c)
  have cur: "unat (of_nat ?n :: u32) = ?n"
    using unat_count [OF n] .
  show ?thesis
  proof (cases "?n < unat (max_requests c)")
    case True
    then have lt: "of_nat ?n < max_requests c"
      by (simp add: word_less_nat_alt cur)
    then have "r = Allowed (max_requests c) (max_requests c - of_nat ?n - 1)"
      using e' by (simp add: check_and_record_def Let_def live split: if_split_asm)
    moreover have "unat (max_requests c - of_nat ?n - 1) = unat (max_requests c) - ?n - 1"
    proof -
      have "unat (max_requests c - of_nat ?n) = unat (max_requests c) - ?n"
        using lt by (simp add: unat_sub cur order_less_imp_le)
      then show ?thesis
        using True by (subst unat_sub) (simp_all add: word_le_nat_alt)
    qed
    ultimately show ?thesis
      using True by simp
  next
    case False
    then have "max_requests c \<le> of_nat ?n"
      by (simp add: word_le_nat_alt cur)
    then show ?thesis
      using e' False by (auto simp: check_and_record_def Let_def live split: list.split_asm)
  qed
qed

theorem sliding_window_exact_witness:
  "\<exists>r rl'. rl_check 7 ''k'' (rate_limiter_new demo_limit\<lparr>rl_entries := [''k'' \<mapsto> \<lparr>timestamps = [5]\<rparr>]\<rparr>) = Some (r, rl')
    \<and> \<not> is_allowed r"
proof -
  let ?rl = "rate_limiter_new demo_limit\<lparr>rl_entries := [''k'' \<mapsto> \<lparr>timestamps = [5]\<rparr>]\<rparr>"
  obtain r rl' where r: "rl_check 7 ''k'' ?rl = Some (r, rl')"
    by (simp add: rl_check_def rate_limiter_new_def entry_or_new_def check_and_record_def live_def demo_limit_def)
  have "\<not> is_allowed r"
    using sliding_window_exact [OF demo_reach _ _ r]
    by (simp add: demo_limit_def in_window_def admitted_def)
  with r show ?thesis
    by blast
qed

text \<open>A limit of zero panics: the check of a reachable limiter fails, by an index out of bounds, exactly
  when the configured maximum is zero, where every request should be limited.\<close>

theorem zero_limit_panics:
  assumes "rl_reach c rl t h" "0 < window c" "t \<le> now"
  shows "rl_check now key rl = None \<longleftrightarrow> max_requests c = 0"
proof -
  have inv: "rl_inv c rl now h"
    using rl_inv_later [OF rl_reach_inv [OF assms(1,2)] assms(3)] .
  then have c: "rl_config rl = c" and len: "length (entry_times rl key) \<le> unat (max_requests c)"
    unfolding rl_inv_def by blast+
  have n: "length (live now c (entry_times rl key)) \<le> unat (max_requests c)"
    using len length_live_le [of now c "entry_times rl key"] by linarith
  have "rl_check now key rl = None \<longleftrightarrow> max_requests c \<le> of_nat (length (live now c (entry_times rl key)))
      \<and> live now c (entry_times rl key) = []"
    by (auto simp: rl_check_def c check_and_record_def Let_def split: list.split)
  also have "\<dots> \<longleftrightarrow> max_requests c = 0"
    using n by (auto simp: word_le_nat_alt unat_eq_0)
  finally show ?thesis .
qed

theorem zero_limit_panics_witness: "rl_check 5 ''k'' (rate_limiter_new \<lparr>max_requests = 0, window = 10\<rparr>) = None"
  using zero_limit_panics [OF rl_reach.fresh [of "\<lparr>max_requests = 0, window = 10\<rparr>" 0], of 5 "''k''"] by simp

text \<open>
  The bound on the span is needed: the code reads the clock before it waits for the lock, so requests may be recorded out of order;
  then a later request can prune what an earlier one still has to count.
\<close>

fun serve :: "rate_limiter \<Rightarrow> string \<Rightarrow> instant list \<Rightarrow> instant list" where
  "serve rl key [] = []"
| "serve rl key (now # ts) =
     (case rl_check now key rl of
        None \<Rightarrow> []
      | Some (r, rl') \<Rightarrow> if is_allowed r then now # serve rl' key ts else serve rl' key ts)"

theorem out_of_order_exceeds:
  "serve (rate_limiter_new \<lparr>max_requests = 2, window = 10\<rparr>) ''k'' [100, 101, 111, 105] = [100, 101, 111, 105]
   \<and> length (in_window \<lparr>max_requests = 2, window = 10\<rparr> 105 [100, 101, 111, 105]) = 3"
  by code_simp

definition dimension_ok :: "instant \<Rightarrow> string option \<Rightarrow> rate_limiter \<Rightarrow> bool" where
  "dimension_ok now key rl \<longleftrightarrow>
     (case key of None \<Rightarrow> True | Some k \<Rightarrow> (case rl_check now k rl of Some (r, _) \<Rightarrow> is_allowed r | None \<Rightarrow> False))"

lemma is_limited_iff: "is_limited r \<longleftrightarrow> \<not> is_allowed r"
  by (cases r) auto

lemma opt_check_ok:
  "opt_check now key rl = Some (r, rl') \<Longrightarrow> (limits r = None \<longleftrightarrow> dimension_ok now key rl)"
  "limits r = Some q \<Longrightarrow> is_limited q"
  by (auto simp: opt_check_def limits_def dimension_ok_def is_limited_iff split: option.split_asm if_split_asm)

lemma gate_check_cases:
  assumes "gate_check (n1, n2, n3) ip tenant did g = Some (res, g')"
  obtains (ip) r rl where "rl_check n1 ip (ip_limiter g) = Some (r, rl)" "\<not> is_allowed r"
      "res = \<lparr>gr_allowed = False, gr_limited_by = ''ip'', gr_result = r\<rparr>" "g' = g\<lparr>ip_limiter := rl\<rparr>"
    | (tenant) r0 q rl0 r rl where "rl_check n1 ip (ip_limiter g) = Some (r0, rl0)" "is_allowed r0"
      "opt_check n2 tenant (tenant_limiter g) = Some (q, rl)" "limits q = Some r"
      "res = \<lparr>gr_allowed = False, gr_limited_by = ''tenant'', gr_result = r\<rparr>"
      "g' = g\<lparr>ip_limiter := rl0, tenant_limiter := rl\<rparr>"
    | (did) r0 q rl0 q' rl1 rl2 r where "rl_check n1 ip (ip_limiter g) = Some (r0, rl0)" "is_allowed r0"
      "opt_check n2 tenant (tenant_limiter g) = Some (q, rl1)" "limits q = None"
      "opt_check n3 did (did_limiter g) = Some (q', rl2)" "limits q' = Some r"
      "res = \<lparr>gr_allowed = False, gr_limited_by = ''did'', gr_result = r\<rparr>"
    | (allowed) r0 q rl0 q' rl1 rl2 where "rl_check n1 ip (ip_limiter g) = Some (r0, rl0)" "is_allowed r0"
      "opt_check n2 tenant (tenant_limiter g) = Some (q, rl1)" "limits q = None"
      "opt_check n3 did (did_limiter g) = Some (q', rl2)" "limits q' = None"
      "res = \<lparr>gr_allowed = True, gr_limited_by = [], gr_result = r0\<rparr>"
  using assms
  by (auto simp: gate_check_def bind_eq_Some_conv Let_def is_limited_iff split: option.split_asm if_split_asm)

text \<open>The combined check charges in order: it allows a request exactly when every dimension that applies
  allows it, a request rejected by its address charges neither tenant nor identity, and one
  rejected by its tenant does not charge the identity.\<close>

theorem gate_check_order:
  assumes "gate_check (n1, n2, n3) ip tenant did g = Some (res, g')"
  shows "(gr_allowed res \<longleftrightarrow> dimension_ok n1 (Some ip) (ip_limiter g)
      \<and> dimension_ok n2 tenant (tenant_limiter g) \<and> dimension_ok n3 did (did_limiter g))
    \<and> (gr_limited_by res = ''ip'' \<longrightarrow> tenant_limiter g' = tenant_limiter g \<and> did_limiter g' = did_limiter g)
    \<and> (gr_limited_by res = ''tenant'' \<longrightarrow> did_limiter g' = did_limiter g)
    \<and> (\<not> gr_allowed res \<longrightarrow> is_limited (gr_result res))"
  using assms
proof (cases rule: gate_check_cases)
  case ip
  then show ?thesis
    by (simp add: dimension_ok_def is_limited_iff)
next
  case (tenant r0 q rl0 r rl)
  then show ?thesis
    using opt_check_ok(1) [OF tenant(3)] opt_check_ok(2) [OF tenant(4)] by simp
next
  case (did r0 q rl0 q' rl1 rl2 r)
  then show ?thesis
    using opt_check_ok(1) [OF did(5)] opt_check_ok(2) [OF did(6)] by simp
next
  case (allowed r0 q rl0 q' rl1 rl2)
  then show ?thesis
    using opt_check_ok(1) [OF allowed(3)] opt_check_ok(1) [OF allowed(5)] by (simp add: dimension_ok_def)
qed

theorem gate_check_order_witness:
  "\<exists>res g'. gate_check (5, 5, 5) ''ip'' (Some ''t'') None gate_rate_limiter_new = Some (res, g')
    \<and> dimension_ok 5 (Some ''t'') (tenant_limiter gate_rate_limiter_new)"
proof -
  have "\<exists>res g'. gate_check (5, 5, 5) ''ip'' (Some ''t'') None gate_rate_limiter_new = Some (res, g') \<and> gr_allowed res"
    by (simp add: gate_check_def gate_rate_limiter_new_def rl_check_def rate_limiter_new_def entry_or_new_def
        window_entry_new_def check_and_record_def live_def default_ip_limit_def default_tenant_limit_def
        per_minute_def opt_check_def limits_def Let_def)
  then obtain res g' where g: "gate_check (5, 5, 5) ''ip'' (Some ''t'') None gate_rate_limiter_new = Some (res, g')"
    "gr_allowed res"
    by blast
  show ?thesis
    using gate_check_order [OF g(1)] g by simp
qed

text \<open>Cosmetic variations do not evade the payload limit: two bodies that are equal as JSON values,
  in whatever order their members are written, are charged to the same bucket and get the same
  answer.\<close>

theorem check_body_canonical:
  assumes "json_wf v" "json_wf w" "json_eq v w" "from_chip_body K v = Some fp"
  shows "check_body K now w rl = check_body K now v rl"
  using from_chip_body_canonical [OF assms] assms(4) by (simp add: check_body_def)

theorem check_body_canonical_witness:
  "check_body toy_crypto 5 (JObj [(''a'', JNull), (''b'', JBool True)]) (rate_limiter_new canon_default_config)
   = check_body toy_crypto 5 (JObj [(''b'', JBool True), (''a'', JNull)]) (rate_limiter_new canon_default_config)"
proof -
  let ?v = "JObj [(''b'', JBool True), (''a'', JNull)]" and ?w = "JObj [(''a'', JNull), (''b'', JBool True)]"
  have wf: "json_wf ?v" "json_wf ?w" "json_eq ?v ?w"
    by code_simp+
  have "to_nrf1_bytes plain_text ?v = Inr (MAGIC @ [7, 1, 4, 1, 98, 2])"
    by code_simp
  then obtain fp where "from_chip_body toy_crypto ?v = Some fp"
    by (simp add: from_chip_body_def to_nrf_bytes_def toy_crypto_def)
  from check_body_canonical [OF wf this] show ?thesis .
qed

end
