(* ===== verification/Receipt.thy ===== *)
theory Receipt
  imports Ubl_Canon Policy Ubl_Text
begin

text \<open>
  The unified receipt (\<open>crates/ubl_receipt/src/unified.rs\<close>): one document that grows by a stage
  execution per pipeline stage, whose identifier is recomputed after every append and whose stages
  carry authentication tokens chained over those identifiers, and its signature. The serialised form
  is written out as \<open>serde\<close> derives it. The keyed BLAKE3 hash, the decoding of a DID into a
  verifying key and the process environment are fields of \<open>receipt_env\<close>.
\<close>

section \<open>Types\<close>

datatype pipeline_stage = Knock | WriteAhead | Check | Transition | WriteFinished

fun stage_as_str :: "pipeline_stage \<Rightarrow> string" where
  "stage_as_str Knock = ''KNOCK''"
| "stage_as_str WriteAhead = ''WA''"
| "stage_as_str Check = ''CHECK''"
| "stage_as_str Transition = ''TR''"
| "stage_as_str WriteFinished = ''WF''"

record rb_vote =
  rv_rb_id :: string
  rv_decision :: decision
  rv_reason :: string
  rv_inputs_used :: "string list"
  rv_duration_nanos :: u64

record policy_trace_entry =
  pt_level :: string
  pt_policy_id :: string
  pt_result :: decision
  pt_reason :: string
  pt_rb_results :: "rb_vote list"
  pt_duration_ms :: i64

record stage_execution =
  st_stage :: pipeline_stage
  st_timestamp :: string
  st_input_cid :: string
  st_output_cid :: "string option"
  st_fuel_used :: "u64 option"
  st_policy_trace :: "policy_trace_entry list"
  st_vm_sig :: "string option"
  st_vm_sig_payload_cid :: "string option"
  st_auth_token :: string
  st_duration_ms :: i64

definition crypto_mode_parse :: "string \<Rightarrow> string + crypto_mode" where
  "crypto_mode_parse raw =
     (if eq_ignore_ascii_case raw ''compat_v1'' then Inr CompatV1
      else if eq_ignore_ascii_case raw ''hash_first_v2'' then Inr HashFirstV2
      else Inl raw)"

fun crypto_mode_as_str :: "crypto_mode \<Rightarrow> string" where
  "crypto_mode_as_str CompatV1 = ''compat_v1''"
| "crypto_mode_as_str HashFirstV2 = ''hash_first_v2''"

datatype verify_mode = V1Only | V2Only | Dual

record verify_report =
  vr_valid :: bool
  vr_v1_valid :: bool
  vr_v2_valid :: bool

record build_meta =
  bm_rustc :: string
  bm_os :: string
  bm_arch :: string
  bm_profile :: string
  bm_git_commit :: "string option"
  bm_git_dirty :: "bool option"

record runtime_info =
  rt_binary_hash :: string
  rt_runtime_hash :: string
  rt_version :: string
  rt_build :: build_meta
  rt_env :: "(string \<times> string) list"
  rt_certs :: "(string \<times> string) list"

definition runtime_info_new :: "build_meta \<Rightarrow> string \<Rightarrow> string \<Rightarrow> runtime_info" where
  "runtime_info_new build bin version = \<lparr>rt_binary_hash = bin, rt_runtime_hash = bin,
     rt_version = version, rt_build = build, rt_env = [], rt_certs = []\<rparr>"

definition with_env :: "string \<Rightarrow> string \<Rightarrow> runtime_info \<Rightarrow> runtime_info" where
  "with_env key v rt = rt\<lparr>rt_env := bt_insert key v (rt_env rt)\<rparr>"

definition with_cert :: "string \<Rightarrow> string \<Rightarrow> runtime_info \<Rightarrow> runtime_info" where
  "with_cert key v rt = rt\<lparr>rt_certs := bt_insert key v (rt_certs rt)\<rparr>"

definition runtime_hash :: "runtime_info \<Rightarrow> string" where
  "runtime_hash rt = (if rt_runtime_hash rt = [] then rt_binary_hash rt else rt_runtime_hash rt)"

record unified_receipt =
  ur_type :: string
  ur_id :: string
  ur_ver :: string
  ur_world :: string
  ur_v :: u32
  ur_t :: string
  ur_did :: string
  ur_subject_did :: "string option"
  ur_kid :: string
  ur_nonce :: string
  ur_stages :: "stage_execution list"
  ur_decision :: decision
  ur_effects :: json
  ur_prev_receipt_cid :: "string option"
  ur_receipt_cid :: string
  ur_sig :: string
  ur_knock_cid :: "string option"
  ur_rt :: "runtime_info option"

section \<open>Serialised form\<close>

text \<open>A member that is left out when it is \<open>None\<close>, or empty.\<close>

definition opt_member :: "string \<Rightarrow> ('a \<Rightarrow> json) \<Rightarrow> 'a option \<Rightarrow> json_obj" where
  "opt_member k f x = (case x of None \<Rightarrow> [] | Some a \<Rightarrow> [(k, f a)])"

definition list_member :: "string \<Rightarrow> ('a list \<Rightarrow> json) \<Rightarrow> 'a list \<Rightarrow> json_obj" where
  "list_member k f xs = (if xs = [] then [] else [(k, f xs)])"

definition u64_json :: "u64 \<Rightarrow> json" where "u64_json w = JNum (N_Int (uint w))"
definition i64_json :: "i64 \<Rightarrow> json" where "i64_json w = JNum (N_Int (sint w))"
definition decision_json :: "decision \<Rightarrow> json" where "decision_json d = JStr (show_decision d)"

definition string_map_json :: "(string \<times> string) list \<Rightarrow> json" where
  "string_map_json m = JObj (map (\<lambda>(k, v). (k, JStr v)) m)"

definition rb_vote_json :: "rb_vote \<Rightarrow> json" where
  "rb_vote_json r = JObj [(''rb_id'', JStr (rv_rb_id r)), (''decision'', decision_json (rv_decision r)),
     (''reason'', JStr (rv_reason r)), (''inputs_used'', JArr (map JStr (rv_inputs_used r))),
     (''duration_nanos'', u64_json (rv_duration_nanos r))]"

definition policy_trace_json :: "policy_trace_entry \<Rightarrow> json" where
  "policy_trace_json e = JObj [(''level'', JStr (pt_level e)), (''policy_id'', JStr (pt_policy_id e)),
     (''result'', decision_json (pt_result e)), (''reason'', JStr (pt_reason e)),
     (''rb_results'', JArr (map rb_vote_json (pt_rb_results e))), (''duration_ms'', i64_json (pt_duration_ms e))]"

definition stage_json :: "stage_execution \<Rightarrow> json" where
  "stage_json s = JObj (
     [(''stage'', JStr (stage_as_str (st_stage s))), (''timestamp'', JStr (st_timestamp s)),
      (''input_cid'', JStr (st_input_cid s)),
      (''output_cid'', case st_output_cid s of None \<Rightarrow> JNull | Some c \<Rightarrow> JStr c)]
     @ opt_member ''fuel_used'' u64_json (st_fuel_used s)
     @ list_member ''policy_trace'' (\<lambda>xs. JArr (map policy_trace_json xs)) (st_policy_trace s)
     @ opt_member ''vm_sig'' JStr (st_vm_sig s)
     @ opt_member ''vm_sig_payload_cid'' JStr (st_vm_sig_payload_cid s)
     @ [(''auth_token'', JStr (st_auth_token s)), (''duration_ms'', i64_json (st_duration_ms s))])"

definition build_meta_json :: "build_meta \<Rightarrow> json" where
  "build_meta_json b = JObj (
     [(''rustc'', JStr (bm_rustc b)), (''os'', JStr (bm_os b)), (''arch'', JStr (bm_arch b)),
      (''profile'', JStr (bm_profile b))]
     @ opt_member ''git_commit'' JStr (bm_git_commit b) @ opt_member ''git_dirty'' JBool (bm_git_dirty b))"

definition runtime_info_json :: "runtime_info \<Rightarrow> json" where
  "runtime_info_json rt = JObj (
     [(''binary_hash'', JStr (rt_binary_hash rt))]
     @ list_member ''runtime_hash'' JStr (rt_runtime_hash rt)
     @ [(''version'', JStr (rt_version rt)), (''build'', build_meta_json (rt_build rt))]
     @ list_member ''env'' string_map_json (rt_env rt) @ list_member ''certs'' string_map_json (rt_certs rt))"

definition receipt_members :: "unified_receipt \<Rightarrow> json_obj" where
  "receipt_members r =
     [(''@type'', JStr (ur_type r)), (''@id'', JStr (ur_id r)), (''@ver'', JStr (ur_ver r)),
      (''@world'', JStr (ur_world r)), (''v'', JNum (N_Int (uint (ur_v r)))), (''t'', JStr (ur_t r)),
      (''did'', JStr (ur_did r))]
     @ opt_member ''subject_did'' JStr (ur_subject_did r)
     @ [(''kid'', JStr (ur_kid r)), (''nonce'', JStr (ur_nonce r)),
        (''stages'', JArr (map stage_json (ur_stages r))), (''decision'', decision_json (ur_decision r)),
        (''effects'', ur_effects r)]
     @ opt_member ''prev_receipt_cid'' JStr (ur_prev_receipt_cid r)
     @ [(''receipt_cid'', JStr (ur_receipt_cid r)), (''sig'', JStr (ur_sig r))]
     @ opt_member ''knock_cid'' JStr (ur_knock_cid r)
     @ opt_member ''rt'' runtime_info_json (ur_rt r)"

definition to_json :: "unified_receipt \<Rightarrow> json" where
  "to_json r = JObj (receipt_members r)"

section \<open>Environment and errors\<close>

datatype env_var = NotPresent | NotUnicode | EnvValue string

record ('sk, 'vk) receipt_env =
  re_crypto :: "('sk, 'vk) crypto_env"
  re_keyed_hash :: "u8 list \<Rightarrow> u8 list \<Rightarrow> u8 list"
  re_verifying_key :: "string \<Rightarrow> string + 'vk"
  re_var :: "string \<Rightarrow> env_var"

datatype signature_cause = SigCanon canon_error | SigEmpty | SigDid string

datatype receipt_error =
    Serialization string
  | InvalidStageOrder string
  | AuthChainBroken string
  | Signature signature_cause

abbreviation STAGE_SECRET_ENV :: string where "STAGE_SECRET_ENV \<equiv> ''UBL_STAGE_SECRET''"
abbreviation STAGE_SECRET_PREV_ENV :: string where "STAGE_SECRET_PREV_ENV \<equiv> ''UBL_STAGE_SECRET_PREV''"
abbreviation RECEIPT_DOMAIN_ENV :: string where "RECEIPT_DOMAIN_ENV \<equiv> ''UBL_SIGN_DOMAIN_RECEIPT''"

fun env_value :: "env_var \<Rightarrow> string option" where
  "env_value (EnvValue s) = Some s"
| "env_value _ = None"

section \<open>Keys and tokens\<close>

definition padded_key :: "u8 list \<Rightarrow> u8 list" where
  "padded_key key = (let len = min (length key) 32 in take len key @ replicate (32 - len) 0)"

definition key_from_secret_str :: "string \<Rightarrow> string + u8 list" where
  "key_from_secret_str raw =
     (if raw = [] then Inl ''secret is empty''
      else map_ok padded_key (case strip_prefix ''hex:'' raw of
          Some hex_payload \<Rightarrow> ok_or ''hex decode failed'' (hex_decode hex_payload)
        | None \<Rightarrow> Inr (bytes_of raw)))"

definition load_required_stage_secret_key :: "('sk, 'vk) receipt_env \<Rightarrow> receipt_error + u8 list" where
  "load_required_stage_secret_key E =
     (case re_var E STAGE_SECRET_ENV of
        EnvValue raw \<Rightarrow> map_err (\<lambda>e. AuthChainBroken (''invalid '' @ STAGE_SECRET_ENV @ '' value: '' @ e))
          (key_from_secret_str raw)
      | _ \<Rightarrow> Inl (AuthChainBroken (STAGE_SECRET_ENV @ '' is not set; configure a stage secret'')))"

definition load_optional_stage_secret_key ::
  "('sk, 'vk) receipt_env \<Rightarrow> string \<Rightarrow> receipt_error + u8 list option" where
  "load_optional_stage_secret_key E var_name =
     (case re_var E var_name of
        EnvValue raw \<Rightarrow> map_err (\<lambda>e. AuthChainBroken (''invalid '' @ var_name @ '' value: '' @ e))
          (map_ok Some (key_from_secret_str raw))
      | NotPresent \<Rightarrow> Inr None
      | NotUnicode \<Rightarrow> Inl (AuthChainBroken (''failed reading '' @ var_name)))"

definition receipt_sign_domain :: "('sk, 'vk) receipt_env \<Rightarrow> string" where
  "receipt_sign_domain E =
     (case env_value (re_var E RECEIPT_DOMAIN_ENV) of Some d \<Rightarrow> d | None \<Rightarrow> ''ubl/receipt/v1'')"

definition compute_auth_token_with_key ::
  "('sk, 'vk) receipt_env \<Rightarrow> string \<Rightarrow> string \<Rightarrow> u8 list \<Rightarrow> string" where
  "compute_auth_token_with_key E prev_cid stage_name key =
     ''hmac:'' @ hex_encode (take 16 (re_keyed_hash E key
       (bytes_of prev_cid @ bytes_of ''||'' @ bytes_of stage_name)))"

section \<open>Operations\<close>

definition receipt_new :: "string \<Rightarrow> string \<Rightarrow> string \<Rightarrow> string \<Rightarrow> string \<Rightarrow> unified_receipt" where
  "receipt_new now world did kid nonce = \<lparr>ur_type = ''ubl/receipt'', ur_id = [], ur_ver = ''1.0'',
     ur_world = world, ur_v = 1, ur_t = now, ur_did = did, ur_subject_did = None, ur_kid = kid,
     ur_nonce = nonce, ur_stages = [], ur_decision = Allow, ur_effects = JObj [],
     ur_prev_receipt_cid = None, ur_receipt_cid = [], ur_sig = [], ur_knock_cid = None, ur_rt = None\<rparr>"

definition with_runtime_info :: "runtime_info \<Rightarrow> unified_receipt \<Rightarrow> unified_receipt" where
  "with_runtime_info rt r = r\<lparr>ur_rt := Some rt\<rparr>"

definition with_subject_did :: "string option \<Rightarrow> unified_receipt \<Rightarrow> unified_receipt" where
  "with_subject_did d r = r\<lparr>ur_subject_did := d\<rparr>"

definition with_knock_cid :: "string option \<Rightarrow> unified_receipt \<Rightarrow> unified_receipt" where
  "with_knock_cid c r = r\<lparr>ur_knock_cid := c\<rparr>"

text \<open>An error leaves the signature, the identifier and the receipt identifier cleared, as the early
  return of the code does.\<close>

definition recompute_cid ::
  "('sk, 'vk) receipt_env \<Rightarrow> unified_receipt \<Rightarrow> unified_receipt \<times> (receipt_error + unit)" where
  "recompute_cid E r =
     (let cleared = r\<lparr>ur_sig := [], ur_receipt_cid := [], ur_id := []\<rparr>
      in case cid_of_value (re_crypto E) (to_json cleared) of
           Inl e \<Rightarrow> (cleared, Inl (Signature (SigCanon e)))
         | Inr new_cid \<Rightarrow> (r\<lparr>ur_receipt_cid := new_cid, ur_id := new_cid\<rparr>, Inr ()))"

definition chain_prev :: "unified_receipt \<Rightarrow> string" where
  "chain_prev r = (if ur_receipt_cid r = [] then ''genesis'' else ur_receipt_cid r)"

definition stamp :: "('sk, 'vk) receipt_env \<Rightarrow> u8 list \<Rightarrow> string \<Rightarrow> stage_execution \<Rightarrow> stage_execution" where
  "stamp E key prev_cid s =
     s\<lparr>st_auth_token := compute_auth_token_with_key E prev_cid (stage_as_str (st_stage s)) key\<rparr>"

definition token_matches ::
  "('sk, 'vk) receipt_env \<Rightarrow> u8 list \<Rightarrow> u8 list option \<Rightarrow> string \<Rightarrow> stage_execution \<Rightarrow> bool" where
  "token_matches E current_key previous_key prev_cid s =
     (let name = stage_as_str (st_stage s);
          expected_current = compute_auth_token_with_key E prev_cid name current_key;
          expected_previous = map_option (compute_auth_token_with_key E prev_cid name) previous_key
      in st_auth_token s = expected_current \<or> expected_previous = Some (st_auth_token s))"

text \<open>The replay of the loop; \<^term>\<open>Inr None\<close> is the early \<open>Ok(false)\<close>.\<close>

fun replay_stages :: "('sk, 'vk) receipt_env \<Rightarrow> u8 list \<Rightarrow> u8 list option \<Rightarrow> unified_receipt \<Rightarrow>
    stage_execution list \<Rightarrow> receipt_error + unified_receipt option" where
  "replay_stages E cur prev shadow [] = Inr (Some shadow)"
| "replay_stages E cur prev shadow (s # ss) =
     (if \<not> token_matches E cur prev (chain_prev shadow) s then Inr None
      else case recompute_cid E (shadow\<lparr>ur_stages := ur_stages shadow @ [s]\<rparr>) of
             (_, Inl e) \<Rightarrow> Inl e
           | (shadow', Inr _) \<Rightarrow> replay_stages E cur prev (shadow'\<lparr>ur_id := ur_receipt_cid shadow'\<rparr>) ss)"

definition empty_shadow :: "unified_receipt \<Rightarrow> unified_receipt" where
  "empty_shadow r = r\<lparr>ur_stages := [], ur_receipt_cid := [], ur_id := []\<rparr>"

definition verify_auth_chain_with_keys ::
  "('sk, 'vk) receipt_env \<Rightarrow> u8 list \<Rightarrow> u8 list option \<Rightarrow> unified_receipt \<Rightarrow> receipt_error + bool" where
  "verify_auth_chain_with_keys E cur prev r =
     map_ok (\<lambda>final. case final of None \<Rightarrow> False | Some shadow \<Rightarrow> ur_receipt_cid shadow = ur_receipt_cid r)
       (replay_stages E cur prev (empty_shadow r) (ur_stages r))"

fun transpose_key :: "string option \<Rightarrow> string + u8 list option" where
  "transpose_key None = Inr None"
| "transpose_key (Some s) = map_ok Some (key_from_secret_str s)"

definition verify_auth_chain_with_secrets ::
  "('sk, 'vk) receipt_env \<Rightarrow> string \<Rightarrow> string option \<Rightarrow> unified_receipt \<Rightarrow> bool" where
  "verify_auth_chain_with_secrets E current_secret previous_secret r =
     (case key_from_secret_str current_secret of
        Inl _ \<Rightarrow> False
      | Inr cur \<Rightarrow>
        case transpose_key previous_secret of
          Inl _ \<Rightarrow> False
        | Inr prev \<Rightarrow> (case verify_auth_chain_with_keys E cur prev r of Inr b \<Rightarrow> b | Inl _ \<Rightarrow> False))"

definition verify_auth_chain :: "('sk, 'vk) receipt_env \<Rightarrow> unified_receipt \<Rightarrow> bool" where
  "verify_auth_chain E r =
     (case load_required_stage_secret_key E of
        Inl _ \<Rightarrow> False
      | Inr cur \<Rightarrow>
        case load_optional_stage_secret_key E STAGE_SECRET_PREV_ENV of
          Inl _ \<Rightarrow> False
        | Inr prev \<Rightarrow> (case verify_auth_chain_with_keys E cur prev r of Inr b \<Rightarrow> b | Inl _ \<Rightarrow> False))"

text \<open>The receipt is returned with every outcome: an error after the stage was pushed leaves it there.\<close>

definition append_stage_with_secrets ::
  "('sk, 'vk) receipt_env \<Rightarrow> string \<Rightarrow> string option \<Rightarrow> stage_execution \<Rightarrow> unified_receipt \<Rightarrow>
     unified_receipt \<times> (receipt_error + unit)" where
  "append_stage_with_secrets E current_secret previous_secret s r =
     (case key_from_secret_str current_secret of
        Inl e \<Rightarrow> (r, Inl (AuthChainBroken (''invalid '' @ STAGE_SECRET_ENV @ '' value: '' @ e)))
      | Inr current_key \<Rightarrow>
        case recompute_cid E (r\<lparr>ur_stages := ur_stages r @ [stamp E current_key (chain_prev r) s]\<rparr>) of
          (r', Inl e) \<Rightarrow> (r', Inl e)
        | (r', Inr _) \<Rightarrow>
          let r'' = r'\<lparr>ur_id := ur_receipt_cid r'\<rparr>
          in case transpose_key previous_secret of
               Inl e \<Rightarrow> (r'', Inl (AuthChainBroken (''invalid '' @ STAGE_SECRET_PREV_ENV @ '' value: '' @ e)))
             | Inr previous_key \<Rightarrow>
               case verify_auth_chain_with_keys E current_key previous_key r'' of
                 Inl e \<Rightarrow> (r'', Inl e)
               | Inr ok \<Rightarrow>
                 (r'', if ok then Inr () else Inl (AuthChainBroken ''stage auth token mismatch after append'')))"

definition append_stage ::
  "('sk, 'vk) receipt_env \<Rightarrow> stage_execution \<Rightarrow> unified_receipt \<Rightarrow>
     unified_receipt \<times> (receipt_error + unit)" where
  "append_stage E s r =
     (case env_value (re_var E STAGE_SECRET_ENV) of
        None \<Rightarrow> (r, Inl (AuthChainBroken (''missing required env var '' @ STAGE_SECRET_ENV)))
      | Some current \<Rightarrow>
        append_stage_with_secrets E current (env_value (re_var E STAGE_SECRET_PREV_ENV)) s r)"

fun rebuild_stages :: "('sk, 'vk) receipt_env \<Rightarrow> u8 list \<Rightarrow> unified_receipt \<Rightarrow>
    stage_execution list \<Rightarrow> unified_receipt option" where
  "rebuild_stages E key shadow [] = Some shadow"
| "rebuild_stages E key shadow (s # ss) =
     (case recompute_cid E (shadow\<lparr>ur_stages := ur_stages shadow @ [stamp E key (chain_prev shadow) s]\<rparr>) of
        (_, Inl e) \<Rightarrow> None
      | (shadow', Inr _) \<Rightarrow> rebuild_stages E key (shadow'\<lparr>ur_id := ur_receipt_cid shadow'\<rparr>) ss)"

definition rebuild_auth_chain_with_current_key ::
  "('sk, 'vk) receipt_env \<Rightarrow> string option \<Rightarrow> unified_receipt \<Rightarrow> unified_receipt" where
  "rebuild_auth_chain_with_current_key E current_secret r =
     (case Option.bind current_secret (\<lambda>s. ok_opt (key_from_secret_str s)) of
        None \<Rightarrow> r
      | Some key \<Rightarrow>
        case rebuild_stages E key (empty_shadow r) (ur_stages r) of
          None \<Rightarrow> r
        | Some shadow \<Rightarrow> r\<lparr>ur_stages := ur_stages shadow\<rparr>)"

definition deny_with_secrets ::
  "('sk, 'vk) receipt_env \<Rightarrow> string \<Rightarrow> string option \<Rightarrow> unified_receipt \<Rightarrow> unified_receipt" where
  "deny_with_secrets E reason current_secret r =
     (let denied = r\<lparr>ur_decision := DenyDecision,
            ur_effects := (case ur_effects r of JObj m \<Rightarrow> JObj (obj_insert ''deny_reason'' (JStr reason) m)
                           | other \<Rightarrow> other)\<rparr>;
          r' = fst (recompute_cid E (rebuild_auth_chain_with_current_key E current_secret denied))
      in r'\<lparr>ur_id := ur_receipt_cid r'\<rparr>)"

definition deny :: "('sk, 'vk) receipt_env \<Rightarrow> string \<Rightarrow> unified_receipt \<Rightarrow> unified_receipt" where
  "deny E reason r = deny_with_secrets E reason (env_value (re_var E STAGE_SECRET_ENV)) r"

definition signature_payload_value :: "unified_receipt \<Rightarrow> json" where
  "signature_payload_value r = to_json (r\<lparr>ur_sig := []\<rparr>)"

definition finalize_and_sign ::
  "('sk, 'vk) receipt_env \<Rightarrow> 'sk \<Rightarrow> crypto_mode \<Rightarrow> unified_receipt \<Rightarrow> receipt_error + unified_receipt" where
  "finalize_and_sign E sk mode r =
     (let payload = signature_payload_value r; domain = receipt_sign_domain E
      in map_err (\<lambda>e. Signature (SigCanon e)) (map_ok (\<lambda>s. r\<lparr>ur_sig := s\<rparr>)
           (case mode of
              CompatV1 \<Rightarrow> sign_domain_v1 (re_crypto E) payload domain sk
            | HashFirstV2 \<Rightarrow> sign_domain_v2_hash_first (re_crypto E) payload domain sk)))"

definition verify_receipt_signature ::
  "('sk, 'vk) receipt_env \<Rightarrow> verify_mode \<Rightarrow> unified_receipt \<Rightarrow> receipt_error + verify_report" where
  "verify_receipt_signature E mode r =
     (if ur_sig r = [] then Inl (Signature SigEmpty)
      else
        and_then (map_err (\<lambda>e. Signature (SigDid e)) (re_verifying_key E (ur_did r))) (\<lambda>vk.
        let payload = signature_payload_value r; domain = receipt_sign_domain E; K = re_crypto E
        in and_then (map_err (\<lambda>e. Signature (SigCanon e)) (verify_domain_v1 K payload domain vk (ur_sig r))) (\<lambda>v1_valid.
           and_then (map_err (\<lambda>e. Signature (SigCanon e)) (verify_domain_v2_hash_first K payload domain vk (ur_sig r))) (\<lambda>v2_valid.
             Inr \<lparr>vr_valid = (case mode of V1Only \<Rightarrow> v1_valid | V2Only \<Rightarrow> v2_valid | Dual \<Rightarrow> v1_valid \<or> v2_valid),
               vr_v1_valid = v1_valid, vr_v2_valid = v2_valid\<rparr>))))"

definition stage_count :: "unified_receipt \<Rightarrow> nat" where
  "stage_count r = length (ur_stages r)"

definition has_stage :: "pipeline_stage \<Rightarrow> unified_receipt \<Rightarrow> bool" where
  "has_stage stage r = list_ex (\<lambda>s. st_stage s = stage) (ur_stages r)"

definition last_auth_token :: "unified_receipt \<Rightarrow> string option" where
  "last_auth_token r = (if ur_stages r = [] then None else Some (st_auth_token (last (ur_stages r))))"

end
