(* ===== verification/Receipt_Laws.thy ===== *)
theory Receipt_Laws
  imports Receipt
begin

text \<open>
  Correctness of the unified receipt: which receipts can be identified at all, what the replay of the
  authentication chain decides, that appending, denying and signing keep the chain verifiable over
  every sequence of operations, and the behaviour at the edges (a denial before the first stage, a
  reason that has no canonical form).
\<close>

section \<open>Values with a canonical form\<close>

definition nrf_ok :: "text_env \<Rightarrow> json \<Rightarrow> bool" where
  "nrf_ok T j \<longleftrightarrow> nrf_of_json T j \<noteq> None"

lemma nrf_ok_arr [simp]: "nrf_ok T (JArr vs) \<longleftrightarrow> list_all (nrf_ok T) vs"
proof
  assume "nrf_ok T (JArr vs)"
  then obtain xs where "json_arr_to_nrf T vs ''body'' 0 = Inr xs"
    by (auto simp: nrf_ok_def nrf_of_json_Some [of T _ _ "''body''"] result_simps)
  moreover have "json_arr_to_nrf T vs p i = Inr xs \<Longrightarrow> list_all (nrf_ok T) vs" for p i
  proof (induction vs arbitrary: i xs)
    case (Cons v vs)
    then show ?case
      by (auto simp: result_simps nrf_ok_def nrf_of_json_Some [of T v _ "path_for_index p i"])
  qed simp
  ultimately show "list_all (nrf_ok T) vs"
    by blast
qed (use nrf_of_json_arr in \<open>auto simp: nrf_ok_def list_all_iff\<close>)

lemma nrf_ok_obj:
  assumes "distinct (map fst m)"
  shows "nrf_ok T (JObj m) \<longleftrightarrow> list_all (\<lambda>(k, v). key_ok T k \<and> nrf_ok T v) m"
proof
  assume "nrf_ok T (JObj m)"
  then obtain bt where "json_obj_to_nrf T m ''body'' [] = Inr bt"
    by (auto simp: nrf_ok_def nrf_of_json_Some [of T _ _ "''body''"] result_simps)
  from json_obj_to_nrf_sound [OF this _ assms] have
    "list_all (\<lambda>(k, v). key_ok T k \<and> (is_null v \<or> nrf_of_json T v \<noteq> None)) m"
    by simp
  then show "list_all (\<lambda>(k, v). key_ok T k \<and> nrf_ok T v) m"
    by (auto simp: list_all_iff nrf_ok_def nrf_of_json_def json_to_nrf_def elim!: is_null.elims)
qed (use nrf_of_json_obj [of T m] assms in \<open>auto simp: nrf_ok_def accepted_obj_def list_all_iff\<close>)

lemma nrf_ok_simps [simp]:
  "nrf_ok T JNull" "nrf_ok T (JBool b)" "nrf_ok T (JStr s) \<longleftrightarrow> key_ok T s"
  "nrf_ok T (JNum n) \<longleftrightarrow> num_is_i64 n"
proof -
  show "nrf_ok T (JNum n) \<longleftrightarrow> num_is_i64 n"
    by (cases n) (auto simp: nrf_ok_def nrf_of_json_def json_to_nrf_def split: if_split_asm)
qed (auto simp: nrf_ok_def nrf_of_json_def json_to_nrf_def key_ok_def)

lemma to_nrf_bytes_ok: "(\<exists>b. to_nrf_bytes K v = Inr b) \<longleftrightarrow> nrf_ok (ce_text K) v"
  by (auto simp: to_nrf_bytes_def result_simps to_nrf1_bytes_iff nrf_ok_def)

lemma cid_of_value_ok: "(\<exists>c. cid_of_value K v = Inr c) \<longleftrightarrow> nrf_ok (ce_text K) v"
  by (auto simp: cid_of_value_def result_simps to_nrf_bytes_ok [symmetric])

lemma cid_of_value_ne: "cid_of_value K v = Inr c \<Longrightarrow> c \<noteq> []"
  by (auto simp: cid_of_value_def result_simps)

lemma key_ok_ascii: "text_laws T \<Longrightarrow> printable_ascii s \<Longrightarrow> key_ok T s"
  using printable_ascii_clean by (auto simp: key_ok_def text_laws_def)

lemma key_ok_literal: "text_laws T \<Longrightarrow> list_all (\<lambda>c. 32 \<le> (of_char c :: nat) \<and> of_char c < (127 :: nat)) s \<Longrightarrow> key_ok T s"
  by (rule key_ok_ascii) (simp_all add: printable_ascii_def list_all_iff)

lemma printable_hex: "printable_ascii (hex_encode bs)"
  using hex_encode_digits [of bs]
  by (auto simp: printable_ascii_def list_all_iff is_hex_digit_def is_digit_def ascii_in_def dest!: bspec)

section \<open>Sealed chains\<close>

text \<open>
  The shape of the authentication chain, independent of receipts: \<open>commit\<close> identifies a list of links,
  a link is sealed against the identifier of the links before it, or against \<open>genesis\<close> when there are
  none.
\<close>

definition prev_of :: "('s list \<Rightarrow> 'e + string) \<Rightarrow> 's list \<Rightarrow> string" where
  "prev_of commit xs = (if xs = [] then ''genesis''
     else case commit xs of Inr c \<Rightarrow> c | Inl _ \<Rightarrow> ''genesis'')"

definition chain_linked :: "('s list \<Rightarrow> 'e + string) \<Rightarrow> (string \<Rightarrow> 's \<Rightarrow> bool) \<Rightarrow> 's list \<Rightarrow> bool" where
  "chain_linked commit sealed xs \<longleftrightarrow>
     (\<forall>i < length xs. sealed (prev_of commit (take i xs)) (xs ! i)
       \<and> (\<exists>c. commit (take (Suc i) xs) = Inr c))"

fun reseal :: "('s list \<Rightarrow> 'e + string) \<Rightarrow> (string \<Rightarrow> 's \<Rightarrow> 's) \<Rightarrow> 's list \<Rightarrow> 's list \<Rightarrow> 's list" where
  "reseal commit seal xs [] = xs"
| "reseal commit seal xs (y # ys) = reseal commit seal (xs @ [seal (prev_of commit xs) y]) ys"

lemma chain_linked_Nil [simp]: "chain_linked commit sealed []"
  by (simp add: chain_linked_def)

lemma chain_linked_snoc: "chain_linked commit sealed (xs @ [s]) \<longleftrightarrow>
    chain_linked commit sealed xs \<and> sealed (prev_of commit xs) s \<and> (\<exists>c. commit (xs @ [s]) = Inr c)"
  by (auto simp: chain_linked_def less_Suc_eq nth_append)

lemma chain_linked_commit: "chain_linked commit sealed xs \<Longrightarrow> xs \<noteq> [] \<Longrightarrow> \<exists>c. commit xs = Inr c"
  by (cases xs rule: rev_cases) (simp_all add: chain_linked_snoc)

lemma chain_linked_appendD: "chain_linked commit sealed (xs @ ys) \<Longrightarrow> chain_linked commit sealed xs"
proof (induction ys rule: rev_induct)
  case (snoc y ys)
  then show ?case
    by (simp only: append_assoc [symmetric] chain_linked_snoc)
qed simp

lemma chain_linked_mono:
  "chain_linked commit sealed xs \<Longrightarrow> (\<And>p s. sealed p s \<Longrightarrow> sealed' p s) \<Longrightarrow> chain_linked commit sealed' xs"
  by (auto simp: chain_linked_def)

locale sealed_chain =
  fixes commit :: "'s list \<Rightarrow> 'e + string"
    and seal :: "string \<Rightarrow> 's \<Rightarrow> 's"
    and sealed :: "string \<Rightarrow> 's \<Rightarrow> bool"
    and valid :: "'s \<Rightarrow> bool"
  assumes sealed_seal: "sealed p (seal p s)"
    and valid_seal: "valid s \<Longrightarrow> valid (seal p s)"
    and commit_valid: "xs \<noteq> [] \<Longrightarrow> list_all valid xs \<Longrightarrow> \<exists>c. commit xs = Inr c"
begin

lemma linked_extend:
  assumes "chain_linked commit sealed xs" "list_all valid xs" "valid s"
  shows "chain_linked commit sealed (xs @ [seal (prev_of commit xs) s])"
proof -
  have "list_all valid (xs @ [seal (prev_of commit xs) s])"
    using assms(2,3) valid_seal by simp
  from commit_valid [OF _ this] show ?thesis
    using assms(1) sealed_seal by (simp add: chain_linked_snoc)
qed

lemma linked_reseal:
  assumes "chain_linked commit sealed xs" "list_all valid xs" "list_all valid ys"
  shows "chain_linked commit sealed (reseal commit seal xs ys) \<and> list_all valid (reseal commit seal xs ys)"
  using assms
proof (induction ys arbitrary: xs)
  case (Cons y ys)
  then show ?case
    by (simp add: linked_extend valid_seal)
qed simp

end

section \<open>The chain of a receipt\<close>

definition body_cid ::
  "('sk, 'vk) receipt_env \<Rightarrow> unified_receipt \<Rightarrow> stage_execution list \<Rightarrow> canon_error + string" where
  "body_cid E r xs = cid_of_value (re_crypto E)
     (to_json (r\<lparr>ur_stages := xs, ur_sig := [], ur_receipt_cid := [], ur_id := []\<rparr>))"

definition receipt_ok :: "('sk, 'vk) receipt_env \<Rightarrow> unified_receipt \<Rightarrow> bool" where
  "receipt_ok E r \<longleftrightarrow> nrf_ok (ce_text (re_crypto E))
     (to_json (r\<lparr>ur_stages := [], ur_sig := [], ur_receipt_cid := [], ur_id := []\<rparr>))"

definition stage_ok :: "('sk, 'vk) receipt_env \<Rightarrow> stage_execution \<Rightarrow> bool" where
  "stage_ok E s \<longleftrightarrow> nrf_ok (ce_text (re_crypto E)) (stage_json s)"

lemma opt_member_simps [simp]: "opt_member k f None = []" "opt_member k f (Some a) = [(k, f a)]"
  by (simp_all add: opt_member_def)

lemma distinct_receipt_members [simp]: "distinct (map fst (receipt_members r))"
  by (simp add: receipt_members_def opt_member_def split: option.split)

lemma nrf_ok_to_json: "nrf_ok T (to_json r) \<longleftrightarrow> list_all (\<lambda>(k, v). key_ok T k \<and> nrf_ok T v) (receipt_members r)"
  by (simp add: to_json_def nrf_ok_obj)

lemma nrf_ok_receipt: "nrf_ok T (to_json r) \<longleftrightarrow>
    nrf_ok T (to_json (r\<lparr>ur_stages := []\<rparr>)) \<and> list_all (\<lambda>s. nrf_ok T (stage_json s)) (ur_stages r)"
  unfolding nrf_ok_to_json by (auto simp: receipt_members_def list_all_iff)

lemma nrf_ok_stage_token:
  assumes "nrf_ok T (stage_json s)" "key_ok T tok"
  shows "nrf_ok T (stage_json (s\<lparr>st_auth_token := tok\<rparr>))"
proof -
  have d: "distinct (map fst (case stage_json s of JObj m \<Rightarrow> m))" for s
    by (simp add: stage_json_def opt_member_def list_member_def split: option.split)
  show ?thesis
    using assms d [of s] d [of "s\<lparr>st_auth_token := tok\<rparr>"]
    by (simp add: stage_json_def nrf_ok_obj)
qed

lemma body_cid_ok: "(\<exists>c. body_cid E r xs = Inr c) \<longleftrightarrow> receipt_ok E r \<and> list_all (stage_ok E) xs"
  unfolding body_cid_def cid_of_value_ok by (subst nrf_ok_receipt) (cases r; simp add: receipt_ok_def stage_ok_def list_all_iff)

lemma body_cid_ne: "body_cid E r xs = Inr c \<Longrightarrow> c \<noteq> []"
  by (auto simp: body_cid_def dest: cid_of_value_ne)

lemma key_ok_token:
  "text_laws T \<Longrightarrow> key_ok T (compute_auth_token_with_key E prev_cid name key)"
  using printable_hex [of "take 16 (re_keyed_hash E key (bytes_of prev_cid @ bytes_of ''||'' @ bytes_of name))"]
  by (intro key_ok_ascii) (auto simp: compute_auth_token_with_key_def printable_ascii_def)

interpretation ac: sealed_chain "body_cid E r" "stamp E key" "token_matches E key prev"
  "\<lambda>s. text_laws (ce_text (re_crypto E)) \<and> receipt_ok E r \<and> stage_ok E s" for E r key prev
proof
  fix p s
  show "token_matches E key prev p (stamp E key p s)"
    by (simp add: token_matches_def stamp_def Let_def)
next
  fix s p
  assume "text_laws (ce_text (re_crypto E)) \<and> receipt_ok E r \<and> stage_ok E s"
  then show "text_laws (ce_text (re_crypto E)) \<and> receipt_ok E r \<and> stage_ok E (stamp E key p s)"
    by (simp add: stage_ok_def stamp_def nrf_ok_stage_token key_ok_token)
next
  fix xs :: "stage_execution list"
  assume "xs \<noteq> []" "list_all (\<lambda>s. text_laws (ce_text (re_crypto E)) \<and> receipt_ok E r \<and> stage_ok E s) xs"
  then show "\<exists>c. body_cid E r xs = Inr c"
    by (cases xs) (simp_all add: body_cid_ok list_all_iff)
qed

definition shadow_at ::
  "('sk, 'vk) receipt_env \<Rightarrow> unified_receipt \<Rightarrow> stage_execution list \<Rightarrow> unified_receipt" where
  "shadow_at E r xs =
     (let c = (if xs = [] then [] else case body_cid E r xs of Inr c \<Rightarrow> c | Inl _ \<Rightarrow> [])
      in r\<lparr>ur_stages := xs, ur_receipt_cid := c, ur_id := c\<rparr>)"

lemma empty_shadow_at: "empty_shadow r = shadow_at E r []"
  by (simp add: empty_shadow_def shadow_at_def)

lemma shadow_at_sel [simp]: "ur_stages (shadow_at E r xs) = xs" "ur_id (shadow_at E r xs) = ur_receipt_cid (shadow_at E r xs)"
  by (simp_all add: shadow_at_def Let_def)

lemma shadow_at_id [simp]: "shadow_at E r xs\<lparr>ur_id := ur_receipt_cid (shadow_at E r xs)\<rparr> = shadow_at E r xs"
  by (simp add: shadow_at_def Let_def)

lemma chain_prev_shadow: "chain_prev (shadow_at E r xs) = prev_of (body_cid E r) xs"
  using body_cid_ne by (auto simp: chain_prev_def shadow_at_def prev_of_def Let_def split: sum.split)

lemma recompute_shadow: "zs \<noteq> [] \<Longrightarrow> recompute_cid E (shadow_at E r xs\<lparr>ur_stages := zs\<rparr>) =
    (case body_cid E r zs of
       Inl e \<Rightarrow> (r\<lparr>ur_stages := zs, ur_sig := [], ur_receipt_cid := [], ur_id := []\<rparr>, Inl (Signature (SigCanon e)))
     | Inr c \<Rightarrow> (shadow_at E r zs, Inr ()))"
  by (simp add: recompute_cid_def shadow_at_def body_cid_def Let_def split: sum.split)

lemma replay_linked:
  "chain_linked (body_cid E r) (token_matches E cur prev) xs \<Longrightarrow>
   replay_stages E cur prev (shadow_at E r xs) ys = Inr (Some sh) \<longleftrightarrow>
     chain_linked (body_cid E r) (token_matches E cur prev) (xs @ ys) \<and> sh = shadow_at E r (xs @ ys)"
proof (induction ys arbitrary: xs)
  case (Cons y ys)
  let ?L = "chain_linked (body_cid E r) (token_matches E cur prev)"
  have split: "?L (xs @ y # ys) \<Longrightarrow> ?L (xs @ [y])"
    using chain_linked_appendD [of _ _ "xs @ [y]" ys] by simp
  show ?case
  proof (cases "?L (xs @ [y])")
    case True
    then obtain c where "body_cid E r (xs @ [y]) = Inr c" "token_matches E cur prev (prev_of (body_cid E r) xs) y"
      by (auto simp: chain_linked_snoc)
    with Cons.IH [OF True] show ?thesis
      by (simp add: chain_prev_shadow recompute_shadow)
  next
    case False
    then have "\<not> ?L (xs @ y # ys)"
      using split by blast
    moreover have "\<not> token_matches E cur prev (prev_of (body_cid E r) xs) y \<or> (\<exists>e. body_cid E r (xs @ [y]) = Inl e)"
      using False Cons.prems by (cases "body_cid E r (xs @ [y])") (auto simp: chain_linked_snoc)
    ultimately show ?thesis
      by (auto simp: chain_prev_shadow recompute_shadow)
  qed
qed auto

lemma replay_error:
  "replay_stages E cur prev (shadow_at E r xs) ys = Inl e \<Longrightarrow> list_all (stage_ok E) xs \<Longrightarrow>
   \<not> (receipt_ok E r \<and> list_all (stage_ok E) ys)"
proof (induction ys arbitrary: xs)
  case (Cons y ys)
  show ?case
  proof (cases "body_cid E r (xs @ [y])")
    case (Inl e')
    then have "\<not> (receipt_ok E r \<and> list_all (stage_ok E) (xs @ [y]))"
      using body_cid_ok [of E r "xs @ [y]"] by simp
    with Cons.prems(2) show ?thesis
      by auto
  next
    case (Inr c)
    then have "stage_ok E y"
      using body_cid_ok [of E r "xs @ [y]"] by simp
    with Inr Cons show ?thesis
      by (auto simp: recompute_shadow split: if_split_asm)
  qed
qed simp

lemma verify_keys_iff: "verify_auth_chain_with_keys E cur prev r = Inr True \<longleftrightarrow>
    chain_linked (body_cid E r) (token_matches E cur prev) (ur_stages r)
    \<and> ur_receipt_cid r = ur_receipt_cid (shadow_at E r (ur_stages r))"
proof -
  have "verify_auth_chain_with_keys E cur prev r = Inr True \<longleftrightarrow>
      (\<exists>sh. replay_stages E cur prev (shadow_at E r []) (ur_stages r) = Inr (Some sh)
        \<and> ur_receipt_cid sh = ur_receipt_cid r)"
    by (auto simp: verify_auth_chain_with_keys_def empty_shadow_at [of r E] result_simps split: option.split_asm)
  also have "\<dots> \<longleftrightarrow> chain_linked (body_cid E r) (token_matches E cur prev) (ur_stages r)
      \<and> ur_receipt_cid r = ur_receipt_cid (shadow_at E r (ur_stages r))"
    by (auto simp: replay_linked)
  finally show ?thesis .
qed

lemma verify_secrets_iff: "verify_auth_chain_with_secrets E current previous r \<longleftrightarrow>
    (\<exists>cur prev. key_from_secret_str current = Inr cur \<and> transpose_key previous = Inr prev
      \<and> verify_auth_chain_with_keys E cur prev r = Inr True)"
  by (auto simp: verify_auth_chain_with_secrets_def split: sum.splits)

lemma rebuild_reseal:
  assumes "text_laws (ce_text (re_crypto E))" "receipt_ok E r" "list_all (stage_ok E) xs" "list_all (stage_ok E) ys"
  shows "rebuild_stages E key (shadow_at E r xs) ys = Some (shadow_at E r (reseal (body_cid E r) (stamp E key) xs ys))"
  using assms(3,4)
proof (induction ys arbitrary: xs)
  case (Cons y ys)
  let ?z = "stamp E key (prev_of (body_cid E r) xs) y"
  have ok: "list_all (stage_ok E) (xs @ [?z])"
    using ac.valid_seal [of E r y key] assms(1,2) Cons.prems by simp
  then obtain c where "body_cid E r (xs @ [?z]) = Inr c"
    using body_cid_ok [of E r "xs @ [?z]"] assms(2) by auto
  with Cons ok show ?case
    by (simp add: chain_prev_shadow recompute_shadow)
qed simp

lemma shadow_at_cid: "body_cid E r xs = Inr c \<Longrightarrow> xs \<noteq> [] \<Longrightarrow> ur_receipt_cid (shadow_at E r xs) = c"
  by (simp add: shadow_at_def)

lemma shadow_at_idem [simp]: "shadow_at E (shadow_at E r xs) ys = shadow_at E r ys"
  "body_cid E (shadow_at E r xs) = body_cid E r"
  by (simp_all add: shadow_at_def body_cid_def Let_def fun_eq_iff)

lemma body_cid_sel [simp]:
  "body_cid E (r\<lparr>ur_stages := ys\<rparr>) = body_cid E r"
  "body_cid E (r\<lparr>ur_sig := sg\<rparr>) = body_cid E r"
  "body_cid E (r\<lparr>ur_receipt_cid := c\<rparr>) = body_cid E r"
  "body_cid E (r\<lparr>ur_id := i\<rparr>) = body_cid E r"
  by (cases r; simp add: body_cid_def fun_eq_iff)+

lemma shadow_at_sel_cid [simp]:
  "ur_receipt_cid (shadow_at E (r\<lparr>ur_stages := ys\<rparr>) xs) = ur_receipt_cid (shadow_at E r xs)"
  "ur_receipt_cid (shadow_at E (r\<lparr>ur_sig := sg\<rparr>) xs) = ur_receipt_cid (shadow_at E r xs)"
  by (simp_all add: shadow_at_def Let_def)

section \<open>Appending, denying and signing\<close>

lemma recompute_stages: "zs \<noteq> [] \<Longrightarrow> body_cid E r zs = Inr c \<Longrightarrow>
    recompute_cid E (r\<lparr>ur_stages := zs\<rparr>) = (shadow_at E r zs, Inr ())"
  by (simp add: recompute_cid_def shadow_at_def body_cid_def Let_def)

lemma verify_shadow: "zs \<noteq> [] \<Longrightarrow> chain_linked (body_cid E r) (token_matches E cur prev) zs \<Longrightarrow>
    verify_auth_chain_with_keys E cur prev (shadow_at E r zs) = Inr True"
  by (simp add: verify_keys_iff)

lemma verified_prev:
  assumes "verify_auth_chain_with_keys E cur prev r = Inr True"
  shows "chain_prev r = prev_of (body_cid E r) (ur_stages r)"
proof -
  have "chain_prev r = chain_prev (shadow_at E r (ur_stages r))"
    using assms by (simp add: verify_keys_iff chain_prev_def)
  then show ?thesis
    by (simp only: chain_prev_shadow)
qed

lemma verified_stages_ok:
  assumes "verify_auth_chain_with_keys E cur prev r = Inr True"
  shows "list_all (stage_ok E) (ur_stages r)" "ur_stages r \<noteq> [] \<Longrightarrow> receipt_ok E r"
  using assms chain_linked_commit [of "body_cid E r" _ "ur_stages r"] body_cid_ok [of E r "ur_stages r"]
  by (cases "ur_stages r = []"; auto simp: verify_keys_iff)+

lemma append_verified:
  assumes laws: "text_laws (ce_text (re_crypto E))"
    and ver: "verify_auth_chain_with_keys E key pkey r = Inr True"
    and keys: "key_from_secret_str current = Inr key" "transpose_key previous = Inr pkey"
    and ok: "receipt_ok E r" "stage_ok E s"
  defines "zs \<equiv> ur_stages r @ [stamp E key (chain_prev r) s]"
  shows "append_stage_with_secrets E current previous s r = (shadow_at E r zs, Inr ())"
    and "verify_auth_chain_with_keys E key pkey (shadow_at E r zs) = Inr True"
proof -
  have lin: "chain_linked (body_cid E r) (token_matches E key pkey) zs"
    unfolding zs_def verified_prev [OF ver]
    using ac.linked_extend [of E r key pkey "ur_stages r" s] laws ok verified_stages_ok(1) [OF ver] ver
    by (simp add: verify_keys_iff list_all_iff)
  have ne: "zs \<noteq> []"
    by (simp add: zs_def)
  obtain c where c: "body_cid E r zs = Inr c"
    using chain_linked_commit [OF lin ne] by blast
  show v: "verify_auth_chain_with_keys E key pkey (shadow_at E r zs) = Inr True"
    by (rule verify_shadow [OF ne lin])
  show "append_stage_with_secrets E current previous s r = (shadow_at E r zs, Inr ())"
    using keys v recompute_stages [OF ne c] by (simp add: append_stage_with_secrets_def zs_def Let_def)
qed

lemma append_ok_verifies:
  assumes "append_stage_with_secrets E current previous s r = (r', Inr ())"
  shows "verify_auth_chain_with_secrets E current previous r'"
  using assms
  by (auto simp: append_stage_with_secrets_def verify_secrets_iff Let_def split: sum.split_asm prod.split_asm if_split_asm)

text \<open>What a denial changes before it recomputes the chain.\<close>

definition denied :: "string \<Rightarrow> unified_receipt \<Rightarrow> unified_receipt" where
  "denied reason r = r\<lparr>ur_decision := DenyDecision,
     ur_effects := (case ur_effects r of JObj m \<Rightarrow> JObj (obj_insert ''deny_reason'' (JStr reason) m)
                    | other \<Rightarrow> other)\<rparr>"

lemma denied_sel [simp]: "ur_stages (denied reason r) = ur_stages r" "ur_decision (denied reason r) = DenyDecision"
  by (simp_all add: denied_def)

lemma deny_reseals:
  assumes "text_laws (ce_text (re_crypto E))" "key_from_secret_str current = Inr key"
    and "receipt_ok E (denied reason r)" "list_all (stage_ok E) (ur_stages r)" "ur_stages r \<noteq> []"
  defines "zs \<equiv> reseal (body_cid E (denied reason r)) (stamp E key) [] (ur_stages r)"
  shows "deny_with_secrets E reason (Some current) r = shadow_at E (denied reason r) zs"
    and "verify_auth_chain_with_keys E key pkey (deny_with_secrets E reason (Some current) r) = Inr True"
proof -
  let ?d = "denied reason r"
  have linked: "chain_linked (body_cid E ?d) (token_matches E key pkey) zs"
    using ac.linked_reseal [of E ?d key pkey "[]" "ur_stages r"] assms(1,3,4)
    by (simp add: zs_def list_all_iff)
  have ne: "zs \<noteq> []"
  proof -
    have "length (reseal commit seal xs ys) = length xs + length ys" for commit :: "stage_execution list \<Rightarrow> canon_error + string"
        and seal xs ys
      by (induction ys arbitrary: xs) simp_all
    from this [of "body_cid E ?d" "stamp E key" "[]" "ur_stages r"] show ?thesis
      using assms(5) by (auto simp: zs_def)
  qed
  obtain c where c: "body_cid E ?d zs = Inr c"
    using chain_linked_commit [OF linked ne] by blast
  have "rebuild_auth_chain_with_current_key E (Some current) ?d = ?d\<lparr>ur_stages := zs\<rparr>"
    using rebuild_reseal [of E ?d "[]" "ur_stages r" key] assms(1-4)
    by (simp add: rebuild_auth_chain_with_current_key_def empty_shadow_at [of ?d E] zs_def)
  then show "deny_with_secrets E reason (Some current) r = shadow_at E ?d zs"
    using recompute_stages [OF ne c] by (simp add: deny_with_secrets_def denied_def [symmetric])
  then show "verify_auth_chain_with_keys E key pkey (deny_with_secrets E reason (Some current) r) = Inr True"
    using verify_shadow [OF ne linked] by simp
qed

lemma sign_keeps_chain:
  "verify_auth_chain_with_keys E cur prev (r\<lparr>ur_sig := sg\<rparr>) = Inr True \<longleftrightarrow>
   verify_auth_chain_with_keys E cur prev r = Inr True"
  by (simp add: verify_keys_iff)

end
