(* ===== verification/Receipt_Chain.thy ===== *)
theory Receipt_Chain
  imports Receipt_Laws
begin

text \<open>
  The properties of the unified receipt, over every sequence of its operations, with a concrete
  receipt on which they are run.
\<close>

section \<open>Reachable receipts\<close>

text \<open>
  The operations in the order the pipeline may call them with its stage secrets: fields are attached
  before the first stage; stages are appended; effects may be rewritten immediately before a denial;
  a denial comes after a stage; a receipt may be signed.
\<close>

inductive receipt_reach :: "('sk, 'vk) receipt_env \<Rightarrow> string \<Rightarrow> string option \<Rightarrow> unified_receipt \<Rightarrow> bool"
  for E current previous where
  reach_new: "receipt_reach E current previous (receipt_new now world did kid nonce)"
| reach_runtime: "receipt_reach E current previous r \<Longrightarrow> ur_stages r = [] \<Longrightarrow>
    receipt_reach E current previous (with_runtime_info rt r)"
| reach_subject: "receipt_reach E current previous r \<Longrightarrow> ur_stages r = [] \<Longrightarrow>
    receipt_reach E current previous (with_subject_did d r)"
| reach_knock: "receipt_reach E current previous r \<Longrightarrow> ur_stages r = [] \<Longrightarrow>
    receipt_reach E current previous (with_knock_cid c r)"
| reach_type: "receipt_reach E current previous r \<Longrightarrow> ur_stages r = [] \<Longrightarrow>
    receipt_reach E current previous (r\<lparr>ur_type := t\<rparr>)"
| reach_append: "receipt_reach E current previous r \<Longrightarrow>
    append_stage_with_secrets E current previous s r = (r', Inr ()) \<Longrightarrow>
    receipt_reach E current previous r'"
| reach_deny: "receipt_reach E current previous r \<Longrightarrow> ur_stages r \<noteq> [] \<Longrightarrow>
    distinct (map fst m) \<Longrightarrow> nrf_ok (ce_text (re_crypto E)) (JObj m) \<Longrightarrow>
    key_ok (ce_text (re_crypto E)) reason \<Longrightarrow>
    receipt_reach E current previous (deny_with_secrets E reason (Some current) (r\<lparr>ur_effects := JObj m\<rparr>))"
| reach_sign: "receipt_reach E current previous r \<Longrightarrow> finalize_and_sign E sk mode r = Inr r' \<Longrightarrow>
    receipt_reach E current previous r'"

lemma nrf_ok_obj_insert:
  assumes "distinct (map fst m)" "nrf_ok T (JObj m)" "key_ok T k" "nrf_ok T v"
  shows "nrf_ok T (JObj (obj_insert k v m))"
  using assms distinct_obj_insert [of m k v]
proof (simp add: nrf_ok_obj)
  show "distinct (map fst m) \<Longrightarrow> list_all (\<lambda>(k, v). key_ok T k \<and> nrf_ok T v) m \<Longrightarrow>
      list_all (\<lambda>(k, v). key_ok T k \<and> nrf_ok T v) (obj_insert k v m)"
    using assms(3,4) by (induction k v m rule: obj_insert.induct) auto
qed

lemma nrf_ok_decision: "text_laws T \<Longrightarrow> nrf_ok T (decision_json d)"
  unfolding decision_json_def by (cases d) (auto simp: show_decision_def intro!: key_ok_literal)

lemma nrf_ok_replace:
  assumes "text_laws T" "nrf_ok T (to_json r)" "nrf_ok T eff"
  shows "nrf_ok T (to_json (r\<lparr>ur_decision := d, ur_effects := eff\<rparr>))"
  using assms unfolding nrf_ok_to_json by (auto simp: receipt_members_def list_all_iff nrf_ok_decision)

lemma receipt_ok_denied:
  assumes "text_laws (ce_text (re_crypto E))" "receipt_ok E r" "distinct (map fst m)"
    and "nrf_ok (ce_text (re_crypto E)) (JObj m)" "key_ok (ce_text (re_crypto E)) reason"
  shows "receipt_ok E (denied reason (r\<lparr>ur_effects := JObj m\<rparr>))"
proof -
  let ?T = "ce_text (re_crypto E)" and ?m = "obj_insert ''deny_reason'' (JStr reason) m"
  have "key_ok ?T ''deny_reason''"
    using assms(1) by (rule key_ok_literal) simp
  then have "nrf_ok ?T (JObj ?m)"
    using assms(3-5) by (intro nrf_ok_obj_insert) simp_all
  from nrf_ok_replace [OF assms(1,2) [unfolded receipt_ok_def] this, of DenyDecision] show ?thesis
    by (cases r) (simp add: receipt_ok_def denied_def)
qed

section \<open>The chain\<close>

lemma verified_cid:
  assumes "verify_auth_chain_with_keys E cur prev r = Inr True" "ur_stages r \<noteq> []"
  shows "body_cid E r (ur_stages r) = Inr (ur_receipt_cid r)"
proof -
  obtain c where "body_cid E r (ur_stages r) = Inr c"
    using assms chain_linked_commit [of "body_cid E r" "token_matches E cur prev" "ur_stages r"] by (auto simp: verify_keys_iff)
  with assms show ?thesis
    by (simp add: verify_keys_iff shadow_at_cid)
qed

text \<open>C15: What chain verification decides: a receipt verifies under a current and an optional previous key
  exactly when every stage carries the token of one of them over the identifier of the receipt as it
  was before that stage, every such identifier exists, and the receipt bears the identifier of its
  final content.\<close>

theorem verify_auth_chain_spec:
  "verify_auth_chain_with_keys E cur prev r = Inr True \<longleftrightarrow>
     chain_linked (body_cid E r) (token_matches E cur prev) (ur_stages r)
     \<and> (if ur_stages r = [] then ur_receipt_cid r = []
        else body_cid E r (ur_stages r) = Inr (ur_receipt_cid r))"
proof (cases "ur_stages r = []")
  case False
  then show ?thesis
    using verified_cid [of E cur prev r] verify_keys_iff [of E cur prev r] shadow_at_cid [of E r "ur_stages r"]
    by metis
qed (simp add: verify_keys_iff shadow_at_def)

lemma verify_keys_fields:
  "ur_stages r' = [] \<Longrightarrow> ur_stages r = [] \<Longrightarrow> ur_receipt_cid r' = ur_receipt_cid r \<Longrightarrow>
   verify_auth_chain_with_keys E cur prev r = Inr True \<Longrightarrow>
   verify_auth_chain_with_keys E cur prev r' = Inr True"
  by (simp add: verify_keys_iff shadow_at_def)

text \<open>C4: The chain holds in every reachable receipt: whatever stages are appended, whenever the receipt is
  denied after a stage and however its effects are rewritten for that denial, signed or not, the
  receipt verifies under the stage secrets it was built with.\<close>

theorem receipt_chain_invariant:
  assumes "text_laws (ce_text (re_crypto E))"
    and "key_from_secret_str current = Inr key" "transpose_key previous = Inr pkey"
    and "receipt_reach E current previous r"
  shows "verify_auth_chain_with_secrets E current previous r"
proof -
  have "verify_auth_chain_with_keys E key pkey r = Inr True"
    using assms(4)
  proof induction
    case (reach_append r s r')
    then show ?case
      using append_ok_verifies assms(2,3) by (fastforce simp: verify_secrets_iff)
  next
    case (reach_deny r m reason)
    let ?r = "r\<lparr>ur_effects := JObj m\<rparr>"
    have "list_all (stage_ok E) (ur_stages ?r)" "receipt_ok E (denied reason ?r)"
      using verified_stages_ok [OF reach_deny.IH] reach_deny.hyps assms(1) by (simp_all add: receipt_ok_denied)
    then show ?case
      using deny_reseals(2) [OF assms(1,2)] reach_deny.hyps by simp
  next
    case (reach_sign r sk mode r')
    then show ?case
      by (auto simp: finalize_and_sign_def result_simps Let_def sign_keeps_chain)
  qed (auto simp: verify_keys_iff receipt_new_def shadow_at_def with_runtime_info_def with_subject_did_def with_knock_cid_def
      cong: if_cong)
  with assms(2,3) show ?thesis
    by (simp add: verify_secrets_iff)
qed

text \<open>An append goes through and extends the chain: on a receipt that verifies, with content and stage
  that have a canonical form, it succeeds, keeps every field and earlier stage, adds exactly the given
  stage with its token and makes the identifier that of the new content.\<close>

theorem append_stage_extends:
  assumes "text_laws (ce_text (re_crypto E))" "verify_auth_chain_with_secrets E current previous r"
    and "receipt_ok E r" "stage_ok E s" "key_from_secret_str current = Inr key"
  shows "\<exists>c. append_stage_with_secrets E current previous s r =
      (r\<lparr>ur_stages := ur_stages r @ [stamp E key (chain_prev r) s], ur_receipt_cid := c, ur_id := c\<rparr>, Inr ())
    \<and> body_cid E r (ur_stages r @ [stamp E key (chain_prev r) s]) = Inr c"
proof -
  let ?zs = "ur_stages r @ [stamp E key (chain_prev r) s]"
  obtain pkey where pk: "transpose_key previous = Inr pkey" "verify_auth_chain_with_keys E key pkey r = Inr True"
    using assms(2,5) by (auto simp: verify_secrets_iff)
  from append_verified [OF assms(1) pk(2) assms(5) pk(1) assms(3,4)]
  have app: "append_stage_with_secrets E current previous s r = (shadow_at E r ?zs, Inr ())"
    and ver: "verify_auth_chain_with_keys E key pkey (shadow_at E r ?zs) = Inr True" .
  obtain c where c: "body_cid E r ?zs = Inr c"
    using chain_linked_commit [of "body_cid E r" _ ?zs] ver by (auto simp: verify_keys_iff)
  then show ?thesis
    using app by (simp add: shadow_at_def)
qed

lemma reseal_length: "length (reseal commit seal xs ys) = length xs + length ys"
  by (induction ys arbitrary: xs) simp_all

lemma reseal_map: "(\<And>p s. f (seal p s) = f s) \<Longrightarrow> map f (reseal commit seal xs ys) = map f xs @ map f ys"
  by (induction ys arbitrary: xs) simp_all

text \<open>C29: A denial leaves a chain that verifies, whatever the chain was before: it records the decision and
  the reason, replaces the tokens of all stages and nothing else of them, and the receipt verifies
  under the current secret alone.\<close>

theorem deny_restores_chain:
  assumes "text_laws (ce_text (re_crypto E))" "key_from_secret_str current = Inr key"
    and "ur_stages r \<noteq> []" "list_all (stage_ok E) (ur_stages r)" "receipt_ok E r"
    and "ur_effects r = JObj m" "distinct (map fst m)" "key_ok (ce_text (re_crypto E)) reason"
  defines "d \<equiv> deny_with_secrets E reason (Some current) r"
  shows "verify_auth_chain_with_secrets E current None d \<and> ur_decision d = DenyDecision
    \<and> json_get (ur_effects d) ''deny_reason'' = Some (JStr reason)
    \<and> map (\<lambda>s. s\<lparr>st_auth_token := []\<rparr>) (ur_stages d) = map (\<lambda>s. s\<lparr>st_auth_token := []\<rparr>) (ur_stages r)"
proof -
  have "nrf_ok (ce_text (re_crypto E)) (JObj m)"
    using assms(5,6) unfolding receipt_ok_def nrf_ok_to_json by (auto simp: receipt_members_def)
  then have ok: "receipt_ok E (denied reason r)"
    using receipt_ok_denied [OF assms(1,5,7) _ assms(8)] assms(6) by (metis unified_receipt.surjective unified_receipt.update_convs(13))
  note R = deny_reseals [OF assms(1,2) ok assms(4,3)]
  have "d = shadow_at E (denied reason r)
      (reseal (body_cid E (denied reason r)) (stamp E key) [] (ur_stages r))"
    using R(1) by (simp add: d_def)
  then have "ur_decision d = DenyDecision" "json_get (ur_effects d) ''deny_reason'' = Some (JStr reason)"
    "ur_stages d = reseal (body_cid E (denied reason r)) (stamp E key) [] (ur_stages r)"
    using assms(6) by (simp_all add: shadow_at_def denied_def Let_def)
  moreover have "verify_auth_chain_with_secrets E current None d"
    using R(2) [of None] assms(2) by (simp add: verify_secrets_iff d_def)
  ultimately show ?thesis
    by (simp add: reseal_map stamp_def)
qed

section \<open>Signatures\<close>

lemma payload_sign [simp]: "signature_payload_value (r\<lparr>ur_sig := s\<rparr>) = signature_payload_value r"
  by (simp add: signature_payload_value_def)

text \<open>A signature in either mode is well-formed for the other one too: its verification returns.\<close>

lemma signed_form:
  assumes "sound_crypto K pub" "to_nrf_bytes K v = Inr nrf"
    and "sign_domain_v1 K v domain sk = Inr s \<or> sign_domain_v2_hash_first K v domain sk = Inr s"
  shows "s \<noteq> [] \<and> (\<exists>b. verify_domain_v1 K v domain vk s = Inr b) \<and> (\<exists>b. verify_domain_v2_hash_first K v domain vk s = Inr b)"
proof -
  obtain m where "s = ''ed25519:'' @ ce_b64 K (ce_sign K sk m)"
    using assms(3) by (auto simp: v1.sign_message v2.sign_message result_simps)
  then show ?thesis
    using assms(1,2)
    by (simp add: v1.verify_message v2.verify_message verify_signature_def sound_crypto_def del: append_Cons append_Nil)
qed

text \<open>C30: Signing a receipt and verifying it against its DID round-trips in both modes: verification returns, the
  signature is valid in the mode it was made in and under \<open>Dual\<close>, and the chain is unaffected.\<close>

theorem receipt_sign_verify:
  assumes "sound_crypto (re_crypto E) pub" "re_verifying_key E (ur_did r) = Inr (pub sk)"
    and "json_wf (signature_payload_value r)" "finalize_and_sign E sk mode r = Inr r'"
  shows "\<exists>rep. verify_receipt_signature E vm r' = Inr rep
    \<and> (case mode of CompatV1 \<Rightarrow> vr_v1_valid rep | HashFirstV2 \<Rightarrow> vr_v2_valid rep) \<and> (vm = Dual \<longrightarrow> vr_valid rep)
    \<and> (verify_auth_chain_with_keys E cur prev r' = Inr True \<longleftrightarrow> verify_auth_chain_with_keys E cur prev r = Inr True)"
proof -
  let ?K = "re_crypto E" and ?p = "signature_payload_value r" and ?d = "receipt_sign_domain E"
  obtain s where r': "r' = r\<lparr>ur_sig := s\<rparr>"
    and s: "(case mode of CompatV1 \<Rightarrow> sign_domain_v1 ?K ?p ?d sk | HashFirstV2 \<Rightarrow> sign_domain_v2_hash_first ?K ?p ?d sk) = Inr s"
    using assms(4) by (auto simp: finalize_and_sign_def result_simps Let_def)
  have eq: "json_eq ?p ?p"
    using assms(3) by (rule json_eq_refl)
  have valid: "mode = CompatV1 \<Longrightarrow> verify_domain_v1 ?K ?p ?d (pub sk) s = Inr True"
    "mode = HashFirstV2 \<Longrightarrow> verify_domain_v2_hash_first ?K ?p ?d (pub sk) s = Inr True"
    using v1.verify_sign [OF assms(1) _ assms(3,3) eq] v2.verify_sign [OF assms(1) _ assms(3,3) eq] s by simp_all
  obtain nrf where "to_nrf_bytes ?K ?p = Inr nrf"
    using s by (cases mode) (auto simp: v1.sign_message v2.sign_message result_simps)
  from signed_form [OF assms(1) this, of ?d sk s "pub sk"] s obtain b1 b2 where
    "s \<noteq> []" "verify_domain_v1 ?K ?p ?d (pub sk) s = Inr b1" "verify_domain_v2_hash_first ?K ?p ?d (pub sk) s = Inr b2"
    by (cases mode) auto
  with assms(2) valid show ?thesis
    by (cases mode) (auto simp: r' verify_receipt_signature_def Let_def sign_keeps_chain)
qed

section \<open>What an identifier commits to\<close>

definition receipt_content :: "unified_receipt \<Rightarrow> json" where
  "receipt_content r = to_json (r\<lparr>ur_sig := [], ur_receipt_cid := [], ur_id := []\<rparr>)"

lemma body_cid_content: "body_cid E r (ur_stages r) = cid_of_value (re_crypto E) (receipt_content r)"
  by (simp add: body_cid_def receipt_content_def)

lemma same_cid_same_bytes:
  assumes "cid_of_value K v = Inr c" "cid_of_value K w = Inr c"
  obtains a b where "to_nrf_bytes K v = Inr a" "to_nrf_bytes K w = Inr b" "ce_hash K a = ce_hash K b"
  using assms by (auto simp: cid_of_value_def result_simps)

lemma receipt_member_images:
  "obj_image T (receipt_members r) ''decision'' = nrf_of_json T (decision_json (ur_decision r))"
  "obj_image T (receipt_members r) ''did'' = nrf_of_json T (JStr (ur_did r))"
  "obj_image T (receipt_members r) ''nonce'' = nrf_of_json T (JStr (ur_nonce r))"
  "obj_image T (receipt_members r) ''@world'' = nrf_of_json T (JStr (ur_world r))"
  "obj_image T (receipt_members r) ''stages'' = nrf_of_json T (JArr (map stage_json (ur_stages r)))"
  by (simp_all add: obj_image_def receipt_members_def decision_json_def opt_member_def split: option.split)

lemma same_str: "nrf_ok T (JStr s) \<Longrightarrow> nrf_of_json T (JStr s) = nrf_of_json T (JStr t) \<Longrightarrow> s = t"
  by (auto simp: nrf_of_json_def json_to_nrf_def key_ok_def split: if_split_asm)

lemma same_arr_length:
  assumes "nrf_ok T (JArr xs)" "nrf_of_json T (JArr xs) = nrf_of_json T (JArr ys)"
  shows "length xs = length ys"
proof -
  have len: "json_arr_to_nrf T xs p i = Inr vs \<Longrightarrow> length vs = length xs" for xs p i vs
    by (induction xs arbitrary: i vs) (auto simp: result_simps)
  obtain v where "nrf_of_json T (JArr xs) = Some v" "nrf_of_json T (JArr ys) = Some v"
    using assms by (auto simp: nrf_ok_def)
  then show ?thesis
    by (auto simp: nrf_of_json_Some [of T _ _ "''body''"] result_simps dest!: len)
qed

lemma same_bytes_same_content:
  assumes "json_wf (receipt_content r)" "json_small (receipt_content r)" "json_wf (receipt_content r')" "json_small (receipt_content r')"
    and "to_nrf1_bytes T (receipt_content r) = Inr b" "to_nrf1_bytes T (receipt_content r') = Inr b"
  shows "ur_decision r = ur_decision r' \<and> ur_did r = ur_did r' \<and> ur_nonce r = ur_nonce r' \<and> ur_world r = ur_world r'
       \<and> length (ur_stages r) = length (ur_stages r') \<and> nrf_of_json T (receipt_content r) = nrf_of_json T (receipt_content r')"
proof -
  from same_bytes_same_nrf [OF assms] obtain v where
    v: "nrf_of_json T (receipt_content r) = Some v" "nrf_of_json T (receipt_content r') = Some v"
    using assms(5) by (auto simp: to_nrf1_bytes_iff)
  let ?m = "\<lambda>r. receipt_members (r\<lparr>ur_sig := [], ur_receipt_cid := [], ur_id := []\<rparr>)"
  have img: "obj_image T (?m r) k = obj_image T (?m r') k" for k
    using same_nrf_members [of T "?m r" v "?m r'"] v by (simp add: receipt_content_def to_json_def)
  have ok: "nrf_ok T (receipt_content r)" "nrf_ok T (receipt_content r')"
    using v by (simp_all add: nrf_ok_def)
  have ok: "nrf_ok T (JStr (ur_did r))" "nrf_ok T (JStr (ur_nonce r))" "nrf_ok T (JStr (ur_world r))"
    "nrf_ok T (decision_json (ur_decision r))" "nrf_ok T (JArr (map stage_json (ur_stages r)))"
    using ok(1) unfolding receipt_content_def nrf_ok_to_json by (simp_all add: receipt_members_def)
  have "ur_did r = ur_did r'" "ur_nonce r = ur_nonce r'" "ur_world r = ur_world r'"
    "show_decision (ur_decision r) = show_decision (ur_decision r')"
    "length (map stage_json (ur_stages r)) = length (map stage_json (ur_stages r'))"
    using same_str [OF ok(1)] same_str [OF ok(2)] same_str [OF ok(3)] same_str [OF ok(4) [unfolded decision_json_def]]
      same_arr_length [OF ok(5)] img [of "''did''"] img [of "''nonce''"] img [of "''@world''"] img [of "''decision''"]
      img [of "''stages''"]
    by (simp_all add: receipt_member_images decision_json_def)
  then show ?thesis
    using v by (simp add: show_decision_def split: decision.split_asm)
qed

text \<open>C28: The identifier of a verified receipt commits to its content: two verified receipts with at least one stage and the same
  identifier have the same canonical content, hence the same decision, issuer, nonce, world and number
  of stages, unless the canonical bytes of these two receipts themselves are different byte strings with the same BLAKE3 hash.\<close>

theorem receipt_cid_binds:
  assumes "verify_auth_chain_with_keys E k1 p1 r = Inr True" "verify_auth_chain_with_keys E k2 p2 r' = Inr True"
    and "ur_receipt_cid r = ur_receipt_cid r'" "ur_stages r \<noteq> []" "ur_stages r' \<noteq> []"
    and "json_wf (receipt_content r)" "json_small (receipt_content r)"
    and "json_wf (receipt_content r')" "json_small (receipt_content r')"
  shows "(\<exists>a b. to_nrf_bytes (re_crypto E) (receipt_content r) = Inr a \<and> to_nrf_bytes (re_crypto E) (receipt_content r') = Inr b
        \<and> a \<noteq> b \<and> ce_hash (re_crypto E) a = ce_hash (re_crypto E) b)
    \<or> (ur_decision r = ur_decision r' \<and> ur_did r = ur_did r' \<and> ur_nonce r = ur_nonce r' \<and> ur_world r = ur_world r'
       \<and> length (ur_stages r) = length (ur_stages r')
       \<and> nrf_of_json (ce_text (re_crypto E)) (receipt_content r) = nrf_of_json (ce_text (re_crypto E)) (receipt_content r'))"
proof -
  let ?K = "re_crypto E"
  let ?T = "ce_text ?K"
  have "cid_of_value ?K (receipt_content r) = Inr (ur_receipt_cid r)" "cid_of_value ?K (receipt_content r') = Inr (ur_receipt_cid r)"
    using verified_cid [OF assms(1,4)] verified_cid [OF assms(2,5)] assms(3) by (simp_all add: body_cid_content)
  then obtain a b where bytes: "to_nrf_bytes ?K (receipt_content r) = Inr a" "to_nrf_bytes ?K (receipt_content r') = Inr b"
    "ce_hash ?K a = ce_hash ?K b"
    by (rule same_cid_same_bytes)
  show ?thesis
  proof (cases "a = b")
    case True
    then have "to_nrf1_bytes ?T (receipt_content r) = Inr b" "to_nrf1_bytes ?T (receipt_content r') = Inr b"
      using bytes(1,2) by (auto simp: to_nrf_bytes_def result_simps)
    then show ?thesis
      using same_bytes_same_content [OF assms(6-9)] by blast
  qed (use bytes in blast)
qed

section \<open>Edges\<close>

text \<open>A reason without a canonical form cannot be recorded: denying a receipt with, say, a line break in the
  reason clears the identifier, the receipt identifier and the signature without reporting an error,
  and every later append fails.\<close>

theorem deny_unencodable_reason:
  fixes current :: string
  assumes "ur_effects r = JObj m" "distinct (map fst m)" "\<not> key_ok (ce_text (re_crypto E)) reason"
  defines "d \<equiv> deny_with_secrets E reason (Some current) r"
  shows "ur_receipt_cid d = [] \<and> ur_id d = [] \<and> ur_sig d = []
    \<and> snd (append_stage_with_secrets E current previous s d) \<noteq> Inr ()"
proof -
  let ?T = "ce_text (re_crypto E)"
  have bad: "\<not> receipt_ok E (denied reason r)"
  proof
    assume "receipt_ok E (denied reason r)"
    then have "nrf_ok ?T (JObj (obj_insert ''deny_reason'' (JStr reason) m))"
      unfolding receipt_ok_def nrf_ok_to_json by (auto simp: receipt_members_def denied_def assms(1))
    moreover have "(''deny_reason'', JStr reason) \<in> set (obj_insert ''deny_reason'' (JStr reason) m)"
      by (rule map_of_SomeD) simp
    ultimately show False
      using assms(2,3) distinct_obj_insert by (fastforce simp: nrf_ok_obj list_all_iff)
  qed
  have no_cid: "\<exists>e. body_cid E (denied reason r) xs = Inl e" for xs
    using bad body_cid_ok [of E "denied reason r" xs] by (cases "body_cid E (denied reason r) xs") auto
  have fail: "\<exists>e. recompute_cid E (denied reason r\<lparr>ur_stages := xs\<rparr>)
      = (denied reason r\<lparr>ur_stages := xs, ur_sig := [], ur_receipt_cid := [], ur_id := []\<rparr>, Inl e)" for xs
    using no_cid [of xs] by (auto simp: recompute_cid_def body_cid_def Let_def)
  obtain zs where "rebuild_auth_chain_with_current_key E (Some current) (denied reason r) = denied reason r\<lparr>ur_stages := zs\<rparr>"
    by (cases "rebuild_auth_chain_with_current_key E (Some current) (denied reason r) = denied reason r")
      (auto simp: rebuild_auth_chain_with_current_key_def split: option.split_asm intro: that [of "ur_stages r"])
  then have d: "d = denied reason r\<lparr>ur_stages := zs, ur_sig := [], ur_receipt_cid := [], ur_id := []\<rparr>"
    using fail [of zs] by (auto simp: d_def deny_with_secrets_def denied_def [symmetric])
  have again: "\<exists>e. recompute_cid E (d\<lparr>ur_stages := xs\<rparr>) = (d\<lparr>ur_stages := xs\<rparr>, Inl e)" for xs
    using no_cid [of xs] by (cases "denied reason r") (auto simp: recompute_cid_def body_cid_def Let_def d)
  have "snd (append_stage_with_secrets E current previous s d) \<noteq> Inr ()"
  proof (cases "key_from_secret_str current")
    case (Inr key)
    then show ?thesis
      using again [of "ur_stages d @ [stamp E key (chain_prev d) s]"] by (auto simp: append_stage_with_secrets_def)
  qed (simp add: append_stage_with_secrets_def)
  then show ?thesis
    by (simp add: d)
qed

lemma deny_before_first_stage:
  assumes "ur_stages r = []" "receipt_ok E (denied reason r)"
  shows "verify_auth_chain_with_keys E cur prev (deny_with_secrets E reason secret r) = Inr False"
proof -
  obtain c where c: "body_cid E (denied reason r) [] = Inr c" "c \<noteq> []"
    using body_cid_ok [of E "denied reason r" "[]"] assms(2) body_cid_ne [of E "denied reason r" "[]"] by auto
  have "denied reason r\<lparr>ur_stages := []\<rparr> = denied reason r"
    using assms(1) by (cases r) (simp add: denied_def)
  with c(1) have "cid_of_value (re_crypto E)
      (to_json (denied reason r\<lparr>ur_sig := [], ur_receipt_cid := [], ur_id := []\<rparr>)) = Inr c"
    unfolding body_cid_def by argo
  moreover have "rebuild_auth_chain_with_current_key E secret (denied reason r) = denied reason r"
    using assms(1) by (auto simp: rebuild_auth_chain_with_current_key_def empty_shadow_def split: option.split)
  ultimately have "deny_with_secrets E reason secret r = denied reason r\<lparr>ur_receipt_cid := c, ur_id := c\<rparr>"
    by (simp add: deny_with_secrets_def denied_def [symmetric] recompute_cid_def Let_def)
  then show ?thesis
    using c(2) assms(1) by (simp add: verify_auth_chain_with_keys_def empty_shadow_def)
qed

section \<open>A concrete receipt\<close>

definition toy_receipt_env :: "(u8, u8) receipt_env" where
  "toy_receipt_env = \<lparr>re_crypto = toy_crypto, re_keyed_hash = (\<lambda>k m. take 32 (m @ k)),
     re_verifying_key = (\<lambda>_. Inr 7), re_var = (\<lambda>_. NotPresent)\<rparr>"

definition demo_receipt :: unified_receipt where
  "demo_receipt = receipt_new ''2026-01-01'' ''a/x/t/y'' ''did:key:z'' ''did:key:z#k'' ''00''"

definition demo_stage :: stage_execution where
  "demo_stage = \<lparr>st_stage = WriteAhead, st_timestamp = ''t'', st_input_cid = ''b3:0'', st_output_cid = None,
     st_fuel_used = Some 5, st_policy_trace = [], st_vm_sig = None, st_vm_sig_payload_cid = None,
     st_auth_token = [], st_duration_ms = 1\<rparr>"

definition demo_key :: "u8 list" where "demo_key = padded_key (bytes_of ''s'')"

lemma toy_text [simp]: "ce_text toy_crypto = plain_text" "re_crypto toy_receipt_env = toy_crypto"
  by (simp_all add: toy_receipt_env_def toy_crypto_def)

lemma demo_facts:
  "receipt_ok toy_receipt_env demo_receipt" "stage_ok toy_receipt_env demo_stage"
  "receipt_ok toy_receipt_env (denied ''no'' demo_receipt)"
  "key_from_secret_str ''s'' = Inr demo_key"
  unfolding receipt_ok_def stage_ok_def toy_text by code_simp+

lemma demo_new: "verify_auth_chain_with_keys toy_receipt_env demo_key None demo_receipt = Inr True"
  by (simp add: verify_keys_iff demo_receipt_def receipt_new_def shadow_at_def)

definition demo_appended :: unified_receipt where
  "demo_appended = fst (append_stage_with_secrets toy_receipt_env ''s'' None demo_stage demo_receipt)"

lemma demo_append:
  "append_stage_with_secrets toy_receipt_env ''s'' None demo_stage demo_receipt = (demo_appended, Inr ())"
  "verify_auth_chain_with_keys toy_receipt_env demo_key None demo_appended = Inr True"
  "ur_stages demo_appended \<noteq> []" "ur_effects demo_appended = JObj []" "receipt_ok toy_receipt_env demo_appended"
  "receipt_content demo_appended
    = to_json (demo_receipt\<lparr>ur_stages := [stamp toy_receipt_env demo_key ''genesis'' demo_stage]\<rparr>)"
proof -
  let ?zs = "ur_stages demo_receipt @ [stamp toy_receipt_env demo_key (chain_prev demo_receipt) demo_stage]"
  have laws: "text_laws (ce_text (re_crypto toy_receipt_env))" "transpose_key None = Inr None"
    using plain_text_laws by simp_all
  note A = append_verified [OF laws(1) demo_new demo_facts(4) laws(2) demo_facts(1,2)]
  have eq: "demo_appended = shadow_at toy_receipt_env demo_receipt ?zs"
    using A(1) by (simp add: demo_appended_def)
  show "append_stage_with_secrets toy_receipt_env ''s'' None demo_stage demo_receipt = (demo_appended, Inr ())"
    using A(1) eq by simp
  show v: "verify_auth_chain_with_keys toy_receipt_env demo_key None demo_appended = Inr True"
    unfolding eq by (rule A(2))
  show ne: "ur_stages demo_appended \<noteq> []"
    by (simp add: eq)
  show "ur_effects demo_appended = JObj []"
    by (simp add: eq shadow_at_def Let_def) (simp add: demo_receipt_def receipt_new_def)
  show "receipt_ok toy_receipt_env demo_appended"
    using verified_stages_ok(2) [OF v ne] .
  show "receipt_content demo_appended
      = to_json (demo_receipt\<lparr>ur_stages := [stamp toy_receipt_env demo_key ''genesis'' demo_stage]\<rparr>)"
    by (simp add: eq receipt_content_def shadow_at_def Let_def) (simp add: demo_receipt_def receipt_new_def chain_prev_def)
qed

theorem receipt_chain_invariant_witness:
  "verify_auth_chain_with_secrets toy_receipt_env ''s'' None (deny_with_secrets toy_receipt_env ''no'' (Some ''s'')
    (demo_appended\<lparr>ur_effects := JObj [(''reason_code'', JStr ''X'')]\<rparr>))"
proof (rule receipt_chain_invariant)
  have "receipt_reach toy_receipt_env ''s'' None demo_receipt"
    unfolding demo_receipt_def by (rule reach_new)
  then have "receipt_reach toy_receipt_env ''s'' None demo_appended"
    using demo_append(1) by (rule reach_append)
  then show "receipt_reach toy_receipt_env ''s'' None (deny_with_secrets toy_receipt_env ''no'' (Some ''s'')
      (demo_appended\<lparr>ur_effects := JObj [(''reason_code'', JStr ''X'')]\<rparr>))"
    using demo_append(3) by (rule reach_deny) (simp_all, code_simp+)
qed (use demo_facts plain_text_laws in simp_all)

theorem append_stage_extends_witness:
  "\<exists>c. append_stage_with_secrets toy_receipt_env ''s'' None demo_stage demo_receipt =
    (demo_receipt\<lparr>ur_stages := [stamp toy_receipt_env demo_key ''genesis'' demo_stage], ur_receipt_cid := c, ur_id := c\<rparr>, Inr ())"
proof -
  have "verify_auth_chain_with_secrets toy_receipt_env ''s'' None demo_receipt"
    using demo_new demo_facts by (simp add: verify_secrets_iff)
  from append_stage_extends [OF _ this demo_facts(1,2,4)]
  have "\<exists>c. append_stage_with_secrets toy_receipt_env ''s'' None demo_stage demo_receipt = (demo_receipt\<lparr>ur_stages :=
      ur_stages demo_receipt @ [stamp toy_receipt_env demo_key (chain_prev demo_receipt) demo_stage],
      ur_receipt_cid := c, ur_id := c\<rparr>, Inr ())"
    using plain_text_laws by auto
  moreover have "ur_stages demo_receipt = []" "chain_prev demo_receipt = ''genesis''"
    by (simp_all add: demo_receipt_def receipt_new_def chain_prev_def)
  ultimately show ?thesis
    by simp
qed

theorem deny_restores_chain_witness:
  "verify_auth_chain_with_secrets toy_receipt_env ''s'' None (deny_with_secrets toy_receipt_env ''no'' (Some ''s'') demo_appended)"
proof -
  have laws: "text_laws (ce_text (re_crypto toy_receipt_env))"
    using plain_text_laws by simp
  have reason: "key_ok (ce_text (re_crypto toy_receipt_env)) ''no''"
    by (simp, code_simp)
  from deny_restores_chain [OF laws demo_facts(4) demo_append(3) verified_stages_ok(1) [OF demo_append(2)]
      demo_append(5,4) _ reason] show ?thesis
    by simp
qed

theorem receipt_sign_verify_witness:
  "\<exists>rep. verify_receipt_signature toy_receipt_env Dual
     (demo_receipt\<lparr>ur_sig := sign_raw_v1 toy_crypto (case to_nrf_bytes toy_crypto (signature_payload_value demo_receipt) of Inr b \<Rightarrow> b | Inl _ \<Rightarrow> [])
       ''ubl/receipt/v1'' 7\<rparr>) = Inr rep \<and> vr_valid rep"
proof -
  obtain b where b: "to_nrf_bytes toy_crypto (signature_payload_value demo_receipt) = Inr b"
  proof -
    have "nrf_ok plain_text (signature_payload_value demo_receipt)"
      by code_simp
    then show ?thesis
      using that to_nrf_bytes_ok [of toy_crypto "signature_payload_value demo_receipt"] by auto
  qed
  then have "finalize_and_sign toy_receipt_env 7 CompatV1 demo_receipt
      = Inr (demo_receipt\<lparr>ur_sig := sign_raw_v1 toy_crypto b ''ubl/receipt/v1'' 7\<rparr>)"
    by (simp add: finalize_and_sign_def sign_domain_v1_def receipt_sign_domain_def Let_def)
      (simp add: toy_receipt_env_def)
  moreover have "json_wf (signature_payload_value demo_receipt)"
    by code_simp
  ultimately show ?thesis
    using receipt_sign_verify [of toy_receipt_env id demo_receipt 7 CompatV1 _ Dual] toy_sound b
    by (simp add: toy_receipt_env_def) blast
qed

text \<open>Two receipts with different nonces under a hash without collisions.\<close>

definition plain_hash_env :: "(u8, u8) receipt_env" where
  "plain_hash_env = toy_receipt_env\<lparr>re_crypto := toy_crypto\<lparr>ce_hash := id\<rparr>\<rparr>"

definition demo_nonce :: "string \<Rightarrow> unified_receipt" where
  "demo_nonce nonce = receipt_new ''2026-01-01'' ''a/x/t/y'' ''did:key:z'' ''did:key:z#k'' nonce"

definition demo_sealed :: "string \<Rightarrow> unified_receipt" where
  "demo_sealed nonce = fst (append_stage_with_secrets plain_hash_env ''s'' None demo_stage (demo_nonce nonce))"

lemma plain_hash_text [simp]: "ce_text (re_crypto plain_hash_env) = plain_text" "ce_hash (re_crypto plain_hash_env) = id"
  by (simp_all add: plain_hash_env_def toy_crypto_def)

lemma demo_sealed:
  assumes "nonce \<in> {''00'', ''01''}"
  shows "verify_auth_chain_with_keys plain_hash_env demo_key None (demo_sealed nonce) = Inr True"
    "ur_stages (demo_sealed nonce) \<noteq> []" "ur_nonce (demo_sealed nonce) = nonce"
    "json_wf (receipt_content (demo_sealed nonce))" "json_small (receipt_content (demo_sealed nonce))"
proof -
  let ?r = "demo_nonce nonce"
  let ?zs = "ur_stages ?r @ [stamp plain_hash_env demo_key (chain_prev ?r) demo_stage]"
  have laws: "text_laws (ce_text (re_crypto plain_hash_env))" "transpose_key None = Inr None"
    using plain_text_laws by simp_all
  have new: "verify_auth_chain_with_keys plain_hash_env demo_key None ?r = Inr True"
    by (simp add: verify_keys_iff demo_nonce_def receipt_new_def shadow_at_def)
  have "receipt_ok plain_hash_env (demo_nonce ''00'')" "receipt_ok plain_hash_env (demo_nonce ''01'')"
    unfolding receipt_ok_def plain_hash_text by code_simp+
  then have ok: "receipt_ok plain_hash_env ?r" "stage_ok plain_hash_env demo_stage"
    using demo_facts(2) assms by (auto simp: stage_ok_def)
  note A = append_verified [OF laws(1) new demo_facts(4) laws(2) ok]
  have eq: "demo_sealed nonce = shadow_at plain_hash_env ?r ?zs"
    using A(1) by (simp add: demo_sealed_def)
  have content: "receipt_content (demo_sealed nonce) = to_json (?r\<lparr>ur_stages := [stamp plain_hash_env demo_key ''genesis'' demo_stage]\<rparr>)"
    by (simp add: eq receipt_content_def shadow_at_def Let_def) (simp add: demo_nonce_def receipt_new_def chain_prev_def)
  show "verify_auth_chain_with_keys plain_hash_env demo_key None (demo_sealed nonce) = Inr True"
    unfolding eq by (rule A(2))
  show "ur_stages (demo_sealed nonce) \<noteq> []" "ur_nonce (demo_sealed nonce) = nonce"
    by (simp_all add: eq shadow_at_def Let_def) (simp add: demo_nonce_def receipt_new_def)
  have "json_wf (to_json (demo_nonce n\<lparr>ur_stages := [stamp plain_hash_env demo_key ''genesis'' demo_stage]\<rparr>))" if "n \<in> {''00'', ''01''}" for n
    using that by (elim insertE emptyE; hypsubst) code_simp+
  with assms show "json_wf (receipt_content (demo_sealed nonce))"
    by (simp add: content)
  show "json_small (receipt_content (demo_sealed nonce))"
    using assms unfolding content
    by (auto simp: to_json_def receipt_members_def demo_nonce_def receipt_new_def stage_json_def stamp_def
        demo_stage_def compute_auth_token_with_key_def list_member_def u64_json_def i64_json_def decision_json_def show_decision_def)
qed

theorem receipt_cid_binds_witness:
  "ur_receipt_cid (demo_sealed ''00'') \<noteq> ur_receipt_cid (demo_sealed ''01'')
   \<and> ur_nonce (demo_sealed ''00'') = ur_nonce (demo_sealed ''00''\<lparr>ur_sig := ''x''\<rparr>)"
proof
  note A = demo_sealed [of "''00''", simplified] and B = demo_sealed [of "''01''", simplified]
  show "ur_receipt_cid (demo_sealed ''00'') \<noteq> ur_receipt_cid (demo_sealed ''01'')"
  proof
    assume "ur_receipt_cid (demo_sealed ''00'') = ur_receipt_cid (demo_sealed ''01'')"
    from receipt_cid_binds [OF A(1) B(1) this A(2) B(2) A(4,5) B(4,5)] show False
      by (auto simp: A(3) B(3))
  qed
  have "receipt_content (demo_sealed ''00''\<lparr>ur_sig := ''x''\<rparr>) = receipt_content (demo_sealed ''00'')"
    by (simp add: receipt_content_def)
  then show "ur_nonce (demo_sealed ''00'') = ur_nonce (demo_sealed ''00''\<lparr>ur_sig := ''x''\<rparr>)"
    using receipt_cid_binds [OF A(1) _ _ A(2) _ A(4,5), of demo_key None "demo_sealed ''00''\<lparr>ur_sig := ''x''\<rparr>"] A
      sign_keeps_chain [of plain_hash_env demo_key None "''x''" "demo_sealed ''00''"] by auto
qed

theorem deny_unencodable_reason_witness:
  "ur_receipt_cid (deny_with_secrets toy_receipt_env [CHR 0x0A] (Some ''s'') demo_appended) = []"
proof -
  have "\<not> key_ok plain_text [CHR 0x0A]"
    by code_simp
  with deny_unencodable_reason [OF demo_append(4), of toy_receipt_env "[CHR 0x0A]" "''s''"] show ?thesis
    by simp
qed

end
