(* ===== verification/Knock.thy ===== *)
theory Knock
  imports Ubl_Text Unc1
begin

text \<open>
  The KNOCK stage (\<open>crates/ubl_runtime/src/knock.rs\<close>), the first gate of the pipeline: size and UTF-8
  checks on the raw body, normalisation, the optional import of floats as UNC-1 intervals, structural
  limits, the check of numeric atoms, the schema of task events and the scan for duplicate keys. The
  JSON parser and printer of \<open>serde_json\<close>, \<open>str::trim\<close> and the process environment are fields of
  \<open>knock_env\<close>.
\<close>

section \<open>Limits and errors\<close>

abbreviation (input) MAX_BODY_BYTES :: nat where "MAX_BODY_BYTES \<equiv> 1048576"
abbreviation (input) MAX_DEPTH :: nat where "MAX_DEPTH \<equiv> 32"
abbreviation (input) MAX_ARRAY_LEN :: nat where "MAX_ARRAY_LEN \<equiv> 10000"

datatype f64_import_mode = RejectFloats | BndFloats

text \<open>The last constructor is not an error value: the code panics on a slice beyond the text.\<close>

datatype knock_error =
    BodyTooLarge nat
  | DepthExceeded
  | ArrayTooLong nat
  | DuplicateKey string
  | KnockInvalidUtf8
  | MissingAnchor string
  | NotObject
  | RawFloat string
  | MalformedNum string
  | MalformedFloat num_error
  | NumericLiteralNotAllowed string
  | InputSyntax string
  | InputNormalization rho_error
  | NumberOutOfRange string
  | SchemaValidation string
  | SlicePanic

record knock_env =
  kn_text :: text_env
  kn_bigint :: bigint_text
  kn_parse :: "u8 list \<Rightarrow> string + json"
  kn_trim :: "string \<Rightarrow> string"
  kn_show_number :: "number \<Rightarrow> string"
  kn_var :: "string \<Rightarrow> string option"

definition f64_import_mode_from_env :: "knock_env \<Rightarrow> f64_import_mode" where
  "f64_import_mode_from_env K =
     (case kn_var K ''F64_IMPORT_MODE'' of
        Some v \<Rightarrow> if eq_ignore_ascii_case v ''bnd'' then BndFloats else RejectFloats
      | None \<Rightarrow> RejectFloats)"

definition require_unc1_from_env :: "knock_env \<Rightarrow> bool" where
  "require_unc1_from_env K =
     (case kn_var K ''REQUIRE_UNC1_NUMERIC'' of
        Some v \<Rightarrow> v = ''1'' \<or> eq_ignore_ascii_case v ''true''
      | None \<Rightarrow> False)"

definition knock_raw :: "u8 list \<Rightarrow> knock_error + unit" where
  "knock_raw bytes =
     (if length bytes > MAX_BODY_BYTES then Inl (BodyTooLarge (length bytes))
      else if \<not> utf8_valid bytes then Inl KnockInvalidUtf8
      else Inr ())"

section \<open>Structure\<close>

fun check_depth :: "json \<Rightarrow> nat \<Rightarrow> knock_error + unit" where
  "check_depth (JObj m) depth =
     (if depth > MAX_DEPTH then Inl DepthExceeded
      else for_each (\<lambda>(k, v). check_depth v (depth + 1)) m)"
| "check_depth (JArr xs) depth =
     (if depth > MAX_DEPTH then Inl DepthExceeded
      else for_each (\<lambda>v. check_depth v (depth + 1)) xs)"
| "check_depth v depth = (if depth > MAX_DEPTH then Inl DepthExceeded else Inr ())"

fun check_arrays :: "json \<Rightarrow> knock_error + unit" where
  "check_arrays (JArr xs) =
     (if length xs > MAX_ARRAY_LEN then Inl (ArrayTooLong (length xs)) else for_each check_arrays xs)"
| "check_arrays (JObj m) = for_each (\<lambda>(k, v). check_arrays v) m"
| "check_arrays _ = Inr ()"

section \<open>Numeric atoms\<close>

definition is_bigint_literal :: "string \<Rightarrow> bool" where
  "is_bigint_literal s =
     (if s = [] then False
      else let start = (if hd s = CHR ''-'' then 1 else 0)
           in if start \<ge> length s then False else list_all is_digit (drop start s))"

definition is_zero_bigint :: "string \<Rightarrow> bool" where
  "is_zero_bigint s =
     (let s = (case strip_prefix ''-'' s of Some r \<Rightarrow> r | None \<Rightarrow> s)
      in s \<noteq> [] \<and> list_all (\<lambda>c. c = CHR ''0'') s)"

definition ensure_allowed_keys :: "json_obj \<Rightarrow> string list \<Rightarrow> string \<Rightarrow> string \<Rightarrow> knock_error + unit" where
  "ensure_allowed_keys m allowed path tag =
     for_each (\<lambda>(k, v). if List.member allowed k then Inr ()
       else Inl (MalformedNum (path @ '' contains unknown field '' @ k @ '' for '' @ tag))) m"

definition ensure_bigint_field :: "json_obj \<Rightarrow> string \<Rightarrow> string \<Rightarrow> knock_error + string" where
  "ensure_bigint_field m field path =
     and_then (ok_or (MalformedNum (path @ ''.'' @ field @ '' must be bigint string''))
         (Option.bind (map_of m field) as_str)) (\<lambda>s.
       if \<not> is_bigint_literal s then Inl (MalformedNum (path @ ''.'' @ field @ '' invalid bigint literal '' @ s))
       else Inr s)"

definition ensure_u32_field :: "json_obj \<Rightarrow> string \<Rightarrow> string \<Rightarrow> knock_error + u32" where
  "ensure_u32_field m field path =
     and_then (ok_or (MalformedNum (path @ ''.'' @ field @ '' must be u32''))
         (Option.bind (map_of m field) as_u64)) (\<lambda>n.
       if unat n < 2 ^ 32 then Inr (ucast n)
       else Inl (MalformedNum (path @ ''.'' @ field @ '' out of range for u32'')))"

definition ensure_optional_unit :: "json_obj \<Rightarrow> string \<Rightarrow> knock_error + unit" where
  "ensure_optional_unit m path =
     (case map_of m ''u'' of
        Some v \<Rightarrow> if as_str v = None then Inl (MalformedNum (path @ ''.u must be string when present'')) else Inr ()
      | None \<Rightarrow> Inr ())"

lemma size_json_obj_less: "map_of m k = Some (JObj x) \<Longrightarrow> size_list (size_prod (\<lambda>_. 0) size) x < size_list (size_prod (\<lambda>_. 0) size) m"
  by (induction m) (auto split: if_split_asm)

function validate_num_atom :: "json_obj \<Rightarrow> string \<Rightarrow> knock_error + unit" where
  "validate_num_atom m path =
     and_then (ok_or (MalformedNum (path @ ''.@num must be string'')) (Option.bind (map_of m ''@num'') as_str)) (\<lambda>tag.
       if tag = ''int/1'' then
         and_then (ensure_allowed_keys m [''@num'', ''v'', ''u''] path tag) (\<lambda>_.
         and_then (ensure_bigint_field m ''v'' path) (\<lambda>_. ensure_optional_unit m path))
       else if tag = ''dec/1'' then
         and_then (ensure_allowed_keys m [''@num'', ''m'', ''s'', ''u''] path tag) (\<lambda>_.
         and_then (ensure_bigint_field m ''m'' path) (\<lambda>_.
         and_then (ensure_u32_field m ''s'' path) (\<lambda>_. ensure_optional_unit m path)))
       else if tag = ''rat/1'' then
         and_then (ensure_allowed_keys m [''@num'', ''p'', ''q'', ''u''] path tag) (\<lambda>_.
         and_then (ensure_bigint_field m ''p'' path) (\<lambda>_.
         and_then (ensure_bigint_field m ''q'' path) (\<lambda>q.
           if is_zero_bigint q then Inl (MalformedNum (path @ ''.q must be non-zero for rat/1''))
           else ensure_optional_unit m path)))
       else if tag = ''bnd/1'' then
         and_then (ensure_allowed_keys m [''@num'', ''lo'', ''hi'', ''u''] path tag) (\<lambda>_.
           case Option.bind (map_of m ''lo'') as_object of
             None \<Rightarrow> Inl (MalformedNum (path @ ''.lo must be object''))
           | Some lo \<Rightarrow>
             case Option.bind (map_of m ''hi'') as_object of
               None \<Rightarrow> Inl (MalformedNum (path @ ''.hi must be object''))
             | Some hi \<Rightarrow>
               and_then (validate_num_atom lo (path @ ''.lo'')) (\<lambda>_.
               and_then (validate_num_atom hi (path @ ''.hi'')) (\<lambda>_. ensure_optional_unit m path)))
       else Inl (MalformedNum (path @ ''.@num unsupported tag '' @ tag)))"
  by pat_completeness auto
termination
  by (relation "measure (\<lambda>(m, _). size_list (size_prod (\<lambda>_. 0) size) m)")
    (auto simp: bind_eq_Some_conv elim!: as_object.elims dest: size_json_obj_less)

declare validate_num_atom.simps [simp del]

function (sequential) check_numeric_nodes :: "knock_env \<Rightarrow> json \<Rightarrow> string \<Rightarrow> bool \<Rightarrow> knock_error + unit" where
  "check_numeric_nodes K (JNum n) path require_unc1 =
     (if num_is_i64 n then (if require_unc1 then Inl (NumericLiteralNotAllowed path) else Inr ())
      else if num_is_u64 n then Inl (NumberOutOfRange path)
      else Inl (RawFloat (kn_show_number K n @ '' at '' @ path)))"
| "check_numeric_nodes K (JArr xs) path require_unc1 =
     for_each (\<lambda>(idx, v). check_numeric_nodes K v (path @ ''['' @ show_nat idx @ '']'') require_unc1)
       (List.enumerate 0 xs)"
| "check_numeric_nodes K (JObj m) path require_unc1 =
     (if map_of m ''@num'' \<noteq> None then validate_num_atom m path
      else for_each (\<lambda>(k, v). check_numeric_nodes K v (path @ ''.'' @ k) require_unc1) m)"
| "check_numeric_nodes K _ path require_unc1 = Inr ()"
  by pat_completeness auto
termination
  by (relation "measure (\<lambda>(_, v, _). size v)")
    (auto simp: in_set_enumerate_eq simp del: json.size intro!: size_json_arr nth_mem intro: size_json_obj)

text \<open>The serialised form of \<open>ubl_unc1::Num\<close>, tagged with its kind.\<close>

definition num_unit_member :: "string option \<Rightarrow> json_obj" where
  "num_unit_member u = (case u of None \<Rightarrow> [] | Some s \<Rightarrow> [(''u'', JStr s)])"

fun num_members :: "num \<Rightarrow> json_obj" where
  "num_members (Num_Int v u) = [(''@num'', JStr ''int/1''), (''v'', JStr v)] @ num_unit_member u"
| "num_members (Num_Dec m s u) =
     [(''@num'', JStr ''dec/1''), (''m'', JStr m), (''s'', JNum (N_Int (uint s)))] @ num_unit_member u"
| "num_members (Num_Rat p q u) = [(''@num'', JStr ''rat/1''), (''p'', JStr p), (''q'', JStr q)] @ num_unit_member u"
| "num_members (Num_Bnd lo hi u) =
     [(''@num'', JStr ''bnd/1''), (''lo'', JObj (num_members lo)), (''hi'', JObj (num_members hi))] @ num_unit_member u"

fun normalize_f64_to_bnd :: "knock_env \<Rightarrow> json \<Rightarrow> knock_error + json" where
  "normalize_f64_to_bnd K (JNum n) =
     (case n of
        N_Int _ \<Rightarrow> Inr (JNum n)
      | N_Float bits \<Rightarrow> map_err MalformedFloat (map_ok (\<lambda>bnd. JObj (num_members bnd)) (from_f64_bits (kn_bigint K) bits)))"
| "normalize_f64_to_bnd K (JArr xs) = map_ok JArr (collect_results (normalize_f64_to_bnd K) xs)"
| "normalize_f64_to_bnd K (JObj m) =
     (if map_of m ''@num'' \<noteq> None then Inr (JObj m)
      else map_ok JObj (collect_results (\<lambda>(k, v). map_ok (Pair k) (normalize_f64_to_bnd K v)) m))"
| "normalize_f64_to_bnd K v = Inr v"

section \<open>Task events\<close>

abbreviation TASK_EVENT :: string where "TASK_EVENT \<equiv> ''task.lifecycle.event.v1''"

definition task_error :: "string \<Rightarrow> knock_error" where
  "task_error msg = SchemaValidation (TASK_EVENT @ '': '' @ msg)"

definition validate_required_nonempty_string :: "knock_env \<Rightarrow> json_obj \<Rightarrow> string \<Rightarrow> knock_error + unit" where
  "validate_required_nonempty_string K m field =
     and_then (ok_or (task_error (field @ '' must be string'')) (Option.bind (map_of m field) as_str)) (\<lambda>value.
       if kn_trim K value = [] then Inl (task_error (field @ '' must be non-empty'')) else Inr ())"

definition validate_array_of_strings :: "knock_env \<Rightarrow> json_obj \<Rightarrow> string \<Rightarrow> knock_error + nat" where
  "validate_array_of_strings K m field =
     and_then (ok_or (task_error (field @ '' must be array'')) (Option.bind (map_of m field) as_array)) (\<lambda>arr.
     and_then (for_each (\<lambda>(idx, item).
         and_then (ok_or (task_error (field @ ''['' @ show_nat idx @ ''] must be string'')) (as_str item)) (\<lambda>s.
           if kn_trim K s = [] then Inl (task_error (field @ ''['' @ show_nat idx @ ''] must be non-empty'')) else Inr ()))
         (List.enumerate 0 arr)) (\<lambda>_.
       Inr (length arr)))"

definition validate_actor :: "knock_env \<Rightarrow> json_obj \<Rightarrow> knock_error + unit" where
  "validate_actor K m =
     and_then (ok_or (task_error ''actor must be object'') (Option.bind (map_of m ''actor'') as_object)) (\<lambda>actor.
     and_then (validate_required_nonempty_string K actor ''did'') (\<lambda>_.
     and_then (ok_or (task_error ''actor.role must be string'') (Option.bind (map_of actor ''role'') as_str)) (\<lambda>role.
       if \<not> List.member [''personal'', ''platform'', ''operator'', ''noc''] role
       then Inl (task_error (''invalid actor.role '' @ debug_str (kn_text K) role)) else Inr ())))"

definition validate_type_specific_schema :: "knock_env \<Rightarrow> json \<Rightarrow> knock_error + unit" where
  "validate_type_specific_schema K value =
     and_then (ok_or NotObject (as_object value)) (\<lambda>m.
     and_then (ok_or (MissingAnchor ''@type'') (Option.bind (map_of m ''@type'') as_str)) (\<lambda>chip_type.
       if chip_type \<noteq> TASK_EVENT then Inr ()
       else
         and_then (for_each (validate_required_nonempty_string K m) [''@id'', ''@ver'', ''task_id'', ''track'', ''title'']) (\<lambda>_.
         and_then (ok_or (task_error ''state must be string'') (Option.bind (map_of m ''state'') as_str)) (\<lambda>state.
           if \<not> List.member [''open'', ''blocked'', ''in_progress'', ''done'', ''canceled''] state
           then Inl (task_error (''invalid state '' @ debug_str (kn_text K) state))
           else
             and_then (validate_array_of_strings K m ''depends_on'') (\<lambda>_.
             and_then (validate_array_of_strings K m ''evidence'') (\<lambda>evidence_len.
             and_then (if state = ''blocked'' then validate_required_nonempty_string K m ''blocker_code'' else Inr ()) (\<lambda>_.
               if state = ''done'' \<and> evidence_len = 0
               then Inl (task_error ''done state requires at least one evidence item'')
               else validate_actor K m)))))))"

section \<open>Duplicate keys\<close>

definition is_ascii_whitespace :: "char \<Rightarrow> bool" where
  "is_ascii_whitespace c \<longleftrightarrow> c \<in> {CHR 0x20, CHR 0x09, CHR 0x0A, CHR 0x0C, CHR 0x0D}"

text \<open>
  The text after an opening quote up to the closing one, and what follows from there. A backslash skips
  two bytes; one at the very end of the text makes the code slice beyond it.
\<close>

fun scan_string :: "string \<Rightarrow> (string \<times> string) option" where
  "scan_string [] = Some ([], [])"
| "scan_string (c # s) =
     (if c = CHR 0x5C then
        (case s of
           [] \<Rightarrow> None
         | d # s' \<Rightarrow> map_option (\<lambda>(key, rest). (c # d # key, rest)) (scan_string s'))
      else if c = CHR 0x22 then Some ([], c # s)
      else map_option (\<lambda>(key, rest). (c # key, rest)) (scan_string s))"

lemma scan_string_length: "scan_string s = Some (key, rest) \<Longrightarrow> length rest \<le> length s"
  by (induction s arbitrary: key rule: scan_string.induct) (fastforce split: if_split_asm list.split_asm)+

text \<open>The loop over one object: it ends at the closing bracket of depth zero or with the text.\<close>

function (sequential) scan_object :: "string list \<Rightarrow> nat \<Rightarrow> bool \<Rightarrow> bool \<Rightarrow> string \<Rightarrow> knock_error + string" where
  "scan_object keys depth in_string esc [] = Inr []"
| "scan_object keys depth in_string esc (b # s) =
     (if esc then scan_object keys depth in_string False s
      else if b = CHR 0x5C \<and> in_string then scan_object keys depth in_string True s
      else if b = CHR 0x22 then
        (if \<not> in_string \<and> depth = 0 then
           (case scan_string s of
              None \<Rightarrow> Inl SlicePanic
            | Some (key, rest) \<Rightarrow>
              let after = tl rest;
                  next = dropWhile is_ascii_whitespace after
              in if key \<noteq> [] \<and> next \<noteq> [] \<and> hd next = CHR '':'' then
                   (if List.member keys key then Inl (DuplicateKey key)
                    else scan_object (key # keys) depth in_string False after)
                 else scan_object keys depth in_string False after)
         else scan_object keys depth (\<not> in_string) False s)
      else if \<not> in_string then
        (if b = CHR ''{'' \<or> b = CHR ''['' then scan_object keys (depth + 1) in_string False s
         else if b = CHR ''}'' \<or> b = CHR '']'' then
           (if depth = 0 then Inr (b # s) else scan_object keys (depth - 1) in_string False s)
         else scan_object keys depth in_string False s)
      else scan_object keys depth in_string False s)"
  by pat_completeness auto
termination
  by (relation "measure (\<lambda>(_, _, _, _, s). length s)") (auto dest!: scan_string_length)

lemma scan_object_length: "scan_object keys depth in_string esc s = Inr rest \<Longrightarrow> length rest \<le> length s"
proof (induction "length s" arbitrary: keys depth in_string esc s rule: less_induct)
  case less
  show ?case
  proof (cases s)
    case (Cons b t)
    have step: "scan_object k d i e u = Inr rest \<Longrightarrow> length u \<le> length t \<Longrightarrow> length rest \<le> Suc (length t)" for k d i e u
      using less.hyps [of u k d i e] Cons by fastforce
    have scanned: "scan_string t = Some (key, r) \<Longrightarrow> length (tl r) \<le> length t" for key r
      using scan_string_length [of t key r] by simp
    show ?thesis
      using less.prems
      by (auto simp: Cons Let_def split: if_split_asm option.split_asm elim!: step scanned)
  qed (use less.prems in simp)
qed

function scan_object_keys :: "string \<Rightarrow> knock_error + unit" where
  "scan_object_keys [] = Inr ()"
| "scan_object_keys (c # s) =
     (if c = CHR ''{'' then
        (case scan_object [] 0 False False s of
           Inl e \<Rightarrow> Inl e
         | Inr rest \<Rightarrow> scan_object_keys (tl rest))
      else scan_object_keys s)"
  by pat_completeness auto
termination
  by (relation "measure length") (auto dest: scan_object_length)

definition check_duplicate_keys :: "u8 list \<Rightarrow> knock_error + unit" where
  "check_duplicate_keys bytes =
     and_then (ok_or KnockInvalidUtf8 (from_utf8 bytes)) scan_object_keys"

section \<open>The stage\<close>

definition knock_parsed_with_options :: "knock_env \<Rightarrow> json \<Rightarrow> bool \<Rightarrow> knock_error + unit" where
  "knock_parsed_with_options K value require_unc1 =
     and_then (ok_or NotObject (as_object value)) (\<lambda>m.
       if map_of m ''@type'' = None then Inl (MissingAnchor ''@type'')
       else if map_of m ''@world'' = None then Inl (MissingAnchor ''@world'')
       else
         and_then (check_depth value 0) (\<lambda>_.
         and_then (check_arrays value) (\<lambda>_.
         and_then (check_numeric_nodes K value ''$'' require_unc1) (\<lambda>_.
           validate_type_specific_schema K value))))"

definition knock_parsed :: "knock_env \<Rightarrow> json \<Rightarrow> knock_error + unit" where
  "knock_parsed K value = knock_parsed_with_options K value (require_unc1_from_env K)"

text \<open>The message of a normalisation error; a key named like the marker would be taken for a duplicate.\<close>

fun rho_kind_text :: "rho_kind \<Rightarrow> string" where
  "rho_kind_text NumberNotI64 = ''Number must be i64''"
| "rho_kind_text RhoBOM = ''BOMPresent''"
| "rho_kind_text RhoControl = ''ControlCharPresent''"
| "rho_kind_text RhoNotNFC = ''NotNFC''"
| "rho_kind_text KeyBOM = ''BOMPresent in key''"
| "rho_kind_text KeyControl = ''ControlCharPresent in key''"
| "rho_kind_text KeyNotNFC = ''NotNFC in key''"
| "rho_kind_text (KeyDuplicate k) = ''DuplicateKey('' @ k @ '')''"
| "rho_kind_text KeyEmpty = ''EmptyKeyAfterNormalization''"

fun rho_text :: "rho_error \<Rightarrow> string" where
  "rho_text (Rho path kind) = string_of_bytes [0xCF, 0x81] @ '' violation at '' @ path @ '': '' @ rho_kind_text kind"

fun find_after :: "string \<Rightarrow> string \<Rightarrow> string option" where
  "find_after p [] = (if p = [] then Some [] else None)"
| "find_after p (c # s) = (if starts_with p (c # s) then Some (drop (length p) (c # s)) else find_after p s)"

definition map_normalization_error :: "rho_error \<Rightarrow> knock_error" where
  "map_normalization_error e =
     (case find_after ''DuplicateKey('' (rho_text e) of
        Some tail \<Rightarrow> DuplicateKey (hd (split_on (CHR '')'') tail))
      | None \<Rightarrow> InputNormalization e)"

definition knock_with_options :: "knock_env \<Rightarrow> u8 list \<Rightarrow> bool \<Rightarrow> f64_import_mode \<Rightarrow> knock_error + json" where
  "knock_with_options K bytes require_unc1_numeric mode =
     and_then (knock_raw bytes) (\<lambda>_.
     and_then (map_err InputSyntax (kn_parse K bytes)) (\<lambda>parsed.
     and_then (map_err map_normalization_error (normalize_for_input (kn_text K) parsed)) (\<lambda>normalized.
     and_then (case mode of BndFloats \<Rightarrow> normalize_f64_to_bnd K normalized | RejectFloats \<Rightarrow> Inr normalized) (\<lambda>value.
     and_then (knock_parsed_with_options K value require_unc1_numeric) (\<lambda>_.
     and_then (check_duplicate_keys bytes) (\<lambda>_. Inr value))))))"

definition knock :: "knock_env \<Rightarrow> u8 list \<Rightarrow> knock_error + json" where
  "knock K bytes = knock_with_options K bytes (require_unc1_from_env K) (f64_import_mode_from_env K)"

end
