(* ===== verification/Knock_Laws.thy ===== *)
theory Knock_Laws
  imports Knock
begin

text \<open>
  What the KNOCK stage guarantees: the structural limits it enforces, that an accepted body always has
  canonical bytes, that imported floats are valid atoms, and exactly which duplicate keys its scan of
  the raw text finds.
\<close>

section \<open>Structural limits\<close>

fun json_height :: "json \<Rightarrow> nat" where
  "json_height (JObj m) = foldr (\<lambda>(k, v). max (Suc (json_height v))) m 0"
| "json_height (JArr xs) = foldr (\<lambda>v. max (Suc (json_height v))) xs 0"
| "json_height _ = 0"

fun arrays_within :: "nat \<Rightarrow> json \<Rightarrow> bool" where
  "arrays_within n (JArr xs) \<longleftrightarrow> length xs \<le> n \<and> list_all (arrays_within n) xs"
| "arrays_within n (JObj m) \<longleftrightarrow> list_all (\<lambda>(k, v). arrays_within n v) m"
| "arrays_within n _ \<longleftrightarrow> True"

lemma foldr_max_le: "foldr (\<lambda>x. max (f x)) xs (0::nat) \<le> b \<longleftrightarrow> list_all (\<lambda>x. f x \<le> b) xs"
  by (induction xs) auto

lemma height_children:
  "d + foldr (\<lambda>x. max (Suc (h x))) xs 0 \<le> b \<longleftrightarrow> d \<le> b \<and> list_all (\<lambda>x. d + 1 + h x \<le> b) xs"
proof (cases "d \<le> b")
  case True
  have "d + foldr (\<lambda>x. max (Suc (h x))) xs 0 \<le> b \<longleftrightarrow> foldr (\<lambda>x. max (Suc (h x))) xs 0 \<le> b - d"
    using True by auto
  also have "\<dots> \<longleftrightarrow> list_all (\<lambda>x. d + 1 + h x \<le> b) xs"
    unfolding foldr_max_le using True by (auto simp: list_all_iff)
  finally show ?thesis
    using True by simp
qed simp

lemma check_depth_iff: "check_depth v d = Inr () \<longleftrightarrow> d + json_height v \<le> MAX_DEPTH"
proof (induction v arbitrary: d)
  case (JArr xs)
  then show ?case
    using height_children [of d json_height xs MAX_DEPTH] by (auto simp: for_each_ok list_all_iff not_less)
next
  case (JObj m)
  have "check_depth v d = Inr () \<longleftrightarrow> d + json_height v \<le> MAX_DEPTH" if "(k, v) \<in> set m" for k v d
    by (rule JObj.IH [OF that]) simp
  then show ?case
    using height_children [of d "\<lambda>(k, v). json_height v" m MAX_DEPTH]
    by (auto simp: for_each_ok list_all_iff not_less case_prod_unfold)
qed simp_all

lemma check_arrays_iff: "check_arrays v = Inr () \<longleftrightarrow> arrays_within MAX_ARRAY_LEN v"
proof (induction v)
  case (JArr xs)
  then show ?case
    by (auto simp: for_each_ok list_all_iff not_less)
next
  case (JObj m)
  have "check_arrays v = Inr () \<longleftrightarrow> arrays_within MAX_ARRAY_LEN v" if "(k, v) \<in> set m" for k v
    by (rule JObj.IH [OF that]) simp
  then show ?case
    by (auto simp: for_each_ok list_all_iff)
qed simp_all

section \<open>Numbers\<close>

lemma allowed_member:
  "ensure_allowed_keys m allowed path tag = Inr () \<Longrightarrow> (k, v) \<in> set m \<Longrightarrow> k \<in> set allowed"
  by (auto simp: ensure_allowed_keys_def for_each_ok list_all_iff split: if_split_asm dest!: bspec)

lemma unit_member: "ensure_optional_unit m path = Inr () \<Longrightarrow> map_of m ''u'' = Some v \<Longrightarrow> \<exists>s. v = JStr s"
  by (cases v) (auto simp: ensure_optional_unit_def)

lemma str_field: "ensure_bigint_field m field path = Inr s \<Longrightarrow> map_of m field = Some (JStr s) \<and> is_bigint_literal s"
  by (auto simp: ensure_bigint_field_def result_simps bind_eq_Some_conv elim!: as_str.elims split: if_split_asm)

lemma u32_field: "ensure_u32_field m field path = Inr n \<Longrightarrow> \<exists>i. map_of m field = Some (JNum (N_Int i)) \<and> 0 \<le> i \<and> i < 2 ^ 32"
proof -
  assume "ensure_u32_field m field path = Inr n"
  then obtain w where w: "Option.bind (map_of m field) as_u64 = Some w" "unat w < 2 ^ 32"
    by (auto simp: ensure_u32_field_def result_simps split: if_split_asm)
  then obtain i where i: "map_of m field = Some (JNum (N_Int i))" "0 \<le> i" "i < 2 ^ 64" "w = word_of_int i"
    by (auto simp: bind_eq_Some_conv elim!: as_u64.elims split: if_split_asm)
  have "unat w = nat i"
    unfolding i(4) unat_eq_nat_uint using i(2,3) by (simp add: uint_word_of_int)
  with i w(2) show ?thesis
    by auto
qed

text \<open>An atom that validates holds only strings, \<open>u32\<close> scales and atoms.\<close>

lemma num_atom_i64:
  "validate_num_atom m path = Inr () \<Longrightarrow> text_ok T (JObj m) \<Longrightarrow> json_i64 (JObj m)"
proof (induction m path rule: validate_num_atom.induct)
  case (1 m path)
  obtain tag where tag: "map_of m ''@num'' = Some (JStr tag)"
    using "1.prems"(1) by (subst (asm) validate_num_atom.simps)
      (auto simp: result_simps bind_eq_Some_conv elim!: as_str.elims)
  have m: "map_of m k = Some v" "text_ok T v" if "(k, v) \<in> set m" for k v
    using that "1.prems"(2) by (auto simp: list_all_iff)
  note V = "1.prems"(1) [unfolded validate_num_atom.simps [of m path], simplified tag, simplified]
  consider "tag = ''int/1''" | "tag = ''dec/1''" | "tag = ''rat/1''" | "tag = ''bnd/1''"
    using V by (auto split: if_split_asm)
  then have "json_i64 v" if kv: "(k, v) \<in> set m" for k v
  proof cases
    case 1
    with V obtain s where V1: "ensure_allowed_keys m [''@num'', ''v'', ''u''] path tag = Inr ()"
      "ensure_bigint_field m ''v'' path = Inr s" "ensure_optional_unit m path = Inr ()"
      by (auto simp: result_simps)
    from allowed_member [OF V1(1) kv] m(1) [OF kv] tag str_field [OF V1(2)] unit_member [OF V1(3)] show ?thesis
      by auto
  next
    case 2
    with V obtain s n where V1: "ensure_allowed_keys m [''@num'', ''m'', ''s'', ''u''] path tag = Inr ()"
      "ensure_bigint_field m ''m'' path = Inr s" "ensure_u32_field m ''s'' path = Inr n" "ensure_optional_unit m path = Inr ()"
      by (auto simp: result_simps)
    from allowed_member [OF V1(1) kv] m(1) [OF kv] tag str_field [OF V1(2)] u32_field [OF V1(3)] unit_member [OF V1(4)]
    show ?thesis
      by auto
  next
    case 3
    with V obtain s q where V1: "ensure_allowed_keys m [''@num'', ''p'', ''q'', ''u''] path tag = Inr ()"
      "ensure_bigint_field m ''p'' path = Inr s" "ensure_bigint_field m ''q'' path = Inr q" "ensure_optional_unit m path = Inr ()"
      by (auto simp: result_simps split: if_split_asm)
    from allowed_member [OF V1(1) kv] m(1) [OF kv] tag str_field [OF V1(2)] str_field [OF V1(3)] unit_member [OF V1(4)]
    show ?thesis
      by auto
  next
    case 4
    with V obtain lo hi where V1: "ensure_allowed_keys m [''@num'', ''lo'', ''hi'', ''u''] path tag = Inr ()"
      and lohi: "map_of m ''lo'' = Some (JObj lo)" "map_of m ''hi'' = Some (JObj hi)"
      and sub: "validate_num_atom lo (path @ ''.lo'') = Inr ()" "validate_num_atom hi (path @ ''.hi'') = Inr ()"
      and u: "ensure_optional_unit m path = Inr ()"
      by (auto simp: result_simps bind_eq_Some_conv elim!: as_object.elims split: option.split_asm)
    have "text_ok T (JObj lo)" "text_ok T (JObj hi)"
      using m(2) lohi map_of_SomeD by fastforce+
    then have "json_i64 (JObj lo)" "json_i64 (JObj hi)"
      using "1.IH" tag 4 V1 lohi sub by (auto simp:)
    with allowed_member [OF V1 kv] m(1) [OF kv] tag lohi unit_member [OF u] show ?thesis
      by auto
  qed
  then show ?case
    by (auto simp: list_all_iff)
qed

lemma check_numeric_i64: "check_numeric_nodes K v path req = Inr () \<Longrightarrow> text_ok T v \<Longrightarrow> json_i64 v"
proof (induction v arbitrary: path)
  case (JNum n)
  then show ?case
    by (auto split: if_split_asm)
next
  case (JArr xs)
  then have all: "\<forall>(idx, v) \<in> set (List.enumerate 0 xs). \<exists>p. check_numeric_nodes K v p req = Inr ()"
    by (auto simp: for_each_ok list_all_iff)
  have "\<exists>p. check_numeric_nodes K v p req = Inr ()" if "v \<in> set xs" for v
  proof -
    obtain i where "i < length xs" "v = xs ! i"
      using \<open>v \<in> set xs\<close> by (auto simp: in_set_conv_nth)
    then have "(i, v) \<in> set (List.enumerate 0 xs)"
      by (simp add: in_set_enumerate_eq)
    with all show ?thesis
      by blast
  qed
  with JArr.IH JArr.prems(2) show ?case
    unfolding json_i64.simps text_ok.simps list_all_iff by blast
next
  case (JObj m)
  show ?case
  proof (cases "map_of m ''@num'' = None")
    case True
    have "json_i64 v" if "(k, v) \<in> set m" for k v
      using JObj.prems True that by (intro JObj.IH [OF that]) (auto simp: for_each_ok list_all_iff)
    then show ?thesis
      by (auto simp: list_all_iff)
  next
    case False
    with JObj.prems show ?thesis
      by (intro num_atom_i64 [of m path T]) auto
  qed
qed simp_all

text \<open>The printed form of a big integer is its decimal representation, as the library documents.\<close>

definition decimal_text :: "bigint_text \<Rightarrow> bool" where
  "decimal_text B \<longleftrightarrow> (\<forall>i. show_big B i = show_int i)"

lemma show_int_literal: "is_bigint_literal (show_int i)"
proof (cases "i < 0")
  case True
  then show ?thesis
    using show_nat_digits [of "nat (- i)"] by (auto simp: is_bigint_literal_def show_int_def Let_def)
next
  case False
  obtain c t where "show_nat (nat i) = c # t" "is_digit c"
    using show_nat_Cons by blast
  with False show ?thesis
    using show_nat_digits [of "nat i"] is_digit_not_sign [of c] by (auto simp: is_bigint_literal_def show_int_def Let_def)
qed

fun num_literals :: "num \<Rightarrow> bool" where
  "num_literals (Num_Int v u) \<longleftrightarrow> is_bigint_literal v"
| "num_literals (Num_Dec m s u) \<longleftrightarrow> is_bigint_literal m"
| "num_literals (Num_Rat p q u) \<longleftrightarrow> is_bigint_literal p \<and> is_bigint_literal q \<and> \<not> is_zero_bigint q"
| "num_literals (Num_Bnd lo hi u) \<longleftrightarrow> num_literals lo \<and> num_literals hi"

lemma scale_bounds: "uint (s :: u32) < 18446744073709551616" "uint (s :: u32) \<le> 9223372036854775807"
  "unat (ucast s :: u64) < 4294967296"
proof -
  have s: "uint s < 2 ^ 32" "unat s < 2 ^ 32"
    using uint_bounded [of s] unsigned_less [of s] by simp_all
  then show "uint s < 18446744073709551616" "uint s \<le> 9223372036854775807"
    by simp_all
  have "unat (ucast s :: u64) = take_bit 64 (unat s)"
    by (simp add: unsigned_ucast_eq)
  also have "\<dots> \<le> unat s"
    by (simp add: take_bit_nat_less_eq_self)
  finally show "unat (ucast s :: u64) < 4294967296"
    using s by simp
qed

text \<open>Every number the library serialises validates as an atom.\<close>

lemmas atom_defs = num_unit_member_def ensure_allowed_keys_def ensure_bigint_field_def ensure_u32_field_def
  ensure_optional_unit_def

lemma num_members_valid: "num_literals n \<Longrightarrow> validate_num_atom (num_members n) path = Inr ()"
proof (induction n arbitrary: path)
  case (Num_Dec m s u)
  then show ?case
    by (subst validate_num_atom.simps) (auto simp: atom_defs scale_bounds split: option.split)
next
  case (Num_Bnd lo hi u)
  then show ?case
    by (subst validate_num_atom.simps) (auto simp: atom_defs split: option.split)
qed (subst validate_num_atom.simps, auto simp: atom_defs split: option.split)+

lemma from_f64_literals:
  assumes "decimal_text B" "from_f64_bits B bits = Inr n"
  shows "\<exists>a b s. n = Num_Bnd (Num_Dec (show_int a) s None) (Num_Dec (show_int b) s None) None"
proof (cases "f64_is_zero bits")
  case True
  moreover have "show_int 0 = ''0''"
    by code_simp
  ultimately show ?thesis
    using assms(2) by (metis from_f64_bits_def Inl_Inr_False Inr_inject)
next
  case False
  with assms show ?thesis
    by (auto simp: from_f64_bits_def round_rational_to_dec_def decimal_text_def Let_def split: if_split_asm prod.split_asm)
qed

lemma from_f64_members:
  assumes "decimal_text B" "from_f64_bits B bits = Inr n"
  shows "validate_num_atom (num_members n) path = Inr ()" "text_laws T \<Longrightarrow> text_ok T (JObj (num_members n))"
proof -
  obtain a b s where n: "n = Num_Bnd (Num_Dec (show_int a) s None) (Num_Dec (show_int b) s None) None"
    using from_f64_literals [OF assms] by blast
  then show "validate_num_atom (num_members n) path = Inr ()"
    by (intro num_members_valid) (simp add: show_int_literal)
  have "printable_ascii (show_nat n)" for n
    using show_nat_digits [of n] by (fastforce simp: printable_ascii_def list_all_iff is_digit_def)
  then have "printable_ascii (show_int i)" for i
    by (auto simp: show_int_def printable_ascii_def)
  moreover assume laws: "text_laws T"
  ultimately have "key_ok T (show_int i)" for i
    using printable_ascii_clean by (auto simp: key_ok_def text_laws_def)
  moreover have "key_ok T ''@num''" "key_ok T ''lo''" "key_ok T ''hi''" "key_ok T ''m''" "key_ok T ''s''"
    "key_ok T ''bnd/1''" "key_ok T ''dec/1''"
    using laws printable_ascii_clean by (simp_all add: key_ok_def text_laws_def printable_ascii_def)
  ultimately show "text_ok T (JObj (num_members n))"
    by (simp add: n num_unit_member_def)
qed

lemma list_all2_right: "list_all2 P xs ys \<Longrightarrow> y \<in> set ys \<Longrightarrow> \<exists>x \<in> set xs. P x y"
  by (induction rule: list_all2_induct) auto

lemma import_text_ok:
  "text_laws T \<Longrightarrow> decimal_text (kn_bigint K) \<Longrightarrow> text_ok T v \<Longrightarrow> normalize_f64_to_bnd K v = Inr v' \<Longrightarrow> text_ok T v'"
proof (induction v arbitrary: v')
  case (JNum n)
  then show ?case
    by (cases n) (auto simp: result_simps dest: from_f64_members(2))
next
  case (JArr xs)
  then obtain ys where ys: "list_all2 (\<lambda>x y. normalize_f64_to_bnd K x = Inr y) xs ys" "v' = JArr ys"
    by (auto simp: result_simps collect_results_Inr_iff)
  have "text_ok T y" if y: "y \<in> set ys" for y
  proof -
    obtain x where x: "x \<in> set xs" "normalize_f64_to_bnd K x = Inr y"
      using list_all2_right [OF ys(1) y] by blast
    then show ?thesis
      using JArr.IH [OF x(1)] JArr.prems(1-3) by (simp add: list_all_iff)
  qed
  then show ?case
    by (simp add: ys(2) list_all_iff)
next
  case (JObj m)
  show ?case
  proof (cases "map_of m ''@num'' = None")
    case True
    then obtain n where n: "list_all2 (\<lambda>(k, v) y. map_ok (Pair k) (normalize_f64_to_bnd K v) = Inr y) m n" "v' = JObj n"
      using JObj.prems by (auto simp: result_simps collect_results_Inr_iff case_prod_unfold)
    have fst: "map fst n = map fst m"
      using n(1) by (induction rule: list_all2_induct) (auto simp: result_simps)
    have "key_ok T k \<and> text_ok T y" if y: "(k, y) \<in> set n" for k y
    proof -
      obtain x where x: "(k, x) \<in> set m" "normalize_f64_to_bnd K x = Inr y"
        using list_all2_right [OF n(1) y] by (auto simp: result_simps)
      then show ?thesis
        using JObj.IH [OF x(1)] JObj.prems by (auto simp: list_all_iff)
    qed
    then show ?thesis
      using JObj.prems(3) fst by (auto simp: n(2) list_all_iff)
  qed (use JObj.prems in auto)
qed auto

lemma knock_parsed_Inr:
  assumes "knock_parsed_with_options K v req = Inr ()"
  shows "\<exists>m. v = JObj m \<and> map_of m ''@type'' \<noteq> None \<and> map_of m ''@world'' \<noteq> None"
    "json_height v \<le> MAX_DEPTH" "arrays_within MAX_ARRAY_LEN v" "check_numeric_nodes K v ''$'' req = Inr ()"
    "validate_type_specific_schema K v = Inr ()"
  using assms check_depth_iff [of v 0] check_arrays_iff [of v]
  by (cases v; auto simp: knock_parsed_with_options_def result_simps split: if_split_asm)+

lemma knock_Inr:
  assumes "knock_with_options K bytes req mode = Inr v"
  obtains parsed normalized where "knock_raw bytes = Inr ()" "kn_parse K bytes = Inr parsed"
    "normalize_for_input (kn_text K) parsed = Inr normalized"
    "(case mode of BndFloats \<Rightarrow> normalize_f64_to_bnd K normalized | RejectFloats \<Rightarrow> Inr normalized) = Inr v"
    "knock_parsed_with_options K v req = Inr ()" "check_duplicate_keys bytes = Inr ()"
  using assms by (auto simp: knock_with_options_def result_simps)

lemma knock_value:
  assumes "text_laws (kn_text K)" "decimal_text (kn_bigint K)"
    and "kn_parse K bytes = Inr parsed" "json_wf parsed" "knock_with_options K bytes req mode = Inr v"
  shows "text_ok (kn_text K) v" "json_i64 v"
proof -
  from assms(5) obtain normalized where k: "normalize_for_input (kn_text K) parsed = Inr normalized"
    "(case mode of BndFloats \<Rightarrow> normalize_f64_to_bnd K normalized | RejectFloats \<Rightarrow> Inr normalized) = Inr v"
    "knock_parsed_with_options K v req = Inr ()"
    using assms(3) by (auto elim: knock_Inr)
  have "text_ok (kn_text K) normalized"
    using normalize_input_text_ok(1) [OF assms(1,4)] k(1) by (simp add: normalize_for_input_def)
  then show "text_ok (kn_text K) v"
    using k(2) import_text_ok [OF assms(1,2)] by (cases mode) auto
  then show "json_i64 v"
    using knock_parsed_Inr(4) [OF k(3)] check_numeric_i64 by blast
qed

section \<open>Accepted bodies\<close>

text \<open>C10: What KNOCK lets through: a body of at most one mebibyte of valid UTF-8, an object with \<open>@type\<close> and
  \<open>@world\<close>, nested at most 32 levels deep with arrays of at most 10000 elements, all of whose numbers,
  inside numeric atoms too, are \<open>i64\<close>.\<close>

theorem knock_accepts_sound:
  assumes "text_laws (kn_text K)" "decimal_text (kn_bigint K)"
    and "kn_parse K bytes = Inr parsed" "json_wf parsed" "knock_with_options K bytes req mode = Inr v"
  shows "length bytes \<le> 1048576 \<and> utf8_valid bytes
    \<and> json_get v ''@type'' \<noteq> None \<and> json_get v ''@world'' \<noteq> None
    \<and> json_height v \<le> 32 \<and> arrays_within 10000 v \<and> json_i64 v"
proof -
  from assms(5) have k: "knock_raw bytes = Inr ()" "knock_parsed_with_options K v req = Inr ()"
    by (auto elim: knock_Inr)
  then show ?thesis
    using knock_parsed_Inr(1-3) [OF k(2)] knock_value(2) [OF assms]
    by (auto simp: knock_raw_def split: if_split_asm)
qed

text \<open>C31: Every body KNOCK accepts has canonical bytes: the strict conversion that later stages use for content
  identifiers cannot fail on it, with floats imported as intervals or not.\<close>

theorem knock_accepted_canonical:
  assumes "text_laws (kn_text K)" "decimal_text (kn_bigint K)"
    and "kn_parse K bytes = Inr parsed" "json_wf parsed" "knock_with_options K bytes req mode = Inr v"
  shows "\<exists>b. to_nrf1_bytes (kn_text K) v = Inr b"
  using text_ok_nrf [OF knock_value [OF assms]] by (auto simp: to_nrf1_bytes_iff)

section \<open>Imported floats\<close>

lemma ensure_not_raw [simp]:
  "ensure_allowed_keys m ks p t \<noteq> Inl (RawFloat x)" "ensure_bigint_field m f p \<noteq> Inl (RawFloat x)"
  "ensure_u32_field m f p \<noteq> Inl (RawFloat x)" "ensure_optional_unit m p \<noteq> Inl (RawFloat x)"
  by (auto simp: ensure_allowed_keys_def ensure_bigint_field_def ensure_u32_field_def ensure_optional_unit_def
      result_simps split: if_split_asm option.split_asm dest!: for_each_Inl)

lemma atom_not_raw: "validate_num_atom m p \<noteq> Inl (RawFloat x)"
proof (induction m p rule: validate_num_atom.induct)
  case (1 m path)
  show ?case
    by (subst validate_num_atom.simps) (auto simp: result_simps 1 split: option.split_asm if_split_asm)
qed

text \<open>Importing floats leaves none behind: after the import the numeric check never reports a raw float,
  because every float has become a \<open>bnd/1\<close> atom that validates.\<close>

theorem import_not_raw:
  "json_wf v \<Longrightarrow> decimal_text (kn_bigint K) \<Longrightarrow> normalize_f64_to_bnd K v = Inr v' \<Longrightarrow>
   check_numeric_nodes K v' path req \<noteq> Inl (RawFloat x)"
proof (induction v arbitrary: v' path)
  case (JNum n)
  show ?case
  proof (cases n)
    case (N_Int i)
    with JNum show ?thesis
      by (auto split: if_split_asm)
  next
    case (N_Float bits)
    with JNum obtain b where b: "from_f64_bits (kn_bigint K) bits = Inr b" "v' = JObj (num_members b)"
      by (auto simp: result_simps)
    have "map_of (num_members b) ''@num'' \<noteq> None"
      by (cases b) simp_all
    with b from_f64_members(1) [OF JNum.prems(2) b(1)] show ?thesis
      by simp
  qed
next
  case (JArr xs)
  then obtain ys where ys: "list_all2 (\<lambda>x y. normalize_f64_to_bnd K x = Inr y) xs ys" "v' = JArr ys"
    by (auto simp: result_simps collect_results_Inr_iff)
  show ?case
  proof
    assume "check_numeric_nodes K v' path req = Inl (RawFloat x)"
    then obtain y p where y: "y \<in> set ys" "check_numeric_nodes K y p req = Inl (RawFloat x)"
      by (auto simp: ys(2) in_set_enumerate_eq dest!: for_each_Inl) (metis nth_mem)
    obtain z where z: "z \<in> set xs" "normalize_f64_to_bnd K z = Inr y"
      using list_all2_right [OF ys(1) y(1)] by blast
    show False
      using JArr.IH [OF z(1) _ JArr.prems(2) z(2)] y(2) JArr.prems(1) z(1) by (auto simp: list_all_iff)
  qed
next
  case (JObj m)
  show ?case
  proof (cases "map_of m ''@num'' = None")
    case True
    then obtain n where n: "list_all2 (\<lambda>(k, v) y. map_ok (Pair k) (normalize_f64_to_bnd K v) = Inr y) m n" "v' = JObj n"
      using JObj.prems by (auto simp: result_simps collect_results_Inr_iff case_prod_unfold)
    have "map fst n = map fst m"
      using n(1) by (induction rule: list_all2_induct) (auto simp: result_simps)
    then have "fst ` set n = fst ` set m"
      by (metis list.set_map)
    with True have none: "map_of n ''@num'' = None"
      by (simp add: map_of_eq_None_iff)
    show ?thesis
    proof
      assume "check_numeric_nodes K v' path req = Inl (RawFloat x)"
      then obtain k y p where y: "(k, y) \<in> set n" "check_numeric_nodes K y p req = Inl (RawFloat x)"
        by (auto simp: n(2) none dest!: for_each_Inl)
      obtain z where z: "(k, z) \<in> set m" "normalize_f64_to_bnd K z = Inr y"
        using list_all2_right [OF n(1) y(1)] by (auto simp: result_simps)
      show False
        using JObj.IH [OF z(1) _ _ JObj.prems(2) z(2)] y(2) JObj.prems(1) z(1) by (auto simp: list_all_iff)
    qed
  qed (use JObj.prems atom_not_raw in auto)
qed auto

section \<open>Duplicate keys\<close>

text \<open>
  A renderer for the values whose text needs no escapes, to say what the scan does on JSON text.
\<close>

definition plain_text_char :: "char \<Rightarrow> bool" where
  "plain_text_char c \<longleftrightarrow> c \<noteq> CHR 0x22 \<and> c \<noteq> CHR 0x5C"

definition quote :: "string \<Rightarrow> string" where
  "quote s = CHR 0x22 # s @ [CHR 0x22]"

fun intercalate_comma :: "string list \<Rightarrow> string" where
  "intercalate_comma [] = []"
| "intercalate_comma [t] = t"
| "intercalate_comma (t # ts) = t @ CHR '','' # intercalate_comma ts"

fun render :: "json \<Rightarrow> string" where
  "render JNull = ''null''"
| "render (JBool b) = (if b then ''true'' else ''false'')"
| "render (JNum (N_Int i)) = show_int i"
| "render (JNum (N_Float b)) = ''0.5''"
| "render (JStr s) = quote s"
| "render (JArr xs) = ''['' @ intercalate_comma (map render xs) @ '']''"
| "render (JObj m) = ''{'' @ intercalate_comma (map (\<lambda>(k, v). quote k @ '':'' @ render v) m) @ ''}''"

fun renders_plainly :: "json \<Rightarrow> bool" where
  "renders_plainly (JNum (N_Float b)) \<longleftrightarrow> False"
| "renders_plainly (JStr s) \<longleftrightarrow> list_all plain_text_char s"
| "renders_plainly (JArr xs) \<longleftrightarrow> list_all renders_plainly xs"
| "renders_plainly (JObj m) \<longleftrightarrow> list_all (\<lambda>(k, v). list_all plain_text_char k \<and> renders_plainly v) m"
| "renders_plainly _ \<longleftrightarrow> True"

declare scan_object.simps [simp del]

definition neutral :: "char \<Rightarrow> bool" where
  "neutral c \<longleftrightarrow> c \<notin> {CHR 0x22, CHR ''{'', CHR ''['', CHR ''}'', CHR '']''}"

lemma scan_neutral: "list_all neutral t \<Longrightarrow> scan_object keys d False False (t @ s) = scan_object keys d False False s"
  by (induction t) (simp_all add: scan_object.simps(2) neutral_def)

lemma scan_in_string:
  "list_all plain_text_char t \<Longrightarrow> scan_object keys d True False (t @ CHR 0x22 # s) = scan_object keys d False False s"
  by (induction t) (simp_all add: scan_object.simps(2) plain_text_char_def)

lemma scan_string_plain: "list_all plain_text_char t \<Longrightarrow> scan_string (t @ CHR 0x22 # s) = Some (t, CHR 0x22 # s)"
  by (induction t) (simp_all add: plain_text_char_def)

lemma scan_open: "b = CHR ''{'' \<or> b = CHR ''['' \<Longrightarrow> scan_object keys d False False (b # s) = scan_object keys (Suc d) False False s"
  by (auto simp: scan_object.simps(2))

lemma scan_close: "b = CHR ''}'' \<or> b = CHR '']'' \<Longrightarrow>
    scan_object keys (Suc d) False False (b # s) = scan_object keys d False False s"
  by (auto simp: scan_object.simps(2))

lemma scan_quoted_deep:
  "list_all plain_text_char t \<Longrightarrow> scan_object keys (Suc d) False False (quote t @ s) = scan_object keys (Suc d) False False s"
  by (simp add: quote_def scan_object.simps(2) [of keys "Suc d" False False "CHR 0x22"] scan_in_string)

lemma neutral_show_int: "list_all neutral (show_int i)"
proof -
  have "list_all neutral (show_nat n)" for n
    using show_nat_digits [of n] by (auto simp: list_all_iff neutral_def is_digit_def dest!: bspec)
  then show ?thesis
    by (simp add: show_int_def) (simp add: neutral_def)
qed

lemma scan_neutral_char: "neutral c \<Longrightarrow> scan_object keys d False False (c # s) = scan_object keys d False False s"
  using scan_neutral [of "[c]"] by simp

text \<open>Below the outermost level a rendered value is skipped as a whole, whatever keys it repeats.\<close>

lemma scan_list_deep:
  "(\<And>t s. t \<in> set ts \<Longrightarrow> scan_object keys (Suc d) False False (t @ s) = scan_object keys (Suc d) False False s) \<Longrightarrow>
   scan_object keys (Suc d) False False (intercalate_comma ts @ s) = scan_object keys (Suc d) False False s"
proof (induction ts arbitrary: s rule: intercalate_comma.induct)
  case (3 t u us)
  have "neutral (CHR '','')"
    by (simp add: neutral_def)
  with 3 show ?case
    by (simp add: scan_neutral_char)
qed auto

lemma scan_value_deep:
  "renders_plainly v \<Longrightarrow> scan_object keys (Suc d) False False (render v @ s) = scan_object keys (Suc d) False False s"
proof (induction v arbitrary: d s)
  case (JNum n)
  then show ?case
    by (cases n) (simp_all add: scan_neutral neutral_show_int)
next
  case (JStr t)
  then show ?case
    by (simp add: scan_quoted_deep)
next
  case (JArr xs)
  then have "scan_object keys (Suc (Suc d)) False False (intercalate_comma (map render xs) @ CHR '']'' # s)
      = scan_object keys (Suc (Suc d)) False False (CHR '']'' # s)"
    by (intro scan_list_deep) (auto simp: list_all_iff)
  then show ?case
    by (simp add: scan_open scan_close)
next
  case (JObj m)
  let ?f = "\<lambda>(k, v). quote k @ '':'' @ render v"
  have "scan_object keys (Suc (Suc d)) False False (t @ s) = scan_object keys (Suc (Suc d)) False False s"
    if t: "t \<in> set (map ?f m)" for t s
  proof -
    obtain k v where kv: "(k, v) \<in> set m" "t = quote k @ '':'' @ render v"
      using t by auto
    then have "list_all plain_text_char k" "renders_plainly v"
      using JObj.prems by (auto simp: list_all_iff)
    then show ?thesis
      using JObj.IH [OF kv(1), of v] by (simp add: kv(2) scan_quoted_deep scan_neutral_char neutral_def)
  qed
  then have "scan_object keys (Suc (Suc d)) False False (intercalate_comma (map ?f m) @ CHR ''}'' # s)
      = scan_object keys (Suc (Suc d)) False False (CHR ''}'' # s)"
    by (rule scan_list_deep)
  then show ?case
    by (simp add: scan_open scan_close)
qed (simp_all add: scan_neutral_char neutral_def)

text \<open>At the outermost level: values are skipped, keys are collected.\<close>

definition after_value :: "string \<Rightarrow> bool" where
  "after_value s \<longleftrightarrow> s \<noteq> [] \<and> (hd s = CHR '','' \<or> hd s = CHR ''}'')"

lemma scan_value_top:
  assumes "renders_plainly v" "after_value s"
  shows "scan_object keys 0 False False (render v @ s) = scan_object keys 0 False False s"
proof (cases v)
  case (JNum n)
  with assms show ?thesis
    by (cases n) (simp_all add: scan_neutral neutral_show_int)
next
  case (JStr t)
  obtain c r where "s = c # r" "c = CHR '','' \<or> c = CHR ''}''"
    using assms(2) by (cases s) (auto simp: after_value_def)
  with assms JStr show ?thesis
    by (auto simp: quote_def scan_object.simps(2) [of keys 0 False False "CHR 0x22"] scan_string_plain is_ascii_whitespace_def)
next
  case (JArr xs)
  with assms(1) have "scan_object keys (Suc 0) False False (intercalate_comma (map render xs) @ CHR '']'' # s)
      = scan_object keys (Suc 0) False False (CHR '']'' # s)"
    by (intro scan_list_deep) (auto simp: list_all_iff scan_value_deep)
  then show ?thesis
    by (simp add: JArr scan_open scan_close)
next
  case (JObj m)
  with assms(1) have "scan_object keys (Suc 0) False False
      (intercalate_comma (map (\<lambda>(k, v). quote k @ '':'' @ render v) m) @ CHR ''}'' # s)
      = scan_object keys (Suc 0) False False (CHR ''}'' # s)"
    by (intro scan_list_deep)
      (auto simp: list_all_iff scan_value_deep scan_quoted_deep scan_neutral_char neutral_def)
  then show ?thesis
    by (simp add: JObj scan_open scan_close)
qed (simp_all add: scan_neutral_char neutral_def)

fun first_duplicate :: "string list \<Rightarrow> string list \<Rightarrow> string option" where
  "first_duplicate seen [] = None"
| "first_duplicate seen (k # ks) = (if List.member seen k then Some k else first_duplicate (k # seen) ks)"

lemma first_duplicate_None: "first_duplicate seen ks = None \<longleftrightarrow> distinct ks \<and> set ks \<inter> set seen = {}"
  by (induction ks arbitrary: seen) auto

lemma scan_key:
  assumes "list_all plain_text_char k" "k \<noteq> []"
  shows "scan_object keys 0 False False (quote k @ CHR '':'' # s)
    = (if List.member keys k then Inl (DuplicateKey k) else scan_object (k # keys) 0 False False s)"
  using assms
  by (simp add: quote_def scan_object.simps(2) [of keys 0 False False "CHR 0x22"] scan_string_plain is_ascii_whitespace_def
      scan_neutral_char neutral_def)

lemma scan_members:
  "list_all (\<lambda>(k, v). k \<noteq> [] \<and> list_all plain_text_char k \<and> renders_plainly v) m \<Longrightarrow>
   scan_object keys 0 False False (intercalate_comma (map (\<lambda>(k, v). quote k @ '':'' @ render v) m) @ ''}'')
     = (case first_duplicate keys (map fst m) of Some k \<Rightarrow> Inl (DuplicateKey k) | None \<Rightarrow> Inr ''}'')"
proof (induction m arbitrary: keys)
  case Nil
  show ?case
    by (simp add: scan_object.simps(2))
next
  case (Cons kv m)
  obtain k v where kv: "kv = (k, v)"
    by (cases kv)
  let ?rest = "intercalate_comma (map (\<lambda>(k, v). quote k @ '':'' @ render v) m)"
  have skip: "scan_object ks 0 False False (render v @ (if m = [] then ''}'' else CHR '','' # ?rest @ ''}''))
      = scan_object ks 0 False False (?rest @ ''}'')" for ks
    using Cons.prems scan_value_top [of v "if m = [] then ''}'' else CHR '','' # ?rest @ ''}''" ks]
    by (auto simp: kv after_value_def scan_neutral_char neutral_def split: if_split_asm)
  have "intercalate_comma (map (\<lambda>(k, v). quote k @ '':'' @ render v) (kv # m)) @ ''}''
      = quote k @ CHR '':'' # render v @ (if m = [] then ''}'' else CHR '','' # ?rest @ ''}'')"
    by (cases m) (simp_all add: kv)
  then show ?case
    using Cons scan_key [of k keys] skip by (simp add: kv)
qed

text \<open>The duplicate scan looks at the outermost object only: on the text of an object it reports exactly the
  first key that occurs twice among the keys of that object, and accepts the text however often keys
  are repeated in the objects inside it.\<close>

theorem scan_finds_outermost_duplicates:
  assumes "renders_plainly (JObj m)" "list_all (\<lambda>(k, v). k \<noteq> []) m"
  shows "scan_object_keys (render (JObj m))
    = (case first_duplicate [] (map fst m) of Some k \<Rightarrow> Inl (DuplicateKey k) | None \<Rightarrow> Inr ())"
proof -
  have "list_all (\<lambda>(k, v). k \<noteq> [] \<and> list_all plain_text_char k \<and> renders_plainly v) m"
    using assms by (auto simp: list_all_iff)
  from scan_members [OF this, of "[]"] show ?thesis
    by (simp split: option.split)
qed

theorem scan_finds_outermost_duplicates_witness:
  "scan_object_keys (render (JObj [(''a'', JObj [(''b'', JNull), (''b'', JBool True)]), (''c'', JNull)])) = Inr ()"
proof -
  have "renders_plainly (JObj [(''a'', JObj [(''b'', JNull), (''b'', JBool True)]), (''c'', JNull)])"
    by code_simp
  from scan_finds_outermost_duplicates [OF this] show ?thesis
    by simp
qed

section \<open>A concrete body\<close>

definition demo_body :: json where
  "demo_body = JObj [(''@type'', JStr ''x''), (''@world'', JStr ''a/b/t/c''), (''p'', JObj [(''b'', JBool True)])]"

definition demo_task_text :: json where
  "demo_task_text = JObj [(''@type'', JStr ''x''), (''@world'', JStr ''a/b/t/c''),
     (''p'', JObj [(''b'', JNull), (''b'', JBool True)])]"

definition demo_knock :: knock_env where
  "demo_knock = \<lparr>kn_text = plain_text, kn_bigint = dec_text, kn_parse = (\<lambda>_. Inr demo_body), kn_trim = id,
     kn_show_number = (\<lambda>_. []), kn_var = (\<lambda>_. None)\<rparr>"

lemma demo_knock_laws: "text_laws (kn_text demo_knock)" "decimal_text (kn_bigint demo_knock)"
  "kn_parse demo_knock bytes = Inr demo_body"
  by (simp_all add: demo_knock_def plain_text_laws decimal_text_def dec_text_def)

lemma demo_knock_runs:
  "json_wf demo_body" "knock_with_options demo_knock (bytes_of (render demo_task_text)) False BndFloats = Inr demo_body"
proof -
  show "json_wf demo_body"
    by code_simp
  have "utf8_valid (bytes_of (render demo_task_text))" "check_duplicate_keys (bytes_of (render demo_task_text)) = Inr ()"
    "normalize_for_input plain_text demo_body = Inr demo_body" "normalize_f64_to_bnd demo_knock demo_body = Inr demo_body"
    "check_depth demo_body 0 = Inr ()" "check_numeric_nodes demo_knock demo_body ''$'' False = Inr ()"
    "validate_type_specific_schema demo_knock demo_body = Inr ()"
    by code_simp+
  moreover have "check_arrays demo_body = Inr ()"
    "length (bytes_of (render demo_task_text)) \<le> MAX_BODY_BYTES"
    by (simp_all add: demo_body_def demo_task_text_def quote_def)
  moreover obtain m where "as_object demo_body = Some m" "map_of m ''@type'' \<noteq> None" "map_of m ''@world'' \<noteq> None"
    by (simp add: demo_body_def)
  ultimately show "knock_with_options demo_knock (bytes_of (render demo_task_text)) False BndFloats = Inr demo_body"
    using demo_knock_laws(3)
    by (simp add: knock_with_options_def knock_raw_def knock_parsed_with_options_def)
      (simp add: demo_knock_def)
qed

theorem knock_accepts_sound_witness: "json_height demo_body \<le> 32"
  using knock_accepts_sound [OF demo_knock_laws demo_knock_runs] by blast

theorem knock_accepted_canonical_witness: "\<exists>b. to_nrf1_bytes plain_text demo_body = Inr b"
  using knock_accepted_canonical [OF demo_knock_laws demo_knock_runs] by (simp add: demo_knock_def)

theorem import_not_raw_witness:
  "check_numeric_nodes demo_knock (JObj [(''f'', JObj (num_members (Num_Bnd (Num_Dec ''0'' 1 None) (Num_Dec ''0'' 1 None) None)))])
     ''$'' False \<noteq> Inl (RawFloat ''y'')"
proof (rule import_not_raw [OF _ demo_knock_laws(2)])
  show "normalize_f64_to_bnd demo_knock (JObj [(''f'', JNum (N_Float 0))])
      = Inr (JObj [(''f'', JObj (num_members (Num_Bnd (Num_Dec ''0'' 1 None) (Num_Dec ''0'' 1 None) None)))])"
  proof -
    have "f64_finite 0" "f64_is_zero 0"
      by code_simp+
    then show ?thesis
      by (simp add: from_f64_bits_def)
  qed
  show "json_wf (JObj [(''f'', JNum (N_Float 0))])"
    by code_simp
qed

end
