(* ===== verification/Envelope.thy ===== *)
theory Envelope
  imports Ubl_Canon Ubl_Text
begin

text \<open>
  The typed identifiers (\<open>crates/ubl_types/src/lib.rs\<close>) and the universal envelope
  (\<open>crates/ubl_nrf/src/envelope.rs\<close>): validated constructors and accessors of content identifiers, DIDs,
  key identifiers, nonces, chip types and worlds, and the four anchors of every artifact. The newtypes
  are transparent strings.
\<close>

section \<open>Identifiers\<close>

datatype type_parse_error =
    InvalidPrefix string string
  | InvalidFormat string string string
  | InvalidChars string string
  | InvalidLength string nat nat
  | EmptyPart string

definition cid_new :: "string \<Rightarrow> type_parse_error + string" where
  "cid_new s =
     (if \<not> starts_with ''b3:'' s then Inl (InvalidPrefix ''b3:'' s)
      else let hex_part = drop 3 s
           in if hex_part = [] then Inl (EmptyPart ''Cid hex part'')
              else if \<not> list_all is_hex_digit hex_part then Inl (InvalidChars ''Cid'' s)
              else Inr s)"

text \<open>\<open>splitn\<close>: at most \<open>n\<close> pieces, the last one with the rest of the text.\<close>

fun splitn :: "nat \<Rightarrow> char \<Rightarrow> string \<Rightarrow> string list" where
  "splitn n d s =
     (if n = 0 then []
      else if n = 1 \<or> d \<notin> set s then [s]
      else takeWhile (\<lambda>c. c \<noteq> d) s # splitn (n - 1) d (tl (dropWhile (\<lambda>c. c \<noteq> d) s)))"

declare splitn.simps [simp del]

definition did_new :: "string \<Rightarrow> type_parse_error + string" where
  "did_new s =
     (if \<not> starts_with ''did:'' s then Inl (InvalidPrefix ''did:'' s)
      else let parts = splitn 3 (CHR '':'') s
           in if length parts < 3 \<or> parts ! 1 = [] \<or> parts ! 2 = []
              then Inl (InvalidFormat ''Did'' ''did:<method>:<id>'' s) else Inr s)"

definition nth_or_empty :: "string list \<Rightarrow> nat \<Rightarrow> string" where
  "nth_or_empty xs n = (if n < length xs then xs ! n else [])"

definition did_method :: "string \<Rightarrow> string" where
  "did_method did = nth_or_empty (split_on (CHR '':'') did) 1"

definition kid_new :: "string \<Rightarrow> type_parse_error + string" where
  "kid_new s = (if CHR ''#'' \<notin> set s then Inl (InvalidFormat ''Kid'' ''<did>#<fragment>'' s) else Inr s)"

definition kid_did_part :: "string \<Rightarrow> string" where
  "kid_did_part kid = nth_or_empty (split_on (CHR ''#'') kid) 0"

definition kid_fragment :: "string \<Rightarrow> string" where
  "kid_fragment kid = nth_or_empty (split_on (CHR ''#'') kid) 1"

definition nonce_new :: "string \<Rightarrow> type_parse_error + string" where
  "nonce_new s =
     (if length s \<noteq> 32 then Inl (InvalidLength ''Nonce'' 32 (length s))
      else if \<not> list_all is_hex_digit s then Inl (InvalidChars ''Nonce'' s)
      else Inr s)"

definition chip_type_new :: "string \<Rightarrow> type_parse_error + string" where
  "chip_type_new s =
     (if CHR ''/'' \<notin> set s then Inl (InvalidFormat ''ChipType'' ''<namespace>/<name>'' s) else Inr s)"

definition chip_namespace :: "string \<Rightarrow> string" where
  "chip_namespace t = nth_or_empty (split_on (CHR ''/'') t) 0"

definition chip_type_name :: "string \<Rightarrow> string" where
  "chip_type_name t = (if CHR ''/'' \<in> set t then tl (dropWhile (\<lambda>c. c \<noteq> CHR ''/'') t) else [])"

definition world_new :: "string \<Rightarrow> type_parse_error + string" where
  "world_new s = (if \<not> starts_with ''a/'' s then Inl (InvalidPrefix ''a/'' s) else Inr s)"

text \<open>\<open>str::split\<close> with a text as the separator.\<close>

function split_text :: "string \<Rightarrow> string \<Rightarrow> string list" where
  "split_text p s =
     (if p = [] \<or> s = [] then [s]
      else if starts_with p s then [] # split_text p (drop (length p) s)
      else (case split_text p (tl s) of t # ts \<Rightarrow> (hd s # t) # ts | [] \<Rightarrow> [s]))"
  by pat_completeness auto
termination
  by (relation "measure (length \<circ> snd)") auto

declare split_text.simps [simp del]

text \<open>Slicing from byte 2 panics on a shorter text; \<^term>\<open>None\<close> stands for that.\<close>

definition world_app :: "string \<Rightarrow> string option" where
  "world_app w = (if length w < 2 then None else Some (nth_or_empty (split_text ''/t/'' (drop 2 w)) 0))"

definition world_tenant :: "string \<Rightarrow> string option" where
  "world_tenant w = (let parts = split_text ''/t/'' w in if 1 < length parts then Some (parts ! 1) else None)"

section \<open>The envelope\<close>

record ubl_envelope =
  env_type :: string
  env_id :: string
  env_ver :: string
  env_world :: string

datatype envelope_error =
    EnvMissingAnchor string
  | EmptyType
  | EmptyId
  | EmptyVer
  | EmptyWorld
  | InvalidWorld string
  | TypeNotFirst string
  | IdNotSecond string

definition validate_world :: "string \<Rightarrow> envelope_error + unit" where
  "validate_world world =
     (let parts = split_on (CHR ''/'') world
      in if length parts = 2 \<and> parts ! 0 = ''a'' \<and> parts ! 1 \<noteq> [] then Inr ()
         else if length parts = 4 \<and> parts ! 0 = ''a'' \<and> parts ! 2 = ''t'' \<and> parts ! 1 \<noteq> [] \<and> parts ! 3 \<noteq> [] then Inr ()
         else Inl (InvalidWorld world))"

definition parse_world :: "string \<Rightarrow> (string \<times> string) option" where
  "parse_world world =
     (let parts = split_on (CHR ''/'') world
      in if length parts = 4 \<and> parts ! 0 = ''a'' \<and> parts ! 2 = ''t'' then Some (parts ! 1, parts ! 3) else None)"

definition envelope_validate :: "ubl_envelope \<Rightarrow> envelope_error + unit" where
  "envelope_validate e =
     (if env_type e = [] then Inl EmptyType
      else if env_id e = [] then Inl EmptyId
      else if env_ver e = [] then Inl EmptyVer
      else if env_world e = [] then Inl EmptyWorld
      else validate_world (env_world e))"

definition envelope_new :: "string \<Rightarrow> string \<Rightarrow> string \<Rightarrow> string \<Rightarrow> envelope_error + ubl_envelope" where
  "envelope_new t i v w =
     (let e = \<lparr>env_type = t, env_id = i, env_ver = v, env_world = w\<rparr>
      in and_then (envelope_validate e) (\<lambda>_. Inr e))"

definition anchor :: "json_obj \<Rightarrow> string \<Rightarrow> envelope_error + string" where
  "anchor m k = ok_or (EnvMissingAnchor k) (Option.bind (map_of m k) as_str)"

definition envelope_from_json :: "json \<Rightarrow> envelope_error + ubl_envelope" where
  "envelope_from_json v =
     and_then (ok_or (EnvMissingAnchor ''@type'') (as_object v)) (\<lambda>m.
       let keys = map fst m
       in if keys = [] \<or> keys ! 0 \<noteq> ''@type'' then Inl (TypeNotFirst (nth_or_empty keys 0))
          else if length keys < 2 \<or> keys ! 1 \<noteq> ''@id'' then Inl (IdNotSecond (nth_or_empty keys 1))
          else
            and_then (anchor m ''@type'') (\<lambda>t.
            and_then (anchor m ''@id'') (\<lambda>i.
            and_then (anchor m ''@ver'') (\<lambda>ver.
            and_then (anchor m ''@world'') (\<lambda>w.
              let e = \<lparr>env_type = t, env_id = i, env_ver = ver, env_world = w\<rparr>
              in and_then (envelope_validate e) (\<lambda>_. Inr e))))))"

definition to_ordered_map :: "ubl_envelope \<Rightarrow> json_obj" where
  "to_ordered_map e = [(''@type'', JStr (env_type e)), (''@id'', JStr (env_id e)), (''@ver'', JStr (env_ver e)),
     (''@world'', JStr (env_world e))]"

fun insert_extra :: "json_obj \<Rightarrow> json_obj \<Rightarrow> json_obj" where
  "insert_extra m [] = m"
| "insert_extra m ((k, v) # extra) =
     (if k \<noteq> ''@type'' \<and> k \<noteq> ''@id'' \<and> k \<noteq> ''@ver'' \<and> k \<noteq> ''@world''
      then insert_extra (obj_insert k v m) extra else insert_extra m extra)"

definition to_json_with :: "ubl_envelope \<Rightarrow> json_obj \<Rightarrow> json" where
  "to_json_with e extra = JObj (insert_extra (to_ordered_map e) extra)"

definition envelope_to_json :: "ubl_envelope \<Rightarrow> json" where
  "envelope_to_json e = JObj (to_ordered_map e)"

section \<open>Worlds\<close>

definition world_of :: "string \<Rightarrow> string \<Rightarrow> string" where
  "world_of app tenant = ''a/'' @ app @ ''/t/'' @ tenant"

definition segment :: "string \<Rightarrow> bool" where
  "segment s \<longleftrightarrow> s \<noteq> [] \<and> CHR ''/'' \<notin> set s"

lemma split_world: "segment app \<Longrightarrow> segment tenant \<Longrightarrow>
    split_on (CHR ''/'') (world_of app tenant) = [''a'', app, ''t'', tenant]"
  using split_join [of "[''a'', app, ''t'', tenant]" "CHR ''/''"] by (simp add: world_of_def segment_def)

text \<open>The valid worlds are exactly \<open>a/app\<close> and \<open>a/app/t/tenant\<close> with non-empty segments, and parsing
  returns the two segments of the second form.\<close>

theorem validate_world_iff:
  "validate_world w = Inr () \<longleftrightarrow>
     (\<exists>app. segment app \<and> w = ''a/'' @ app) \<or> (\<exists>app tenant. segment app \<and> segment tenant \<and> w = world_of app tenant
        \<and> parse_world w = Some (app, tenant))"
proof
  assume "validate_world w = Inr ()"
  then consider app where "split_on (CHR ''/'') w = [''a'', app]" "app \<noteq> []"
    | app tenant where "split_on (CHR ''/'') w = [''a'', app, ''t'', tenant]" "app \<noteq> []" "tenant \<noteq> []"
    by (auto simp: validate_world_def Let_def length_Suc_conv numeral_2_eq_2 numeral_eq_Suc split: if_split_asm)
  then show "(\<exists>app. segment app \<and> w = ''a/'' @ app) \<or> (\<exists>app tenant. segment app \<and> segment tenant \<and> w = world_of app tenant
      \<and> parse_world w = Some (app, tenant))"
  proof cases
    case 1
    then have "segment app" "w = ''a/'' @ app"
      using split_on_pieces [of app "CHR ''/''" w] join_split [of "CHR ''/''" w] by (auto simp: segment_def)
    then show ?thesis
      by blast
  next
    case 2
    then have "segment app" "segment tenant" "w = world_of app tenant"
      using split_on_pieces [of app "CHR ''/''" w] split_on_pieces [of tenant "CHR ''/''" w] join_split [of "CHR ''/''" w]
      by (auto simp: segment_def world_of_def)
    moreover from this have "parse_world w = Some (app, tenant)"
      by (simp add: parse_world_def split_world)
    ultimately show ?thesis
      by blast
  qed
next
  have "split_on (CHR ''/'') (''a/'' @ app) = [''a'', app]" if "segment app" for app
    using split_join [of "[''a'', app]" "CHR ''/''"] that by (simp add: segment_def)
  then show "validate_world w = Inr ()" if "(\<exists>app. segment app \<and> w = ''a/'' @ app) \<or>
      (\<exists>app tenant. segment app \<and> segment tenant \<and> w = world_of app tenant \<and> parse_world w = Some (app, tenant))"
    using that by (auto simp: validate_world_def split_world segment_def)
qed

lemma split_text_none: "(\<And>i. \<not> starts_with p (drop i s)) \<Longrightarrow> p \<noteq> [] \<Longrightarrow> split_text p s = [s]"
proof (induction s)
  case (Cons c s)
  have "\<not> starts_with p (drop i s)" for i
    using Cons.prems(1) [of "Suc i"] by simp
  then have "split_text p s = [s]"
    using Cons by blast
  moreover have "\<not> starts_with p (c # s)"
    using Cons.prems(1) [of 0] by simp
  ultimately show ?case
    using Cons.prems(2) by (simp add: split_text.simps [of p "c # s"])
qed (simp add: split_text.simps)

lemma split_text_here: "p \<noteq> [] \<Longrightarrow> split_text p (p @ s) = [] # split_text p s"
  by (subst split_text.simps) (simp add: starts_with_def)

lemma no_slash_start: "CHR ''/'' \<notin> set s \<Longrightarrow> \<not> starts_with ''/t/'' (drop i s)"
  using in_set_dropD [of "CHR ''/''" i s] by (auto simp: starts_with_iff)

lemma split_text_segment: "CHR ''/'' \<notin> set s \<Longrightarrow> split_text ''/t/'' s = [s]"
  by (rule split_text_none) (simp_all add: no_slash_start)

lemma split_text_skip: "\<not> starts_with p (c # s) \<Longrightarrow> p \<noteq> [] \<Longrightarrow> split_text p s = t # ts \<Longrightarrow>
    split_text p (c # s) = (c # t) # ts"
  by (simp add: split_text.simps [of p "c # s"])

lemma not_starts_slash: "c \<noteq> CHR ''/'' \<Longrightarrow> \<not> starts_with ''/t/'' (c # s)"
  by (simp add: starts_with_iff)

lemma split_text_after: "CHR ''/'' \<notin> set s \<Longrightarrow> split_text ''/t/'' (s @ ''/t/'' @ r) = s # split_text ''/t/'' r"
proof (induction s)
  case Nil
  then show ?case
    using split_text_here [of "''/t/''" r] by simp
next
  case (Cons c s)
  then have "split_text ''/t/'' (s @ ''/t/'' @ r) = s # split_text ''/t/'' r" "c \<noteq> CHR ''/''"
    by auto
  then show ?case
    using split_text_skip [OF not_starts_slash [of c "s @ ''/t/'' @ r"]] by simp
qed

text \<open>The accessors of a world agree with the parser, except for an app called \<open>t\<close>: the app is always
  found, but the tenant of \<open>a/t/t/x\<close> is reported as \<open>t/x\<close>.\<close>

theorem world_accessors:
  assumes "segment app" "segment tenant"
  shows "parse_world (world_of app tenant) = Some (app, tenant) \<and> world_app (world_of app tenant) = Some app
    \<and> world_tenant (world_of app tenant) = Some (if app = ''t'' then ''t/'' @ tenant else tenant)"
proof -
  have "world_app (world_of app tenant) = Some app"
    using assms split_text_after [of app tenant]
    by (simp add: world_app_def world_of_def segment_def nth_or_empty_def)
  moreover have "world_tenant (world_of app tenant) = Some (if app = ''t'' then ''t/'' @ tenant else tenant)"
  proof (cases "app = ''t''")
    case True
    have "split_text ''/t/'' (''t/'' @ tenant) = [''t/'' @ tenant]"
    proof (rule split_text_none)
      fix i :: nat
      have "i = 0 \<or> i = 1 \<or> i = (i - 2) + 2"
        by arith
      then consider "i = 0" | "i = 1" | j where "i = j + 2"
        by blast
      then show "\<not> starts_with ''/t/'' (drop i (''t/'' @ tenant))"
        using assms(2) no_slash_start [of tenant] by cases (auto simp: starts_with_iff segment_def)
    qed simp
    then show ?thesis
      using True split_text_after [of "''a''" "''t/'' @ tenant"]
      by (simp add: world_tenant_def world_of_def)
  next
    case False
    have "\<not> starts_with ''/t/'' (CHR ''/'' # app @ ''/t/'' @ tenant)"
      using False assms(1) by (cases app; cases "tl app") (auto simp: starts_with_iff segment_def)
    moreover have "split_text ''/t/'' (app @ ''/t/'' @ tenant) = [app, tenant]"
      using split_text_after [of app tenant] split_text_segment [of tenant] assms by (simp add: segment_def)
    ultimately have "split_text ''/t/'' (CHR ''/'' # app @ ''/t/'' @ tenant) = [CHR ''/'' # app, tenant]"
      by (intro split_text_skip) simp_all
    then have "split_text ''/t/'' (''a/'' @ app @ ''/t/'' @ tenant) = [''a/'' @ app, tenant]"
      using split_text_skip [OF not_starts_slash] by simp
    with False show ?thesis
      by (simp add: world_tenant_def world_of_def)
  qed
  ultimately show ?thesis
    using assms by (simp add: parse_world_def split_world)
qed

theorem world_accessors_witness: "world_tenant ''a/t/t/x'' = Some ''t/x''"
  using world_accessors [of "''t''" "''x''"] by (simp add: segment_def world_of_def)

section \<open>Round trips\<close>

lemma insert_extra_cons: "k \<in> {''@type'', ''@id'', ''@ver'', ''@world''} \<Longrightarrow>
    insert_extra ((k, v) # m) extra = (k, v) # insert_extra m extra"
  by (induction extra arbitrary: m) auto

lemma to_json_with_shape: "to_json_with e extra = JObj (to_ordered_map e @ insert_extra [] extra)"
  by (simp add: to_json_with_def to_ordered_map_def insert_extra_cons)

text \<open>A valid envelope written with any extra fields, even ones that name an anchor, is read back as it
  was: the anchors come first, in order, and no extra field replaces one.\<close>

theorem envelope_roundtrip:
  assumes "envelope_validate e = Inr ()"
  shows "envelope_from_json (to_json_with e extra) = Inr e \<and> envelope_from_json (envelope_to_json e) = Inr e"
proof -
  have "envelope_from_json (JObj (to_ordered_map e @ m)) = Inr e" for m
    using assms by (cases e) (simp add: envelope_from_json_def to_ordered_map_def anchor_def)
  from this [of "insert_extra [] extra"] this [of "[]"] show ?thesis
    by (simp add: to_json_with_shape envelope_to_json_def)
qed

theorem envelope_roundtrip_witness:
  "envelope_from_json (to_json_with \<lparr>env_type = ''ubl/chip'', env_id = ''c-1'', env_ver = ''1.0'', env_world = ''a/x/t/y''\<rparr>
     [(''@id'', JStr ''forged'')]) = Inr \<lparr>env_type = ''ubl/chip'', env_id = ''c-1'', env_ver = ''1.0'', env_world = ''a/x/t/y''\<rparr>"
  using envelope_roundtrip [of "\<lparr>env_type = ''ubl/chip'', env_id = ''c-1'', env_ver = ''1.0'', env_world = ''a/x/t/y''\<rparr>"
      "[(''@id'', JStr ''forged'')]"] by (simp add: envelope_validate_def validate_world_def)

end
