(* ===== verification/Kms.thy ===== *)
theory Kms
  imports Ubl_Canon Ubl_Text
begin

text \<open>
  Key management (\<open>crates/ubl_kms/src/lib.rs\<close>): signing keys from hexadecimal text, the two forms of
  \<open>did:key\<close> identifiers of a verifying key and their parser, and signatures over canonical bytes with
  domain separation. Base58, the reading of a curve point and the process environment are fields of
  \<open>kms_env\<close>; the curve itself and base64 are those of \<open>crypto_env\<close>. Messages of library errors are not kept.
\<close>

section \<open>Keys and identifiers\<close>

datatype hex_fault = HexText | HexLength nat

datatype sig_fault =
    DidPrefix
  | DidBase58
  | DidLength nat
  | StrictDidLength nat
  | DidMulticodec
  | DidPoint
  | SigPrefix
  | SigBase64
  | SigLength

datatype kms_error =
    EnvNotSet
  | BadHex hex_fault
  | KmsNrf rho_error
  | BadSignature sig_fault

record ('sk, 'vk) kms_env =
  km_crypto :: "('sk, 'vk) crypto_env"
  km_bs58 :: "u8 list \<Rightarrow> string"
  km_bs58_decode :: "string \<Rightarrow> u8 list option"
  km_vk_bytes :: "'vk \<Rightarrow> u8 list"
  km_vk_from_bytes :: "u8 list \<Rightarrow> 'vk option"
  km_sk_from_bytes :: "u8 list \<Rightarrow> 'sk"
  km_verifying_key :: "'sk \<Rightarrow> 'vk"
  km_trim :: "string \<Rightarrow> string"
  km_var :: "string \<Rightarrow> string option"

definition ED25519_PUB_MULTICODEC :: "u8 list" where
  "ED25519_PUB_MULTICODEC = [0xED, 0x01]"

definition signing_key_from_hex :: "('sk, 'vk) kms_env \<Rightarrow> string \<Rightarrow> kms_error + 'sk" where
  "signing_key_from_hex K hex_str =
     and_then (ok_or (BadHex HexText) (hex_decode (km_trim K hex_str))) (\<lambda>bytes.
       if length bytes \<noteq> 32 then Inl (BadHex (HexLength (length bytes)))
       else Inr (km_sk_from_bytes K bytes))"

definition signing_key_from_env :: "('sk, 'vk) kms_env \<Rightarrow> kms_error + 'sk" where
  "signing_key_from_env K =
     and_then (ok_or EnvNotSet (km_var K ''SIGNING_KEY_HEX'')) (\<lambda>hex_str. signing_key_from_hex K hex_str)"

definition did_from_verifying_key_strict :: "('sk, 'vk) kms_env \<Rightarrow> 'vk \<Rightarrow> string" where
  "did_from_verifying_key_strict K vk =
     (let prefixed = ED25519_PUB_MULTICODEC @ km_vk_bytes K vk in ''did:key:z'' @ km_bs58 K prefixed)"

definition did_from_verifying_key :: "('sk, 'vk) kms_env \<Rightarrow> 'vk \<Rightarrow> string" where
  "did_from_verifying_key K vk =
     (if (case km_var K ''UBL_DIDKEY_FORMAT'' of Some v \<Rightarrow> eq_ignore_ascii_case v ''strict'' | None \<Rightarrow> False)
      then did_from_verifying_key_strict K vk
      else ''did:key:z'' @ km_bs58 K (km_vk_bytes K vk))"

definition did_bytes :: "('sk, 'vk) kms_env \<Rightarrow> string \<Rightarrow> kms_error + u8 list" where
  "did_bytes K did =
     and_then (ok_or (BadSignature DidPrefix) (strip_prefix ''did:key:z'' did)) (\<lambda>encoded.
       ok_or (BadSignature DidBase58) (km_bs58_decode K encoded))"

definition verifying_key_from_did_strict :: "('sk, 'vk) kms_env \<Rightarrow> string \<Rightarrow> kms_error + 'vk" where
  "verifying_key_from_did_strict K did =
     and_then (did_bytes K did) (\<lambda>bytes.
       if length bytes \<noteq> 34 then Inl (BadSignature (StrictDidLength (length bytes)))
       else if take 2 bytes \<noteq> ED25519_PUB_MULTICODEC then Inl (BadSignature DidMulticodec)
       else ok_or (BadSignature DidPoint) (km_vk_from_bytes K (drop 2 bytes)))"

definition verifying_key_from_did :: "('sk, 'vk) kms_env \<Rightarrow> string \<Rightarrow> kms_error + 'vk" where
  "verifying_key_from_did K did =
     (case verifying_key_from_did_strict K did of
        Inr vk \<Rightarrow> Inr vk
      | Inl _ \<Rightarrow>
          and_then (did_bytes K did) (\<lambda>key_bytes.
            if length key_bytes \<noteq> 32 then Inl (BadSignature (DidLength (length key_bytes)))
            else ok_or (BadSignature DidPoint) (km_vk_from_bytes K key_bytes)))"

definition kid_from_verifying_key :: "('sk, 'vk) kms_env \<Rightarrow> 'vk \<Rightarrow> string" where
  "kid_from_verifying_key K vk = did_from_verifying_key K vk @ ''#ed25519''"

definition key_cid :: "('sk, 'vk) kms_env \<Rightarrow> 'vk \<Rightarrow> string" where
  "key_cid K vk = ''b3:'' @ hex_encode (ce_hash (km_crypto K) (km_vk_bytes K vk))"

section \<open>Signatures\<close>

definition domain_message :: "string \<Rightarrow> u8 list \<Rightarrow> u8 list" where
  "domain_message domain payload = bytes_of domain @ payload"

definition sign_bytes :: "('sk, 'vk) kms_env \<Rightarrow> 'sk \<Rightarrow> u8 list \<Rightarrow> string \<Rightarrow> string" where
  "sign_bytes K sk raw domain =
     (let msg = domain_message domain raw; sig = ce_sign (km_crypto K) sk msg
      in ''ed25519:'' @ ce_b64 (km_crypto K) sig)"

definition sign_canonical :: "('sk, 'vk) kms_env \<Rightarrow> 'sk \<Rightarrow> json \<Rightarrow> string \<Rightarrow> kms_error + string" where
  "sign_canonical K sk v domain =
     and_then (map_err KmsNrf (to_nrf1_bytes (ce_text (km_crypto K)) v)) (\<lambda>nrf_bytes.
       let msg = domain_message domain nrf_bytes; sig = ce_sign (km_crypto K) sk msg
       in Inr (''ed25519:'' @ ce_b64 (km_crypto K) sig))"

definition kms_verify_raw :: "('sk, 'vk) kms_env \<Rightarrow> 'vk \<Rightarrow> u8 list \<Rightarrow> string \<Rightarrow> kms_error + bool" where
  "kms_verify_raw K vk msg sig_str =
     and_then (ok_or (BadSignature SigPrefix) (strip_prefix ''ed25519:'' sig_str)) (\<lambda>b64.
     and_then (ok_or (BadSignature SigBase64) (ce_b64_decode (km_crypto K) b64)) (\<lambda>sig_bytes.
       if length sig_bytes \<noteq> 64 then Inl (BadSignature SigLength)
       else Inr (ce_verify (km_crypto K) vk msg sig_bytes)))"

definition verify_bytes :: "('sk, 'vk) kms_env \<Rightarrow> 'vk \<Rightarrow> u8 list \<Rightarrow> string \<Rightarrow> string \<Rightarrow> kms_error + bool" where
  "verify_bytes K vk raw domain sig_str = kms_verify_raw K vk (domain_message domain raw) sig_str"

definition verify_canonical :: "('sk, 'vk) kms_env \<Rightarrow> 'vk \<Rightarrow> json \<Rightarrow> string \<Rightarrow> string \<Rightarrow> kms_error + bool" where
  "verify_canonical K vk v domain sig_str =
     and_then (map_err KmsNrf (to_nrf1_bytes (ce_text (km_crypto K)) v)) (\<lambda>nrf_bytes.
       kms_verify_raw K vk (domain_message domain nrf_bytes) sig_str)"

section \<open>What the code relies on\<close>

text \<open>Base58 is invertible, a key has 32 bytes and is read back from them, and signatures are sound.\<close>

definition sound_kms :: "('sk, 'vk) kms_env \<Rightarrow> bool" where
  "sound_kms K \<longleftrightarrow> sound_crypto (km_crypto K) (km_verifying_key K)
     \<and> (\<forall>b. km_bs58_decode K (km_bs58 K b) = Some b)
     \<and> (\<forall>vk. length (km_vk_bytes K vk) = 32 \<and> km_vk_from_bytes K (km_vk_bytes K vk) = Some vk)"

definition toy_kms :: "(u8, u8) kms_env" where
  "toy_kms = \<lparr>km_crypto = toy_crypto, km_bs58 = hex_encode, km_bs58_decode = hex_decode,
     km_vk_bytes = (\<lambda>vk. vk # replicate 31 0), km_vk_from_bytes = (\<lambda>b. case b of [] \<Rightarrow> None | vk # _ \<Rightarrow> Some vk),
     km_sk_from_bytes = hd, km_verifying_key = id, km_trim = id, km_var = (\<lambda>_. None)\<rparr>"

lemma toy_kms_sound: "sound_kms toy_kms"
  using toy_sound by (simp add: sound_kms_def toy_kms_def)

section \<open>Identifiers of keys\<close>

lemma did_bytes_encoded [simp]: "sound_kms K \<Longrightarrow> did_bytes K (''did:key:z'' @ km_bs58 K b) = Inr b"
  by (simp add: did_bytes_def sound_kms_def del: append_Cons append_Nil)

lemma strict_did_read:
  "sound_kms K \<Longrightarrow> verifying_key_from_did_strict K (did_from_verifying_key_strict K vk) = Inr vk"
  by (simp add: verifying_key_from_did_strict_def did_from_verifying_key_strict_def ED25519_PUB_MULTICODEC_def sound_kms_def
      did_bytes_def del: append_Cons append_Nil) (simp add: numeral_2_eq_2)

lemma raw_did_read:
  "sound_kms K \<Longrightarrow> verifying_key_from_did K (''did:key:z'' @ km_bs58 K (km_vk_bytes K vk)) = Inr vk
     \<and> verifying_key_from_did_strict K (''did:key:z'' @ km_bs58 K (km_vk_bytes K vk)) = Inl (BadSignature (StrictDidLength 32))"
  by (simp add: verifying_key_from_did_def verifying_key_from_did_strict_def sound_kms_def
      did_bytes_def del: append_Cons append_Nil)

text \<open>A verifying key is read back from its identifier, in the strict form and in the form chosen by the
  environment; the two forms are never confused.\<close>

theorem did_key_roundtrip:
  assumes "sound_kms K"
  shows "verifying_key_from_did K (did_from_verifying_key K vk) = Inr vk
    \<and> verifying_key_from_did K (did_from_verifying_key_strict K vk) = Inr vk
    \<and> verifying_key_from_did_strict K (did_from_verifying_key_strict K vk) = Inr vk"
proof -
  have "verifying_key_from_did K (did_from_verifying_key_strict K vk) = Inr vk"
    using strict_did_read [OF assms, of vk] by (simp add: verifying_key_from_did_def)
  then show ?thesis
    using strict_did_read [OF assms] raw_did_read [OF assms, of vk] by (auto simp: did_from_verifying_key_def)
qed

theorem did_key_roundtrip_witness:
  "verifying_key_from_did toy_kms (did_from_verifying_key_strict toy_kms 7) = Inr 7"
  using did_key_roundtrip [OF toy_kms_sound] by simp

section \<open>The two signing libraries\<close>

text \<open>The errors of the canonical library as this one reports them.\<close>

fun kms_of_sig :: "sig_error \<Rightarrow> sig_fault" where
  "kms_of_sig MissingPrefix = SigPrefix"
| "kms_of_sig BadBase64 = SigBase64"
| "kms_of_sig BadLength = SigLength"

fun kms_of_canon :: "canon_error \<Rightarrow> kms_error" where
  "kms_of_canon (CanonNrf e) = KmsNrf e"
| "kms_of_canon (CanonSignature e) = BadSignature (kms_of_sig e)"

lemma kms_verify_raw_canon: "kms_verify_raw K vk msg sig = map_err kms_of_canon (verify_signature (km_crypto K) vk msg sig)"
  by (cases "strip_prefix ''ed25519:'' sig"; cases "ce_b64_decode (km_crypto K) (the (strip_prefix ''ed25519:'' sig))")
    (simp_all add: kms_verify_raw_def verify_signature_def)

text \<open>The signatures of the key manager are the version 1 signatures of the canonical library, on every value
  and domain and with the errors in correspondence, so each accepts what the other signs.\<close>

theorem kms_is_canon_v1:
  "sign_canonical K sk v domain = map_err kms_of_canon (sign_domain_v1 (km_crypto K) v domain sk)
   \<and> verify_canonical K vk v domain sig = map_err kms_of_canon (verify_domain_v1 (km_crypto K) v domain vk sig)"
  by (cases "to_nrf1_bytes (ce_text (km_crypto K)) v")
    (simp_all add: sign_canonical_def sign_domain_v1_def sign_raw_v1_def verify_canonical_def verify_domain_v1_def
      verify_raw_v1_def to_nrf_bytes_def domain_message_def kms_verify_raw_canon)

lemma verify_sign_canonical:
  assumes "sound_kms K" "sign_canonical K sk v domain = Inr sig"
  shows "verify_canonical K (km_verifying_key K sk) v domain sig = Inr True"
proof -
  obtain b where "to_nrf1_bytes (ce_text (km_crypto K)) v = Inr b"
    "sig = ''ed25519:'' @ ce_b64 (km_crypto K) (ce_sign (km_crypto K) sk (domain_message domain b))"
    using assms(2) by (auto simp: sign_canonical_def result_simps Let_def simp del: append_Cons append_Nil)
  then show ?thesis
    using assms(1) by (simp add: verify_canonical_def kms_verify_raw_def sound_kms_def sound_crypto_def
        del: append_Cons append_Nil)
qed

end
