(* ===== verification/Capability.thy ===== *)
theory Capability
  imports Kms "HOL-Library.Sublist"
begin

text \<open>
  Capabilities (\<open>crates/ubl_runtime/src/capability.rs\<close>): the signed object under \<open>@cap\<close> that a
  sensitive chip must carry, its reader as \<open>serde\<close> derives it, the checks in their order, and the
  command that issues one (\<open>crates/ubl_cli/src/main.rs\<close>). The clock and the RFC 3339 reader and printer
  of \<open>chrono\<close> are fields of \<open>cap_env\<close>; an instant is an integer.
\<close>

section \<open>Capabilities\<close>

record capability =
  cap_action :: string
  cap_audience :: string
  cap_issued_by :: string
  cap_issued_at :: string
  cap_expires_at :: string
  cap_signature :: string

datatype cap_malformed = CapShape | IssuedAtText | ExpiresAtText | ExpiresBeforeIssued

datatype cap_sig_fault = CapSigEmpty | SigKms kms_error | SigRejected

datatype cap_error =
    CapMissing
  | CapMalformed cap_malformed
  | WrongAction string string
  | WrongAudience string string
  | CapExpired string string
  | InvalidSignature cap_sig_fault

record ('sk, 'vk) cap_env =
  cp_kms :: "('sk, 'vk) kms_env"
  cp_parse_time :: "string \<Rightarrow> int option"
  cp_show_time :: "int \<Rightarrow> string"
  cp_now :: int

definition required_capability :: "string \<Rightarrow> string option" where
  "required_capability chip_type =
     map_of [(''ubl/app'', ''registry:init''), (''ubl/membership'', ''membership:grant''),
       (''ubl/revoke'', ''revoke:execute''), (''ubl/key.rotate'', ''key:rotate''),
       (''audit/report.request.v1'', ''audit:report''), (''audit/ledger.snapshot.request.v1'', ''audit:snapshot''),
       (''ledger/segment.compact.v1'', ''ledger:compact''), (''audit/advisory.request.v1'', ''audit:advisory'')] chip_type"

definition requires_cap_for_first :: "string \<Rightarrow> bool" where
  "requires_cap_for_first chip_type \<longleftrightarrow> chip_type = ''ubl/user''"

text \<open>The derived reader takes an object, whose unknown members it ignores, or an array of the fields in order;
  the last two fields have defaults.\<close>

definition build_cap :: "(string \<Rightarrow> string option \<Rightarrow> string option) \<Rightarrow> capability option" where
  "build_cap field =
     Option.bind (field ''action'' None) (\<lambda>action.
     Option.bind (field ''audience'' None) (\<lambda>audience.
     Option.bind (field ''issued_by'' None) (\<lambda>issued_by.
     Option.bind (field ''issued_at'' None) (\<lambda>issued_at.
     Option.bind (field ''expires_at'' (Some [])) (\<lambda>expires_at.
     Option.bind (field ''signature'' (Some [])) (\<lambda>signature.
       Some \<lparr>cap_action = action, cap_audience = audience, cap_issued_by = issued_by, cap_issued_at = issued_at,
         cap_expires_at = expires_at, cap_signature = signature\<rparr>))))))"

definition member_text :: "json_obj \<Rightarrow> string \<Rightarrow> string option \<Rightarrow> string option" where
  "member_text m k dflt = (case map_of m k of Some v \<Rightarrow> as_str v | None \<Rightarrow> dflt)"

definition CAP_FIELDS :: "string list" where
  "CAP_FIELDS = [''action'', ''audience'', ''issued_by'', ''issued_at'', ''expires_at'', ''signature'']"

fun cap_from_value :: "json \<Rightarrow> capability option" where
  "cap_from_value (JObj m) = build_cap (member_text m)"
| "cap_from_value (JArr xs) =
     (if length xs > length CAP_FIELDS then None else build_cap (member_text (zip CAP_FIELDS xs)))"
| "cap_from_value _ = None"

definition extract_cap :: "json \<Rightarrow> cap_error + capability" where
  "extract_cap body =
     and_then (ok_or CapMissing (json_get body ''@cap'')) (\<lambda>cap_val.
       ok_or (CapMalformed CapShape) (cap_from_value cap_val))"

definition audience_matches_world :: "string \<Rightarrow> string \<Rightarrow> bool" where
  "audience_matches_world audience world =
     (if world = audience then True
      else (case strip_prefix audience world of Some rest \<Rightarrow> starts_with ''/'' rest | None \<Rightarrow> False))"

definition cap_signing_payload :: "capability \<Rightarrow> json" where
  "cap_signing_payload cap = JObj [(''action'', JStr (cap_action cap)), (''audience'', JStr (cap_audience cap)),
     (''issued_by'', JStr (cap_issued_by cap)), (''issued_at'', JStr (cap_issued_at cap)),
     (''expires_at'', JStr (cap_expires_at cap))]"

definition CAPABILITY_DOMAIN :: string where
  "CAPABILITY_DOMAIN = ''ubl-capability/v1''"

definition check_times :: "('sk, 'vk) cap_env \<Rightarrow> capability \<Rightarrow> cap_error + unit" where
  "check_times C cap =
     and_then (ok_or (CapMalformed IssuedAtText) (cp_parse_time C (cap_issued_at cap))) (\<lambda>issued_at.
       if cap_expires_at cap \<noteq> [] then
         and_then (ok_or (CapMalformed ExpiresAtText) (cp_parse_time C (cap_expires_at cap))) (\<lambda>expires_at.
           if expires_at \<le> issued_at then Inl (CapMalformed ExpiresBeforeIssued)
           else if expires_at \<le> cp_now C then Inl (CapExpired (cap_expires_at cap) (cp_show_time C (cp_now C)))
           else Inr ())
       else Inr ())"

definition check_signature :: "('sk, 'vk) cap_env \<Rightarrow> capability \<Rightarrow> cap_error + unit" where
  "check_signature C cap =
     (if cap_signature cap = [] then Inl (InvalidSignature CapSigEmpty)
      else
        and_then (map_err (InvalidSignature \<circ> SigKms) (verifying_key_from_did (cp_kms C) (cap_issued_by cap))) (\<lambda>vk.
        and_then (map_err (InvalidSignature \<circ> SigKms)
            (verify_canonical (cp_kms C) vk (cap_signing_payload cap) CAPABILITY_DOMAIN (cap_signature cap))) (\<lambda>verified.
          if \<not> verified then Inl (InvalidSignature SigRejected) else Inr ())))"

definition validate_cap :: "('sk, 'vk) cap_env \<Rightarrow> capability \<Rightarrow> string \<Rightarrow> string \<Rightarrow> cap_error + unit" where
  "validate_cap C cap required_action world =
     (if cap_action cap \<noteq> required_action then Inl (WrongAction required_action (cap_action cap))
      else if \<not> audience_matches_world (cap_audience cap) world then Inl (WrongAudience world (cap_audience cap))
      else and_then (check_times C cap) (\<lambda>_. check_signature C cap))"

definition require_cap :: "('sk, 'vk) cap_env \<Rightarrow> json \<Rightarrow> string \<Rightarrow> string \<Rightarrow> cap_error + capability" where
  "require_cap C body required_action world =
     and_then (extract_cap body) (\<lambda>cap.
     and_then (validate_cap C cap required_action world) (\<lambda>_. Inr cap))"

record consumed_cap =
  cc_action :: string
  cc_audience :: string
  cc_issued_by :: string
  cc_consumed_at :: string

definition consumed_from :: "('sk, 'vk) cap_env \<Rightarrow> capability \<Rightarrow> consumed_cap" where
  "consumed_from C cap = \<lparr>cc_action = cap_action cap, cc_audience = cap_audience cap, cc_issued_by = cap_issued_by cap,
     cc_consumed_at = cp_show_time C (cp_now C)\<rparr>"

section \<open>Issuing\<close>

datatype cap_issue_error = IssueKms kms_error | IssuerMismatch string string

text \<open>The two default times, the present and a year later to the second, are arguments.\<close>

definition cmd_cap_issue :: "('sk, 'vk) kms_env \<Rightarrow> string \<times> string \<Rightarrow> string \<Rightarrow> string \<Rightarrow> string \<Rightarrow> string option \<Rightarrow>
    string option \<Rightarrow> string option \<Rightarrow> cap_issue_error + json" where
  "cmd_cap_issue K defaults action audience signing_key_hex issued_by issued_at expires_at =
     and_then (map_err IssueKms (signing_key_from_hex K signing_key_hex)) (\<lambda>sk.
       let vk = km_verifying_key K sk;
           derived_issuer = did_from_verifying_key_strict K vk;
           issuer = (case issued_by of Some i \<Rightarrow> i | None \<Rightarrow> derived_issuer)
       in if issuer \<noteq> derived_issuer then Inl (IssuerMismatch issuer derived_issuer)
          else
            let issued_at_ts = (case issued_at of Some t \<Rightarrow> t | None \<Rightarrow> fst defaults);
                expires_at_ts = (case expires_at of Some t \<Rightarrow> t | None \<Rightarrow> snd defaults);
                members = [(''action'', JStr action), (''audience'', JStr audience), (''issued_by'', JStr issuer),
                  (''issued_at'', JStr issued_at_ts), (''expires_at'', JStr expires_at_ts)]
            in and_then (map_err IssueKms (sign_canonical K sk (JObj members) CAPABILITY_DOMAIN)) (\<lambda>signature.
                 Inr (JObj (members @ [(''signature'', JStr signature)]))))"

section \<open>Audiences\<close>

lemma split_on_join_append: "split_on d (s @ d # r) = split_on d s @ split_on d r"
proof (induction s)
  case (Cons c s)
  obtain t ts where "split_on d s = t # ts"
    by (cases "split_on d s") simp_all
  with Cons show ?case
    by simp
qed simp

lemma join_with_append: "xs \<noteq> [] \<Longrightarrow> ys \<noteq> [] \<Longrightarrow> join_with d (xs @ ys) = join_with d xs @ d # join_with d ys"
  by (induction d xs rule: join_with.induct) (simp_all add: join_with_Cons)

text \<open>An audience covers a world exactly when its path segments are the first segments of the world's path:
  \<open>a/acme\<close> covers \<open>a/acme/t/prod\<close> but not \<open>a/acme2\<close>.\<close>

lemma audience_is_path_prefix:
  "audience_matches_world audience world \<longleftrightarrow> prefix (split_on (CHR ''/'') audience) (split_on (CHR ''/'') world)"
proof -
  have "audience_matches_world audience world \<longleftrightarrow> world = audience \<or> (\<exists>r. world = audience @ CHR ''/'' # r)"
    by (auto simp: audience_matches_world_def starts_with_iff strip_prefix_iff split: option.split)
  also have "\<dots> \<longleftrightarrow> prefix (split_on (CHR ''/'') audience) (split_on (CHR ''/'') world)"
  proof
    assume "prefix (split_on (CHR ''/'') audience) (split_on (CHR ''/'') world)"
    then obtain zs where zs: "split_on (CHR ''/'') world = split_on (CHR ''/'') audience @ zs"
      by (auto simp: prefix_def)
    show "world = audience \<or> (\<exists>r. world = audience @ CHR ''/'' # r)"
      using arg_cong [OF zs, of "join_with (CHR ''/'')"] by (cases "zs = []") (auto simp: join_split join_with_append)
  qed (auto simp: split_on_join_append)
  finally show ?thesis .
qed

section \<open>Accepted capabilities\<close>

definition times_ok :: "('sk, 'vk) cap_env \<Rightarrow> capability \<Rightarrow> bool" where
  "times_ok C cap \<longleftrightarrow> (\<exists>issued. cp_parse_time C (cap_issued_at cap) = Some issued
     \<and> (cap_expires_at cap \<noteq> [] \<longrightarrow>
          (\<exists>e. cp_parse_time C (cap_expires_at cap) = Some e \<and> issued < e \<and> cp_now C < e)))"

definition signed_by_issuer :: "('sk, 'vk) cap_env \<Rightarrow> capability \<Rightarrow> bool" where
  "signed_by_issuer C cap \<longleftrightarrow> cap_signature cap \<noteq> [] \<and> (\<exists>vk. verifying_key_from_did (cp_kms C) (cap_issued_by cap) = Inr vk
     \<and> verify_canonical (cp_kms C) vk (cap_signing_payload cap) CAPABILITY_DOMAIN (cap_signature cap) = Inr True)"

lemma check_times_iff: "check_times C cap = Inr () \<longleftrightarrow> times_ok C cap"
  by (cases "cp_parse_time C (cap_issued_at cap)"; cases "cp_parse_time C (cap_expires_at cap)")
    (auto simp: check_times_def times_ok_def)

lemma check_signature_iff: "check_signature C cap = Inr () \<longleftrightarrow> signed_by_issuer C cap"
  by (auto simp: check_signature_def signed_by_issuer_def result_simps)

text \<open>C32: A capability is accepted for an action in a world exactly when it is the one in the body, names that
  action, covers the world, is in time and carries a signature of the key its own \<open>issued_by\<close> names.\<close>

theorem require_cap_iff:
  "require_cap C body action world = Inr cap \<longleftrightarrow>
     extract_cap body = Inr cap \<and> cap_action cap = action
     \<and> prefix (split_on (CHR ''/'') (cap_audience cap)) (split_on (CHR ''/'') world)
     \<and> times_ok C cap \<and> signed_by_issuer C cap"
  by (auto simp: require_cap_def validate_cap_def result_simps audience_is_path_prefix check_times_iff
      check_signature_iff split: if_splits)

lemma cmd_cap_issue_shape:
  assumes "cmd_cap_issue K d action audience hex who since until = Inr j"
  obtains sk signature cap where "signing_key_from_hex K hex = Inr sk" "cap_from_value j = Some cap"
    "cap = \<lparr>cap_action = action, cap_audience = audience,
        cap_issued_by = did_from_verifying_key_strict K (km_verifying_key K sk),
        cap_issued_at = (case since of Some t \<Rightarrow> t | None \<Rightarrow> fst d),
        cap_expires_at = (case until of Some t \<Rightarrow> t | None \<Rightarrow> snd d), cap_signature = signature\<rparr>"
    "sign_canonical K sk (cap_signing_payload cap) CAPABILITY_DOMAIN = Inr signature"
proof -
  from assms obtain sk signature where *: "signing_key_from_hex K hex = Inr sk"
    "sign_canonical K sk (JObj [(''action'', JStr action), (''audience'', JStr audience),
       (''issued_by'', JStr (did_from_verifying_key_strict K (km_verifying_key K sk))),
       (''issued_at'', JStr (case since of Some t \<Rightarrow> t | None \<Rightarrow> fst d)),
       (''expires_at'', JStr (case until of Some t \<Rightarrow> t | None \<Rightarrow> snd d))]) CAPABILITY_DOMAIN = Inr signature"
    "j = JObj [(''action'', JStr action), (''audience'', JStr audience),
       (''issued_by'', JStr (did_from_verifying_key_strict K (km_verifying_key K sk))),
       (''issued_at'', JStr (case since of Some t \<Rightarrow> t | None \<Rightarrow> fst d)),
       (''expires_at'', JStr (case until of Some t \<Rightarrow> t | None \<Rightarrow> snd d)), (''signature'', JStr signature)]"
    by (auto simp: cmd_cap_issue_def result_simps Let_def split: if_splits)
  define cap where "cap = \<lparr>cap_action = action, cap_audience = audience,
        cap_issued_by = did_from_verifying_key_strict K (km_verifying_key K sk),
        cap_issued_at = (case since of Some t \<Rightarrow> t | None \<Rightarrow> fst d),
        cap_expires_at = (case until of Some t \<Rightarrow> t | None \<Rightarrow> snd d), cap_signature = signature\<rparr>"
  have "cap_from_value j = Some cap"
    by (simp add: *(3) build_cap_def member_text_def cap_def)
  moreover have "sign_canonical K sk (cap_signing_payload cap) CAPABILITY_DOMAIN = Inr signature"
    using *(2) by (simp add: cap_signing_payload_def cap_def)
  ultimately show thesis
    using *(1) cap_def by (intro that)
qed

lemma sign_canonical_nonempty: "sign_canonical K sk v domain = Inr s \<Longrightarrow> s \<noteq> []"
  by (auto simp: sign_canonical_def result_simps Let_def)

text \<open>What the command line issues is accepted until it expires and refused from that moment on: the
  signature and the issuer of the issued object always verify, whoever holds the signing key.\<close>

theorem issued_cap_accepted:
  assumes "sound_kms (cp_kms C)"
    and "cmd_cap_issue (cp_kms C) d action audience hex who (Some from_text) (Some to_text) = Inr j"
    and "json_get body ''@cap'' = Some j"
    and "audience_matches_world audience world"
    and "cp_parse_time C from_text = Some i" "cp_parse_time C to_text = Some e" "i < e" "to_text \<noteq> []"
  shows "if cp_now C < e then \<exists>cap. require_cap C body action world = Inr cap
     else require_cap C body action world = Inl (CapExpired to_text (cp_show_time C (cp_now C)))"
proof -
  obtain sk signature cap where cap: "cap_from_value j = Some cap"
    "cap = \<lparr>cap_action = action, cap_audience = audience,
        cap_issued_by = did_from_verifying_key_strict (cp_kms C) (km_verifying_key (cp_kms C) sk),
        cap_issued_at = from_text, cap_expires_at = to_text, cap_signature = signature\<rparr>"
    and sign: "sign_canonical (cp_kms C) sk (cap_signing_payload cap) CAPABILITY_DOMAIN = Inr signature"
    by (rule cmd_cap_issue_shape [OF assms(2)]) simp
  have ext: "extract_cap body = Inr cap"
    using assms(3) cap(1) by (simp add: extract_cap_def)
  have "verifying_key_from_did (cp_kms C) (cap_issued_by cap) = Inr (km_verifying_key (cp_kms C) sk)"
    using strict_did_read [OF assms(1)] cap(2) by (simp add: verifying_key_from_did_def)
  then have "check_signature C cap = Inr ()"
    using verify_sign_canonical [OF assms(1) sign] sign_canonical_nonempty [OF sign] cap(2)
    by (simp add: check_signature_def)
  then show ?thesis
    using ext cap(2) assms(4-) by (simp add: require_cap_def validate_cap_def check_times_def)
qed

definition demo_caps :: "(u8, u8) cap_env" where
  "demo_caps = \<lparr>cp_kms = toy_kms, cp_parse_time = (\<lambda>s. Some (int (length s))), cp_show_time = (\<lambda>_. ''now''), cp_now = 1\<rparr>"

theorem issued_cap_accepted_witness:
  "\<exists>j cap. cmd_cap_issue toy_kms ([], []) ''registry:init'' ''a/acme'' (replicate 64 (CHR ''0'')) None (Some ''t'')
      (Some ''later'') = Inr j \<and> require_cap demo_caps (JObj [(''@cap'', j)]) ''registry:init'' ''a/acme/t/prod'' = Inr cap"
proof -
  have "\<not> isl (cmd_cap_issue toy_kms ([], []) ''registry:init'' ''a/acme'' (replicate 64 (CHR ''0'')) None (Some ''t'')
      (Some ''later''))"
    by code_simp
  then obtain j where j: "cmd_cap_issue toy_kms ([], []) ''registry:init'' ''a/acme'' (replicate 64 (CHR ''0'')) None (Some ''t'')
      (Some ''later'') = Inr j"
    by (auto simp: isl_def) (metis old.sum.exhaust)
  have "audience_matches_world ''a/acme'' ''a/acme/t/prod''"
    by code_simp
  then show ?thesis
    using j issued_cap_accepted [of demo_caps "([], [])" "''registry:init''" "''a/acme''" "replicate 64 (CHR ''0'')" None "''t''"
        "''later''" j "JObj [(''@cap'', j)]" "''a/acme/t/prod''"] toy_kms_sound by (simp add: demo_caps_def)
qed

end
