(* ===== verification/Idempotency.thy ===== *)
theory Idempotency
  imports Ubl_Canon Ubl_Text "HOL-Library.AList_Mapping"
begin

text \<open>
  Idempotent replay of command chips (\<open>crates/ubl_runtime/src/idempotency.rs\<close>): the four-part key, its
  text and durable forms, and the in-memory store. A store is a finite map. The contract of a replay
  store, which the durable store also meets, is the locale \<open>replay_store\<close>.
\<close>

section \<open>Keys\<close>

record idempotency_key =
  ik_type :: string
  ik_ver :: string
  ik_world :: string
  ik_id :: string

definition key_from_chip_body :: "json \<Rightarrow> idempotency_key option" where
  "key_from_chip_body body =
     Option.bind (Option.bind (json_get body ''@type'') as_str) (\<lambda>at_type.
     Option.bind (Option.bind (json_get body ''@ver'') as_str) (\<lambda>at_ver.
     Option.bind (Option.bind (json_get body ''@world'') as_str) (\<lambda>at_world.
     Option.bind (Option.bind (json_get body ''@id'') as_str) (\<lambda>at_id.
       if at_type = [] \<or> at_id = [] then None
       else Some \<lparr>ik_type = at_type, ik_ver = at_ver, ik_world = at_world, ik_id = at_id\<rparr>))))"

definition to_string_key :: "idempotency_key \<Rightarrow> string" where
  "to_string_key k = ik_type k @ ''|'' @ ik_ver k @ ''|'' @ ik_world k @ ''|'' @ ik_id k"

definition to_durable_key :: "(u8 list \<Rightarrow> u8 list) \<Rightarrow> idempotency_key \<Rightarrow> string" where
  "to_durable_key hash k = hex_encode (hash (bytes_of (to_string_key k)))"

definition key_display :: "idempotency_key \<Rightarrow> string" where
  "key_display k = ''('' @ ik_type k @ '', '' @ ik_ver k @ '', '' @ ik_world k @ '', '' @ ik_id k @ '')''"

section \<open>The in-memory store\<close>

record cached_result =
  cr_receipt_cid :: string
  cr_response_json :: json
  cr_decision :: string
  cr_chain :: "string list"
  cr_created_at :: string

type_synonym idem_store = "(idempotency_key, cached_result) mapping"

definition store_new :: idem_store where
  "store_new = Mapping.empty"

definition store_get :: "idem_store \<Rightarrow> idempotency_key \<Rightarrow> cached_result option" where
  "store_get s k = Mapping.lookup s k"

definition store_put :: "idempotency_key \<Rightarrow> cached_result \<Rightarrow> idem_store \<Rightarrow> idem_store" where
  "store_put k v s = Mapping.update k v s"

definition store_contains :: "idem_store \<Rightarrow> idempotency_key \<Rightarrow> bool" where
  "store_contains s k \<longleftrightarrow> k \<in> Mapping.keys s"

definition store_len :: "idem_store \<Rightarrow> nat" where
  "store_len s = Mapping.size s"

definition store_is_empty :: "idem_store \<Rightarrow> bool" where
  "store_is_empty s \<longleftrightarrow> store_len s = 0"

text \<open>The cutoff is the RFC 3339 text of the present less the age; the code compares it as text.\<close>

definition prune_older_than :: "string \<Rightarrow> idem_store \<Rightarrow> idem_store" where
  "prune_older_than cutoff_str s = Mapping.filter (\<lambda>_ v. cr_created_at v > cutoff_str) s"

section \<open>The contract of a replay store\<close>

text \<open>
  A store has a slot per key. A successful put makes the value the answer for every key of the slot and
  changes no other; a client can rely on the answer as long as nothing is put in the same slot.
\<close>

locale replay_store =
  fixes lookup :: "'s \<Rightarrow> 'k \<Rightarrow> 'v option"
    and put :: "'k \<Rightarrow> 'w \<Rightarrow> 's \<Rightarrow> 's option"
    and view :: "'k \<Rightarrow> 'w \<Rightarrow> 'v"
    and slot :: "'k \<Rightarrow> 'slot"
  assumes lookup_put: "put k w s = Some s' \<Longrightarrow> lookup s' k' = (if slot k' = slot k then Some (view k w) else lookup s k')"
begin

fun puts :: "('k \<times> 'w) list \<Rightarrow> 's \<Rightarrow> 's option" where
  "puts [] s = Some s"
| "puts ((k, w) # kws) s = Option.bind (put k w s) (puts kws)"

lemma lookup_puts_other:
  "puts kws s = Some s' \<Longrightarrow> slot k \<notin> slot ` fst ` set kws \<Longrightarrow> lookup s' k = lookup s k"
  by (induction kws s rule: puts.induct) (auto simp: lookup_put split: bind_splits)

lemma replay:
  assumes "put k w s = Some s1" "puts kws s1 = Some s2" "slot k \<notin> slot ` fst ` set kws" "slot k' = slot k"
  shows "lookup s2 k' = Some (view k w)"
  using assms lookup_puts_other [OF assms(2), of k'] by (simp add: lookup_put)

end

interpretation idem_mem: replay_store store_get "\<lambda>k v s. Some (store_put k v s)" "\<lambda>k v. v" id
  by unfold_locales (auto simp: store_get_def store_put_def lookup_update')

section \<open>Properties\<close>

lemma lookup_prune: "store_get (prune_older_than cutoff s) k
    = (case store_get s k of Some v \<Rightarrow> if cr_created_at v > cutoff then Some v else None | None \<Rightarrow> None)"
  by (simp add: store_get_def prune_older_than_def lookup_filter)

text \<open>A cached result is returned for its key, and for no other key, until it is overwritten or pruned:
  whatever is put for other keys in between, and pruning removes exactly the results not newer than the cutoff.\<close>

theorem store_replays:
  assumes "k \<notin> fst ` set others"
  shows "store_get (prune_older_than cutoff (fold (\<lambda>(k', v'). store_put k' v') others (store_put k v s))) k
    = (if cr_created_at v > cutoff then Some v else None)
   \<and> store_contains (fold (\<lambda>(k', v'). store_put k' v') others (store_put k v s)) k"
proof -
  have puts: "idem_mem.puts others t = Some (fold (\<lambda>(k', v'). store_put k' v') others t)" for t
    by (induction others arbitrary: t) auto
  have "store_get (fold (\<lambda>(k', v'). store_put k' v') others (store_put k v s)) k = Some v"
    using idem_mem.replay [of k v s "store_put k v s" others _ k] puts assms by simp
  then show ?thesis
    by (simp add: lookup_prune) (simp add: store_contains_def store_get_def keys_is_none_rep)
qed

definition demo_idem_key :: "string \<Rightarrow> idempotency_key" where
  "demo_idem_key i = \<lparr>ik_type = ''ubl/user'', ik_ver = ''1.0'', ik_world = ''a/x/t/y'', ik_id = i\<rparr>"

definition demo_result :: cached_result where
  "demo_result = \<lparr>cr_receipt_cid = ''b3:1'', cr_response_json = JNull, cr_decision = ''allow'', cr_chain = [],
     cr_created_at = ''2025''\<rparr>"

theorem store_replays_witness:
  "store_get (prune_older_than ''2024'' (store_put (demo_idem_key ''b'') demo_result (store_put (demo_idem_key ''a'') demo_result store_new)))
     (demo_idem_key ''a'') = Some demo_result"
  using store_replays [of "demo_idem_key ''a''" "[(demo_idem_key ''b'', demo_result)]" "''2024''" demo_result store_new]
  by (simp add: demo_idem_key_def demo_result_def)

definition bar_free :: "idempotency_key \<Rightarrow> bool" where
  "bar_free k \<longleftrightarrow> CHR ''|'' \<notin> set (ik_type k) \<and> CHR ''|'' \<notin> set (ik_ver k) \<and> CHR ''|'' \<notin> set (ik_world k)"

lemma append_bar_inject: "d \<notin> set a \<Longrightarrow> d \<notin> set b \<Longrightarrow> a @ d # x = b @ d # y \<longleftrightarrow> a = b \<and> x = y"
  by (auto simp: append_eq_append_conv2 Cons_eq_append_conv append_eq_Cons_conv)

lemma to_string_key_inject: "bar_free k \<Longrightarrow> bar_free k' \<Longrightarrow> to_string_key k = to_string_key k' \<longleftrightarrow> k = k'"
  by (cases k; cases k') (simp add: bar_free_def to_string_key_def append_bar_inject)

text \<open>Without a bar in the first three anchors, two keys have the same durable form only if they are equal,
  for any hash that is injective; with a bar, different chips share one, whatever the hash.\<close>

theorem durable_key_identity:
  assumes "inj hash"
  shows "(bar_free k \<and> bar_free k' \<longrightarrow> (to_durable_key hash k = to_durable_key hash k' \<longleftrightarrow> k = k'))
    \<and> (\<exists>b b'. key_from_chip_body b = Some \<lparr>ik_type = ''t'', ik_ver = ''1|a/x'', ik_world = ''a/y'', ik_id = ''i''\<rparr>
        \<and> key_from_chip_body b' = Some \<lparr>ik_type = ''t'', ik_ver = ''1'', ik_world = ''a/x|a/y'', ik_id = ''i''\<rparr>
        \<and> map_option (to_durable_key hash) (key_from_chip_body b) = map_option (to_durable_key hash) (key_from_chip_body b'))"
proof -
  let ?b = "JObj [(''@type'', JStr ''t''), (''@ver'', JStr ''1|a/x''), (''@world'', JStr ''a/y''), (''@id'', JStr ''i'')]"
  let ?b' = "JObj [(''@type'', JStr ''t''), (''@ver'', JStr ''1''), (''@world'', JStr ''a/x|a/y''), (''@id'', JStr ''i'')]"
  have "key_from_chip_body ?b = Some \<lparr>ik_type = ''t'', ik_ver = ''1|a/x'', ik_world = ''a/y'', ik_id = ''i''\<rparr>"
    "key_from_chip_body ?b' = Some \<lparr>ik_type = ''t'', ik_ver = ''1'', ik_world = ''a/x|a/y'', ik_id = ''i''\<rparr>"
    by (simp_all add: key_from_chip_body_def)
  moreover have "to_durable_key hash k = to_durable_key hash k' \<longleftrightarrow> to_string_key k = to_string_key k'"
    using assms bytes_of_inject by (auto simp: to_durable_key_def inj_eq)
  ultimately show ?thesis
    using to_string_key_inject [of k k']
    by (intro conjI exI [of _ ?b] exI [of _ ?b']) (simp_all add: to_durable_key_def to_string_key_def)
qed

theorem durable_key_identity_witness: "to_durable_key id (demo_idem_key ''a'') \<noteq> to_durable_key id (demo_idem_key ''b'')"
  using durable_key_identity [of id "demo_idem_key ''a''" "demo_idem_key ''b''"] by (simp add: bar_free_def demo_idem_key_def)

end
