(* ===== verification/Durable.thy ===== *)
theory Durable
  imports Idempotency
begin

text \<open>
  The durable store (\<open>crates/ubl_runtime/src/durable_store.rs\<close>) and the outbox dispatcher
  (\<open>crates/ubl_runtime/src/outbox_dispatcher.rs\<close>). The tables are lists of rows with the columns of the schema and
  each SQL statement is written out on them. Any call of the database library may fail: \<open>faults\<close> says which
  calls do and with what message. A transaction works on a copy of the tables that replaces them when it commits
  and is dropped on any earlier return. The printer and parser of JSON text, the text of a time in seconds and the
  clock are arguments; the integers of SQL columns are \<open>int\<close>.
\<close>

section \<open>Tables\<close>

datatype outbox_status = Pending | Inflight | Done | Dead

record receipt_row =
  rr_cid :: string
  rr_body :: string
  rr_created_at :: int
  rr_did :: string
  rr_kid :: string
  rr_rt_hash :: string
  rr_decision :: string

record idem_row =
  ir_key :: string
  ir_receipt_cid :: string
  ir_response :: string
  ir_chain :: string
  ir_created_at :: int

record outbox_row =
  ob_id :: int
  ob_type :: string
  ob_payload :: string
  ob_status :: outbox_status
  ob_attempts :: int
  ob_next_attempt_at :: int
  ob_created_at :: int

record nonce_row =
  nr_nonce :: string
  nr_created_at :: int
  nr_expires_at :: int

record stage_secrets_row =
  ss_current :: string
  ss_prev :: "string option"

record durable_db =
  db_receipts :: "receipt_row list"
  db_idem :: "idem_row list"
  db_outbox :: "outbox_row list"
  db_seq :: int
  db_nonces :: "nonce_row list"
  db_secrets :: "(stage_secrets_row \<times> int) option"

text \<open>\<open>db_seq\<close> is the largest identifier ever given to an outbox row: the column is \<open>AUTOINCREMENT\<close>.\<close>

definition empty_db :: durable_db where
  "empty_db = \<lparr>db_receipts = [], db_idem = [], db_outbox = [], db_seq = 0, db_nonces = [], db_secrets = None\<rparr>"

record new_outbox_event =
  ne_type :: string
  ne_payload :: json

record commit_input =
  ci_receipt_cid :: string
  ci_receipt_json :: json
  ci_did :: string
  ci_kid :: string
  ci_rt_hash :: string
  ci_decision :: string
  ci_idem_key :: "string option"
  ci_chain :: "string list"
  ci_outbox_events :: "new_outbox_event list"
  ci_created_at :: int
  ci_fail_after_receipt_write :: bool

record outbox_event =
  oe_id :: int
  oe_type :: string
  oe_payload :: json
  oe_attempts :: int
  oe_next_attempt_at :: int

datatype durable_error =
    Sqlite string
  | Serde string
  | IdempotencyConflict string
  | DurableCommitFailed string

section \<open>Library calls\<close>

datatype db_site =
    OpenConn
  | Pragma nat
  | BeginTx
  | InsertReceipt
  | InsertIdem
  | InsertOutbox nat
  | SelectRows
  | UpdateRow nat
  | DeleteRows
  | InsertRow
  | CommitTx

type_synonym faults = "db_site \<Rightarrow> string option"

record text_codec =
  tc_print :: "json \<Rightarrow> string"
  tc_parse :: "string \<Rightarrow> string + json"
  tc_print_chain :: "string list \<Rightarrow> string"
  tc_parse_chain :: "string \<Rightarrow> string + string list"
  tc_show_secs :: "int \<Rightarrow> string"

definition db_call :: "faults \<Rightarrow> db_site \<Rightarrow> (string \<Rightarrow> durable_error) \<Rightarrow> durable_error + unit" where
  "db_call io site err = (case io site of None \<Rightarrow> Inr () | Some msg \<Rightarrow> Inl (err msg))"

definition open_conn :: "faults \<Rightarrow> durable_error + unit" where
  "open_conn io = db_call io OpenConn Sqlite"

definition apply_pragmas :: "faults \<Rightarrow> durable_error + unit" where
  "apply_pragmas io =
     and_then (db_call io (Pragma 0) Sqlite) (\<lambda>_.
     and_then (db_call io (Pragma 1) Sqlite) (\<lambda>_.
       db_call io (Pragma 2) Sqlite))"

definition connect :: "faults \<Rightarrow> durable_error + unit" where
  "connect io = and_then (open_conn io) (\<lambda>_. apply_pragmas io)"

section \<open>Reading\<close>

definition get_idempotent :: "text_codec \<Rightarrow> faults \<Rightarrow> string \<Rightarrow> durable_db \<Rightarrow> durable_error + cached_result option" where
  "get_idempotent T io idem_key db =
     and_then (connect io) (\<lambda>_.
     and_then (db_call io SelectRows Sqlite) (\<lambda>_.
       case find (\<lambda>r. ir_key r = idem_key) (db_idem db) of
         None \<Rightarrow> Inr None
       | Some r \<Rightarrow>
           and_then (map_err Serde (tc_parse T (ir_response r))) (\<lambda>response_json.
           and_then (map_err Serde (tc_parse_chain T (ir_chain r))) (\<lambda>chain.
             let decision = (case Option.bind (json_get response_json ''decision'') as_str of Some d \<Rightarrow> d | None \<Rightarrow> ''Allow'')
             in Inr (Some \<lparr>cr_receipt_cid = ir_receipt_cid r, cr_response_json = response_json, cr_decision = decision,
                  cr_chain = chain, cr_created_at = tc_show_secs T (ir_created_at r)\<rparr>)))))"

definition get_receipt :: "text_codec \<Rightarrow> faults \<Rightarrow> string \<Rightarrow> durable_db \<Rightarrow> durable_error + json option" where
  "get_receipt T io receipt_cid db =
     and_then (connect io) (\<lambda>_.
     and_then (db_call io SelectRows Sqlite) (\<lambda>_.
       case find (\<lambda>r. rr_cid r = receipt_cid) (db_receipts db) of
         None \<Rightarrow> Inr None
       | Some r \<Rightarrow> map_ok Some (map_err Serde (tc_parse T (rr_body r)))))"

section \<open>The commit\<close>

text \<open>\<open>INSERT OR IGNORE\<close> skips a row that repeats the primary key or violates the check on the decision.\<close>

definition insert_receipt :: "text_codec \<Rightarrow> commit_input \<Rightarrow> durable_db \<Rightarrow> durable_db" where
  "insert_receipt T input db =
     (if ci_receipt_cid input \<in> rr_cid ` set (db_receipts db) \<or> ci_decision input \<notin> {''allow'', ''deny''} then db
      else db\<lparr>db_receipts := db_receipts db @ [\<lparr>rr_cid = ci_receipt_cid input, rr_body = tc_print T (ci_receipt_json input),
        rr_created_at = ci_created_at input, rr_did = ci_did input, rr_kid = ci_kid input,
        rr_rt_hash = ci_rt_hash input, rr_decision = ci_decision input\<rparr>]\<rparr>)"

definition put_idempotent_in_tx :: "text_codec \<Rightarrow> faults \<Rightarrow> string \<Rightarrow> commit_input \<Rightarrow> durable_db \<Rightarrow> durable_error + durable_db" where
  "put_idempotent_in_tx T io idem_key input db =
     (let response_json = tc_print T (ci_receipt_json input); chain_json = tc_print_chain T (ci_chain input)
      in and_then (db_call io InsertIdem DurableCommitFailed) (\<lambda>_.
           if idem_key \<in> ir_key ` set (db_idem db)
           then Inl (IdempotencyConflict (''idempotency key already exists: '' @ idem_key))
           else Inr (db\<lparr>db_idem := db_idem db @ [\<lparr>ir_key = idem_key, ir_receipt_cid = ci_receipt_cid input,
                  ir_response = response_json, ir_chain = chain_json, ir_created_at = ci_created_at input\<rparr>]\<rparr>)))"

definition enqueue_outbox_in_tx :: "text_codec \<Rightarrow> faults \<Rightarrow> nat \<Rightarrow> new_outbox_event \<Rightarrow> int \<Rightarrow> durable_db \<Rightarrow> durable_error + durable_db" where
  "enqueue_outbox_in_tx T io i event created_at db =
     and_then (db_call io (InsertOutbox i) DurableCommitFailed) (\<lambda>_.
       Inr (db\<lparr>db_outbox := db_outbox db @ [\<lparr>ob_id = db_seq db + 1, ob_type = ne_type event,
           ob_payload = tc_print T (ne_payload event), ob_status = Pending, ob_attempts = 0,
           ob_next_attempt_at = created_at, ob_created_at = created_at\<rparr>], db_seq := db_seq db + 1\<rparr>))"

fun enqueue_all :: "text_codec \<Rightarrow> faults \<Rightarrow> nat \<Rightarrow> new_outbox_event list \<Rightarrow> int \<Rightarrow> durable_db \<Rightarrow> durable_error + durable_db" where
  "enqueue_all T io i [] created_at db = Inr db"
| "enqueue_all T io i (event # events) created_at db =
     and_then (enqueue_outbox_in_tx T io i event created_at db) (\<lambda>db'. enqueue_all T io (Suc i) events created_at db')"

definition commit_tx :: "text_codec \<Rightarrow> faults \<Rightarrow> commit_input \<Rightarrow> durable_db \<Rightarrow> durable_error + durable_db" where
  "commit_tx T io input db =
     and_then (connect io) (\<lambda>_.
     and_then (db_call io BeginTx DurableCommitFailed) (\<lambda>_.
     and_then (db_call io InsertReceipt DurableCommitFailed) (\<lambda>_.
       let db1 = insert_receipt T input db
       in if ci_fail_after_receipt_write input
          then Inl (DurableCommitFailed ''injected failure after receipts write'')
          else
            and_then (case ci_idem_key input of
                None \<Rightarrow> Inr db1
              | Some idem_key \<Rightarrow> put_idempotent_in_tx T io idem_key input db1) (\<lambda>db2.
            and_then (enqueue_all T io 0 (ci_outbox_events input) (ci_created_at input) db2) (\<lambda>db3.
            and_then (db_call io CommitTx DurableCommitFailed) (\<lambda>_. Inr db3))))))"

definition in_tx :: "durable_error + 'a \<times> durable_db \<Rightarrow> durable_db \<Rightarrow> (durable_error + 'a) \<times> durable_db" where
  "in_tx tx db = (case tx of Inl e \<Rightarrow> (Inl e, db) | Inr (r, db') \<Rightarrow> (Inr r, db'))"

definition commit_wf_atomically ::
  "text_codec \<Rightarrow> faults \<Rightarrow> commit_input \<Rightarrow> durable_db \<Rightarrow> (durable_error + bool) \<times> durable_db" where
  "commit_wf_atomically T io input db = in_tx (map_ok (\<lambda>db'. (True, db')) (commit_tx T io input db)) db"

section \<open>The outbox\<close>

text \<open>A limit of \<open>2^63\<close> or more becomes negative in the cast to \<open>i64\<close>, which SQL reads as no limit.\<close>

definition sql_limit :: "nat \<Rightarrow> 'a list \<Rightarrow> 'a list" where
  "sql_limit limit xs = (if int limit < 2 ^ 63 then take limit xs else xs)"

definition due_rows :: "int \<Rightarrow> nat \<Rightarrow> durable_db \<Rightarrow> outbox_row list" where
  "due_rows now limit db =
     sql_limit limit (sort_key ob_id (filter (\<lambda>r. ob_status r = Pending \<and> ob_next_attempt_at r \<le> now) (db_outbox db)))"

definition event_of_row :: "text_codec \<Rightarrow> outbox_row \<Rightarrow> durable_error + outbox_event" where
  "event_of_row T r = map_ok (\<lambda>payload. \<lparr>oe_id = ob_id r, oe_type = ob_type r, oe_payload = payload,
       oe_attempts = ob_attempts r, oe_next_attempt_at = ob_next_attempt_at r\<rparr>) (map_err Serde (tc_parse T (ob_payload r)))"

definition update_outbox :: "int \<Rightarrow> (outbox_row \<Rightarrow> outbox_row) \<Rightarrow> durable_db \<Rightarrow> durable_db" where
  "update_outbox i f db = db\<lparr>db_outbox := map (\<lambda>r. if ob_id r = i then f r else r) (db_outbox db)\<rparr>"

fun mark_inflight :: "faults \<Rightarrow> nat \<Rightarrow> outbox_event list \<Rightarrow> durable_db \<Rightarrow> durable_error + durable_db" where
  "mark_inflight io i [] db = Inr db"
| "mark_inflight io i (event # events) db =
     and_then (db_call io (UpdateRow i) Sqlite) (\<lambda>_.
       mark_inflight io (Suc i) events
         (update_outbox (oe_id event) (\<lambda>r. r\<lparr>ob_status := Inflight, ob_attempts := ob_attempts r + 1\<rparr>) db))"

definition claim_outbox :: "text_codec \<Rightarrow> faults \<Rightarrow> int \<Rightarrow> nat \<Rightarrow> durable_db \<Rightarrow> (durable_error + outbox_event list) \<times> durable_db" where
  "claim_outbox T io now limit db = in_tx
     (and_then (connect io) (\<lambda>_.
      and_then (db_call io BeginTx Sqlite) (\<lambda>_.
      and_then (db_call io SelectRows Sqlite) (\<lambda>_.
      and_then (collect_results (event_of_row T) (due_rows now limit db)) (\<lambda>events.
      and_then (mark_inflight io 0 events db) (\<lambda>db'.
      and_then (db_call io CommitTx Sqlite) (\<lambda>_. Inr (events, db')))))))) db"

definition ack_outbox :: "faults \<Rightarrow> int \<Rightarrow> durable_db \<Rightarrow> (durable_error + unit) \<times> durable_db" where
  "ack_outbox io i db = in_tx
     (and_then (connect io) (\<lambda>_.
      and_then (db_call io (UpdateRow 0) Sqlite) (\<lambda>_.
        Inr ((), update_outbox i (\<lambda>r. r\<lparr>ob_status := Done\<rparr>) db)))) db"

definition nack_outbox :: "faults \<Rightarrow> int \<Rightarrow> int \<Rightarrow> durable_db \<Rightarrow> (durable_error + unit) \<times> durable_db" where
  "nack_outbox io i next_attempt_at db = in_tx
     (and_then (connect io) (\<lambda>_.
      and_then (db_call io (UpdateRow 0) Sqlite) (\<lambda>_.
        Inr ((), update_outbox i (\<lambda>r. r\<lparr>ob_status := Pending, ob_next_attempt_at := next_attempt_at\<rparr>) db)))) db"

definition outbox_pending :: "faults \<Rightarrow> durable_db \<Rightarrow> durable_error + nat" where
  "outbox_pending io db =
     and_then (connect io) (\<lambda>_.
     and_then (db_call io SelectRows Sqlite) (\<lambda>_.
       Inr (length (filter (\<lambda>r. ob_status r = Pending) (db_outbox db)))))"

section \<open>Nonces and stage secrets\<close>

definition nonce_mark_if_new :: "faults \<Rightarrow> int \<Rightarrow> string \<Rightarrow> nat \<Rightarrow> durable_db \<Rightarrow> (durable_error + bool) \<times> durable_db" where
  "nonce_mark_if_new io now nonce ttl_secs db = in_tx
     (and_then (connect io) (\<lambda>_.
      and_then (db_call io BeginTx Sqlite) (\<lambda>_.
      and_then (db_call io DeleteRows Sqlite) (\<lambda>_.
      and_then (db_call io InsertRow Sqlite) (\<lambda>_.
        let expires_at = now + int (max ttl_secs 1);
            kept = filter (\<lambda>r. \<not> nr_expires_at r \<le> now) (db_nonces db);
            inserted = (nonce \<notin> nr_nonce ` set kept);
            rows = (if inserted then kept @ [\<lparr>nr_nonce = nonce, nr_created_at = now, nr_expires_at = expires_at\<rparr>] else kept)
        in and_then (db_call io CommitTx Sqlite) (\<lambda>_. Inr (inserted, db\<lparr>db_nonces := rows\<rparr>))))))) db"

definition put_stage_secrets :: "faults \<Rightarrow> int \<Rightarrow> string \<Rightarrow> string option \<Rightarrow> durable_db \<Rightarrow> (durable_error + unit) \<times> durable_db" where
  "put_stage_secrets io now current prev db = in_tx
     (and_then (connect io) (\<lambda>_.
      and_then (db_call io InsertRow Sqlite) (\<lambda>_.
        Inr ((), db\<lparr>db_secrets := Some (\<lparr>ss_current = current, ss_prev = prev\<rparr>, now)\<rparr>)))) db"

definition get_stage_secrets :: "faults \<Rightarrow> durable_db \<Rightarrow> durable_error + stage_secrets_row option" where
  "get_stage_secrets io db =
     and_then (connect io) (\<lambda>_.
     and_then (db_call io SelectRows Sqlite) (\<lambda>_. Inr (map_option fst (db_secrets db))))"

section \<open>The dispatcher\<close>

record dispatcher =
  dp_base_backoff_secs :: int
  dp_max_backoff_secs :: int

definition dispatcher_new :: dispatcher where
  "dispatcher_new = \<lparr>dp_base_backoff_secs = 2, dp_max_backoff_secs = 300\<rparr>"

definition with_backoff :: "int \<Rightarrow> int \<Rightarrow> dispatcher" where
  "with_backoff base limit = \<lparr>dp_base_backoff_secs = max base 1, dp_max_backoff_secs = max limit (max base 1)\<rparr>"

definition sat_i64 :: "int \<Rightarrow> int" where
  "sat_i64 x = max (- (2 ^ 63)) (min (2 ^ 63 - 1) x)"

definition backoff :: "dispatcher \<Rightarrow> int \<Rightarrow> int" where
  "backoff D attempts0 =
     (let attempts = nat (sat_i64 (attempts0 + 1) mod 2 ^ 32);
          factor = sat_i64 (2 ^ min attempts 16)
      in min (sat_i64 (dp_base_backoff_secs D * factor)) (dp_max_backoff_secs D))"

text \<open>The handler is a closure with state \<open>'h\<close>; the clock and the failing calls are given per event of the batch.\<close>

fun dispatch :: "dispatcher \<Rightarrow> (nat \<Rightarrow> faults) \<Rightarrow> (nat \<Rightarrow> int) \<Rightarrow> ('h \<Rightarrow> outbox_event \<Rightarrow> 'h \<times> (string + unit)) \<Rightarrow> nat \<Rightarrow>
    outbox_event list \<Rightarrow> 'h \<Rightarrow> durable_db \<Rightarrow> (durable_error + nat) \<times> 'h \<times> durable_db" where
  "dispatch D io clock handler i [] h db = (Inr i, h, db)"
| "dispatch D io clock handler i (event # events) h db =
     (let (h', outcome) = handler h event;
          (r, db') = (case outcome of
              Inr _ \<Rightarrow> ack_outbox (io i) (oe_id event) db
            | Inl _ \<Rightarrow> nack_outbox (io i) (oe_id event) (sat_i64 (clock i + backoff D (oe_attempts event))) db)
      in case r of
           Inl e \<Rightarrow> (Inl e, h', db')
         | Inr _ \<Rightarrow> dispatch D io clock handler (Suc i) events h' db')"

definition run_once :: "text_codec \<Rightarrow> dispatcher \<Rightarrow> faults \<Rightarrow> int \<Rightarrow> (nat \<Rightarrow> faults) \<Rightarrow> (nat \<Rightarrow> int) \<Rightarrow> nat \<Rightarrow>
    ('h \<Rightarrow> outbox_event \<Rightarrow> 'h \<times> (string + unit)) \<Rightarrow> 'h \<Rightarrow> durable_db \<Rightarrow> (durable_error + nat) \<times> 'h \<times> durable_db" where
  "run_once T D io0 now io clock limit handler h db =
     (case claim_outbox T io0 now limit db of
        (Inl e, db') \<Rightarrow> (Inl e, h, db')
      | (Inr events, db') \<Rightarrow> dispatch D io clock handler 0 events h db')"

end
