(* ===== verification/Durable_Laws.thy ===== *)
theory Durable_Laws
  imports Durable
begin

text \<open>
  Laws of the durable store: the commit is all or nothing, a committed idempotency row is the answer for its key
  for ever, a claimed outbox event is claimed by nobody else until it is acknowledged or released, a nonce is refused
  exactly during its window. The store as a whole is a transition system whose events are the operations with
  any library faults; the invariants hold in every state it reaches.
\<close>

section \<open>Calls\<close>

named_theorems db_simps \<open>the outcome of operations of the durable store\<close>

lemma db_call_Inr [db_simps]: "db_call io site err = Inr u \<longleftrightarrow> io site = None"
  by (auto simp: db_call_def split: option.splits)

lemma connect_Inr [db_simps]: "connect io = Inr u \<longleftrightarrow> 
    io OpenConn = None \<and> io (Pragma 0) = None \<and> io (Pragma 1) = None \<and> io (Pragma 2) = None"
  by (auto simp: connect_def open_conn_def apply_pragmas_def result_simps db_simps)

lemma in_tx_Inr [db_simps]: "in_tx tx db = (Inr r, db') \<longleftrightarrow> tx = Inr (r, db')"
  by (cases tx) (auto simp: in_tx_def)

lemma in_tx_Inl [db_simps]: "in_tx tx db = (Inl e, db') \<longleftrightarrow> tx = Inl e \<and> db' = db"
  by (cases tx) (auto simp: in_tx_def)

definition no_faults :: faults where
  "no_faults = (\<lambda>_. None)"

section \<open>The commit\<close>

fun new_rows :: "text_codec \<Rightarrow> int \<Rightarrow> int \<Rightarrow> new_outbox_event list \<Rightarrow> outbox_row list" where
  "new_rows T created_at seq [] = []"
| "new_rows T created_at seq (event # events) =
     \<lparr>ob_id = seq + 1, ob_type = ne_type event, ob_payload = tc_print T (ne_payload event), ob_status = Pending,
       ob_attempts = 0, ob_next_attempt_at = created_at, ob_created_at = created_at\<rparr> # new_rows T created_at (seq + 1) events"

lemma enqueue_all_Inr: "enqueue_all T io i events created_at db = Inr db' \<Longrightarrow>
    db' = db\<lparr>db_outbox := db_outbox db @ new_rows T created_at (db_seq db) events, db_seq := db_seq db + int (length events)\<rparr>"
proof (induction events arbitrary: i db)
  case (Cons e events)
  then obtain db1 where db1: "enqueue_outbox_in_tx T io i e created_at db = Inr db1"
    "enqueue_all T io (Suc i) events created_at db1 = Inr db'"
    by (auto simp: result_simps)
  from Cons.IH [OF db1(2)] db1(1) show ?case
    by (auto simp: enqueue_outbox_in_tx_def result_simps)
qed simp

definition idem_row_of :: "text_codec \<Rightarrow> string \<Rightarrow> commit_input \<Rightarrow> idem_row" where
  "idem_row_of T k input = \<lparr>ir_key = k, ir_receipt_cid = ci_receipt_cid input, ir_response = tc_print T (ci_receipt_json input),
     ir_chain = tc_print_chain T (ci_chain input), ir_created_at = ci_created_at input\<rparr>"

definition idem_rows :: "text_codec \<Rightarrow> commit_input \<Rightarrow> idem_row list" where
  "idem_rows T input = (case ci_idem_key input of None \<Rightarrow> [] | Some k \<Rightarrow> [idem_row_of T k input])"

text \<open>The receipt row of a commit. A receipt that is already stored keeps its row, and \<open>INSERT OR IGNORE\<close> drops a row whose
  decision the \<open>CHECK\<close> of the table refuses.\<close>

definition receipt_rows :: "text_codec \<Rightarrow> commit_input \<Rightarrow> durable_db \<Rightarrow> receipt_row list" where
  "receipt_rows T input db =
     (if ci_receipt_cid input \<in> rr_cid ` set (db_receipts db) \<or> ci_decision input \<notin> {''allow'', ''deny''} then []
      else [\<lparr>rr_cid = ci_receipt_cid input, rr_body = tc_print T (ci_receipt_json input), rr_created_at = ci_created_at input,
              rr_did = ci_did input, rr_kid = ci_kid input, rr_rt_hash = ci_rt_hash input, rr_decision = ci_decision input\<rparr>])"

definition committed :: "text_codec \<Rightarrow> commit_input \<Rightarrow> durable_db \<Rightarrow> durable_db" where
  "committed T input db = db\<lparr>db_receipts := db_receipts db @ receipt_rows T input db, db_idem := db_idem db @ idem_rows T input,
     db_outbox := db_outbox db @ new_rows T (ci_created_at input) (db_seq db) (ci_outbox_events input),
     db_seq := db_seq db + int (length (ci_outbox_events input))\<rparr>"

lemma insert_receipt_rows: "db_receipts (insert_receipt T input db) = db_receipts db @ receipt_rows T input db"
  by (simp add: insert_receipt_def receipt_rows_def)

lemma insert_receipt_others [simp]:
  "db_idem (insert_receipt T input db) = db_idem db" "db_outbox (insert_receipt T input db) = db_outbox db"
  "db_seq (insert_receipt T input db) = db_seq db" "db_nonces (insert_receipt T input db) = db_nonces db"
  "db_secrets (insert_receipt T input db) = db_secrets db"
  by (simp_all add: insert_receipt_def)

definition conflicts :: "commit_input \<Rightarrow> durable_db \<Rightarrow> bool" where
  "conflicts input db \<longleftrightarrow> (\<exists>k. ci_idem_key input = Some k \<and> k \<in> ir_key ` set (db_idem db))"

lemma commit_tx_Inr: "commit_tx T io input db = Inr db' \<Longrightarrow>
    db' = committed T input db \<and> \<not> conflicts input db \<and> \<not> ci_fail_after_receipt_write input"
  by (cases db) (auto simp: commit_tx_def result_simps db_simps put_idempotent_in_tx_def Let_def committed_def idem_rows_def
      insert_receipt_rows idem_row_of_def conflicts_def dest!: enqueue_all_Inr split: if_splits option.splits)

lemma commit_Inr: "commit_wf_atomically T io input db = (Inr b, db') \<Longrightarrow> db' = committed T input db \<and> \<not> conflicts input db \<and> b"
  by (auto simp: commit_wf_atomically_def db_simps result_simps dest: commit_tx_Inr)

lemma commit_Inl: "commit_wf_atomically T io input db = (Inl e, db') \<Longrightarrow> db' = db"
  by (simp add: commit_wf_atomically_def db_simps)

lemma enqueue_all_no_faults: "\<exists>db'. enqueue_all T no_faults i events created_at db = Inr db'"
  by (induction events arbitrary: i db) (auto simp: enqueue_outbox_in_tx_def db_call_def no_faults_def)

lemma commit_no_faults:
  "fst (commit_wf_atomically T no_faults input db) =
     (if ci_fail_after_receipt_write input then Inl (DurableCommitFailed ''injected failure after receipts write'')
      else if conflicts input db then Inl (IdempotencyConflict (''idempotency key already exists: '' @ the (ci_idem_key input)))
      else Inr True)"
proof -
  have calls: "db_call no_faults site err = Inr ()" "connect no_faults = Inr ()" for site err
    by (simp_all add: db_call_def no_faults_def connect_Inr)
  obtain dbs where dbs: "\<And>db2. enqueue_all T no_faults 0 (ci_outbox_events input) (ci_created_at input) db2 = Inr (dbs db2)"
    using enqueue_all_no_faults by metis
  show ?thesis
    by (simp add: commit_wf_atomically_def commit_tx_def calls dbs in_tx_def put_idempotent_in_tx_def conflicts_def Let_def
        split: option.split)
qed

text \<open>C8: The commit of a receipt, its idempotency row and its outbox events is all or nothing, whichever call of the
  database fails: an error leaves the store as it was; success means that the key was free and that the store has gained exactly
  the receipt row (none when the receipt was already stored), the idempotency row of the key and one pending outbox row per event,
  numbered on from the last identifier, and nothing else. After a success the receipt is in the store whenever its decision is
  \<open>allow\<close> or \<open>deny\<close>; the table ignores a receipt with any other decision. Without faults the commit fails only on a used key,
  with a conflict.\<close>

theorem commit_all_or_nothing:
  assumes "commit_wf_atomically T io input db = (r, db')"
  shows "(case r of
        Inl e \<Rightarrow> db' = db
      | Inr _ \<Rightarrow> \<not> conflicts input db
          \<and> db_receipts db' = db_receipts db @
              (if ci_receipt_cid input \<in> rr_cid ` set (db_receipts db) \<or> ci_decision input \<notin> {''allow'', ''deny''} then []
               else [\<lparr>rr_cid = ci_receipt_cid input, rr_body = tc_print T (ci_receipt_json input),
                       rr_created_at = ci_created_at input, rr_did = ci_did input, rr_kid = ci_kid input,
                       rr_rt_hash = ci_rt_hash input, rr_decision = ci_decision input\<rparr>])
          \<and> db_idem db' = db_idem db @ (case ci_idem_key input of None \<Rightarrow> []
              | Some k \<Rightarrow> [\<lparr>ir_key = k, ir_receipt_cid = ci_receipt_cid input, ir_response = tc_print T (ci_receipt_json input),
                            ir_chain = tc_print_chain T (ci_chain input), ir_created_at = ci_created_at input\<rparr>])
          \<and> db_outbox db' = db_outbox db @ new_rows T (ci_created_at input) (db_seq db) (ci_outbox_events input)
          \<and> db_seq db' = db_seq db + int (length (ci_outbox_events input))
          \<and> db_nonces db' = db_nonces db \<and> db_secrets db' = db_secrets db
          \<and> (ci_decision input \<in> {''allow'', ''deny''} \<longrightarrow> ci_receipt_cid input \<in> rr_cid ` set (db_receipts db')))
    \<and> (io = no_faults \<and> \<not> ci_fail_after_receipt_write input \<longrightarrow>
         r = (if conflicts input db then Inl (IdempotencyConflict (''idempotency key already exists: '' @ the (ci_idem_key input)))
              else Inr True))"
    (is "?outcome \<and> ?no_faults")
proof
  show ?outcome
  proof (cases r)
    case (Inl e)
    then show ?thesis
      using assms commit_Inl by simp
  next
    case (Inr b)
    then have "db' = committed T input db" "\<not> conflicts input db"
      using assms commit_Inr by blast+
    then show ?thesis
      unfolding Inr by (simp add: committed_def receipt_rows_def idem_rows_def idem_row_of_def split: option.split)
  qed
  show ?no_faults
    using assms commit_no_faults [of T input db] by (auto simp del: append_Cons)
qed

definition plain_codec :: text_codec where
  "plain_codec = \<lparr>tc_print = (\<lambda>_. ''{}''), tc_parse = (\<lambda>_. Inr (JObj [])), tc_print_chain = (\<lambda>_. ''[]''),
     tc_parse_chain = (\<lambda>_. Inr []), tc_show_secs = (\<lambda>_. ''t'')\<rparr>"

definition demo_input :: "string \<Rightarrow> commit_input" where
  "demo_input k = \<lparr>ci_receipt_cid = ''b3:1'', ci_receipt_json = JObj [], ci_did = ''d'', ci_kid = ''k'', ci_rt_hash = ''h'',
     ci_decision = ''allow'', ci_idem_key = Some k, ci_chain = [], ci_outbox_events = [\<lparr>ne_type = ''emit_receipt'', ne_payload = JObj []\<rparr>],
     ci_created_at = 5, ci_fail_after_receipt_write = False\<rparr>"

theorem commit_all_or_nothing_witness:
  "snd (commit_wf_atomically plain_codec (no_faults(CommitTx := Some ''disk full'')) (demo_input ''k'') empty_db) = empty_db
   \<and> ''b3:1'' \<in> rr_cid ` set (db_receipts (snd (commit_wf_atomically plain_codec no_faults (demo_input ''k'') empty_db)))"
proof
  have "fst (commit_wf_atomically plain_codec (no_faults(CommitTx := Some ''disk full'')) (demo_input ''k'') empty_db)
      = Inl (DurableCommitFailed ''disk full'')"
    by code_simp
  then show "snd (commit_wf_atomically plain_codec (no_faults(CommitTx := Some ''disk full'')) (demo_input ''k'') empty_db) = empty_db"
    using commit_all_or_nothing [OF prod.collapse [symmetric], of plain_codec "no_faults(CommitTx := Some ''disk full'')" "demo_input ''k''" empty_db]
    by simp
  have "fst (commit_wf_atomically plain_codec no_faults (demo_input ''k'') empty_db) = Inr True"
    by code_simp
  moreover have "ci_decision (demo_input ''k'') = ''allow''" "ci_receipt_cid (demo_input ''k'') = ''b3:1''"
    by (simp_all add: demo_input_def)
  ultimately show "''b3:1'' \<in> rr_cid ` set (db_receipts (snd (commit_wf_atomically plain_codec no_faults (demo_input ''k'') empty_db)))"
    using commit_all_or_nothing [OF prod.collapse [symmetric], of plain_codec no_faults "demo_input ''k''" empty_db] by simp
qed

section \<open>The store as a transition system\<close>

datatype db_op =
    OpCommit commit_input
  | OpClaim int nat
  | OpAck int
  | OpNack int int
  | OpNonce int string nat
  | OpSecrets int string "string option"

fun db_run :: "text_codec \<Rightarrow> faults \<times> db_op \<Rightarrow> durable_db \<Rightarrow> durable_db" where
  "db_run T (io, OpCommit input) db = snd (commit_wf_atomically T io input db)"
| "db_run T (io, OpClaim now limit) db = snd (claim_outbox T io now limit db)"
| "db_run T (io, OpAck i) db = snd (ack_outbox io i db)"
| "db_run T (io, OpNack i t) db = snd (nack_outbox io i t db)"
| "db_run T (io, OpNonce now n ttl) db = snd (nonce_mark_if_new io now n ttl db)"
| "db_run T (io, OpSecrets now c p) db = snd (put_stage_secrets io now c p db)"

inductive db_reach :: "text_codec \<Rightarrow> durable_db \<Rightarrow> bool" for T where
  db_init: "db_reach T empty_db"
| db_next: "db_reach T db \<Longrightarrow> db_reach T (db_run T step db)"

text \<open>What an operation can do: a commit, a pointwise change of the outbox that keeps identifiers, a change of the nonces,
  a change of the secrets, or nothing.\<close>

definition claim_row :: "outbox_row \<Rightarrow> outbox_row" where
  "claim_row r = r\<lparr>ob_status := Inflight, ob_attempts := ob_attempts r + 1\<rparr>"

lemma mark_inflight_Inr: "mark_inflight io i events db = Inr db' \<Longrightarrow> distinct (map oe_id events) \<Longrightarrow>
    db' = db\<lparr>db_outbox := map (\<lambda>r. if ob_id r \<in> oe_id ` set events then claim_row r else r) (db_outbox db)\<rparr>"
proof (induction events arbitrary: i db)
  case (Cons e events)
  then have "db' = (update_outbox (oe_id e) claim_row db)\<lparr>db_outbox :=
      map (\<lambda>r. if ob_id r \<in> oe_id ` set events then claim_row r else r) (db_outbox (update_outbox (oe_id e) claim_row db))\<rparr>"
    by (auto simp: result_simps claim_row_def [abs_def])
  then show ?case
    using Cons.prems(2) by (auto simp: update_outbox_def claim_row_def intro!: map_cong)
qed simp

section \<open>Invariants\<close>

definition db_wf :: "durable_db \<Rightarrow> bool" where
  "db_wf db \<longleftrightarrow> distinct (map ir_key (db_idem db)) \<and> distinct (map rr_cid (db_receipts db))
     \<and> (\<forall>r\<in>set (db_receipts db). rr_decision r \<in> {''allow'', ''deny''})
     \<and> sorted_wrt (<) (map ob_id (db_outbox db))
     \<and> (\<forall>r\<in>set (db_outbox db). 1 \<le> ob_id r \<and> ob_id r \<le> db_seq db \<and> 0 \<le> ob_attempts r \<and> ob_status r \<noteq> Dead)
     \<and> 0 \<le> db_seq db \<and> distinct (map nr_nonce (db_nonces db))"

lemma collect_event_ids: "collect_results (event_of_row T) rows = Inr events \<Longrightarrow>
    map oe_id events = map ob_id rows \<and> map oe_attempts events = map ob_attempts rows"
  by (induction rows arbitrary: events) (auto simp: result_simps event_of_row_def)

lemma due_rows_subset: "set (due_rows now limit db) \<subseteq> {r \<in> set (db_outbox db). ob_status r = Pending \<and> ob_next_attempt_at r \<le> now}"
  by (auto simp: due_rows_def sql_limit_def dest!: in_set_takeD split: if_splits)

lemma due_rows_distinct:
  assumes "distinct (map ob_id (db_outbox db))"
  shows "distinct (map ob_id (due_rows now limit db))"
proof -
  let ?xs = "sort_key ob_id (filter (\<lambda>r. ob_status r = Pending \<and> ob_next_attempt_at r \<le> now) (db_outbox db))"
  have "distinct (map ob_id ?xs)"
    using assms by (simp add: distinct_map inj_on_def)
  then have "distinct (take limit (map ob_id ?xs))"
    by (rule distinct_take)
  with \<open>distinct (map ob_id ?xs)\<close> show ?thesis
    by (simp add: due_rows_def sql_limit_def take_map)
qed

lemma wf_ids_distinct: "db_wf db \<Longrightarrow> distinct (map ob_id (db_outbox db))"
  by (simp add: db_wf_def strict_sorted_iff)

lemma claim_Inr:
  assumes "claim_outbox T io now limit db = (Inr events, db')" "distinct (map ob_id (db_outbox db))"
  shows "map oe_id events = map ob_id (due_rows now limit db)"
    "db' = db\<lparr>db_outbox := map (\<lambda>r. if ob_id r \<in> oe_id ` set events then claim_row r else r) (db_outbox db)\<rparr>"
proof -
  have *: "collect_results (event_of_row T) (due_rows now limit db) = Inr events" "mark_inflight io 0 events db = Inr db'"
    using assms(1) by (auto simp: claim_outbox_def db_simps result_simps)
  show ids: "map oe_id events = map ob_id (due_rows now limit db)"
    using collect_event_ids [OF *(1)] by blast
  have "distinct (map oe_id events)"
    unfolding ids by (rule due_rows_distinct [OF assms(2)])
  then show "db' = db\<lparr>db_outbox := map (\<lambda>r. if ob_id r \<in> oe_id ` set events then claim_row r else r) (db_outbox db)\<rparr>"
    by (rule mark_inflight_Inr [OF *(2)])
qed

lemma claim_Inl: "claim_outbox T io now limit db = (Inl e, db') \<Longrightarrow> db' = db"
  by (simp add: claim_outbox_def db_simps)

lemma update_Inl_Inr:
  "ack_outbox io i db = (r, db') \<Longrightarrow> db' = db \<or> db' = update_outbox i (\<lambda>r. r\<lparr>ob_status := Done\<rparr>) db"
  "nack_outbox io i t db = (r, db') \<Longrightarrow> db' = db \<or> db' = update_outbox i (\<lambda>r. r\<lparr>ob_status := Pending, ob_next_attempt_at := t\<rparr>) db"
  by (cases r; auto simp: ack_outbox_def nack_outbox_def db_simps result_simps)+

lemma secrets_Inl_Inr:
  "put_stage_secrets io now c p db = (r, db') \<Longrightarrow>
     db' = db \<or> db' = db\<lparr>db_secrets := Some (\<lparr>ss_current = c, ss_prev = p\<rparr>, now)\<rparr>"
  by (cases r) (auto simp: put_stage_secrets_def db_simps result_simps)

definition live_nonces :: "int \<Rightarrow> durable_db \<Rightarrow> nonce_row list" where
  "live_nonces now db = filter (\<lambda>r. now < nr_expires_at r) (db_nonces db)"

lemma nonce_mark_cases:
  assumes "nonce_mark_if_new io now n ttl db = (r, db')"
  obtains e where "r = Inl e" "db' = db"
  | "r = Inr False" "n \<in> nr_nonce ` set (live_nonces now db)" "db' = db\<lparr>db_nonces := live_nonces now db\<rparr>"
  | "r = Inr True" "n \<notin> nr_nonce ` set (live_nonces now db)"
      "db' = db\<lparr>db_nonces := live_nonces now db @ [\<lparr>nr_nonce = n, nr_created_at = now, nr_expires_at = now + int (max ttl 1)\<rparr>]\<rparr>"
proof (cases r)
  case (Inl e)
  then show thesis
    using assms that(1) by (simp add: nonce_mark_if_new_def db_simps)
next
  case (Inr b)
  have "live_nonces now db = filter (\<lambda>r. \<not> nr_expires_at r \<le> now) (db_nonces db)"
    by (simp add: live_nonces_def not_le)
  with assms Inr have "b = (n \<notin> nr_nonce ` set (live_nonces now db)) \<and> db' = db\<lparr>db_nonces := if b then live_nonces now db @
      [\<lparr>nr_nonce = n, nr_created_at = now, nr_expires_at = now + int (max ttl 1)\<rparr>] else live_nonces now db\<rparr>"
    by (auto simp only: nonce_mark_if_new_def db_simps result_simps Let_def)
  with Inr show thesis
    using that(2,3) by (cases b) simp_all
qed

lemma mark_inflight_frame: "mark_inflight io i events db = Inr db' \<Longrightarrow> db' = db\<lparr>db_outbox := db_outbox db'\<rparr>"
proof (induction events arbitrary: i db)
  case (Cons e events)
  then obtain rows where "mark_inflight io (Suc i) events (db\<lparr>db_outbox := rows\<rparr>) = Inr db'"
    by (auto simp: result_simps update_outbox_def)
  from Cons.IH [OF this] show ?case
    by simp
qed simp

lemma claim_frame: "claim_outbox T io now limit db = (r, db') \<Longrightarrow> db' = db\<lparr>db_outbox := db_outbox db'\<rparr>"
proof (cases r)
  case (Inl e)
  assume "claim_outbox T io now limit db = (r, db')"
  then have "db' = db"
    using claim_Inl Inl by blast
  then show ?thesis
    by simp
next
  case (Inr events)
  assume "claim_outbox T io now limit db = (r, db')"
  then have "mark_inflight io 0 events db = Inr db'"
    using Inr by (auto simp: claim_outbox_def db_simps result_simps)
  then show ?thesis
    by (rule mark_inflight_frame)
qed

text \<open>The parts of the store an operation can change.\<close>

lemma step_frame:
  obtains input where "\<not> conflicts input db" "db_run T step db = committed T input db"
  | rows where "db_run T step db = db\<lparr>db_outbox := rows\<rparr>"
  | rows io now n ttl where "step = (io, OpNonce now n ttl)" "db_run T step db = db\<lparr>db_nonces := rows\<rparr>"
  | s where "db_run T step db = db\<lparr>db_secrets := s\<rparr>"
proof -
  obtain io op where step: "step = (io, op)"
    by (cases step)
  show thesis
  proof (cases op)
    case (OpCommit input)
    obtain r db' where c: "commit_wf_atomically T io input db = (r, db')"
      by (cases "commit_wf_atomically T io input db")
    then have run: "db_run T step db = db'"
      by (simp add: step OpCommit)
    show thesis
    proof (cases r)
      case (Inl e)
      then show thesis
        using that(2) [of "db_outbox db"] commit_Inl c run by auto
    next
      case (Inr b)
      then show thesis
        using that(1) [of input] commit_Inr c run by auto
    qed
  next
    case (OpClaim now limit)
    then show thesis
      using claim_frame [OF prod.collapse [symmetric], of T io now limit db] that(2) by (simp add: step)
  next
    case (OpAck i)
    then show thesis
      using update_Inl_Inr(1) [OF prod.collapse [symmetric], of io i db] that(2) [of "db_outbox (snd (ack_outbox io i db))"]
      by (auto simp: update_outbox_def step)
  next
    case (OpNack i t)
    then show thesis
      using update_Inl_Inr(2) [OF prod.collapse [symmetric], of io i t db] that(2) [of "db_outbox (snd (nack_outbox io i t db))"]
      by (auto simp: update_outbox_def step)
  next
    case (OpNonce now n ttl)
    then show thesis
      using that(3) [of io now n ttl "db_nonces (snd (nonce_mark_if_new io now n ttl db))"] step
      by (cases rule: nonce_mark_cases [OF prod.collapse [symmetric], of io now n ttl db]) simp_all
  next
    case (OpSecrets now c p)
    then show thesis
      using secrets_Inl_Inr [OF prod.collapse [symmetric], of io now c p db] that(4) [of "db_secrets (snd (put_stage_secrets io now c p db))"]
      by (auto simp: step)
  qed
qed

lemma new_rows_ids: "r \<in> set (new_rows T t seq events) \<Longrightarrow>
    seq < ob_id r \<and> ob_id r \<le> seq + int (length events) \<and> ob_attempts r = 0 \<and> ob_status r = Pending"
  by (induction events arbitrary: seq) force+

lemma new_rows_sorted: "sorted_wrt (<) (map ob_id (new_rows T t seq events))"
  by (induction events arbitrary: seq) (auto dest: new_rows_ids)

lemma wf_committed: "db_wf db \<Longrightarrow> \<not> conflicts input db \<Longrightarrow> db_wf (committed T input db)"
proof -
  assume wf: "db_wf db" and "\<not> conflicts input db"
  then have "distinct (map ir_key (db_idem db @ idem_rows T input))"
    by (auto simp: db_wf_def idem_rows_def conflicts_def idem_row_of_def split: option.split)
  moreover have "distinct (map rr_cid (db_receipts db @ receipt_rows T input db))"
    "\<forall>r\<in>set (db_receipts db @ receipt_rows T input db). rr_decision r \<in> {''allow'', ''deny''}"
    using wf by (auto simp: db_wf_def receipt_rows_def)
  moreover have "sorted_wrt (<) (map ob_id (db_outbox db @ new_rows T (ci_created_at input) (db_seq db) (ci_outbox_events input)))"
    using wf new_rows_sorted by (fastforce simp: db_wf_def sorted_wrt_append dest: new_rows_ids)
  moreover have "\<forall>r\<in>set (db_outbox db @ new_rows T (ci_created_at input) (db_seq db) (ci_outbox_events input)).
      1 \<le> ob_id r \<and> ob_id r \<le> db_seq db + int (length (ci_outbox_events input)) \<and> 0 \<le> ob_attempts r \<and> ob_status r \<noteq> Dead"
    using wf by (fastforce simp: db_wf_def dest: new_rows_ids)
  ultimately show "db_wf (committed T input db)"
    using wf by (simp add: db_wf_def committed_def)
qed

lemma wf_map_outbox:
  assumes "db_wf db" "\<And>r. r \<in> set (db_outbox db) \<Longrightarrow> ob_id (f r) = ob_id r \<and> 0 \<le> ob_attempts (f r) \<and> ob_status (f r) \<noteq> Dead"
  shows "db_wf (db\<lparr>db_outbox := map f (db_outbox db)\<rparr>)"
proof -
  have "map (ob_id \<circ> f) (db_outbox db) = map ob_id (db_outbox db)"
    using assms(2) by simp
  then have "sorted_wrt (<) (map (ob_id \<circ> f) (db_outbox db))"
    using assms(1) by (simp only: db_wf_def)
  then show ?thesis
    using assms by (simp add: db_wf_def)
qed

lemma wf_update: "db_wf db \<Longrightarrow> (\<And>r. r \<in> set (db_outbox db) \<Longrightarrow> ob_id (f r) = ob_id r \<and> 0 \<le> ob_attempts (f r) \<and> ob_status (f r) \<noteq> Dead) \<Longrightarrow>
    db_wf (update_outbox i f db)"
  unfolding update_outbox_def by (rule wf_map_outbox) (auto simp: db_wf_def)

lemma wf_nonce: "db_wf db \<Longrightarrow> db_wf (snd (nonce_mark_if_new io now n ttl db))"
  by (rule nonce_mark_cases [OF prod.collapse [symmetric], of io now n ttl db])
    (auto simp: db_wf_def live_nonces_def distinct_map_filter)

lemma wf_step: "db_wf db \<Longrightarrow> db_wf (db_run T step db)"
proof -
  assume wf: "db_wf db"
  obtain io op where step: "step = (io, op)"
    by (cases step)
  show ?thesis
  proof (cases op)
    case (OpCommit input)
    then show ?thesis
      using wf commit_Inr [of T io input db] commit_Inl [of T io input db] wf_committed [of db input T] step
      by (cases "commit_wf_atomically T io input db"; cases "fst (commit_wf_atomically T io input db)") auto
  next
    case (OpClaim now limit)
    obtain r db' where c: "claim_outbox T io now limit db = (r, db')"
      by (cases "claim_outbox T io now limit db")
    have "db_wf db'"
    proof (cases r)
      case (Inr events)
      show ?thesis
        unfolding claim_Inr(2) [OF c [unfolded Inr] wf_ids_distinct [OF wf]]
        by (rule wf_map_outbox [OF wf]) (use wf in \<open>auto simp: db_wf_def claim_row_def\<close>)
    qed (use c claim_Inl [of T io now limit db] wf in auto)
    then show ?thesis
      by (simp add: OpClaim step c)
  next
    case (OpAck i)
    then show ?thesis
      using wf step update_Inl_Inr(1) [OF prod.collapse [symmetric], of io i db] wf_update [OF wf, of "\<lambda>r. r\<lparr>ob_status := Done\<rparr>" i]
      by (auto simp: db_wf_def)
  next
    case (OpNack i t)
    then show ?thesis
      using wf step update_Inl_Inr(2) [OF prod.collapse [symmetric], of io i t db]
        wf_update [OF wf, of "\<lambda>r. r\<lparr>ob_status := Pending, ob_next_attempt_at := t\<rparr>" i]
      by (auto simp: db_wf_def)
  next
    case (OpNonce now n ttl)
    then show ?thesis
      using wf_nonce [OF wf] step by simp
  next
    case (OpSecrets now c p)
    then show ?thesis
      using wf step secrets_Inl_Inr [OF prod.collapse [symmetric], of io now c p db] by (auto simp: db_wf_def)
  qed
qed

lemma reach_wf: "db_reach T db \<Longrightarrow> db_wf db"
proof (induction rule: db_reach.induct)
  case db_init
  then show ?case
    by (simp add: db_wf_def empty_db_def)
qed (rule wf_step)

text \<open>C34: In every state the store reaches, whichever library calls fail on the way, keys, receipts, nonces and outbox
  identifiers are unique, outbox identifiers grow, decisions are \<open>allow\<close> or \<open>deny\<close>, and no event is ever dead:
  the status the schema reserves for events that are given up is not used.\<close>

theorem durable_invariant: "db_reach T db \<Longrightarrow> db_wf db"
  by (rule reach_wf)

theorem durable_invariant_witness:
  "db_wf (db_run plain_codec (no_faults, OpClaim 9 4) (db_run plain_codec (no_faults, OpCommit (demo_input ''k'')) empty_db))"
  by (rule durable_invariant [of plain_codec]) (intro db_reach.intros)

section \<open>Replay\<close>

text \<open>Idempotency rows are only ever added.\<close>

lemma idem_grows: "\<exists>rows. db_idem (db_run T step db) = db_idem db @ rows"
  by (rule step_frame [of db T step]) (simp_all add: committed_def)

definition idem_lookup :: "string \<Rightarrow> durable_db \<Rightarrow> idem_row option" where
  "idem_lookup k db = find (\<lambda>r. ir_key r = k) (db_idem db)"

lemma find_append: "find P (xs @ ys) = (case find P xs of Some x \<Rightarrow> Some x | None \<Rightarrow> find P ys)"
  by (induction xs) auto

lemma idem_lookup_kept: "idem_lookup k db = Some r \<Longrightarrow> idem_lookup k (fold (db_run T) steps db) = Some r"
proof (induction steps arbitrary: db)
  case (Cons step steps)
  obtain rows where "db_idem (db_run T step db) = db_idem db @ rows"
    using idem_grows by blast
  then have "idem_lookup k (db_run T step db) = Some r"
    using Cons.prems by (simp add: idem_lookup_def find_append)
  then show ?case
    using Cons.IH by simp
qed simp

lemma idem_lookup_None: "idem_lookup k db = None \<longleftrightarrow> k \<notin> ir_key ` set (db_idem db)"
  by (auto simp: idem_lookup_def find_None_iff)

lemma idem_lookup_committed: "\<not> conflicts input db \<Longrightarrow> ci_idem_key input = Some k \<Longrightarrow>
    idem_lookup k (committed T input db) = Some (idem_row_of T k input)
    \<and> (k' \<noteq> k \<longrightarrow> idem_lookup k' (committed T input db) = idem_lookup k' db)"
  using idem_lookup_None [of k db]
  by (auto simp: idem_lookup_def committed_def idem_rows_def conflicts_def find_append idem_row_of_def split: option.split)

text \<open>The durable store meets the contract of a replay store, with the durable keys as slots.\<close>

interpretation dur: replay_store "\<lambda>db k. idem_lookup (to_durable_key hash k) db"
  "\<lambda>k input db. case commit_wf_atomically T io (input\<lparr>ci_idem_key := Some (to_durable_key hash k)\<rparr>) db of
     (Inr _, db') \<Rightarrow> Some db' | (Inl _, _) \<Rightarrow> None"
  "\<lambda>k input. idem_row_of T (to_durable_key hash k) (input\<lparr>ci_idem_key := Some (to_durable_key hash k)\<rparr>)"
  "to_durable_key hash"
  by unfold_locales (auto split: prod.splits sum.splits dest!: commit_Inr simp: idem_lookup_committed)

lemma get_idempotent_row:
  assumes "idem_lookup k db = Some r" "tc_parse T (ir_response r) = Inr v" "tc_parse_chain T (ir_chain r) = Inr chain"
  shows "get_idempotent T no_faults k db = Inr (Some \<lparr>cr_receipt_cid = ir_receipt_cid r, cr_response_json = v,
    cr_decision = (case Option.bind (json_get v ''decision'') as_str of Some d \<Rightarrow> d | None \<Rightarrow> ''Allow''),
    cr_chain = chain, cr_created_at = tc_show_secs T (ir_created_at r)\<rparr>)"
  using assms by (simp add: get_idempotent_def idem_lookup_def connect_Inr no_faults_def db_call_def connect_def open_conn_def
      apply_pragmas_def)

text \<open>C14: Once a commit with an idempotency key succeeds, every later lookup of the key returns that receipt and its chain,
  whatever operations run in between and whichever of their library calls fail, and no later commit with the key succeeds.\<close>

theorem durable_replay:
  assumes "commit_wf_atomically T io input db = (Inr b, db1)" "ci_idem_key input = Some k"
    and "tc_parse T (tc_print T (ci_receipt_json input)) = Inr (ci_receipt_json input)"
    and "tc_parse_chain T (tc_print_chain T (ci_chain input)) = Inr (ci_chain input)"
    and "db2 = fold (db_run T) steps db1" "ci_idem_key input' = Some k"
  shows "(\<exists>cr. get_idempotent T no_faults k db2 = Inr (Some cr) \<and> cr_receipt_cid cr = ci_receipt_cid input
      \<and> cr_response_json cr = ci_receipt_json input \<and> cr_chain cr = ci_chain input)
    \<and> (\<exists>e. commit_wf_atomically T io' input' db2 = (Inl e, db2))"
proof -
  have "idem_lookup k db1 = Some (idem_row_of T k input)"
    using commit_Inr [OF assms(1)] idem_lookup_committed assms(2) by blast
  then have row: "idem_lookup k db2 = Some (idem_row_of T k input)"
    unfolding assms(5) by (rule idem_lookup_kept)
  then have "conflicts input' db2"
    using assms(6) idem_lookup_None [of k db2] by (auto simp: conflicts_def)
  then have "\<exists>e. commit_wf_atomically T io' input' db2 = (Inl e, db2)"
    using commit_Inr [of T io' input' db2] commit_Inl [of T io' input' db2]
    by (cases "commit_wf_atomically T io' input' db2"; cases "fst (commit_wf_atomically T io' input' db2)") auto
  then show ?thesis
    using get_idempotent_row [OF row, of T "ci_receipt_json input" "ci_chain input"] assms(3,4) by (simp add: idem_row_of_def)
qed

theorem durable_replay_witness:
  "\<exists>cr. get_idempotent plain_codec no_faults ''k'' (db_run plain_codec (no_faults, OpClaim 9 4)
     (snd (commit_wf_atomically plain_codec no_faults (demo_input ''k'') empty_db))) = Inr (Some cr) \<and> cr_receipt_cid cr = ''b3:1''"
proof -
  have "fst (commit_wf_atomically plain_codec no_faults (demo_input ''k'') empty_db) = Inr True"
    by (simp add: commit_no_faults) (simp add: demo_input_def conflicts_def empty_db_def)
  then have c: "commit_wf_atomically plain_codec no_faults (demo_input ''k'') empty_db
      = (Inr True, snd (commit_wf_atomically plain_codec no_faults (demo_input ''k'') empty_db))"
    by (metis prod.collapse)
  show ?thesis
    using durable_replay [OF c, of "''k''" _ "[(no_faults, OpClaim 9 4)]" "demo_input ''k''"]
    by (auto simp: demo_input_def plain_codec_def)
qed

section \<open>Claims\<close>

definition held :: "int \<Rightarrow> durable_db \<Rightarrow> bool" where
  "held i db \<longleftrightarrow> i \<le> db_seq db \<and> (\<forall>r\<in>set (db_outbox db). ob_id r = i \<longrightarrow> ob_status r = Inflight)"

definition releases :: "int \<Rightarrow> faults \<times> db_op \<Rightarrow> bool" where
  "releases i step \<longleftrightarrow> (case snd step of OpAck j \<Rightarrow> j = i | OpNack j t \<Rightarrow> j = i | _ \<Rightarrow> False)"

lemma held_committed: "held i db \<Longrightarrow> held i (committed T input db)"
  by (auto simp: held_def committed_def dest: new_rows_ids)

lemma held_update: "held i db \<Longrightarrow> j \<noteq> i \<Longrightarrow> (\<And>r. ob_id (f r) = ob_id r) \<Longrightarrow> held i (update_outbox j f db)"
  by (auto simp: held_def update_outbox_def)

lemma held_claim: "held i db \<Longrightarrow> held i (db\<lparr>db_outbox := map (\<lambda>r. if P r then claim_row r else r) (db_outbox db)\<rparr>)"
  by (auto simp: held_def claim_row_def)

lemma held_step:
  assumes "db_wf db" "held i db" "\<not> releases i step"
  shows "held i (db_run T step db)"
proof -
  obtain io op where step: "step = (io, op)"
    by (cases step)
  show ?thesis
  proof (cases op)
    case (OpCommit input)
    then show ?thesis
      using assms(2) held_committed commit_Inr [of T io input db] commit_Inl [of T io input db] step
      by (cases "commit_wf_atomically T io input db"; cases "fst (commit_wf_atomically T io input db)") auto
  next
    case (OpClaim now limit)
    then show ?thesis
      using assms(2) claim_Inl [of T io now limit db] claim_Inr(2) [of T io now limit db, OF _ wf_ids_distinct [OF assms(1)]] held_claim step
      by (cases "claim_outbox T io now limit db"; cases "fst (claim_outbox T io now limit db)") auto
  next
    case (OpAck j)
    then show ?thesis
      using assms(2,3) step update_Inl_Inr(1) [OF prod.collapse [symmetric], of io j db] held_update [of i db j]
      by (auto simp: releases_def)
  next
    case (OpNack j t)
    then show ?thesis
      using assms(2,3) step update_Inl_Inr(2) [OF prod.collapse [symmetric], of io j t db] held_update [of i db j]
      by (auto simp: releases_def)
  next
    case (OpNonce now n ttl)
    then show ?thesis
      using step assms(2) by (cases rule: nonce_mark_cases [OF prod.collapse [symmetric], of io now n ttl db]) (simp_all add: held_def)
  next
    case (OpSecrets now c p)
    then show ?thesis
      using step assms(2) secrets_Inl_Inr [OF prod.collapse [symmetric], of io now c p db] by (auto simp: held_def)
  qed
qed

lemma held_steps: "db_wf db \<Longrightarrow> held i db \<Longrightarrow> list_all (\<lambda>s. \<not> releases i s) steps \<Longrightarrow>
    db_wf (fold (db_run T) steps db) \<and> held i (fold (db_run T) steps db)"
  by (induction steps arbitrary: db) (simp_all add: wf_step held_step)

lemma claim_not_held:
  assumes "db_wf db" "claim_outbox T io now limit db = (Inr events, db')" "e \<in> set events"
  shows "\<not> held (oe_id e) db" "held (oe_id e) db'"
proof -
  note claim = claim_Inr [OF assms(2) wf_ids_distinct [OF assms(1)]]
  have "oe_id e \<in> ob_id ` set (due_rows now limit db)"
    using assms(3) arg_cong [OF claim(1), of set] by (metis image_eqI list.set_map)
  then obtain r where r: "r \<in> set (db_outbox db)" "ob_id r = oe_id e" "ob_status r = Pending"
    using due_rows_subset by fastforce
  then show "\<not> held (oe_id e) db"
    by (auto simp: held_def)
  have "oe_id e \<le> db_seq db"
    using assms(1) r(1,2) by (auto simp: db_wf_def)
  then show "held (oe_id e) db'"
    unfolding claim(2) held_def using assms(3) by (auto simp: claim_row_def)
qed

text \<open>C26: An outbox event that was claimed is not claimed again until it is acknowledged or released, whatever else
  happens to the store: no event is handed out twice at a time. The store has no other way back, so an event
  whose dispatcher stops after the claim stays in flight for ever.\<close>

theorem claims_exclusive:
  assumes "db_reach T db" "claim_outbox T io now limit db = (Inr events, db1)" "e \<in> set events"
    and "list_all (\<lambda>s. \<not> releases (oe_id e) s) steps"
    and "claim_outbox T io' now' limit' (fold (db_run T) steps db1) = (Inr events', db2)"
  shows "oe_id e \<notin> oe_id ` set events'"
proof -
  have wf: "db_wf db"
    using assms(1) by (rule reach_wf)
  have "db_wf db1"
    using wf_step [OF wf, of T "(io, OpClaim now limit)"] assms(2) by simp
  then have "db_wf (fold (db_run T) steps db1)" "held (oe_id e) (fold (db_run T) steps db1)"
    using held_steps [OF _ claim_not_held(2) [OF wf assms(2,3)] assms(4)] by blast+
  then show ?thesis
    using claim_not_held(1) [OF _ assms(5)] by fastforce
qed

definition demo_db :: durable_db where
  "demo_db = snd (commit_wf_atomically plain_codec no_faults (demo_input ''k'') empty_db)"

theorem claims_exclusive_witness:
  "fst (claim_outbox plain_codec no_faults 99 4 (snd (claim_outbox plain_codec no_faults 9 4 demo_db))) = Inr []"
proof -
  define e where "e = \<lparr>oe_id = 1, oe_type = ''emit_receipt'', oe_payload = JObj [], oe_attempts = 0, oe_next_attempt_at = 5\<rparr>"
  have reach: "db_reach plain_codec demo_db"
    using db_next [OF db_init, of plain_codec "(no_faults, OpCommit (demo_input ''k''))"] by (simp add: demo_db_def)
  have c1: "claim_outbox plain_codec no_faults 9 4 demo_db = (Inr [e], snd (claim_outbox plain_codec no_faults 9 4 demo_db))"
    unfolding e_def by code_simp
  have c2: "\<exists>es. claim_outbox plain_codec no_faults 99 4 (snd (claim_outbox plain_codec no_faults 9 4 demo_db))
      = (Inr es, snd (claim_outbox plain_codec no_faults 99 4 (snd (claim_outbox plain_codec no_faults 9 4 demo_db)))) \<and> set es \<subseteq> {e}"
    by (rule exI [of _ "[]"]) code_simp
  then obtain es where es: "claim_outbox plain_codec no_faults 99 4 (snd (claim_outbox plain_codec no_faults 9 4 demo_db))
      = (Inr es, snd (claim_outbox plain_codec no_faults 99 4 (snd (claim_outbox plain_codec no_faults 9 4 demo_db))))" "set es \<subseteq> {e}"
    by blast
  have "oe_id e \<notin> oe_id ` set es"
    using claims_exclusive [OF reach c1, of e "[]"] es(1) by simp
  then have "es = []"
    using es(2) by (cases es) auto
  then show ?thesis
    using es(1) by (metis fst_conv)
qed

section \<open>Nonces\<close>

definition nonce_until :: "string \<Rightarrow> int \<Rightarrow> durable_db \<Rightarrow> bool" where
  "nonce_until n e db \<longleftrightarrow> distinct (map nr_nonce (db_nonces db)) \<and> (\<exists>r\<in>set (db_nonces db). nr_nonce r = n \<and> nr_expires_at r = e)"

definition before :: "int \<Rightarrow> faults \<times> db_op \<Rightarrow> bool" where
  "before e step \<longleftrightarrow> (case snd step of OpNonce now n ttl \<Rightarrow> now < e | _ \<Rightarrow> True)"

lemma nonce_until_live: "nonce_until n e db \<Longrightarrow> n \<in> nr_nonce ` set (live_nonces now db) \<longleftrightarrow> now < e"
  by (auto simp: nonce_until_def live_nonces_def distinct_map inj_on_def)

lemma nonces_other: "\<nexists>io now n ttl. step = (io, OpNonce now n ttl) \<Longrightarrow> db_nonces (db_run T step db) = db_nonces db"
  by (rule step_frame [of db T step]) (auto simp: committed_def)

lemma nonce_until_step:
  assumes "nonce_until n e db" "before e step"
  shows "nonce_until n e (db_run T step db)"
proof (cases "\<exists>io now m ttl. step = (io, OpNonce now m ttl)")
  case True
  then obtain io now m ttl where step: "step = (io, OpNonce now m ttl)"
    by blast
  then have "now < e"
    using assms(2) by (simp add: before_def)
  with assms(1) have "nonce_until n e (db\<lparr>db_nonces := live_nonces now db\<rparr>)"
    by (auto simp: nonce_until_def live_nonces_def distinct_map_filter)
  then show ?thesis
    using assms(1) unfolding step
    by (cases rule: nonce_mark_cases [OF prod.collapse [symmetric], of io now m ttl db]) (auto simp: nonce_until_def)
next
  case False
  then show ?thesis
    using assms(1) nonces_other [of step T db] by (simp add: nonce_until_def)
qed

lemma nonce_until_steps: "nonce_until n e db \<Longrightarrow> list_all (before e) steps \<Longrightarrow> nonce_until n e (fold (db_run T) steps db)"
  by (induction steps arbitrary: db) (simp_all add: nonce_until_step)

lemma nonce_no_faults: "fst (nonce_mark_if_new no_faults now n ttl db) = Inr (n \<notin> nr_nonce ` set (live_nonces now db))"
proof -
  have calls: "db_call no_faults site err = Inr ()" "connect no_faults = Inr ()" for site err
    by (simp_all add: db_call_def no_faults_def connect_Inr)
  have "live_nonces now db = filter (\<lambda>r. \<not> nr_expires_at r \<le> now) (db_nonces db)"
    by (simp add: live_nonces_def not_le)
  then show ?thesis
    by (simp only: nonce_mark_if_new_def calls and_then.simps in_tx_def Let_def) simp
qed

text \<open>A nonce that was accepted is refused exactly until its window ends: at any time before the end, whatever the store did
  in between, the mark does not succeed, and from the end on it is new again. The window is at least one second.\<close>

theorem nonce_window:
  assumes "db_reach T db" "nonce_mark_if_new io now n ttl db = (Inr True, db1)"
    and "list_all (before (now + int (max ttl 1))) steps"
  shows "fst (nonce_mark_if_new no_faults now' n ttl' (fold (db_run T) steps db1)) = Inr (now + int (max ttl 1) \<le> now')
    \<and> (now' < now + int (max ttl 1) \<longrightarrow> fst (nonce_mark_if_new io' now' n ttl' (fold (db_run T) steps db1)) \<noteq> Inr True)"
proof -
  have "db_wf db"
    using assms(1) by (rule reach_wf)
  then have "distinct (map nr_nonce (db_nonces db1))"
    using wf_nonce [of db io now n ttl] assms(2) by (simp add: db_wf_def)
  moreover have "\<exists>r\<in>set (db_nonces db1). nr_nonce r = n \<and> nr_expires_at r = now + int (max ttl 1)"
    by (rule nonce_mark_cases [OF assms(2)]) simp_all
  ultimately have "nonce_until n (now + int (max ttl 1)) db1"
    by (simp add: nonce_until_def)
  note live = nonce_until_live [OF nonce_until_steps [OF this assms(3), where T = T], of now']
  show ?thesis
  proof
    show "fst (nonce_mark_if_new no_faults now' n ttl' (fold (db_run T) steps db1)) = Inr (now + int (max ttl 1) \<le> now')"
      unfolding nonce_no_faults live by (simp add: not_less)
    show "now' < now + int (max ttl 1) \<longrightarrow> fst (nonce_mark_if_new io' now' n ttl' (fold (db_run T) steps db1)) \<noteq> Inr True"
      by (rule nonce_mark_cases [OF prod.collapse [symmetric], of io' now' n ttl' "fold (db_run T) steps db1"])
        (simp_all add: live del: of_nat_max)
  qed
qed

theorem nonce_window_witness:
  "fst (nonce_mark_if_new no_faults 59 ''n'' 60 (snd (nonce_mark_if_new no_faults 0 ''n'' 60 empty_db))) = Inr False"
proof -
  have "fst (nonce_mark_if_new no_faults 0 ''n'' 60 empty_db) = Inr True"
    by (simp add: nonce_no_faults live_nonces_def empty_db_def)
  then have "nonce_mark_if_new no_faults 0 ''n'' 60 empty_db = (Inr True, snd (nonce_mark_if_new no_faults 0 ''n'' 60 empty_db))"
    by (metis prod.collapse)
  from nonce_window [OF db_init this, of "[]" 59 60 plain_codec] show ?thesis
    by simp
qed

end
