(* ===== verification/Outbox.thy ===== *)
theory Outbox
  imports Durable_Laws
begin

text \<open>
  Laws of the outbox dispatcher (\<open>crates/ubl_runtime/src/outbox_dispatcher.rs\<close>): the backoff stays within its bounds and
  doubles, and a batch that meets no fault of the database settles every event it claimed.
\<close>

section \<open>Backoff\<close>

lemma sat_i64_id: "- (2 ^ 63) \<le> x \<Longrightarrow> x < 2 ^ 63 \<Longrightarrow> sat_i64 x = x"
  by (simp add: sat_i64_def)

lemma min_sat: "0 \<le> x \<Longrightarrow> m < 2 ^ 63 \<Longrightarrow> min (sat_i64 x) m = min x m"
  by (auto simp: sat_i64_def min_def max_def)

text \<open>The delay after a failed delivery doubles with every attempt, up to sixteen doublings, from twice the base delay,
  and never leaves the range from one second to the largest delay; no saturation of the arithmetic is visible in it.\<close>

theorem backoff_doubles:
  assumes "D = with_backoff b m" "b < 2 ^ 63" "m < 2 ^ 63" "0 \<le> a" "a < 2 ^ 32 - 1"
  shows "backoff D a = min (max b 1 * 2 ^ min (nat (a + 1)) 16) (dp_max_backoff_secs D)
    \<and> 1 \<le> backoff D a \<and> backoff D a \<le> dp_max_backoff_secs D"
proof -
  have base: "dp_base_backoff_secs D = max b 1" "max b 1 \<le> dp_max_backoff_secs D" "dp_max_backoff_secs D < 2 ^ 63"
    using assms(1-3) by (auto simp: with_backoff_def)
  have "sat_i64 (a + 1) mod 2 ^ 32 = a + 1"
    using assms(4,5) by (simp add: sat_i64_id)
  moreover have "(2 :: int) ^ min (nat (a + 1)) 16 \<le> 2 ^ 16"
    by (rule power_increasing) simp_all
  then have "sat_i64 (2 ^ min (nat (a + 1)) 16) = 2 ^ min (nat (a + 1)) 16"
    by (intro sat_i64_id) (simp_all add: order_trans [OF _ zero_le_power])
  ultimately have "backoff D a = min (sat_i64 (max b 1 * 2 ^ min (nat (a + 1)) 16)) (dp_max_backoff_secs D)"
    by (simp add: backoff_def base(1) Let_def)
  also have "\<dots> = min (max b 1 * 2 ^ min (nat (a + 1)) 16) (dp_max_backoff_secs D)"
    by (rule min_sat) (use base(3) in \<open>simp_all add: max_def\<close>)
  finally have eq: "backoff D a = min (max b 1 * 2 ^ min (nat (a + 1)) 16) (dp_max_backoff_secs D)" .
  have "1 * 1 \<le> max b 1 * (2 :: int) ^ min (nat (a + 1)) 16"
    by (rule mult_mono) simp_all
  then show ?thesis
    using base(2) unfolding eq by auto
qed

theorem backoff_doubles_witness: "backoff (with_backoff 2 300) 3 = 32"
  using backoff_doubles [of "with_backoff 2 300" 2 300 3] by (simp add: with_backoff_def)

section \<open>Batches\<close>

definition ids_with :: "outbox_status \<Rightarrow> durable_db \<Rightarrow> int set" where
  "ids_with s db = ob_id ` {r \<in> set (db_outbox db). ob_status r = s}"

fun accepted :: "('h \<Rightarrow> outbox_event \<Rightarrow> 'h \<times> (string + unit)) \<Rightarrow> 'h \<Rightarrow> outbox_event list \<Rightarrow> int set" where
  "accepted handler h [] = {}"
| "accepted handler h (event # events) =
     (let (h', outcome) = handler h event
      in (case outcome of Inr _ \<Rightarrow> {oe_id event} | Inl _ \<Rightarrow> {}) \<union> accepted handler h' events)"

lemma ack_no_faults: "ack_outbox no_faults i db = (Inr (), update_outbox i (\<lambda>r. r\<lparr>ob_status := Done\<rparr>) db)"
  and nack_no_faults: "nack_outbox no_faults i t db
      = (Inr (), update_outbox i (\<lambda>r. r\<lparr>ob_status := Pending, ob_next_attempt_at := t\<rparr>) db)"
proof -
  have "connect no_faults = Inr ()" "db_call no_faults site err = Inr ()" for site err
    by (simp_all add: db_call_def no_faults_def connect_Inr)
  then show "ack_outbox no_faults i db = (Inr (), update_outbox i (\<lambda>r. r\<lparr>ob_status := Done\<rparr>) db)"
    "nack_outbox no_faults i t db = (Inr (), update_outbox i (\<lambda>r. r\<lparr>ob_status := Pending, ob_next_attempt_at := t\<rparr>) db)"
    by (simp_all add: ack_outbox_def nack_outbox_def in_tx_def)
qed

lemma ids_with_map:
  assumes "\<And>r. ob_id (g r) = ob_id r"
  shows "ids_with s (db\<lparr>db_outbox := map g (db_outbox db)\<rparr>) = ob_id ` {r \<in> set (db_outbox db). ob_status (g r) = s}"
proof -
  have "{r \<in> g ` A. ob_status r = s} = g ` {r \<in> A. ob_status (g r) = s}" for A
    by blast
  then show ?thesis
    by (simp add: ids_with_def image_image assms)
qed

lemma ids_with_update:
  assumes "\<And>r. ob_id (f r) = ob_id r" "\<And>r. ob_status (f r) = s'"
  shows "ids_with s (update_outbox i f db)
    = ids_with s db - {i} \<union> (if s = s' \<and> i \<in> ob_id ` set (db_outbox db) then {i} else {})"
proof -
  have "ids_with s (update_outbox i f db) = ob_id ` {r \<in> set (db_outbox db). ob_status (if ob_id r = i then f r else r) = s}"
    unfolding update_outbox_def by (rule ids_with_map) (simp add: assms(1))
  then show ?thesis
    using assms(2) by (auto simp: ids_with_def split: if_splits)
qed

lemma ids_update [simp]:
  assumes "\<And>r. ob_id (f r) = ob_id r"
  shows "ob_id ` set (db_outbox (update_outbox i f db)) = ob_id ` set (db_outbox db)"
proof -
  have "map ob_id (db_outbox (update_outbox i f db)) = map ob_id (db_outbox db)"
    using assms by (simp add: update_outbox_def)
  then show ?thesis
    by (metis list.set_map)
qed

lemma dispatch_settles:
  assumes "\<And>i. io i = no_faults"
  shows "oe_id ` set events \<subseteq> ob_id ` set (db_outbox db) \<Longrightarrow> distinct (map oe_id events) \<Longrightarrow>
      dispatch D io clock handler i events h db = (r, h', db') \<Longrightarrow>
      r = Inr (i + length events) \<and> ids_with Inflight db' = ids_with Inflight db - oe_id ` set events
      \<and> ids_with Done db' = ids_with Done db - oe_id ` set events \<union> accepted handler h events"
proof (induction events arbitrary: i h db)
  case (Cons e events)
  have io: "io = (\<lambda>_. no_faults)"
    using assms by blast
  obtain h1 outcome where h1: "handler h e = (h1, outcome)"
    by (cases "handler h e")
  define f :: "outbox_row \<Rightarrow> outbox_row" where "f = (\<lambda>r. case outcome of Inr _ \<Rightarrow> r\<lparr>ob_status := Done\<rparr>
    | Inl _ \<Rightarrow> r\<lparr>ob_status := Pending, ob_next_attempt_at := sat_i64 (clock i + backoff D (oe_attempts e))\<rparr>)"
  have "dispatch D io clock handler (Suc i) events h1 (update_outbox (oe_id e) f db) = (r, h', db')"
    using Cons.prems(3) by (cases outcome) (simp_all add: h1 f_def io ack_no_faults nack_no_faults)
  moreover have f: "ob_id (f r) = ob_id r" "ob_status (f r) = (case outcome of Inr _ \<Rightarrow> Done | Inl _ \<Rightarrow> Pending)" for r
    by (cases outcome; simp add: f_def)+
  ultimately have "r = Inr (Suc i + length events)"
    "ids_with Inflight db' = ids_with Inflight (update_outbox (oe_id e) f db) - oe_id ` set events"
    "ids_with Done db' = ids_with Done (update_outbox (oe_id e) f db) - oe_id ` set events \<union> accepted handler h1 events"
    using Cons.IH [of "update_outbox (oe_id e) f db" "Suc i" h1] Cons.prems(1,2) by simp_all
  then show ?case
    using Cons.prems(1,2) ids_with_update [OF f] by (cases outcome) (auto simp: h1)
qed auto

lemma claim_ids:
  assumes "db_wf db" "claim_outbox T io now limit db = (Inr events, db')"
  shows "oe_id ` set events \<subseteq> ob_id ` set (db_outbox db')" "distinct (map oe_id events)"
    "ids_with Inflight db' - oe_id ` set events = ids_with Inflight db" "ids_with Done db' - oe_id ` set events = ids_with Done db"
proof -
  note claim = claim_Inr [OF assms(2) wf_ids_distinct [OF assms(1)]]
  show "distinct (map oe_id events)"
    unfolding claim(1) by (rule due_rows_distinct [OF wf_ids_distinct [OF assms(1)]])
  have ids: "oe_id ` set events = ob_id ` set (due_rows now limit db)"
    using arg_cong [OF claim(1), of set] by simp
  have pending: "ob_status r = Pending" if row: "r \<in> set (db_outbox db)" "ob_id r \<in> oe_id ` set events" for r
  proof -
    obtain r' where r': "r' \<in> set (due_rows now limit db)" "ob_id r' = ob_id r"
      using row(2) unfolding ids by auto
    then have "r' \<in> set (db_outbox db)" "ob_status r' = Pending"
      using due_rows_subset by fastforce+
    then show ?thesis
      using r'(2) row(1) wf_ids_distinct [OF assms(1)] by (auto simp: distinct_map dest: inj_onD)
  qed
  have "map ob_id (db_outbox db') = map ob_id (db_outbox db)"
    unfolding claim(2) by (simp add: claim_row_def)
  then have same: "ob_id ` set (db_outbox db') = ob_id ` set (db_outbox db)"
    by (metis list.set_map)
  show "oe_id ` set events \<subseteq> ob_id ` set (db_outbox db')"
    unfolding same ids using due_rows_subset by fastforce
  have "ids_with s db' - oe_id ` set events = ids_with s db - oe_id ` set events" for s
    unfolding claim(2) by (subst ids_with_map) (auto simp: claim_row_def ids_with_def)
  moreover have "ids_with s db - oe_id ` set events = ids_with s db" if "s \<noteq> Pending" for s
    using pending that by (auto simp: ids_with_def)
  ultimately show "ids_with Inflight db' - oe_id ` set events = ids_with Inflight db"
    "ids_with Done db' - oe_id ` set events = ids_with Done db"
    by simp_all
qed

text \<open>C33: A batch in which the database does not fail leaves none of its events in flight: every claimed event was handed to the
  handler once and is done exactly if the handler accepted it; the events in flight are those that already were.\<close>

theorem run_once_settles:
  assumes "db_reach T db" "\<And>i. io i = no_faults" "run_once T D io0 now io clock limit handler h db = (Inr n, h', db')"
  shows "ids_with Inflight db' = ids_with Inflight db
    \<and> (\<exists>events. n = length events \<and> fst (claim_outbox T io0 now limit db) = Inr events
        \<and> ids_with Done db' = ids_with Done db \<union> accepted handler h events)"
proof -
  obtain events db1 where claim: "claim_outbox T io0 now limit db = (Inr events, db1)"
    and run: "dispatch D io clock handler 0 events h db1 = (Inr n, h', db')"
    using assms(3) by (auto simp: run_once_def split: prod.splits sum.splits)
  note ids = claim_ids [OF reach_wf [OF assms(1)] claim]
  from dispatch_settles [OF assms(2) ids(1,2) run] show ?thesis
    using ids(3,4) claim by simp
qed

theorem run_once_settles_witness:
  "ids_with Inflight (snd (snd (run_once plain_codec dispatcher_new no_faults 9 (\<lambda>_. no_faults) (\<lambda>_. 9) 4 (\<lambda>h e. (h + 1, Inr ())) (0 :: nat) demo_db)))
   = {}"
proof -
  have reach: "db_reach plain_codec demo_db"
    using db_next [OF db_init, of plain_codec "(no_faults, OpCommit (demo_input ''k''))"] by (simp add: demo_db_def)
  let ?run = "run_once plain_codec dispatcher_new no_faults 9 (\<lambda>_. no_faults) (\<lambda>_. 9) 4 (\<lambda>h e. (h + 1, Inr ())) (0 :: nat) demo_db"
  have "fst ?run = Inr 1" "ids_with Inflight demo_db = {}"
    by code_simp+
  then show ?thesis
    using run_once_settles [OF reach, of "\<lambda>_. no_faults" dispatcher_new no_faults 9 "\<lambda>_. 9" 4 "\<lambda>h e. (h + 1, Inr ())" 0 1 "fst (snd ?run)" "snd (snd ?run)"]
    by (metis prod.collapse)
qed

text \<open>A fault while the first event of a batch is acknowledged ends the batch: the second event was claimed, never handed to
  the handler, and stays in flight.\<close>

lemma failed_ack_strands:
  "let db = snd (commit_wf_atomically plain_codec no_faults
         ((demo_input ''k'')\<lparr>ci_outbox_events := [\<lparr>ne_type = ''a'', ne_payload = JObj []\<rparr>, \<lparr>ne_type = ''b'', ne_payload = JObj []\<rparr>]\<rparr>) empty_db);
       (r, handled, db') = run_once plain_codec dispatcher_new no_faults 9 (\<lambda>_. no_faults(UpdateRow 0 := Some ''locked'')) (\<lambda>_. 9) 4
         (\<lambda>h e. (h @ [oe_id e], Inr ())) [] db
   in r = Inl (Sqlite ''locked'') \<and> handled = [1] \<and> map ob_status (db_outbox db') = [Inflight, Inflight]"
  by code_simp

end
