(* ===== verification/Chip_Store_Laws.thy ===== *)
theory Chip_Store_Laws
  imports Chip_Store
begin

text \<open>
  The contract of a chip store backend, as the locale \<open>chip_backend\<close>: a backend holds a map from identifiers to
  chips, and its queries return exactly the stored chips that match, newest first and paginated, although the
  in-memory and the database backend answer them from indexes. Each backend is an interpretation.
\<close>

section \<open>Pagination\<close>

lemma set_newest_first [simp]: "set (newest_first chips) = set chips"
  by (simp add: newest_first_def)

lemma length_newest_first [simp]: "length (newest_first chips) = length chips"
  by (simp add: newest_first_def)

lemma newest_first_Nil [simp]: "newest_first chips = [] \<longleftrightarrow> chips = []"
  by (metis length_0_conv length_newest_first)

lemma newest_first_sorted: "sorted_wrt (\<lambda>a b. sc_created_at b \<le> sc_created_at a) (newest_first chips)"
proof -
  have "sorted_wrt (\<lambda>a b. sc_created_at a \<le> sc_created_at b) (sort_key sc_created_at (rev chips))"
    using sorted_sort_key [of sc_created_at "rev chips"] by (simp add: sorted_wrt_map)
  then show ?thesis
    by (simp add: newest_first_def sorted_wrt_rev)
qed

lemma qr_total [simp]: "qr_total_count (apply_pagination chips q) = length chips"
  by (simp add: apply_pagination_def Let_def)

lemma qr_chips_subset: "set (qr_chips (apply_pagination chips q)) \<subseteq> set chips"
  by (auto simp: apply_pagination_def Let_def dest!: in_set_takeD in_set_dropD)

lemma qr_chips_empty_iff:
  "cq_offset q = None \<Longrightarrow> cq_limit q \<noteq> Some 0 \<Longrightarrow> qr_chips (apply_pagination chips q) = [] \<longleftrightarrow> chips = []"
  by (auto simp: apply_pagination_def Let_def split: option.splits)

lemma newest_in_page:
  assumes "c \<in> set chips" "\<And>d. d \<in> set chips \<Longrightarrow> d \<noteq> c \<Longrightarrow> sc_created_at d < sc_created_at c"
    and "cq_offset q = None" "cq_limit q \<noteq> Some 0"
  shows "c \<in> set (qr_chips (apply_pagination chips q))"
proof -
  obtain d ds where n: "newest_first chips = d # ds"
    using assms(1) by (cases "newest_first chips") auto
  have "c = d"
  proof (rule ccontr)
    assume "c \<noteq> d"
    then have "c \<in> set ds" "d \<in> set chips"
      using assms(1) set_newest_first [of chips] unfolding n by auto
    then have "sc_created_at c \<le> sc_created_at d"
      using newest_first_sorted [of chips] n by auto
    with \<open>d \<in> set chips\<close> \<open>c \<noteq> d\<close> assms(2) [of d] show False
      by simp
  qed
  then show ?thesis
    using assms(3,4) n by (cases "cq_limit q") (auto simp: apply_pagination_def Let_def take_Cons' split: option.splits)
qed

section \<open>The contract\<close>

locale chip_backend =
  fixes B :: "'s backend_ops"
    and ok :: "'s \<Rightarrow> bool"
    and abs :: "'s \<Rightarrow> string \<Rightarrow> stored_chip option"
    and valid :: "stored_chip \<Rightarrow> bool"
    and good :: "string \<Rightarrow> bool"
  assumes abs_cid: "ok s \<Longrightarrow> abs s cid = Some c \<Longrightarrow> sc_cid c = cid"
    and put_abs: "ok s \<Longrightarrow> valid chip \<Longrightarrow>
      \<exists>s'. bo_put B chip s = (Inr (), s') \<and> ok s' \<and> abs s' = (abs s)(sc_cid chip \<mapsto> chip)"
    and get_abs: "ok s \<Longrightarrow> good cid \<Longrightarrow> bo_get B s cid = Inr (abs s cid)"
    and exists_abs: "ok s \<Longrightarrow> good cid \<Longrightarrow> bo_exists B s cid = Inr (abs s cid \<noteq> None)"
    and query_abs: "ok s \<Longrightarrow> \<exists>chips. bo_query B s q = Inr (apply_pagination chips q) \<and> distinct (map sc_cid chips)
      \<and> set chips = {c. \<exists>cid. abs s cid = Some c \<and> matches_query c q}"
    and by_type_abs: "ok s \<Longrightarrow> \<exists>chips. bo_by_type B s t = Inr chips \<and> set chips \<subseteq> {c. \<exists>cid. abs s cid = Some c}
      \<and> {c. \<exists>cid. abs s cid = Some c \<and> sc_type c = t} \<subseteq> set chips"
begin

lemma query_nonempty:
  assumes "ok s" "cq_offset q = None" "cq_limit q \<noteq> Some 0"
  shows "\<exists>r. bo_query B s q = Inr r \<and> (qr_chips r \<noteq> [] \<longleftrightarrow> (\<exists>cid c. abs s cid = Some c \<and> matches_query c q))"
proof -
  obtain chips where chips: "bo_query B s q = Inr (apply_pagination chips q)"
    "set chips = {c. \<exists>cid. abs s cid = Some c \<and> matches_query c q}"
    using query_abs [OF assms(1), of q] by blast
  have "qr_chips (apply_pagination chips q) \<noteq> [] \<longleftrightarrow> set chips \<noteq> {}"
    using assms(2,3) by (simp add: qr_chips_empty_iff)
  then show ?thesis
    using chips by auto
qed

lemma query_sound:
  assumes "ok s" "bo_query B s q = Inr r" "c \<in> set (qr_chips r)"
  shows "abs s (sc_cid c) = Some c \<and> matches_query c q"
proof -
  obtain chips where "bo_query B s q = Inr (apply_pagination chips q)"
    "set chips = {c. \<exists>cid. abs s cid = Some c \<and> matches_query c q}"
    using query_abs [OF assms(1), of q] by blast
  then show ?thesis
    using assms qr_chips_subset [of chips q] abs_cid by fastforce
qed

lemma query_newest:
  assumes "ok s" "abs s cid = Some c" "matches_query c q" "cq_offset q = None" "cq_limit q \<noteq> Some 0"
    and "\<And>cid' d. abs s cid' = Some d \<Longrightarrow> matches_query d q \<Longrightarrow> d \<noteq> c \<Longrightarrow> sc_created_at d < sc_created_at c"
  shows "\<exists>r. bo_query B s q = Inr r \<and> c \<in> set (qr_chips r)"
proof -
  obtain chips where "bo_query B s q = Inr (apply_pagination chips q)"
    "set chips = {c. \<exists>cid. abs s cid = Some c \<and> matches_query c q}"
    using query_abs [OF assms(1), of q] by blast
  then show ?thesis
    using newest_in_page [of c chips q] assms(2-) by auto
qed

end

section \<open>Candidates\<close>

lemma set_intersect: "set (intersect_sets c xs) = (case c of None \<Rightarrow> set xs | Some ys \<Rightarrow> set ys \<inter> set xs)"
  by (auto simp: intersect_sets_def split: option.splits)

lemma distinct_intersect: "distinct xs \<Longrightarrow> holds_for c distinct \<Longrightarrow> distinct (intersect_sets c xs)"
  by (auto simp: intersect_sets_def holds_for_def split: option.splits)

lemma in_intersect: "x \<in> set (intersect_sets c xs) \<longleftrightarrow> holds_for c (\<lambda>ys. x \<in> set ys) \<and> x \<in> set xs"
  by (auto simp: set_intersect holds_for_def split: option.splits)

lemma fold_intersect:
  "holds_for (fold (\<lambda>tag c. Some (intersect_sets c (f tag))) tags c) (\<lambda>xs. x \<in> set xs)
     \<longleftrightarrow> holds_for c (\<lambda>xs. x \<in> set xs) \<and> (\<forall>tag\<in>set tags. x \<in> set (f tag))"
proof (induction tags arbitrary: c)
  case (Cons tag tags)
  then show ?case
    by (simp add: holds_for_def [of "Some _"] in_intersect)
qed simp

lemma fold_intersect_None: "fold (\<lambda>tag c. Some (intersect_sets c (f tag))) tags c = None \<longleftrightarrow> tags = [] \<and> c = None"
  by (induction tags arbitrary: c) auto

lemma fold_intersect_distinct:
  "(\<And>tag. distinct (f tag)) \<Longrightarrow> holds_for c distinct \<Longrightarrow> holds_for (fold (\<lambda>tag c. Some (intersect_sets c (f tag))) tags c) distinct"
  by (induction tags arbitrary: c) (auto simp: holds_for_def distinct_intersect)

text \<open>The candidates are the identifiers in every index entry the query names.\<close>

lemma candidate_cids_Some:
  assumes "candidate_cids bt bg be q = Some cids"
  shows "x \<in> set cids \<longleftrightarrow> holds_for (cq_type q) (\<lambda>t. x \<in> set (bt t)) \<and> (\<forall>tag\<in>set (cq_tags q). x \<in> set (bg tag))
     \<and> holds_for (cq_executor_did q) (\<lambda>d. x \<in> set (be d))"
    and "(\<And>k. distinct (bt k)) \<Longrightarrow> (\<And>k. distinct (bg k)) \<Longrightarrow> (\<And>k. distinct (be k)) \<Longrightarrow> distinct cids"
proof -
  define c1 where "c1 = (case cq_type q of Some t \<Rightarrow> Some (intersect_sets None (bt t)) | None \<Rightarrow> None)"
  define c2 where "c2 = fold (\<lambda>tag c. Some (intersect_sets c (bg tag))) (cq_tags q) c1"
  define c3 where "c3 = (case cq_executor_did q of Some d \<Rightarrow> Some (intersect_sets c2 (be d)) | None \<Rightarrow> c2)"
  have some: "\<not> (cq_type q = None \<and> cq_tags q = [] \<and> cq_executor_did q = None)" and cids: "cids = (case c3 of Some c \<Rightarrow> c | None \<Rightarrow> [])"
    using assms unfolding c3_def c2_def c1_def by (auto simp only: candidate_cids_def Let_def option.inject split: if_splits)
  have c1: "holds_for c1 (\<lambda>xs. x \<in> set xs) \<longleftrightarrow> holds_for (cq_type q) (\<lambda>t. x \<in> set (bt t))"
    by (auto simp: c1_def holds_for_def set_intersect split: option.splits)
  have c2: "holds_for c2 (\<lambda>xs. x \<in> set xs) \<longleftrightarrow> holds_for c1 (\<lambda>xs. x \<in> set xs) \<and> (\<forall>tag\<in>set (cq_tags q). x \<in> set (bg tag))"
    using fold_intersect [of bg "cq_tags q" c1 x] by (simp add: c2_def)
  have "c2 \<noteq> None" if "cq_type q \<noteq> None \<or> cq_tags q \<noteq> []"
    using that by (auto simp: c1_def c2_def fold_intersect_None split: option.splits)
  then have "c3 \<noteq> None"
    using some by (auto simp: c3_def split: option.splits)
  then have "x \<in> set cids \<longleftrightarrow> holds_for c3 (\<lambda>xs. x \<in> set xs)"
    by (auto simp: cids holds_for_def)
  also have "\<dots> \<longleftrightarrow> holds_for c2 (\<lambda>xs. x \<in> set xs) \<and> holds_for (cq_executor_did q) (\<lambda>d. x \<in> set (be d))"
    by (auto simp: c3_def holds_for_def set_intersect split: option.splits)
  finally show "x \<in> set cids \<longleftrightarrow> holds_for (cq_type q) (\<lambda>t. x \<in> set (bt t)) \<and> (\<forall>tag\<in>set (cq_tags q). x \<in> set (bg tag))
     \<and> holds_for (cq_executor_did q) (\<lambda>d. x \<in> set (be d))"
    using c1 c2 by blast
  show "distinct cids" if "\<And>k. distinct (bt k)" "\<And>k. distinct (bg k)" "\<And>k. distinct (be k)"
  proof -
    have "holds_for c1 distinct"
      using that(1) by (auto simp: c1_def holds_for_def distinct_intersect split: option.splits)
    then have "holds_for c2 distinct"
      unfolding c2_def using that(2) by (intro fold_intersect_distinct)
    then have "holds_for c3 distinct"
      using that(3) by (auto simp: c3_def holds_for_def distinct_intersect split: option.splits)
    then show ?thesis
      by (auto simp: cids holds_for_def split: option.splits)
  qed
qed

lemma candidate_cids_None: "candidate_cids bt bg be q = None \<longleftrightarrow> cq_type q = None \<and> cq_tags q = [] \<and> cq_executor_did q = None"
  by (auto simp: candidate_cids_def Let_def)

section \<open>Index entries\<close>

lemma index_entry_add: "index_entry (index_add cid k m) k' = (if k' = k then List.insert cid (index_entry m k) else index_entry m k')"
  by (simp add: index_entry_def index_add_def)

lemma index_entry_remove: "index_entry (index_remove cid k m) k' = (if k' = k then removeAll cid (index_entry m k) else index_entry m k')"
proof (cases "map_of m k")
  case (Some cids)
  have "map_of (filter (\<lambda>p. fst p \<noteq> k) m) k' = (if k' = k then None else map_of m k')"
    by (induction m) auto
  then show ?thesis
    using Some by (auto simp: index_entry_def index_remove_def Let_def)
qed (auto simp: index_entry_def index_remove_def)

lemma index_entry_add_all:
  "set (index_entry (fold (index_add cid) ks m) k) = (if k \<in> set ks then insert cid (set (index_entry m k)) else set (index_entry m k))"
  by (induction ks arbitrary: m) (auto simp: index_entry_add)

lemma index_entry_remove_all:
  "set (index_entry (fold (index_remove cid) ks m) k) = (if k \<in> set ks then set (index_entry m k) - {cid} else set (index_entry m k))"
  by (induction ks arbitrary: m) (auto simp: index_entry_remove)

lemma distinct_index_add: "(\<And>k. distinct (index_entry m k)) \<Longrightarrow> distinct (index_entry (fold (index_add cid) ks m) k)"
  by (induction ks arbitrary: m) (auto simp: index_entry_add)

lemma distinct_index_remove: "(\<And>k. distinct (index_entry m k)) \<Longrightarrow> distinct (index_entry (fold (index_remove cid) ks m) k)"
  by (induction ks arbitrary: m) (auto simp: index_entry_remove distinct_removeAll)

text \<open>A chip is chip_indexed if every index entry it belongs to has its identifier.\<close>

definition chip_indexed :: "(string \<Rightarrow> string set) \<Rightarrow> (string \<Rightarrow> string set) \<Rightarrow> (string \<Rightarrow> string set) \<Rightarrow> stored_chip \<Rightarrow> bool" where
  "chip_indexed bt bg be c \<longleftrightarrow> sc_cid c \<in> bt (sc_type c) \<and> (\<forall>tag\<in>set (sc_tags c). sc_cid c \<in> bg tag)
     \<and> sc_cid c \<in> be (em_executor_did (sc_meta c))"

text \<open>What answers a query correctly: candidates from indexes in which every stored chip is entered.\<close>

lemma indexed_candidate:
  assumes "candidate_cids bt bg be q = Some cids" "chip_indexed (set \<circ> bt) (set \<circ> bg) (set \<circ> be) c" "matches_query c q"
  shows "sc_cid c \<in> set cids"
  using assms by (auto simp: candidate_cids_Some(1) [OF assms(1)] chip_indexed_def matches_query_def holds_for_def list_all_iff
      split: option.splits)

lemma set_map_filter: "set (List.map_filter f xs) = {y. \<exists>x\<in>set xs. f x = Some y}"
  by (induction xs) (auto simp: List.map_filter_simps split: option.splits)

lemma distinct_map_filter_cid:
  "distinct xs \<Longrightarrow> (\<And>x c. f x = Some c \<Longrightarrow> sc_cid c = x) \<Longrightarrow> distinct (map sc_cid (List.map_filter f xs))"
  by (induction xs) (auto simp: List.map_filter_simps set_map_filter split: option.splits)

lemma distinct_cid_filter: "distinct (map sc_cid xs) \<Longrightarrow> distinct (map sc_cid (filter P xs))"
  by (simp add: distinct_map_filter)

section \<open>The in-memory backend\<close>

definition ix_indexed :: "chip_indexes \<Rightarrow> stored_chip \<Rightarrow> bool" where
  "ix_indexed ix = chip_indexed (set \<circ> index_entry (ix_type ix)) (set \<circ> index_entry (ix_tag ix)) (set \<circ> index_entry (ix_executor ix))"

definition ix_distinct :: "chip_indexes \<Rightarrow> bool" where
  "ix_distinct ix \<longleftrightarrow> (\<forall>k. distinct (index_entry (ix_type ix) k) \<and> distinct (index_entry (ix_tag ix) k)
     \<and> distinct (index_entry (ix_executor ix) k))"

definition mem_ok :: "mem_backend \<Rightarrow> bool" where
  "mem_ok s \<longleftrightarrow> distinct (map fst (mb_chips s)) \<and> (\<forall>(cid, c)\<in>set (mb_chips s). sc_cid c = cid \<and> ix_indexed (mb_indexes s) c)
     \<and> ix_distinct (mb_indexes s)"

lemma index_chip_indexed: "ix_indexed (index_chip chip ix) chip"
  by (simp add: ix_indexed_def chip_indexed_def index_chip_def index_entry_add index_entry_add_all)

lemma index_chip_keeps: "ix_indexed ix c \<Longrightarrow> ix_indexed (index_chip chip ix) c"
  by (auto simp: ix_indexed_def chip_indexed_def index_chip_def index_entry_add index_entry_add_all)

lemma index_chip_distinct: "ix_distinct ix \<Longrightarrow> ix_distinct (index_chip chip ix)"
  by (auto simp: ix_distinct_def index_chip_def index_entry_add distinct_index_add)

lemma mem_ok_lookup: "mem_ok s \<Longrightarrow> map_of (mb_chips s) cid = Some c \<Longrightarrow> sc_cid c = cid \<and> ix_indexed (mb_indexes s) c"
  by (auto simp: mem_ok_def dest: map_of_SomeD)

lemma set_obj_insert: "distinct (map fst m) \<Longrightarrow> set (obj_insert k v m) = insert (k, v) {p \<in> set m. fst p \<noteq> k}"
proof (induction m)
  case (Cons p m)
  then show ?case
    by (cases p; cases "k = fst p") force+
qed simp

lemma mem_ok_put: "mem_ok s \<Longrightarrow> mem_ok (mem_put chip s)"
  by (auto simp: mem_ok_def mem_put_def distinct_obj_insert set_obj_insert index_chip_indexed index_chip_keeps index_chip_distinct)

lemma mem_query_spec:
  assumes "mem_ok s"
  shows "\<exists>chips. mem_query s q = apply_pagination chips q \<and> distinct (map sc_cid chips)
    \<and> set chips = {c. \<exists>cid. map_of (mb_chips s) cid = Some c \<and> matches_query c q}"
proof (cases "mem_candidates s q")
  case None
  have "distinct (map sc_cid (map snd (mb_chips s)))"
  proof -
    have "map sc_cid (map snd (mb_chips s)) = map fst (mb_chips s)"
      using assms by (auto simp: mem_ok_def)
    then show ?thesis
      using assms by (simp only: mem_ok_def)
  qed
  moreover have "set (map snd (mb_chips s)) = {c. \<exists>cid. map_of (mb_chips s) cid = Some c}"
    using assms by (force simp: mem_ok_def dest: map_of_SomeD intro: map_of_is_SomeI)
  ultimately show ?thesis
    using None by (intro exI [of _ "filter (\<lambda>chip. matches_query chip q) (map snd (mb_chips s))"])
      (auto simp: mem_query_def distinct_cid_filter)
next
  case (Some cids)
  let ?chips = "List.map_filter (map_of (mb_chips s)) cids"
  have "distinct cids"
    using Some assms candidate_cids_Some(2) by (auto simp: mem_candidates_def mem_ok_def ix_distinct_def)
  then have "distinct (map sc_cid ?chips)"
    by (rule distinct_map_filter_cid) (use assms mem_ok_lookup in blast)
  moreover have "sc_cid c \<in> set cids" if "map_of (mb_chips s) cid = Some c" "matches_query c q" for cid c
    using indexed_candidate Some mem_ok_lookup [OF assms that(1)] that(2) by (auto simp: mem_candidates_def ix_indexed_def)
  then have "{c \<in> set ?chips. matches_query c q} = {c. \<exists>cid. map_of (mb_chips s) cid = Some c \<and> matches_query c q}"
    using mem_ok_lookup [OF assms] by (fastforce simp: set_map_filter)
  ultimately show ?thesis
    using Some by (intro exI [of _ "filter (\<lambda>chip. matches_query chip q) ?chips"])
      (auto simp: mem_query_def distinct_cid_filter)
qed

interpretation mem: chip_backend mem_ops mem_ok "\<lambda>s. map_of (mb_chips s)" "\<lambda>_. True" "\<lambda>_. True"
proof
  show "\<exists>s'. bo_put mem_ops chip s = (Inr (), s') \<and> mem_ok s' \<and> map_of (mb_chips s') = (map_of (mb_chips s))(sc_cid chip \<mapsto> chip)"
    if "mem_ok s" for s chip
    using mem_ok_put [OF that] by (simp add: mem_ops_def) (simp add: mem_put_def)
  show "\<exists>chips. bo_query mem_ops s q = Inr (apply_pagination chips q) \<and> distinct (map sc_cid chips)
      \<and> set chips = {c. \<exists>cid. map_of (mb_chips s) cid = Some c \<and> matches_query c q}" if "mem_ok s" for s q
    using mem_query_spec [OF that, of q] by (simp add: mem_ops_def)
  show "\<exists>chips. bo_by_type mem_ops s t = Inr chips \<and> set chips \<subseteq> {c. \<exists>cid. map_of (mb_chips s) cid = Some c}
      \<and> {c. \<exists>cid. map_of (mb_chips s) cid = Some c \<and> sc_type c = t} \<subseteq> set chips" if "mem_ok s" for s t
    using mem_ok_lookup [OF that] by (fastforce simp: mem_ops_def mem_by_type_def set_map_filter ix_indexed_def chip_indexed_def)
qed (auto simp: mem_ops_def mem_get_def mem_exists_def dest: mem_ok_lookup)

lemma mem_ok_new: "mem_ok mem_new"
  by (simp add: mem_ok_def mem_new_def ix_distinct_def empty_indexes_def index_entry_def)

section \<open>The database backend\<close>

lemma in_read_index_set: "x \<in> set (read_index_set tree k) \<longleftrightarrow> index_composite_key k x \<in> set tree"
  by (force simp: read_index_set_def index_composite_key_def index_prefix_def starts_with_iff)

lemma distinct_read_index_set: "distinct (read_index_set tree k)"
  by (simp add: read_index_set_def)

definition tree_entries :: "string list \<Rightarrow> string \<Rightarrow> string set" where
  "tree_entries tree k = {cid. index_composite_key k cid \<in> set tree}"

definition sled_indexed :: "sled_backend \<Rightarrow> stored_chip \<Rightarrow> bool" where
  "sled_indexed s = chip_indexed (tree_entries (sl_types s)) (tree_entries (sl_tags s)) (tree_entries (sl_executors s))"

definition sled_abs :: "chip_codec \<Rightarrow> sled_backend \<Rightarrow> string \<Rightarrow> stored_chip option" where
  "sled_abs C s cid = Option.bind (map_of (sl_db s) cid) (cc_from_slice C)"

definition sled_readable :: "chip_codec \<Rightarrow> sled_backend \<Rightarrow> bool" where
  "sled_readable C s \<longleftrightarrow> distinct (map fst (sl_db s)) \<and> (\<forall>(cid, d)\<in>set (sl_db s). \<exists>c. cc_from_slice C d = Some c \<and> sc_cid c = cid)"

definition sled_ok :: "chip_codec \<Rightarrow> sled_backend \<Rightarrow> bool" where
  "sled_ok C s \<longleftrightarrow> sled_readable C s \<and> (\<forall>cid c. sled_abs C s cid = Some c \<longrightarrow> sled_indexed s c)"

definition codec_reads :: "chip_codec \<Rightarrow> stored_chip \<Rightarrow> bool" where
  "codec_reads C c \<longleftrightarrow> cc_from_slice C (cc_to_vec C c) = Some c"

definition add_tags :: "string \<Rightarrow> string list \<Rightarrow> string list \<Rightarrow> string list" where
  "add_tags cid tags tree = fold (\<lambda>tag. List.insert (index_composite_key tag cid)) tags tree"

lemma in_add_tags: "e \<in> set (add_tags cid tags tree) \<longleftrightarrow> e \<in> set tree \<or> (\<exists>tag\<in>set tags. e = index_composite_key tag cid)"
  by (induction tags arbitrary: tree) (auto simp: add_tags_def)

definition with_entries :: "stored_chip \<Rightarrow> sled_backend \<Rightarrow> sled_backend" where
  "with_entries chip s = s\<lparr>sl_types := List.insert (index_composite_key (sc_type chip) (sc_cid chip)) (sl_types s),
     sl_tags := add_tags (sc_cid chip) (sc_tags chip) (sl_tags s),
     sl_executors := List.insert (index_composite_key (em_executor_did (sc_meta chip)) (sc_cid chip)) (sl_executors s)\<rparr>"

lemma sled_step_ok [simp]: "sled_step (\<lambda>_. None) site f (Inr u, s) = (Inr (), f s)"
  by (simp add: sled_step_def sled_call_def)

lemma sled_add_tags_ok: "sled_add_tags (\<lambda>_. None) i cid tags (Inr (), s) = (Inr (), s\<lparr>sl_tags := add_tags cid tags (sl_tags s)\<rparr>)"
  by (induction tags arbitrary: i s) (simp_all add: add_tags_def)

lemma sled_add_chip_ok: "sled_add_chip_to_indexes (\<lambda>_. None) chip (Inr (), s) = (Inr (), with_entries chip s)"
  by (cases s) (simp add: sled_add_chip_to_indexes_def sled_add_tags_ok with_entries_def)

lemma with_entries_indexed: "sled_indexed (with_entries chip s) chip" "sled_indexed s c \<Longrightarrow> sled_indexed (with_entries chip s) c"
  by (auto simp: sled_indexed_def chip_indexed_def tree_entries_def with_entries_def in_add_tags)

lemma with_entries_db [simp]: "sl_db (with_entries chip s) = sl_db s" "sl_receipts (with_entries chip s) = sl_receipts s"
  by (simp_all add: with_entries_def)

lemma sled_put_ok: "sled_put C (\<lambda>_. None) chip s = (Inr (), with_entries chip (s\<lparr>sl_db := obj_insert (sc_cid chip) (cc_to_vec C chip) (sl_db s),
    sl_receipts := obj_insert (sc_receipt_cid chip) (sc_cid chip) (sl_receipts s)\<rparr>))"
  by (simp add: sled_put_def sled_add_chip_ok)

lemma sled_indexed_db [simp]: "sled_indexed (s\<lparr>sl_db := db, sl_receipts := r\<rparr>) = sled_indexed s"
  by (simp add: sled_indexed_def fun_eq_iff)

lemma sled_abs_put: "codec_reads C chip \<Longrightarrow> sled_abs C (snd (sled_put C (\<lambda>_. None) chip s)) = (sled_abs C s)(sc_cid chip \<mapsto> chip)"
  by (auto simp: sled_put_ok sled_abs_def codec_reads_def fun_eq_iff)

lemma sled_ok_put:
  assumes "sled_ok C s" "codec_reads C chip"
  shows "sled_ok C (snd (sled_put C (\<lambda>_. None) chip s))"
proof -
  have "sled_readable C (snd (sled_put C (\<lambda>_. None) chip s))"
    using assms by (auto simp: sled_ok_def sled_readable_def sled_put_ok distinct_obj_insert set_obj_insert codec_reads_def)
  moreover have "sled_indexed (snd (sled_put C (\<lambda>_. None) chip s)) c" if "sled_abs C (snd (sled_put C (\<lambda>_. None) chip s)) cid = Some c" for cid c
    using that assms unfolding sled_abs_put [OF assms(2)]
    by (auto simp: sled_put_ok sled_ok_def with_entries_indexed split: if_splits)
  ultimately show ?thesis
    by (auto simp: sled_ok_def)
qed

lemma sled_readable_lookup: "sled_readable C s \<Longrightarrow> map_of (sl_db s) cid = Some d \<Longrightarrow> \<exists>c. cc_from_slice C d = Some c \<and> sc_cid c = cid"
  by (auto simp: sled_readable_def dest!: map_of_SomeD)

lemma sled_load_abs: "sled_readable C s \<Longrightarrow> sled_load C s cid = Inr (sled_abs C s cid)"
  using sled_readable_lookup [of C s cid] by (auto simp: sled_load_def sled_abs_def split: option.split)

lemma sled_abs_cid: "sled_readable C s \<Longrightarrow> sled_abs C s cid = Some c \<Longrightarrow> sc_cid c = cid"
  using sled_readable_lookup [of C s cid] by (auto simp: sled_abs_def bind_eq_Some_conv)

lemma collect_results_Inr: "(\<And>x. x \<in> set xs \<Longrightarrow> f x = Inr (g x)) \<Longrightarrow> collect_results f xs = Inr (map g xs)"
  by (induction xs) simp_all

lemma map_filter_id: "List.map_filter id (map f xs) = List.map_filter f xs"
  by (induction xs) (simp_all add: List.map_filter_simps split: option.split)

lemma sled_load_all_abs: "sled_readable C s \<Longrightarrow> sled_load_all C s cids = Inr (List.map_filter (sled_abs C s) cids)"
  by (simp add: sled_load_all_def collect_results_Inr [where g = "sled_abs C s"] sled_load_abs map_filter_id)

lemma sled_scan_abs:
  assumes "sled_readable C s"
  shows "\<exists>chips. sled_scan_all C s = Inr chips \<and> distinct (map sc_cid chips) \<and> set chips = {c. \<exists>cid. sled_abs C s cid = Some c}"
proof -
  let ?f = "\<lambda>(cid, d). the (cc_from_slice C d)"
  have row: "\<exists>c. cc_from_slice C d = Some c \<and> sc_cid c = cid" if "(cid, d) \<in> set (sl_db s)" for cid d
    using assms that by (fastforce simp: sled_readable_def)
  have "sled_scan_all C s = Inr (map ?f (sl_db s))"
    unfolding sled_scan_all_def by (rule collect_results_Inr) (use row in force)
  moreover have "map sc_cid (map ?f (sl_db s)) = map fst (sl_db s)"
    using row by fastforce
  then have "distinct (map sc_cid (map ?f (sl_db s)))"
    using assms by (simp only: sled_readable_def)
  moreover have "c \<in> set (map ?f (sl_db s)) \<longleftrightarrow> (\<exists>cid. sled_abs C s cid = Some c)" for c
  proof -
    have "c \<in> set (map ?f (sl_db s)) \<longleftrightarrow> (\<exists>cid d. (cid, d) \<in> set (sl_db s) \<and> cc_from_slice C d = Some c)"
    proof
      assume "c \<in> set (map ?f (sl_db s))"
      then obtain cid d where "(cid, d) \<in> set (sl_db s)" "c = the (cc_from_slice C d)"
        by auto
      then show "\<exists>cid d. (cid, d) \<in> set (sl_db s) \<and> cc_from_slice C d = Some c"
        using row by fastforce
    qed force
    also have "\<dots> \<longleftrightarrow> (\<exists>cid d. map_of (sl_db s) cid = Some d \<and> cc_from_slice C d = Some c)"
      using assms by (auto simp: sled_readable_def)
    finally show ?thesis
      by (simp add: sled_abs_def bind_eq_Some_conv)
  qed
  ultimately show ?thesis
    by blast
qed

lemma sled_query_spec:
  assumes "sled_ok C s"
  shows "\<exists>chips. sled_query C s q = Inr (apply_pagination chips q) \<and> distinct (map sc_cid chips)
    \<and> set chips = {c. \<exists>cid. sled_abs C s cid = Some c \<and> matches_query c q}"
proof (cases "sled_candidates s q")
  case None
  obtain chips where "sled_scan_all C s = Inr chips" "distinct (map sc_cid chips)" "set chips = {c. \<exists>cid. sled_abs C s cid = Some c}"
    using sled_scan_abs [of C s] assms unfolding sled_ok_def by blast
  then show ?thesis
    using None by (intro exI [of _ "filter (\<lambda>chip. matches_query chip q) chips"]) (auto simp: sled_query_def distinct_cid_filter)
next
  case (Some cids)
  let ?chips = "List.map_filter (sled_abs C s) cids"
  have readable: "sled_readable C s"
    using assms by (simp add: sled_ok_def)
  have "distinct cids"
    using Some candidate_cids_Some(2) by (auto simp: sled_candidates_def distinct_read_index_set)
  then have "distinct (map sc_cid ?chips)"
    by (rule distinct_map_filter_cid) (use sled_abs_cid [OF readable] in blast)
  moreover have "sc_cid c \<in> set cids" if "sled_abs C s cid = Some c" "matches_query c q" for cid c
  proof -
    have "chip_indexed (set \<circ> read_index_set (sl_types s)) (set \<circ> read_index_set (sl_tags s)) (set \<circ> read_index_set (sl_executors s)) c"
      using assms that(1) by (auto simp: sled_ok_def sled_indexed_def chip_indexed_def in_read_index_set tree_entries_def)
    then show ?thesis
      using indexed_candidate Some that(2) by (auto simp: sled_candidates_def)
  qed
  then have "{c \<in> set ?chips. matches_query c q} = {c. \<exists>cid. sled_abs C s cid = Some c \<and> matches_query c q}"
    using sled_abs_cid [OF readable] by (fastforce simp: set_map_filter)
  ultimately show ?thesis
    using Some readable by (intro exI [of _ "filter (\<lambda>chip. matches_query chip q) ?chips"])
      (auto simp: sled_query_def sled_load_all_abs distinct_cid_filter)
qed

interpretation sled: chip_backend "sled_ops C" "sled_ok C" "sled_abs C" "codec_reads C" "\<lambda>_. True"
proof
  show "\<exists>s'. bo_put (sled_ops C) chip s = (Inr (), s') \<and> sled_ok C s' \<and> sled_abs C s' = (sled_abs C s)(sc_cid chip \<mapsto> chip)"
    if "sled_ok C s" "codec_reads C chip" for s chip
    using sled_ok_put [OF that] sled_abs_put [OF that(2), of s] by (simp add: sled_ops_def sled_put_ok)
  show "bo_exists (sled_ops C) s cid = Inr (sled_abs C s cid \<noteq> None)" if "sled_ok C s" for s cid
    using that sled_readable_lookup [of C s cid] by (auto simp: sled_ops_def sled_exists_def sled_abs_def sled_ok_def bind_eq_Some_conv)
  show "\<exists>chips. bo_query (sled_ops C) s q = Inr (apply_pagination chips q) \<and> distinct (map sc_cid chips)
      \<and> set chips = {c. \<exists>cid. sled_abs C s cid = Some c \<and> matches_query c q}" if "sled_ok C s" for s q
    using sled_query_spec [OF that, of q] by (simp add: sled_ops_def)
  show "\<exists>chips. bo_by_type (sled_ops C) s t = Inr chips \<and> set chips \<subseteq> {c. \<exists>cid. sled_abs C s cid = Some c}
      \<and> {c. \<exists>cid. sled_abs C s cid = Some c \<and> sc_type c = t} \<subseteq> set chips" if "sled_ok C s" for s t
  proof -
    have readable: "sled_readable C s"
      using that by (simp add: sled_ok_def)
    have "sc_cid c \<in> set (read_index_set (sl_types s) t)" if "sled_abs C s cid = Some c" "sc_type c = t" for cid c
      using \<open>sled_ok C s\<close> that by (auto simp: sled_ok_def sled_indexed_def chip_indexed_def in_read_index_set tree_entries_def)
    then show ?thesis
      using sled_abs_cid [OF readable] by (auto simp: sled_ops_def sled_by_type_def sled_load_all_abs [OF readable] set_map_filter)
  qed
qed (auto simp: sled_ops_def sled_ok_def sled_load_abs dest: sled_abs_cid)

end
