(* ===== verification/Chip_Backends.thy ===== *)
theory Chip_Backends
  imports Chip_Store_Laws
begin

text \<open>
  The file-system backend as an interpretation of the contract, the agreement of the three backends, the states of the
  in-memory backend under every operation, and the recovery of the database backend after a failed write.
\<close>

section \<open>The file-system backend\<close>

text \<open>The identifiers that the file system keeps apart: one with \<open>_\<close> may share its file with one that has \<open>:\<close> there, and one with
  \<open>/\<close> is a path into another directory, which the model of the files as one directory leaves out.\<close>

definition fs_good :: "string \<Rightarrow> bool" where
  "fs_good cid \<longleftrightarrow> cid \<noteq> [] \<and> CHR ''_'' \<notin> set cid \<and> CHR ''/'' \<notin> set cid"

definition fs_abs :: "chip_codec \<Rightarrow> fs_files \<Rightarrow> string \<Rightarrow> stored_chip option" where
  "fs_abs C fs cid = (if fs_good cid then Option.bind (map_of fs (chip_path cid)) (cc_from_slice C) else None)"

definition fs_ok :: "chip_codec \<Rightarrow> fs_files \<Rightarrow> bool" where
  "fs_ok C fs \<longleftrightarrow> distinct (map fst fs) \<and> (\<forall>(name, d)\<in>set fs. json_file name \<longrightarrow>
     (\<exists>c. cc_from_slice C d = Some c \<and> name = chip_path (sc_cid c) \<and> fs_good (sc_cid c)))"

definition fs_valid :: "chip_codec \<Rightarrow> stored_chip \<Rightarrow> bool" where
  "fs_valid C c \<longleftrightarrow> codec_reads C c \<and> fs_good (sc_cid c)"

lemma sanitize_inject: "CHR ''_'' \<notin> set a \<Longrightarrow> CHR ''_'' \<notin> set b \<Longrightarrow> sanitize_cid a = sanitize_cid b \<longleftrightarrow> a = b"
  unfolding sanitize_cid_def by (rule inj_on_map_eq_map) (auto simp: inj_on_def split: if_splits)

lemma chip_path_inject: "fs_good a \<Longrightarrow> fs_good b \<Longrightarrow> chip_path a = chip_path b \<longleftrightarrow> a = b"
  by (simp add: chip_path_def fs_good_def sanitize_inject)

lemma chip_path_json: "fs_good cid \<Longrightarrow> json_file (chip_path cid)"
  by (auto simp: json_file_def chip_path_def has_suffix_def starts_with_def fs_good_def sanitize_cid_def)

lemma tmp_path_not_json: "\<not> json_file (tmp_path cid)"
  by (simp add: json_file_def tmp_path_def has_suffix_def starts_with_def)

lemma tmp_not_chip: "fs_good a \<Longrightarrow> chip_path a \<noteq> tmp_path b"
  using chip_path_json tmp_path_not_json by metis

lemma map_of_filter_key: "map_of (filter (\<lambda>p. fst p \<noteq> k) m) k' = (if k' = k then None else map_of m k')"
  by (induction m) auto

lemma fs_put_ok: "fs_put C False False chip fs = (Inr (), obj_insert (chip_path (sc_cid chip)) (cc_to_vec C chip)
    (filter (\<lambda>p. fst p \<noteq> tmp_path (sc_cid chip)) (obj_insert (tmp_path (sc_cid chip)) (cc_to_vec C chip) fs)))"
  by (simp add: fs_put_def Let_def)

lemma fs_ok_put:
  assumes "fs_ok C fs" "fs_valid C chip"
  shows "fs_ok C (snd (fs_put C False False chip fs))"
proof -
  let ?fs1 = "filter (\<lambda>p. fst p \<noteq> tmp_path (sc_cid chip)) (obj_insert (tmp_path (sc_cid chip)) (cc_to_vec C chip) fs)"
  have "distinct (map fst ?fs1)" "set ?fs1 \<subseteq> set fs"
    using assms(1) by (auto simp: fs_ok_def distinct_map_filter distinct_obj_insert set_obj_insert)
  then show ?thesis
    using assms by (auto simp: fs_put_ok fs_ok_def distinct_obj_insert set_obj_insert fs_valid_def codec_reads_def)
qed

lemma fs_abs_put: "fs_valid C chip \<Longrightarrow> fs_abs C (snd (fs_put C False False chip fs)) = (fs_abs C fs)(sc_cid chip \<mapsto> chip)"
  by (auto simp: fun_eq_iff fs_abs_def fs_put_ok map_of_filter_key chip_path_inject tmp_not_chip fs_valid_def codec_reads_def)

lemma fs_lookup: "fs_ok C fs \<Longrightarrow> fs_good cid \<Longrightarrow> map_of fs (chip_path cid) = Some d \<Longrightarrow>
    \<exists>c. cc_from_slice C d = Some c \<and> sc_cid c = cid"
  using chip_path_json [of cid] by (auto simp: fs_ok_def chip_path_inject dest!: map_of_SomeD)

lemma fs_iter_abs:
  assumes "fs_ok C fs"
  shows "\<exists>chips. fs_iter_all C fs = Inr chips \<and> distinct (map sc_cid chips) \<and> set chips = {c. \<exists>cid. fs_abs C fs cid = Some c}"
proof -
  let ?f = "\<lambda>(name, d). the (cc_from_slice C d)" and ?files = "filter (\<lambda>p. json_file (fst p)) fs"
  have row: "\<exists>c. cc_from_slice C d = Some c \<and> name = chip_path (sc_cid c) \<and> fs_good (sc_cid c)" if "(name, d) \<in> set ?files" for name d
    using assms that by (fastforce simp: fs_ok_def)
  have iter: "fs_iter_all C fs = Inr (map ?f ?files)"
    unfolding fs_iter_all_def by (rule collect_results_Inr) (use row in force)
  have "map chip_path (map sc_cid (map ?f ?files)) = map fst ?files"
    using row by fastforce
  moreover have "distinct (map fst ?files)"
    using assms by (simp add: fs_ok_def distinct_map_filter)
  ultimately have "distinct (map chip_path (map sc_cid (map ?f ?files)))"
    by (simp only:)
  then have names: "distinct (map sc_cid (map ?f ?files))"
    unfolding distinct_map [of chip_path] by blast
  have "c \<in> set (map ?f ?files) \<longleftrightarrow> (\<exists>cid. fs_abs C fs cid = Some c)" for c
  proof
    assume "c \<in> set (map ?f ?files)"
    then obtain name d where "(name, d) \<in> set ?files" "c = the (cc_from_slice C d)"
      by auto
    moreover from row [OF this(1)] obtain c' where "cc_from_slice C d = Some c'" "name = chip_path (sc_cid c')" "fs_good (sc_cid c')"
      by blast
    moreover from calculation assms have "map_of fs name = Some d"
      by (auto simp: fs_ok_def)
    ultimately have "fs_abs C fs (sc_cid c') = Some c"
      by (simp add: fs_abs_def)
    then show "\<exists>cid. fs_abs C fs cid = Some c"
      by blast
  next
    assume "\<exists>cid. fs_abs C fs cid = Some c"
    then obtain cid d where "fs_good cid" "map_of fs (chip_path cid) = Some d" "cc_from_slice C d = Some c"
      by (auto simp: fs_abs_def bind_eq_Some_conv split: if_splits)
    then show "c \<in> set (map ?f ?files)"
      using chip_path_json by (force dest: map_of_SomeD)
  qed
  then show ?thesis
    using iter names by blast
qed

interpretation fs: chip_backend "fs_ops C" "fs_ok C" "fs_abs C" "fs_valid C" fs_good
proof
  show "sc_cid c = cid" if "fs_ok C fs" "fs_abs C fs cid = Some c" for fs cid c
    using that fs_lookup by (fastforce simp: fs_abs_def bind_eq_Some_conv split: if_splits)
  show "\<exists>s'. bo_put (fs_ops C) chip s = (Inr (), s') \<and> fs_ok C s' \<and> fs_abs C s' = (fs_abs C s)(sc_cid chip \<mapsto> chip)"
    if "fs_ok C s" "fs_valid C chip" for s chip
    using fs_ok_put [OF that] fs_abs_put [OF that(2), of s] by (simp add: fs_ops_def fs_put_ok)
  show "bo_get (fs_ops C) s cid = Inr (fs_abs C s cid)" if "fs_ok C s" "fs_good cid" for s cid
    using that fs_lookup [OF that] by (auto simp: fs_ops_def fs_load_def fs_abs_def split: option.split)
  show "bo_exists (fs_ops C) s cid = Inr (fs_abs C s cid \<noteq> None)" if "fs_ok C s" "fs_good cid" for s cid
    using that fs_lookup [OF that] by (auto simp: fs_ops_def fs_exists_def fs_abs_def bind_eq_Some_conv)
  show "\<exists>chips. bo_query (fs_ops C) s q = Inr (apply_pagination chips q) \<and> distinct (map sc_cid chips)
      \<and> set chips = {c. \<exists>cid. fs_abs C s cid = Some c \<and> matches_query c q}" if ok: "fs_ok C s" for s q
  proof -
    obtain chips where "fs_iter_all C s = Inr chips" "distinct (map sc_cid chips)" "set chips = {c. \<exists>cid. fs_abs C s cid = Some c}"
      using fs_iter_abs [OF ok] by blast
    then show ?thesis
      by (intro exI [of _ "filter (\<lambda>chip. matches_query chip q) chips"]) (auto simp: fs_ops_def fs_query_def distinct_cid_filter)
  qed
  show "\<exists>chips. bo_by_type (fs_ops C) s t = Inr chips \<and> set chips \<subseteq> {c. \<exists>cid. fs_abs C s cid = Some c}
      \<and> {c. \<exists>cid. fs_abs C s cid = Some c \<and> sc_type c = t} \<subseteq> set chips" if ok: "fs_ok C s" for s t
    using fs_iter_abs [OF ok] by (auto simp: fs_ops_def fs_by_type_def)
qed

section \<open>Agreement of the backends\<close>

definition sled_new :: sled_backend where
  "sled_new = \<lparr>sl_db = [], sl_receipts = [], sl_types = [], sl_tags = [], sl_executors = []\<rparr>"

definition mem_all :: "stored_chip list \<Rightarrow> mem_backend" where
  "mem_all chips = fold mem_put chips mem_new"

definition sled_all :: "chip_codec \<Rightarrow> stored_chip list \<Rightarrow> sled_backend" where
  "sled_all C chips = fold (\<lambda>c s. snd (sled_put C (\<lambda>_. None) c s)) chips sled_new"

definition fs_all :: "chip_codec \<Rightarrow> stored_chip list \<Rightarrow> fs_files" where
  "fs_all C chips = fold (\<lambda>c s. snd (fs_put C False False c s)) chips []"

lemma mem_all_ok: "mem_ok (mem_all chips)" "map_of (mb_chips (mem_all chips)) = (\<lambda>cid. find (\<lambda>c. sc_cid c = cid) (rev chips))"
proof -
  have "mem_ok (mem_all chips) \<and> map_of (mb_chips (mem_all chips)) = (\<lambda>cid. find (\<lambda>c. sc_cid c = cid) (rev chips))"
  proof (induction chips rule: rev_induct)
    case Nil
    then show ?case
      using mem_ok_new by (simp add: mem_all_def) (simp add: mem_new_def fun_eq_iff)
  next
    case (snoc c chips)
    then show ?case
      by (auto simp: mem_all_def mem_ok_put) (auto simp: mem_put_def fun_eq_iff)
  qed
  then show "mem_ok (mem_all chips)" "map_of (mb_chips (mem_all chips)) = (\<lambda>cid. find (\<lambda>c. sc_cid c = cid) (rev chips))"
    by blast+
qed

lemma sled_all_ok: "list_all (codec_reads C) chips \<Longrightarrow>
    sled_ok C (sled_all C chips) \<and> sled_abs C (sled_all C chips) = (\<lambda>cid. find (\<lambda>c. sc_cid c = cid) (rev chips))"
proof (induction chips rule: rev_induct)
  case Nil
  then show ?case
    by (simp add: sled_all_def sled_new_def sled_ok_def sled_readable_def sled_abs_def fun_eq_iff)
next
  case (snoc c chips)
  then show ?case
    by (auto simp: sled_all_def sled_ok_put sled_abs_put fun_eq_iff)
qed

lemma fs_all_ok: "list_all (fs_valid C) chips \<Longrightarrow>
    fs_ok C (fs_all C chips) \<and> fs_abs C (fs_all C chips) = (\<lambda>cid. find (\<lambda>c. sc_cid c = cid) (rev chips))"
proof (induction chips rule: rev_induct)
  case Nil
  then show ?case
    by (simp add: fs_all_def fs_ok_def fs_abs_def fun_eq_iff)
next
  case (snoc c chips)
  then show ?case
    by (auto simp: fs_all_def fs_ok_put fs_abs_put fun_eq_iff)
qed

text \<open>The order of a page: its dates depend only on the chips, not on the order in which a backend finds them, and neither do
  the chips when their dates are different.\<close>

lemma newest_first_dates: "map sc_created_at (newest_first chips) = rev (sort (map sc_created_at chips))"
proof -
  have "sort (map sc_created_at chips) = map sc_created_at (sort_key sc_created_at (rev chips))"
    by (rule properties_for_sort) simp_all
  then show ?thesis
    by (simp add: newest_first_def rev_map)
qed

lemma same_dates:
  assumes "distinct xs" "distinct ys" "set xs = set ys"
  shows "map sc_created_at (newest_first xs) = map sc_created_at (newest_first ys)"
proof -
  have "mset xs = mset ys"
    using assms by (simp add: set_eq_iff_mset_eq_distinct)
  then have "mset (map sc_created_at xs) = mset (map sc_created_at ys)"
    by simp
  then have "sort (map sc_created_at xs) = sort (map sc_created_at ys)"
    by (intro properties_for_sort) simp_all
  then show ?thesis
    by (simp add: newest_first_dates)
qed

lemma same_page:
  assumes "distinct xs" "distinct ys" "set xs = set ys"
  shows "qr_total_count (apply_pagination xs q) = qr_total_count (apply_pagination ys q)"
    "qr_has_more (apply_pagination xs q) = qr_has_more (apply_pagination ys q)"
    "map sc_created_at (qr_chips (apply_pagination xs q)) = map sc_created_at (qr_chips (apply_pagination ys q))"
    "inj_on sc_created_at (set ys) \<Longrightarrow> apply_pagination xs q = apply_pagination ys q"
proof -
  note dates = same_dates [OF assms]
  have len: "length xs = length ys"
    using distinct_card [OF assms(1)] distinct_card [OF assms(2)] assms(3) by simp
  show "qr_total_count (apply_pagination xs q) = qr_total_count (apply_pagination ys q)"
    "qr_has_more (apply_pagination xs q) = qr_has_more (apply_pagination ys q)"
    by (simp_all add: apply_pagination_def Let_def len)
  show "map sc_created_at (qr_chips (apply_pagination xs q)) = map sc_created_at (qr_chips (apply_pagination ys q))"
    using dates by (simp add: apply_pagination_def Let_def flip: take_map drop_map)
  assume "inj_on sc_created_at (set ys)"
  then have "newest_first xs = newest_first ys"
    by (intro map_inj_on [OF dates]) (simp add: assms(3))
  then show "apply_pagination xs q = apply_pagination ys q"
    by (simp add: apply_pagination_def)
qed

text \<open>Lookups by receipt.\<close>

lemma mem_all_receipts: "map_of (mb_receipts (mem_all chips)) rc = map_option sc_cid (find (\<lambda>c. sc_receipt_cid c = rc) (rev chips))"
  by (induction chips rule: rev_induct) (simp_all add: mem_all_def mem_new_def mem_put_def)

lemma sled_all_receipts: "map_of (sl_receipts (sled_all C chips)) rc = map_option sc_cid (find (\<lambda>c. sc_receipt_cid c = rc) (rev chips))"
  by (induction chips rule: rev_induct) (simp_all add: sled_all_def sled_new_def sled_put_ok)

lemma find_SomeD: "find P xs = Some x \<Longrightarrow> x \<in> set xs \<and> P x"
  by (auto simp: find_Some_iff)

lemma find_same:
  assumes "set xs = set ys" "\<And>x y. x \<in> set ys \<Longrightarrow> y \<in> set ys \<Longrightarrow> P x \<Longrightarrow> P y \<Longrightarrow> x = y"
  shows "find P xs = find P ys"
proof (cases "find P xs")
  case None
  then have "find P ys = None"
    using assms(1) by (simp add: find_None_iff)
  with None show ?thesis
    by simp
next
  case (Some x)
  then have x: "x \<in> set ys" "P x"
    using assms(1) find_SomeD [OF Some] by simp_all
  then obtain y where y: "find P ys = Some y"
    by (cases "find P ys") (auto simp: find_None_iff)
  then have "x = y"
    using x assms(2) find_SomeD [OF y] by blast
  with Some y show ?thesis
    by simp
qed

lemma find_distinct: "distinct (map f xs) \<Longrightarrow> find (\<lambda>y. f y = k) xs = Some x \<longleftrightarrow> x \<in> set xs \<and> f x = k"
  by (induction xs) force+

lemma mem_fs_by_receipt:
  assumes "list_all (fs_valid C) chips" "distinct (map sc_cid chips)" "distinct (map sc_receipt_cid chips)"
  shows "fs_get_by_receipt C (fs_all C chips) rc = Inr (mem_get_by_receipt (mem_all chips) rc)"
proof -
  have cids: "distinct (map sc_cid (rev chips))" "distinct (map sc_receipt_cid (rev chips))"
    using assms(2,3) by (simp_all add: rev_map [symmetric])
  obtain cs where cs: "fs_iter_all C (fs_all C chips) = Inr cs" "set cs = {c. \<exists>cid. find (\<lambda>c. sc_cid c = cid) (rev chips) = Some c}"
    using fs_iter_abs [of C "fs_all C chips"] fs_all_ok [OF assms(1)] by auto
  have "set cs = set (rev chips)"
    unfolding cs(2) by (auto simp: find_distinct [OF cids(1)])
  then have "find (\<lambda>c. sc_receipt_cid c = rc) cs = find (\<lambda>c. sc_receipt_cid c = rc) (rev chips)"
    by (rule find_same) (use assms(3) in \<open>auto simp: distinct_map inj_on_def\<close>)
  moreover have "Option.bind (find (\<lambda>c. sc_receipt_cid c = rc) (rev chips)) (\<lambda>c. find (\<lambda>d. sc_cid d = sc_cid c) (rev chips))
      = find (\<lambda>c. sc_receipt_cid c = rc) (rev chips)"
  proof (cases "find (\<lambda>c. sc_receipt_cid c = rc) (rev chips)")
    case (Some c)
    then have "find (\<lambda>d. sc_cid d = sc_cid c) (rev chips) = Some c"
      using find_SomeD [OF Some] find_distinct [OF cids(1)] by simp
    with Some show ?thesis
      by simp
  qed simp
  ultimately show ?thesis
    by (auto simp: fs_get_by_receipt_def cs(1) mem_get_by_receipt_def mem_all_receipts mem_all_ok split: option.split)
qed

text \<open>C13: The three backends are interchangeable after the same chips were stored, although two of them answer from indexes. A lookup
  gives the last chip stored under the identifier. A query has, at every offset and limit, the same number of matches, the same mark for
  further pages and the same dates on its page in all three, and the very same page when the dates of the matching chips are different
  (chips of one date may come in a different order). A lookup by receipt gives the same in memory and in the database, namely the current
  chip under the identifier that was last stored with the receipt, and the same from files when every chip was stored once, with its own receipt
  (after a chip is stored again the file backend knows only its last receipt: \<open>receipts_differ\<close>).\<close>

theorem backends_agree:
  assumes "list_all (fs_valid C) chips" "fs_good cid"
  shows "mem_get (mem_all chips) cid = find (\<lambda>c. sc_cid c = cid) (rev chips)
    \<and> sled_load C (sled_all C chips) cid = Inr (mem_get (mem_all chips) cid)
    \<and> fs_load C (fs_all C chips) cid = Inr (mem_get (mem_all chips) cid)
    \<and> mem_get_by_receipt (mem_all chips) rc = Option.bind (find (\<lambda>c. sc_receipt_cid c = rc) (rev chips)) (\<lambda>c. mem_get (mem_all chips) (sc_cid c))
    \<and> sled_get_by_receipt C (sled_all C chips) rc = Inr (mem_get_by_receipt (mem_all chips) rc)
    \<and> (distinct (map sc_cid chips) \<and> distinct (map sc_receipt_cid chips) \<longrightarrow>
         fs_get_by_receipt C (fs_all C chips) rc = Inr (mem_get_by_receipt (mem_all chips) rc))
    \<and> (\<exists>r r'. sled_query C (sled_all C chips) q = Inr r \<and> fs_query C (fs_all C chips) q = Inr r'
      \<and> (let m = mem_query (mem_all chips) q
         in qr_total_count r = qr_total_count m \<and> qr_total_count r' = qr_total_count m
          \<and> qr_has_more r = qr_has_more m \<and> qr_has_more r' = qr_has_more m
          \<and> map sc_created_at (qr_chips r) = map sc_created_at (qr_chips m) \<and> map sc_created_at (qr_chips r') = map sc_created_at (qr_chips m)
          \<and> (inj_on sc_created_at {c. \<exists>cid. mem_get (mem_all chips) cid = Some c \<and> matches_query c q} \<longrightarrow> r = m \<and> r' = m)))"
    (is "?get \<and> ?sled \<and> ?fs \<and> ?mem_receipt \<and> ?sled_receipt \<and> ?fs_receipt \<and> ?query")
proof -
  have reads: "list_all (codec_reads C) chips"
    using assms(1) by (auto simp: list_all_iff fs_valid_def)
  note sled_all = sled_all_ok [OF reads] and fs_all = fs_all_ok [OF assms(1)]
  have sled_get: "sled_load C (sled_all C chips) k = Inr (mem_get (mem_all chips) k)" for k
    using sled.get_abs [of C "sled_all C chips" k] sled_all by (simp add: sled_ops_def mem_get_def mem_all_ok)
  have ?get
    by (simp add: mem_get_def mem_all_ok)
  moreover have ?fs
    using fs.get_abs [of C "fs_all C chips" cid] fs_all assms(2) by (simp add: fs_ops_def mem_get_def mem_all_ok)
  moreover have ?mem_receipt ?sled_receipt
    by (simp_all add: mem_get_by_receipt_def sled_get_by_receipt_def mem_all_receipts sled_all_receipts sled_get mem_get_def split: option.split)
  moreover have ?fs_receipt
    using mem_fs_by_receipt [OF assms(1)] by blast
  moreover have ?query
  proof -
    let ?S = "{c. \<exists>cid. find (\<lambda>c. sc_cid c = cid) (rev chips) = Some c \<and> matches_query c q}"
    obtain ms where ms: "mem_query (mem_all chips) q = apply_pagination ms q" "distinct (map sc_cid ms)" "set ms = ?S"
      using mem_query_spec [OF mem_all_ok(1), of chips q] by (auto simp: mem_all_ok)
    obtain ss where ss: "sled_query C (sled_all C chips) q = Inr (apply_pagination ss q)" "distinct (map sc_cid ss)" "set ss = ?S"
      using sled_query_spec [of C "sled_all C chips" q] sled_all by auto
    obtain fss where fss: "fs_query C (fs_all C chips) q = Inr (apply_pagination fss q)" "distinct (map sc_cid fss)" "set fss = ?S"
      using fs.query_abs [of C "fs_all C chips" q] fs_all by (auto simp: fs_ops_def)
    have "distinct ms" "distinct ss" "distinct fss" "set ss = set ms" "set fss = set ms"
      using ms(2,3) ss(2,3) fss(2,3) by (simp_all add: distinct_map)
    note pages = same_page [OF this(2,1,4), of q] same_page [OF this(3,1,5), of q]
    have stored: "{c. \<exists>cid. mem_get (mem_all chips) cid = Some c \<and> matches_query c q} = set ms"
      by (simp add: mem_get_def mem_all_ok ms(3))
    show ?thesis
      unfolding Let_def stored ms(1) ss(1) fss(1) using pages by blast
  qed
  ultimately show ?thesis
    using sled_get by blast
qed

definition demo_stored :: "string \<Rightarrow> string \<Rightarrow> stored_chip" where
  "demo_stored cid receipt = \<lparr>sc_cid = cid, sc_type = ''ubl/app'', sc_data = JNull, sc_receipt_cid = receipt, sc_created_at = ''2025'',
     sc_meta = \<lparr>em_runtime_version = [], em_execution_time_ms = 0, em_fuel_consumed = 0, em_policies_applied = [],
       em_executor_did = ''did:x'', em_reproducible = True\<rparr>, sc_tags = [''slug:a''], sc_related = []\<rparr>"

definition demo_codec :: chip_codec where
  "demo_codec = \<lparr>cc_to_vec = (\<lambda>c. sc_cid c @ ''|'' @ sc_receipt_cid c),
     cc_from_slice = (\<lambda>s. case split_on (CHR ''|'') s of [cid, receipt] \<Rightarrow> Some (demo_stored cid receipt) | _ \<Rightarrow> None)\<rparr>"

theorem backends_agree_witness:
  "let chips = [demo_stored ''b3:1'' ''b3:r'', demo_stored ''b3:2'' ''b3:s'']
   in sled_load demo_codec (sled_all demo_codec chips) ''b3:1'' = Inr (Some (demo_stored ''b3:1'' ''b3:r''))
     \<and> fs_get_by_receipt demo_codec (fs_all demo_codec chips) ''b3:s'' = Inr (Some (demo_stored ''b3:2'' ''b3:s''))
     \<and> (\<exists>r. sled_query demo_codec (sled_all demo_codec chips) (query_of None [] (Some 1)) = Inr r
          \<and> qr_has_more r = qr_has_more (mem_query (mem_all chips) (query_of None [] (Some 1))))"
proof -
  let ?chips = "[demo_stored ''b3:1'' ''b3:r'', demo_stored ''b3:2'' ''b3:s'']" and ?q = "query_of None [] (Some 1)"
  have "list_all (fs_valid demo_codec) ?chips" "fs_good ''b3:1''"
    by (simp_all add: fs_valid_def codec_reads_def demo_codec_def demo_stored_def fs_good_def)
  note agree = backends_agree [OF this, of "''b3:s''" ?q]
  have "distinct (map sc_cid ?chips)" "distinct (map sc_receipt_cid ?chips)"
    "mem_get (mem_all ?chips) ''b3:1'' = Some (demo_stored ''b3:1'' ''b3:r'')"
    "mem_get_by_receipt (mem_all ?chips) ''b3:s'' = Some (demo_stored ''b3:2'' ''b3:s'')"
    using agree by (simp_all add: demo_stored_def mem_get_def mem_all_ok)
  then show ?thesis
    unfolding Let_def using agree by (auto simp: Let_def)
qed

text \<open>After a chip is stored again with a new receipt, the file backend does not find it under the first receipt any more.\<close>

lemma receipts_differ:
  "let chips = [demo_stored ''b3:1'' ''b3:r1'', demo_stored ''b3:1'' ''b3:r2'']
   in mem_get_by_receipt (mem_all chips) ''b3:r1'' = Some (demo_stored ''b3:1'' ''b3:r2'')
     \<and> fs_get_by_receipt demo_codec (fs_all demo_codec chips) ''b3:r1'' = Inr None"
  by code_simp

section \<open>The in-memory backend under every operation\<close>

inductive mem_reach :: "mem_backend \<Rightarrow> bool" where
  mem_start: "mem_reach mem_new"
| mem_stores: "mem_reach s \<Longrightarrow> mem_reach (mem_put chip s)"
| mem_deletes: "mem_reach s \<Longrightarrow> mem_reach (mem_delete cid s)"
| mem_rebuilds: "mem_reach s \<Longrightarrow> mem_reach (mem_rebuild_indexes s)"

lemma remove_chip_keeps: "ix_indexed ix c \<Longrightarrow> sc_cid c \<noteq> sc_cid chip \<Longrightarrow> ix_indexed (remove_chip_from_indexes chip ix) c"
  by (auto simp: ix_indexed_def chip_indexed_def remove_chip_from_indexes_def index_entry_remove index_entry_remove_all)

lemma remove_chip_distinct: "ix_distinct ix \<Longrightarrow> ix_distinct (remove_chip_from_indexes chip ix)"
  by (auto simp: ix_distinct_def remove_chip_from_indexes_def index_entry_remove distinct_index_remove distinct_removeAll)

lemma mem_ok_delete: "mem_ok s \<Longrightarrow> mem_ok (mem_delete cid s)"
proof (cases "map_of (mb_chips s) cid")
  case (Some chip)
  assume ok: "mem_ok s"
  then have "sc_cid chip = cid"
    using Some mem_ok_lookup by blast
  then have "sc_cid c = cid' \<and> ix_indexed (remove_chip_from_indexes chip (mb_indexes s)) c"
    if "(cid', c) \<in> set (mb_chips s)" "cid' \<noteq> cid" for cid' c
    using ok that remove_chip_keeps [of "mb_indexes s" c chip] by (force simp: mem_ok_def)
  then show ?thesis
    using ok Some by (auto simp: mem_ok_def mem_delete_def distinct_map_filter remove_chip_distinct)
qed (simp add: mem_delete_def)

lemma rebuild_from_ok: "c \<in> set chips \<Longrightarrow> ix_indexed (rebuild_from chips) c" "ix_distinct (rebuild_from chips)"
proof -
  have "(\<forall>c\<in>set chips. ix_indexed (rebuild_from chips) c) \<and> ix_distinct (rebuild_from chips)"
  proof (induction chips rule: rev_induct)
    case Nil
    then show ?case
      by (simp add: rebuild_from_def ix_distinct_def empty_indexes_def index_entry_def)
  next
    case (snoc c chips)
    then show ?case
      by (auto simp: rebuild_from_def index_chip_indexed index_chip_keeps index_chip_distinct)
  qed
  then show "c \<in> set chips \<Longrightarrow> ix_indexed (rebuild_from chips) c" "ix_distinct (rebuild_from chips)"
    by blast+
qed

lemma mem_ok_rebuild: "mem_ok s \<Longrightarrow> mem_ok (mem_rebuild_indexes s)"
proof -
  assume ok: "mem_ok s"
  have "ix_indexed (rebuild_from (map snd (mb_chips s))) c" if "(cid, c) \<in> set (mb_chips s)" for cid c
    by (rule rebuild_from_ok(1)) (use that in force)
  then show ?thesis
    using ok rebuild_from_ok(2) by (auto simp: mem_ok_def mem_rebuild_indexes_def mem_scan_all_def)
qed

lemma mem_reach_ok: "mem_reach s \<Longrightarrow> mem_ok s"
  by (induction rule: mem_reach.induct) (simp_all add: mem_ok_new mem_ok_put mem_ok_delete mem_ok_rebuild)

text \<open>What a query asks for.\<close>

definition selects :: "chip_query \<Rightarrow> stored_chip \<Rightarrow> bool" where
  "selects q c \<longleftrightarrow> (\<forall>t. cq_type q = Some t \<longrightarrow> sc_type c = t) \<and> set (cq_tags q) \<subseteq> set (sc_tags c)
     \<and> (\<forall>t. cq_created_after q = Some t \<longrightarrow> t < sc_created_at c) \<and> (\<forall>t. cq_created_before q = Some t \<longrightarrow> sc_created_at c < t)
     \<and> (\<forall>did. cq_executor_did q = Some did \<longrightarrow> em_executor_did (sc_meta c) = did)"

lemma matches_query_selects: "matches_query c q \<longleftrightarrow> selects q c"
  by (auto simp: matches_query_def selects_def holds_for_def list_all_iff not_le split: option.split)

lemma page_distinct: "distinct (map sc_cid chips) \<Longrightarrow> distinct (map sc_cid (newest_first chips))"
  by (simp add: newest_first_def distinct_map)

text \<open>C27: In every state of the in-memory store, after any puts, overwrites, deletions and rebuilds, a query is answered from the list, newest
  first and without repetition, of exactly the stored chips that have the type, all the tags, the dates and the executor it asks for: the
  indexes never hide a chip and stale entries never show one. The answer has the length of the whole list, the page of it that starts at the
  offset (default 0) and has at most the limit (default 100), and tells whether the list goes on after the page.\<close>

theorem mem_query_exact:
  assumes "mem_reach s"
  shows "\<exists>chips. distinct (map sc_cid chips) \<and> set chips = {c. \<exists>cid. mem_get s cid = Some c \<and> selects q c}
    \<and> sorted_wrt (\<lambda>a b. sc_created_at b \<le> sc_created_at a) chips
    \<and> (let offset = (case cq_offset q of Some n \<Rightarrow> n | None \<Rightarrow> 0); limit = (case cq_limit q of Some n \<Rightarrow> n | None \<Rightarrow> 100)
       in mem_query s q = \<lparr>qr_chips = take limit (drop offset chips), qr_total_count = length chips,
            qr_has_more = (offset + limit < length chips)\<rparr>)"
proof -
  obtain chips where chips: "mem_query s q = apply_pagination chips q" "distinct (map sc_cid chips)"
    "set chips = {c. \<exists>cid. mem_get s cid = Some c \<and> selects q c}"
    using mem_query_spec [OF mem_reach_ok [OF assms], of q] by (auto simp: mem_get_def matches_query_selects)
  then show ?thesis
    by (intro exI [of _ "newest_first chips"])
      (auto simp: page_distinct newest_first_sorted apply_pagination_def Let_def min_def)
qed

theorem mem_query_exact_witness:
  "mem_query (mem_delete ''b3:1'' (mem_put (demo_stored ''b3:1'' ''b3:r'') mem_new)) (query_of (Some ''ubl/app'') [] None)
     = \<lparr>qr_chips = [], qr_total_count = 0, qr_has_more = False\<rparr>"
proof -
  let ?s = "mem_delete ''b3:1'' (mem_put (demo_stored ''b3:1'' ''b3:r'') mem_new)" and ?q = "query_of (Some ''ubl/app'') [] None"
  have "mem_get ?s cid = None" for cid
    by (simp add: mem_get_def mem_delete_def mem_put_def mem_new_def demo_stored_def)
  moreover have "mem_reach ?s"
    by (intro mem_reach.intros)
  ultimately show ?thesis
    using mem_query_exact [of ?s ?q] by (simp add: Let_def)
qed

section \<open>Recovery of the database backend\<close>

lemma sled_reindex_entries: "sled_reindex chip s
    = with_entries chip (s\<lparr>sl_receipts := obj_insert (sc_receipt_cid chip) (sc_cid chip) (sl_receipts s)\<rparr>)"
  by (simp add: sled_reindex_def sled_add_chip_ok)

lemma fold_reindex_db: "sl_db (fold sled_reindex chips s) = sl_db s"
  by (induction chips arbitrary: s) (simp_all add: sled_reindex_entries)

lemma fold_reindex_indexed: "c \<in> set chips \<Longrightarrow> sled_indexed (fold sled_reindex chips s) c"
proof (induction chips rule: rev_induct)
  case (snoc x chips)
  have "sled_indexed (t\<lparr>sl_receipts := r\<rparr>) = sled_indexed t" for t r
    by (simp add: sled_indexed_def fun_eq_iff)
  with snoc show ?case
    by (auto simp: sled_reindex_entries with_entries_indexed)
qed simp

lemma sled_abs_db: "sl_db s = sl_db s' \<Longrightarrow> sled_abs C s = sled_abs C s' \<and> sled_readable C s = sled_readable C s'"
  by (simp add: sled_abs_def sled_readable_def fun_eq_iff)

lemma sled_rebuild_ok:
  assumes "sled_readable C s"
  shows "\<exists>s'. sled_rebuild_indexes C s = Inr s' \<and> sled_ok C s' \<and> sled_abs C s' = sled_abs C s"
proof -
  obtain chips where chips: "sled_scan_all C s = Inr chips" "set chips = {c. \<exists>cid. sled_abs C s cid = Some c}"
    using sled_scan_abs [OF assms] by blast
  let ?s0 = "s\<lparr>sl_receipts := [], sl_types := [], sl_tags := [], sl_executors := []\<rparr>"
  let ?s' = "fold sled_reindex chips ?s0"
  have "sl_db ?s' = sl_db s"
    by (simp add: fold_reindex_db)
  then have abs: "sled_abs C ?s' = sled_abs C s" "sled_readable C ?s'"
    using sled_abs_db [of ?s' s C] assms by simp_all
  moreover have "sled_indexed ?s' c" if "sled_abs C s cid = Some c" for cid c
    by (rule fold_reindex_indexed) (use that chips(2) in blast)
  ultimately have "sled_ok C ?s'"
    by (auto simp: sled_ok_def)
  then show ?thesis
    using chips(1) abs by (auto simp: sled_rebuild_indexes_def)
qed

lemma sled_step_db: "(\<And>t. sl_db (f t) = sl_db t) \<Longrightarrow> sl_db (snd (sled_step io site f r)) = sl_db (snd r)"
  by (cases r; cases "fst r") (auto simp: sled_step_def split: option.split)

lemma sled_add_tags_db: "sl_db (snd (sled_add_tags io i cid tags r)) = sl_db (snd r)"
  by (induction tags arbitrary: i r) (simp_all add: sled_step_db)

lemma sled_put_db: "sl_db (snd (sled_put C io chip s)) = (if io SledDb = None then obj_insert (sc_cid chip) (cc_to_vec C chip) (sl_db s) else sl_db s)"
proof -
  let ?db = "sled_step io SledDb (\<lambda>s. s\<lparr>sl_db := obj_insert (sc_cid chip) (cc_to_vec C chip) (sl_db s)\<rparr>) (Inr (), s)"
  have "sl_db (snd (sled_put C io chip s)) = sl_db (snd ?db)"
    by (simp add: sled_put_def sled_add_chip_to_indexes_def sled_step_db sled_add_tags_db)
  also have "\<dots> = (if io SledDb = None then obj_insert (sc_cid chip) (cc_to_vec C chip) (sl_db s) else sl_db s)"
    by (auto simp: sled_step_def sled_call_def split: option.split)
  finally show ?thesis .
qed

text \<open>C35: Reopening the database repairs it: whichever call failed while a chip was written, the rebuild succeeds, afterwards
  every query is exact again, and the chip is present if its own record was written and otherwise nothing changed.\<close>

theorem sled_recovers:
  assumes "sled_readable C s" "codec_reads C chip"
  shows "\<exists>s'. sled_rebuild_indexes C (snd (sled_put C io chip s)) = Inr s' \<and> sled_ok C s'
    \<and> sled_abs C s' = (if io SledDb = None then (sled_abs C s)(sc_cid chip \<mapsto> chip) else sled_abs C s)"
proof -
  let ?t = "snd (sled_put C io chip s)"
  have "sled_readable C ?t"
    using assms by (auto simp: sled_readable_def sled_put_db distinct_obj_insert set_obj_insert codec_reads_def)
  moreover have "sled_abs C ?t = (if io SledDb = None then (sled_abs C s)(sc_cid chip \<mapsto> chip) else sled_abs C s)"
    using assms(2) by (auto simp: sled_abs_def sled_put_db codec_reads_def fun_eq_iff)
  ultimately show ?thesis
    using sled_rebuild_ok [of C ?t] by simp
qed

theorem sled_recovers_witness:
  "\<exists>s'. sled_rebuild_indexes demo_codec (snd (sled_put demo_codec ((\<lambda>_. None)(SledTag 0 := Some ''io'')) (demo_stored ''b3:1'' ''b3:r'') sled_new)) = Inr s'
     \<and> sled_abs demo_codec s' ''b3:1'' = Some (demo_stored ''b3:1'' ''b3:r'')"
proof -
  have "sled_readable demo_codec sled_new" "codec_reads demo_codec (demo_stored ''b3:1'' ''b3:r'')"
    by (simp_all add: sled_readable_def sled_new_def codec_reads_def demo_codec_def demo_stored_def)
  from sled_recovers [OF this, of "(\<lambda>_. None)(SledTag 0 := Some ''io'')"] show ?thesis
    by (auto simp: demo_stored_def)
qed

text \<open>A chip that is stored again under a second receipt is found under the first receipt until the database is
  reopened, and not any more after that.\<close>

lemma first_receipt_lost:
  "let s = sled_all demo_codec [demo_stored ''b3:1'' ''b3:r1'', demo_stored ''b3:1'' ''b3:r2'']
   in sled_get_by_receipt demo_codec s ''b3:r1'' = Inr (Some (demo_stored ''b3:1'' ''b3:r2''))
     \<and> map_ok (\<lambda>t. sled_get_by_receipt demo_codec t ''b3:r1'') (sled_rebuild_indexes demo_codec s) = Inr (Inr None)"
  by code_simp

end
