(* ===== verification/Auth.thy ===== *)
theory Auth
  imports Capability Chip_Store
begin

text \<open>
  Onboarding (\<open>crates/ubl_runtime/src/auth.rs\<close>): the six chip types that create and suspend apps,
  users, circles, memberships and sessions, their readers and writers, the scope of a world, the quick
  permission check, and the engine that checks the dependencies of an onboarding chip against the chip
  store and its capability. An error carries the field and the offending text instead of a sentence.
\<close>

section \<open>Errors and roles\<close>

datatype auth_error =
    AuthMissingField string
  | AuthInvalidField string string
  | AuthUnauthorized string
  | AuthDependencyMissing string
  | TokenExpired
  | TokenInvalid string

datatype role = Admin | Member

definition role_as_str :: "role \<Rightarrow> string" where
  "role_as_str r = (case r of Admin \<Rightarrow> ''admin'' | Member \<Rightarrow> ''member'')"

definition role_from_str :: "string \<Rightarrow> auth_error + role" where
  "role_from_str s = (if s = ''admin'' then Inr Admin else if s = ''member'' then Inr Member
     else Inl (AuthInvalidField ''role'' s))"

text \<open>A required text member, and one that must satisfy a check.\<close>

definition need_text :: "json \<Rightarrow> string \<Rightarrow> auth_error + string" where
  "need_text body k = ok_or (AuthMissingField k) (text_at body k)"

definition need_checked :: "(string \<Rightarrow> bool) \<Rightarrow> json \<Rightarrow> string \<Rightarrow> auth_error + string" where
  "need_checked P body k =
     and_then (need_text body k) (\<lambda>s. if P s then Inr s else Inl (AuthInvalidField k s))"

definition slug_ok :: "string \<Rightarrow> bool" where
  "slug_ok s \<longleftrightarrow> s \<noteq> [] \<and> CHR ''/'' \<notin> set s \<and> CHR '' '' \<notin> set s"

abbreviation (input) is_did :: "string \<Rightarrow> bool" where "is_did \<equiv> starts_with ''did:''"
abbreviation (input) is_cid :: "string \<Rightarrow> bool" where "is_cid \<equiv> starts_with ''b3:''"
abbreviation (input) is_named :: "string \<Rightarrow> bool" where "is_named s \<equiv> s \<noteq> []"

section \<open>Chips\<close>

record app_registration =
  ar_slug :: string
  ar_display_name :: string
  ar_owner_did :: string

definition app_from_chip_body :: "json \<Rightarrow> auth_error + app_registration" where
  "app_from_chip_body body =
     and_then (need_checked slug_ok body ''slug'') (\<lambda>slug.
     and_then (need_checked is_named body ''display_name'') (\<lambda>display_name.
     and_then (need_checked is_did body ''owner_did'') (\<lambda>owner_did.
       Inr \<lparr>ar_slug = slug, ar_display_name = display_name, ar_owner_did = owner_did\<rparr>)))"

definition anchored :: "string \<Rightarrow> string \<Rightarrow> string \<Rightarrow> (string \<times> json) list \<Rightarrow> json" where
  "anchored t i world members =
     JObj ([(''@type'', JStr t), (''@id'', JStr i), (''@ver'', JStr ''1.0''), (''@world'', JStr world)] @ members)"

definition world_prefix :: "app_registration \<Rightarrow> string" where
  "world_prefix app = ''a/'' @ ar_slug app"

definition app_to_chip_body :: "app_registration \<Rightarrow> string \<Rightarrow> json" where
  "app_to_chip_body app i = anchored ''ubl/app'' i (world_prefix app)
     [(''slug'', JStr (ar_slug app)), (''display_name'', JStr (ar_display_name app)), (''owner_did'', JStr (ar_owner_did app))]"

record user_identity =
  ui_did :: string
  ui_display_name :: string

definition user_from_chip_body :: "json \<Rightarrow> auth_error + user_identity" where
  "user_from_chip_body body =
     and_then (need_checked is_did body ''did'') (\<lambda>did.
     and_then (need_checked is_named body ''display_name'') (\<lambda>display_name.
       Inr \<lparr>ui_did = did, ui_display_name = display_name\<rparr>))"

definition user_to_chip_body :: "user_identity \<Rightarrow> string \<Rightarrow> string \<Rightarrow> json" where
  "user_to_chip_body user i world = anchored ''ubl/user'' i world
     [(''did'', JStr (ui_did user)), (''display_name'', JStr (ui_display_name user))]"

record tenant_circle =
  tn_slug :: string
  tn_display_name :: string
  tn_creator_cid :: string

definition tenant_from_chip_body :: "json \<Rightarrow> auth_error + tenant_circle" where
  "tenant_from_chip_body body =
     and_then (need_checked slug_ok body ''slug'') (\<lambda>slug.
     and_then (need_checked is_named body ''display_name'') (\<lambda>display_name.
     and_then (need_checked is_cid body ''creator_cid'') (\<lambda>creator_cid.
       Inr \<lparr>tn_slug = slug, tn_display_name = display_name, tn_creator_cid = creator_cid\<rparr>)))"

definition tenant_to_chip_body :: "tenant_circle \<Rightarrow> string \<Rightarrow> string \<Rightarrow> json" where
  "tenant_to_chip_body tenant i world = anchored ''ubl/tenant'' i world
     [(''slug'', JStr (tn_slug tenant)), (''display_name'', JStr (tn_display_name tenant)),
      (''creator_cid'', JStr (tn_creator_cid tenant))]"

record membership =
  ms_user_cid :: string
  ms_tenant_cid :: string
  ms_role :: role

definition membership_from_chip_body :: "json \<Rightarrow> auth_error + membership" where
  "membership_from_chip_body body =
     and_then (need_checked is_cid body ''user_cid'') (\<lambda>user_cid.
     and_then (need_checked is_cid body ''tenant_cid'') (\<lambda>tenant_cid.
     and_then (need_text body ''role'') (\<lambda>role_str.
     and_then (role_from_str role_str) (\<lambda>role.
       Inr \<lparr>ms_user_cid = user_cid, ms_tenant_cid = tenant_cid, ms_role = role\<rparr>))))"

definition membership_to_chip_body :: "membership \<Rightarrow> string \<Rightarrow> string \<Rightarrow> json" where
  "membership_to_chip_body m i world = anchored ''ubl/membership'' i world
     [(''user_cid'', JStr (ms_user_cid m)), (''tenant_cid'', JStr (ms_tenant_cid m)),
      (''role'', JStr (role_as_str (ms_role m)))]"

record session_token =
  tk_user_cid :: string
  tk_scope :: "string list"
  tk_expires_at :: string
  tk_kid :: string

text \<open>Elements of \<open>scope\<close> that are not text are dropped; without an array the scope is \<open>read\<close>.\<close>

definition scope_of :: "json \<Rightarrow> string list" where
  "scope_of body = (case json_get body ''scope'' of
       Some (JArr xs) \<Rightarrow> List.map_filter as_str xs
     | _ \<Rightarrow> [''read''])"

definition token_from_chip_body :: "json \<Rightarrow> auth_error + session_token" where
  "token_from_chip_body body =
     and_then (need_checked is_cid body ''user_cid'') (\<lambda>user_cid.
       let scope = scope_of body
       in and_then (need_text body ''expires_at'') (\<lambda>expires_at.
          and_then (need_text body ''kid'') (\<lambda>kid.
            Inr \<lparr>tk_user_cid = user_cid, tk_scope = scope, tk_expires_at = expires_at, tk_kid = kid\<rparr>)))"

definition token_to_chip_body :: "session_token \<Rightarrow> string \<Rightarrow> string \<Rightarrow> json" where
  "token_to_chip_body t i world = anchored ''ubl/token'' i world
     [(''user_cid'', JStr (tk_user_cid t)), (''scope'', JArr (map JStr (tk_scope t))),
      (''expires_at'', JStr (tk_expires_at t)), (''kid'', JStr (tk_kid t))]"

definition is_expired :: "session_token \<Rightarrow> string \<Rightarrow> bool" where
  "is_expired t now \<longleftrightarrow> tk_expires_at t < now"

definition has_scope :: "session_token \<Rightarrow> string \<Rightarrow> bool" where
  "has_scope t scope = list_ex (\<lambda>s. s = scope \<or> s = ''*'') (tk_scope t)"

record revocation =
  rv_target_cid :: string
  rv_reason :: string
  rv_actor_cid :: string

definition revocation_from_chip_body :: "json \<Rightarrow> auth_error + revocation" where
  "revocation_from_chip_body body =
     and_then (need_checked is_cid body ''target_cid'') (\<lambda>target_cid.
     and_then (need_checked is_named body ''reason'') (\<lambda>reason.
     and_then (need_checked is_cid body ''actor_cid'') (\<lambda>actor_cid.
       Inr \<lparr>rv_target_cid = target_cid, rv_reason = reason, rv_actor_cid = actor_cid\<rparr>)))"

definition revocation_to_chip_body :: "revocation \<Rightarrow> string \<Rightarrow> string \<Rightarrow> json" where
  "revocation_to_chip_body r i world = anchored ''ubl/revoke'' i world
     [(''target_cid'', JStr (rv_target_cid r)), (''reason'', JStr (rv_reason r)), (''actor_cid'', JStr (rv_actor_cid r))]"

section \<open>Worlds and permissions\<close>

record world_scope =
  ws_app :: string
  ws_tenant :: "string option"

definition world_scope_parse :: "string \<Rightarrow> auth_error + world_scope" where
  "world_scope_parse world =
     (let parts = split_on (CHR ''/'') world
      in if length parts < 2 \<or> parts ! 0 \<noteq> ''a'' then Inl (AuthInvalidField ''@world'' world)
         else if parts ! 1 = [] then Inl (AuthInvalidField ''app slug'' [])
         else if length parts \<ge> 4 \<and> parts ! 2 = ''t'' then
           (if parts ! 3 = [] then Inl (AuthInvalidField ''tenant slug'' [])
            else Inr \<lparr>ws_app = parts ! 1, ws_tenant = Some (parts ! 3)\<rparr>)
         else if length parts = 2 then Inr \<lparr>ws_app = parts ! 1, ws_tenant = None\<rparr>
         else Inl (AuthInvalidField ''@world'' world))"

definition app_world :: "world_scope \<Rightarrow> string" where
  "app_world w = ''a/'' @ ws_app w"

definition show_world_scope :: "world_scope \<Rightarrow> string" where
  "show_world_scope w = (case ws_tenant w of
       Some t \<Rightarrow> ''a/'' @ ws_app w @ ''/t/'' @ t
     | None \<Rightarrow> ''a/'' @ ws_app w)"

record permission_context =
  pc_actor_did :: string
  pc_actor_role :: role
  pc_token_scopes :: "string list"
  pc_chip_type :: string
  pc_world :: string

definition to_eval_context :: "permission_context \<Rightarrow> string \<rightharpoonup> string" where
  "to_eval_context p = [''actor.did'' \<mapsto> pc_actor_did p, ''actor.role'' \<mapsto> role_as_str (pc_actor_role p),
     ''token.scopes'' \<mapsto> join_with (CHR '','') (pc_token_scopes p), ''chip.@type'' \<mapsto> pc_chip_type p,
     ''chip.@world'' \<mapsto> pc_world p]"

definition quick_check :: "permission_context \<Rightarrow> auth_error + unit" where
  "quick_check p =
     (if pc_actor_role p = Admin then Inr ()
      else if pc_chip_type p = ''ubl/revoke'' \<or> pc_chip_type p = ''ubl/membership''
      then Inl (AuthUnauthorized (pc_chip_type p)) else Inr ())"

section \<open>Onboarding chips\<close>

definition ONBOARDING_TYPES :: "string list" where
  "ONBOARDING_TYPES = [''ubl/app'', ''ubl/user'', ''ubl/tenant'', ''ubl/membership'', ''ubl/token'', ''ubl/revoke'']"

definition is_onboarding_type :: "string \<Rightarrow> bool" where
  "is_onboarding_type chip_type = List.member ONBOARDING_TYPES chip_type"

datatype onboarding_chip =
    OnbApp app_registration
  | OnbUser user_identity
  | OnbTenant tenant_circle
  | OnbMembership membership
  | OnbToken session_token
  | OnbRevoke revocation

definition parse_onboarding_chip :: "json \<Rightarrow> auth_error + onboarding_chip option" where
  "parse_onboarding_chip body =
     and_then (need_text body ''@type'') (\<lambda>chip_type.
       if chip_type = ''ubl/app'' then map_ok (Some \<circ> OnbApp) (app_from_chip_body body)
       else if chip_type = ''ubl/user'' then map_ok (Some \<circ> OnbUser) (user_from_chip_body body)
       else if chip_type = ''ubl/tenant'' then map_ok (Some \<circ> OnbTenant) (tenant_from_chip_body body)
       else if chip_type = ''ubl/membership'' then map_ok (Some \<circ> OnbMembership) (membership_from_chip_body body)
       else if chip_type = ''ubl/token'' then map_ok (Some \<circ> OnbToken) (token_from_chip_body body)
       else if chip_type = ''ubl/revoke'' then map_ok (Some \<circ> OnbRevoke) (revocation_from_chip_body body)
       else Inr None)"

definition validate_onboarding_chip :: "json \<Rightarrow> auth_error + unit" where
  "validate_onboarding_chip body = map_ok (\<lambda>_. ()) (parse_onboarding_chip body)"

section \<open>The engine\<close>

datatype invalid_chip =
    ChipCapability string cap_error
  | SlugRegistered string
  | BadWorld auth_error
  | FirstUserCapability string cap_error
  | WrongChipType string string string

datatype missing_dependency =
    RevokeTargetMissing string
  | AppMissing string
  | ChipMissing string string
  | ChipRevoked string string

datatype auth_validation_error =
    AvInvalidChip invalid_chip
  | AvDependencyMissing missing_dependency
  | AvInternal store_error

definition auth_query :: "'s backend_ops \<Rightarrow> 's \<Rightarrow> string \<Rightarrow> string \<Rightarrow> nat option \<Rightarrow> auth_validation_error + stored_chip list" where
  "auth_query B s chip_type tag limit = map_ok qr_chips (map_err AvInternal (bo_query B s (query_of (Some chip_type) [tag] limit)))"

definition is_revoked :: "'s backend_ops \<Rightarrow> 's \<Rightarrow> string \<Rightarrow> auth_validation_error + bool" where
  "is_revoked B s target_cid =
     map_ok (\<lambda>chips. chips \<noteq> []) (auth_query B s ''ubl/revoke'' (tag_of ''target_cid'' target_cid) (Some 1))"

fun find_active_app :: "'s backend_ops \<Rightarrow> 's \<Rightarrow> string \<Rightarrow> stored_chip list \<Rightarrow> auth_validation_error + bool" where
  "find_active_app B s slug [] = Inr False"
| "find_active_app B s slug (chip # chips) =
     (if text_at (sc_data chip) ''slug'' = Some slug
      then and_then (is_revoked B s (sc_cid chip)) (\<lambda>revoked.
        if revoked then find_active_app B s slug chips else Inr True)
      else find_active_app B s slug chips)"

definition app_active :: "'s backend_ops \<Rightarrow> 's \<Rightarrow> string \<Rightarrow> auth_validation_error + bool" where
  "app_active B s slug = and_then (auth_query B s ''ubl/app'' (tag_of ''slug'' slug) None) (find_active_app B s slug)"

definition require_app_exists :: "'s backend_ops \<Rightarrow> 's \<Rightarrow> string \<Rightarrow> auth_validation_error + unit" where
  "require_app_exists B s app_slug =
     and_then (app_active B s app_slug) (\<lambda>active.
       if active then Inr () else Inl (AvDependencyMissing (AppMissing app_slug)))"

definition require_chip_exists :: "'s backend_ops \<Rightarrow> 's \<Rightarrow> string \<Rightarrow> string \<Rightarrow> auth_validation_error + unit" where
  "require_chip_exists B s cid expected_type =
     and_then (map_err AvInternal (bo_get B s cid)) (\<lambda>found.
     and_then (ok_or (AvDependencyMissing (ChipMissing expected_type cid)) found) (\<lambda>chip.
       if sc_type chip \<noteq> expected_type then Inl (AvInvalidChip (WrongChipType cid (sc_type chip) expected_type))
       else and_then (is_revoked B s cid) (\<lambda>revoked.
         if revoked then Inl (AvDependencyMissing (ChipRevoked expected_type cid)) else Inr ())))"

definition chip_cap :: "('sk, 'vk) cap_env \<Rightarrow> json \<Rightarrow> string \<Rightarrow> string \<Rightarrow> string \<Rightarrow> auth_validation_error + capability" where
  "chip_cap C body chip_type action world = map_err (AvInvalidChip \<circ> ChipCapability chip_type) (require_cap C body action world)"

definition parse_scope :: "string \<Rightarrow> auth_validation_error + world_scope" where
  "parse_scope world = map_err (AvInvalidChip \<circ> BadWorld) (world_scope_parse world)"

definition validate_onboarding_dependencies :: "'s backend_ops \<Rightarrow> ('sk, 'vk) cap_env \<Rightarrow> 's \<Rightarrow> onboarding_chip \<Rightarrow> json \<Rightarrow> string \<Rightarrow>
    auth_validation_error + unit" where
  "validate_onboarding_dependencies B C s onboarding body world =
     (case onboarding of
        OnbApp app \<Rightarrow>
          and_then (chip_cap C body ''ubl/app'' ''registry:init'' world) (\<lambda>_.
          and_then (app_active B s (ar_slug app)) (\<lambda>active.
            if active then Inl (AvInvalidChip (SlugRegistered (ar_slug app))) else Inr ()))
      | OnbUser _ \<Rightarrow>
          and_then (parse_scope world) (\<lambda>scope.
          and_then (require_app_exists B s (ws_app scope)) (\<lambda>_.
          and_then (auth_query B s ''ubl/user'' (tag_of ''app'' (ws_app scope)) (Some 1)) (\<lambda>existing_users.
            if existing_users = []
            then map_ok (\<lambda>_. ()) (map_err (AvInvalidChip \<circ> FirstUserCapability (ws_app scope)) (require_cap C body ''registry:init'' world))
            else Inr ())))
      | OnbTenant tenant \<Rightarrow>
          and_then (parse_scope world) (\<lambda>scope.
          and_then (require_app_exists B s (ws_app scope)) (\<lambda>_.
            require_chip_exists B s (tn_creator_cid tenant) ''ubl/user''))
      | OnbMembership m \<Rightarrow>
          and_then (chip_cap C body ''ubl/membership'' ''membership:grant'' world) (\<lambda>_.
          and_then (require_chip_exists B s (ms_user_cid m) ''ubl/user'') (\<lambda>_.
            require_chip_exists B s (ms_tenant_cid m) ''ubl/tenant''))
      | OnbToken t \<Rightarrow> require_chip_exists B s (tk_user_cid t) ''ubl/user''
      | OnbRevoke r \<Rightarrow>
          and_then (chip_cap C body ''ubl/revoke'' ''revoke:execute'' world) (\<lambda>_.
          and_then (map_err AvInternal (bo_exists B s (rv_target_cid r))) (\<lambda>present.
            if \<not> present then Inl (AvDependencyMissing (RevokeTargetMissing (rv_target_cid r)))
            else require_chip_exists B s (rv_actor_cid r) ''ubl/user'')))"

section \<open>The check of the pipeline\<close>

datatype onboarding_check_error =
    OcInvalid auth_error
  | OcUnrecognized string
  | OcValidation auth_validation_error

text \<open>The first step of the check stage (\<open>pipeline/stages/check.rs\<close>), with the chip store in place.\<close>

definition onboarding_check :: "'s backend_ops \<Rightarrow> ('sk, 'vk) cap_env \<Rightarrow> 's \<Rightarrow> string \<Rightarrow> json \<Rightarrow> string \<Rightarrow> onboarding_check_error + unit" where
  "onboarding_check B C s chip_type body world =
     (if is_onboarding_type chip_type then
        and_then (map_err OcInvalid (parse_onboarding_chip body)) (\<lambda>onboarding.
        and_then (ok_or (OcUnrecognized chip_type) onboarding) (\<lambda>onboarding.
          map_err OcValidation (validate_onboarding_dependencies B C s onboarding body world)))
      else Inr ())"

end
