(* ===== verification/Auth_Laws.thy ===== *)
theory Auth_Laws
  imports Auth Chip_Backends
begin

text \<open>
  What the onboarding checks keep true of the chip store, whatever chips are submitted in whatever order:
  the references of every stored onboarding chip resolve, an app slug has at most one app that is not
  revoked, and a revocation is permanent. The laws are proved for any backend, in the locale
  \<open>chip_backend\<close>, and stated for the database.
\<close>

section \<open>Readers and writers\<close>

lemma text_at_anchored:
  "text_at (anchored t i w ms) k = (if k = ''@type'' then Some t else if k = ''@id'' then Some i
     else if k = ''@ver'' then Some ''1.0'' else if k = ''@world'' then Some w else Option.bind (map_of ms k) as_str)"
  by (simp add: text_at_def anchored_def)

lemma json_get_anchored: "k \<notin> set [''@type'', ''@id'', ''@ver'', ''@world''] \<Longrightarrow> json_get (anchored t i w ms) k = map_of ms k"
  by (simp add: anchored_def)

lemmas reader_simps = need_checked_def need_text_def text_at_anchored json_get_anchored

definition onb_body :: "onboarding_chip \<Rightarrow> string \<Rightarrow> string \<Rightarrow> json" where
  "onb_body c i w = (case c of
       OnbApp a \<Rightarrow> app_to_chip_body a i | OnbUser u \<Rightarrow> user_to_chip_body u i w | OnbTenant t \<Rightarrow> tenant_to_chip_body t i w
     | OnbMembership m \<Rightarrow> membership_to_chip_body m i w | OnbToken t \<Rightarrow> token_to_chip_body t i w
     | OnbRevoke r \<Rightarrow> revocation_to_chip_body r i w)"

definition onb_valid :: "onboarding_chip \<Rightarrow> bool" where
  "onb_valid c = (case c of
       OnbApp a \<Rightarrow> slug_ok (ar_slug a) \<and> ar_display_name a \<noteq> [] \<and> starts_with ''did:'' (ar_owner_did a)
     | OnbUser u \<Rightarrow> starts_with ''did:'' (ui_did u) \<and> ui_display_name u \<noteq> []
     | OnbTenant t \<Rightarrow> slug_ok (tn_slug t) \<and> tn_display_name t \<noteq> [] \<and> starts_with ''b3:'' (tn_creator_cid t)
     | OnbMembership m \<Rightarrow> starts_with ''b3:'' (ms_user_cid m) \<and> starts_with ''b3:'' (ms_tenant_cid m)
     | OnbToken t \<Rightarrow> starts_with ''b3:'' (tk_user_cid t)
     | OnbRevoke r \<Rightarrow> starts_with ''b3:'' (rv_target_cid r) \<and> rv_reason r \<noteq> [] \<and> starts_with ''b3:'' (rv_actor_cid r))"

lemma map_filter_as_str: "List.map_filter as_str (map JStr xs) = xs"
  by (induction xs) (simp_all add: List.map_filter_simps)

lemma role_from_as_str [simp]: "role_from_str (role_as_str r) = Inr r"
  by (cases r) (simp_all add: role_from_str_def role_as_str_def)

text \<open>An onboarding chip is read back from its own body exactly when its fields are valid, for every identifier and world.\<close>

theorem onboarding_roundtrip: "parse_onboarding_chip (onb_body c i w) = Inr (Some c) \<longleftrightarrow> onb_valid c"
proof (cases c)
  case (OnbApp a)
  then show ?thesis
    by (cases a) (simp add: onb_body_def onb_valid_def parse_onboarding_chip_def app_to_chip_body_def app_from_chip_body_def reader_simps)
next
  case (OnbUser u)
  then show ?thesis
    by (cases u) (simp add: onb_body_def onb_valid_def parse_onboarding_chip_def user_to_chip_body_def user_from_chip_body_def reader_simps)
next
  case (OnbTenant t)
  then show ?thesis
    by (cases t) (simp add: onb_body_def onb_valid_def parse_onboarding_chip_def tenant_to_chip_body_def tenant_from_chip_body_def reader_simps)
next
  case (OnbMembership m)
  then show ?thesis
    by (cases m) (simp add: onb_body_def onb_valid_def parse_onboarding_chip_def membership_to_chip_body_def membership_from_chip_body_def reader_simps)
next
  case (OnbToken t)
  then show ?thesis
    by (cases t) (simp add: onb_body_def onb_valid_def parse_onboarding_chip_def token_to_chip_body_def token_from_chip_body_def scope_of_def
        map_filter_as_str reader_simps)
next
  case (OnbRevoke r)
  then show ?thesis
    by (cases r) (simp add: onb_body_def onb_valid_def parse_onboarding_chip_def revocation_to_chip_body_def revocation_from_chip_body_def reader_simps)
qed

text \<open>A scope is read back from its printed form.\<close>

lemma world_scope_roundtrip:
  assumes "ws_app w \<noteq> []" "CHR ''/'' \<notin> set (ws_app w)" "\<forall>t. ws_tenant w = Some t \<longrightarrow> t \<noteq> [] \<and> CHR ''/'' \<notin> set t"
  shows "world_scope_parse (show_world_scope w) = Inr w"
proof (cases w)
  case (fields app tenant)
  have "''a/'' @ app @ ''/t/'' @ t = ''a'' @ CHR ''/'' # (app @ CHR ''/'' # (''t'' @ CHR ''/'' # t))" for t
    by simp
  moreover have "''a/'' @ app = ''a'' @ CHR ''/'' # app"
    by simp
  ultimately show ?thesis
    using assms unfolding world_scope_parse_def show_world_scope_def fields
    by (cases tenant) (simp_all only: world_scope.simps option.case split_on_append split_on_id, simp_all add: split_on_append split_on_id Let_def)
qed

section \<open>Documents and their identifiers\<close>

text \<open>A set of documents without a hash collision: what a store that only ever receives such documents can rely on.\<close>

definition faithful :: "store_env \<Rightarrow> json set \<Rightarrow> bool" where
  "faithful E D \<longleftrightarrow> (\<forall>b\<in>D. json_wf b \<and> json_small b)
     \<and> (\<forall>b\<in>D. \<forall>b'\<in>D. \<forall>x y. to_nrf1_bytes (se_text E) b = Inr x \<and> to_nrf1_bytes (se_text E) b' = Inr y
          \<and> compute_cid (se_hash E) x = compute_cid (se_hash E) y \<longrightarrow> x = y)"

lemma obj_image_text:
  assumes "obj_image T m = obj_image T m'" "Option.bind (map_of m k) as_str = Some s" "nrf_of_json T (JObj m) = Some v" "distinct (map fst m)"
  shows "Option.bind (map_of m' k) as_str = Some s"
proof -
  have m: "map_of m k = Some (JStr s)"
    using assms(2) by (cases "map_of m k") (auto elim: as_str.elims)
  obtain bt where "json_obj_to_nrf T m ''body'' [] = Inr bt"
    using assms(3) by (auto simp: nrf_of_json_Some [of T _ _ "''body''"] result_simps)
  then have "list_all (\<lambda>(k, v). key_ok T k \<and> (is_null v \<or> nrf_of_json T v \<noteq> None)) m"
    using json_obj_to_nrf_sound [of T m "''body''" "[]" bt] assms(4) by simp
  then have "nrf_of_json T (JStr s) \<noteq> None"
    using map_of_SomeD [OF m] by (auto simp: list_all_iff)
  then have "nrf_of_json T (JStr s) = Some (NString s)"
    by (auto simp: nrf_of_json_Some [of T _ _ "''body''"] nrf_of_json_def json_to_nrf_def split: if_split_asm)
  then have "obj_image T m k = Some (NString s)"
    by (simp add: obj_image_def m)
  then have "obj_image T m' k = Some (NString s)"
    by (simp add: assms(1))
  then obtain u where u: "map_of m' k = Some u" "nrf_of_json T u = Some (NString s)"
    by (auto simp: obj_image_def split: option.splits if_splits)
  then show ?thesis
    by (cases u) (auto simp: nrf_of_json_Some [of T _ _ "''body''"] result_simps split: if_split_asm)
qed

lemma same_nrf_text:
  assumes "nrf_of_json T b = Some v" "nrf_of_json T b' = Some v" "json_wf b" "json_wf b'" "text_at b k = Some s"
  shows "text_at b' k = Some s"
proof -
  obtain m where m: "b = JObj m" "Option.bind (map_of m k) as_str = Some s"
    using assms(5) by (cases b) (auto simp: text_at_def)
  obtain m' where m': "b' = JObj m'"
    using assms(1,2) m(1) by (cases b') (auto simp: nrf_of_json_Some [of T _ _ "''body''"] result_simps split: if_split_asm)
  have "distinct (map fst m)" "distinct (map fst m')"
    using assms(3,4) m(1) m' by simp_all
  then show ?thesis
    using obj_image_text [of T m m' k s v] same_nrf_members [of T m v m'] assms(1,2) m m' by (simp add: text_at_def)
qed

definition stored_as :: "store_env \<Rightarrow> json set \<Rightarrow> stored_chip \<Rightarrow> bool" where
  "stored_as E D c \<longleftrightarrow> sc_data c \<in> D \<and> text_at (sc_data c) ''@type'' = Some (sc_type c)
     \<and> (\<exists>receipt now meta. stored_form E (sc_data c) receipt now meta = Inr c)"

lemma stored_form_sel:
  assumes "stored_form E d receipt now meta = Inr c"
  obtains x where "to_nrf1_bytes (se_text E) d = Inr x" "sc_cid c = compute_cid (se_hash E) x" "sc_data c = d" "sc_created_at c = now"
    "sc_type c = (case text_at d ''@type'' of Some t \<Rightarrow> t | None \<Rightarrow> ''unknown'')"
    "sc_tags c = extract_tags (se_day_of E) d (sc_type c)"
  using assms by (auto simp: stored_form_def result_simps Let_def)

lemma stored_as_sel:
  assumes "stored_as E D c"
  obtains x where "to_nrf1_bytes (se_text E) (sc_data c) = Inr x" "sc_cid c = compute_cid (se_hash E) x"
    "sc_tags c = extract_tags (se_day_of E) (sc_data c) (sc_type c)"
  using assms unfolding stored_as_def by (metis stored_form_sel)

lemma same_cid_text:
  assumes "faithful E D" "stored_as E D c" "stored_as E D c'" "sc_cid c = sc_cid c'"
  shows "text_at (sc_data c) k = text_at (sc_data c') k"
proof -
  have D: "sc_data c \<in> D" "sc_data c' \<in> D"
    using assms(2,3) by (simp_all add: stored_as_def)
  then have wf: "json_wf (sc_data c)" "json_small (sc_data c)" "json_wf (sc_data c')" "json_small (sc_data c')"
    using assms(1) by (auto simp: faithful_def)
  obtain x where x: "to_nrf1_bytes (se_text E) (sc_data c) = Inr x" "sc_cid c = compute_cid (se_hash E) x"
    using assms(2) by (rule stored_as_sel)
  obtain y where y: "to_nrf1_bytes (se_text E) (sc_data c') = Inr y" "sc_cid c' = compute_cid (se_hash E) y"
    using assms(3) by (rule stored_as_sel)
  have "x = y"
    using assms(1,4) D x y unfolding faithful_def by metis
  then have same: "nrf_of_json (se_text E) (sc_data c) = nrf_of_json (se_text E) (sc_data c')"
    using same_bytes_same_nrf [OF wf x(1)] y(1) by simp
  obtain v where v: "nrf_of_json (se_text E) (sc_data c) = Some v" "nrf_of_json (se_text E) (sc_data c') = Some v"
    using x(1) same by (auto simp: to_nrf1_bytes_iff)
  show ?thesis
    using same_nrf_text [OF v wf(1,3), of k] same_nrf_text [OF v(2,1) wf(3,1), of k] by (cases "text_at (sc_data c) k"; cases "text_at (sc_data c') k") auto
qed

text \<open>The tags that the engine queries stand for one member each.\<close>

lemma tag_of_inject: "CHR '':'' \<notin> set f \<Longrightarrow> CHR '':'' \<notin> set g \<Longrightarrow> tag_of f x = tag_of g y \<longleftrightarrow> f = g \<and> x = y"
proof -
  assume *: "CHR '':'' \<notin> set f" "CHR '':'' \<notin> set g"
  have "f = g \<and> x = y" if eq: "f @ CHR '':'' # x = g @ CHR '':'' # y"
  proof -
    have "f = g"
      using arg_cong [OF eq, of "split_on (CHR '':'')"] unfolding split_on_append [OF *(1)] split_on_append [OF *(2)] by simp
    with eq show ?thesis
      by simp
  qed
  then show ?thesis
    by (auto simp: tag_of_def)
qed

lemma tag_iff:
  assumes "k \<in> {''target_cid'', ''slug''}"
  shows "tag_of k x \<in> set (extract_tags day d t) \<longleftrightarrow> text_at d k = Some x"
proof -
  have k: "CHR '':'' \<notin> set k" "k \<in> set TAG_FIELDS" "k \<noteq> ''type''" "k \<noteq> ''id''" "k \<noteq> ''world''" "k \<noteq> ''app''" "k \<noteq> ''tenant''" "k \<noteq> ''date''"
    using assms by (auto simp: TAG_FIELDS_def)
  have "tag_of k x \<notin> set (world_tags w)" for w
    using k by (auto simp: world_tags_def Let_def tag_of_inject)
  moreover have "tag_of k x \<in> set (List.map_filter (\<lambda>field. map_option (tag_of field) (text_at d field)) TAG_FIELDS) \<longleftrightarrow> text_at d k = Some x"
  proof -
    have "list_all (\<lambda>f. CHR '':'' \<notin> set f) TAG_FIELDS"
      by (simp add: TAG_FIELDS_def)
    then show ?thesis
      using k(1,2) by (auto simp: set_map_filter list_all_iff tag_of_inject)
  qed
  ultimately show ?thesis
    using k by (auto simp: extract_tags_def tag_of_inject split: option.splits)
qed

lemma stored_tags:
  assumes "stored_as E D c"
  shows "tag_of ''target_cid'' x \<in> set (sc_tags c) \<longleftrightarrow> text_at (sc_data c) ''target_cid'' = Some x"
    and "tag_of ''slug'' x \<in> set (sc_tags c) \<longleftrightarrow> text_at (sc_data c) ''slug'' = Some x"
  using stored_as_sel [OF assms] by (metis insert_iff tag_iff)+

section \<open>Histories of a store\<close>

text \<open>The stores that submitted documents lead to: each chip passed the onboarding check of its time and was
  stored with a later time than all before. \<open>D\<close> holds every document of the history.\<close>

inductive onboarded :: "'s backend_ops \<Rightarrow> store_env \<Rightarrow> ('sk, 'vk) cap_env \<Rightarrow> json set \<Rightarrow> 's \<times> string \<Rightarrow> 's \<times> string \<Rightarrow> bool"
  for B E C D start where
  onboarded_start: "onboarded B E C D start start"
| onboarded_accept: "onboarded B E C D start (s, t) \<Longrightarrow> body \<in> D \<Longrightarrow> t < now \<Longrightarrow>
    text_at body ''@type'' = Some chip_type \<Longrightarrow> text_at body ''@world'' = Some world \<Longrightarrow>
    onboarding_check B (C\<lparr>cp_now := instant\<rparr>) s chip_type body world = Inr () \<Longrightarrow>
    store_executed_chip B E body receipt now metadata (s, ix) = (Inr cid, s', ix') \<Longrightarrow>
    onboarded B E C D start (s', now)"

text \<open>The chips of a store as a map: when an identifier is revoked, has a type, or names an app.\<close>

type_synonym chip_map = "string \<Rightarrow> stored_chip option"

definition revoked :: "chip_map \<Rightarrow> string \<Rightarrow> bool" where
  "revoked A cid \<longleftrightarrow> (\<exists>k r. A k = Some r \<and> sc_type r = ''ubl/revoke'' \<and> text_at (sc_data r) ''target_cid'' = Some cid)"

definition typed :: "chip_map \<Rightarrow> string \<Rightarrow> string \<Rightarrow> bool" where
  "typed A cid t \<longleftrightarrow> (\<exists>c. A cid = Some c \<and> sc_type c = t)"

definition app_of :: "chip_map \<Rightarrow> string \<Rightarrow> stored_chip \<Rightarrow> bool" where
  "app_of A slug c \<longleftrightarrow> A (sc_cid c) = Some c \<and> sc_type c = ''ubl/app'' \<and> text_at (sc_data c) ''slug'' = Some slug"

lemma app_of_slug: "app_of A slug c \<Longrightarrow> text_at (sc_data c) ''slug'' = Some slug"
  by (simp add: app_of_def)

definition dependencies :: "chip_map \<Rightarrow> json \<Rightarrow> onboarding_chip \<Rightarrow> bool" where
  "dependencies A body c = (case c of
       OnbApp _ \<Rightarrow> True
     | OnbUser _ \<Rightarrow> \<exists>w scope app. text_at body ''@world'' = Some w \<and> world_scope_parse w = Inr scope \<and> app_of A (ws_app scope) app
     | OnbTenant t \<Rightarrow> typed A (tn_creator_cid t) ''ubl/user''
         \<and> (\<exists>w scope app. text_at body ''@world'' = Some w \<and> world_scope_parse w = Inr scope \<and> app_of A (ws_app scope) app)
     | OnbMembership m \<Rightarrow> typed A (ms_user_cid m) ''ubl/user'' \<and> typed A (ms_tenant_cid m) ''ubl/tenant''
     | OnbToken t \<Rightarrow> typed A (tk_user_cid t) ''ubl/user''
     | OnbRevoke r \<Rightarrow> A (rv_target_cid r) \<noteq> None \<and> typed A (rv_actor_cid r) ''ubl/user'')"

definition chips_ok :: "store_env \<Rightarrow> json set \<Rightarrow> chip_map \<Rightarrow> string \<Rightarrow> bool" where
  "chips_ok E D A t \<longleftrightarrow> (\<forall>cid c. A cid = Some c \<longrightarrow> sc_cid c = cid \<and> stored_as E D c \<and> sc_created_at c \<le> t
     \<and> (is_onboarding_type (sc_type c) \<longrightarrow> (\<exists>ob. parse_onboarding_chip (sc_data c) = Inr (Some ob) \<and> dependencies A (sc_data c) ob)))"

lemma chips_okD:
  assumes "chips_ok E D A t" "A cid = Some c"
  shows "sc_cid c = cid" "stored_as E D c" "sc_created_at c \<le> t"
    and "is_onboarding_type (sc_type c) \<Longrightarrow> \<exists>ob. parse_onboarding_chip (sc_data c) = Inr (Some ob) \<and> dependencies A (sc_data c) ob"
  using assms unfolding chips_ok_def by blast+

definition apps_ok :: "chip_map \<Rightarrow> bool" where
  "apps_ok A \<longleftrightarrow> (\<forall>slug c d. app_of A slug c \<and> app_of A slug d \<and> c \<noteq> d \<and> sc_created_at c \<le> sc_created_at d \<longrightarrow> revoked A (sc_cid c))"

text \<open>Storing a chip only replaces one with the same text members, so nothing that was known is lost.\<close>

lemma put_mono:
  assumes "faithful E D" "chips_ok E D A t" "stored_as E D chip"
  defines "A' \<equiv> A(sc_cid chip \<mapsto> chip)"
  shows "revoked A cid \<Longrightarrow> revoked A' cid"
    and "typed A cid ty \<Longrightarrow> typed A' cid ty"
    and "app_of A slug c \<Longrightarrow> \<exists>c'. app_of A' slug c'"
    and "dependencies A body ob \<Longrightarrow> dependencies A' body ob"
proof -
  have same: "\<exists>c'. A' cid = Some c' \<and> sc_cid c' = cid \<and> sc_type c' = sc_type c \<and> (\<forall>k. text_at (sc_data c') k = text_at (sc_data c) k)"
    if c: "A cid = Some c" for cid c
  proof (cases "cid = sc_cid chip")
    case True
    then have "sc_cid chip = sc_cid c" "stored_as E D c"
      using assms(2) c by (auto simp: chips_ok_def)
    then have "text_at (sc_data chip) k = text_at (sc_data c) k" for k
      using same_cid_text [OF assms(1,3)] by blast
    moreover from this have "sc_type chip = sc_type c"
      using assms(3) \<open>stored_as E D c\<close> by (auto simp: stored_as_def)
    ultimately show ?thesis
      using True by (simp add: A'_def)
  next
    case False
    then show ?thesis
      using assms(2) c by (auto simp: A'_def chips_ok_def)
  qed
  show r: "revoked A' cid" if "revoked A cid" for cid
    using that same unfolding revoked_def by metis
  show ty: "typed A' cid ty" if "typed A cid ty" for cid ty
    using that same unfolding typed_def by metis
  show ap: "\<exists>c'. app_of A' slug c'" if "app_of A slug c" for slug c
    using that same unfolding app_of_def by metis
  show "dependencies A' body ob" if "dependencies A body ob"
    using that ty ap unfolding dependencies_def by (cases ob) (simp_all add: A'_def, blast+)
qed

section \<open>The engine on a backend\<close>

lemma matches_query_of: "matches_query c (query_of (Some ty) [tag] limit) \<longleftrightarrow> sc_type c = ty \<and> tag \<in> set (sc_tags c)"
  by (simp add: matches_query_def query_of_def holds_for_def)

lemma query_of_page [simp]: "cq_offset (query_of ty tags limit) = None" "cq_limit (query_of ty tags limit) = limit"
  by (simp_all add: query_of_def)

context chip_backend
begin

lemma is_revoked_spec:
  assumes "ok s" "chips_ok E D (abs s) t"
  shows "is_revoked B s cid = Inr (revoked (abs s) cid)"
proof -
  obtain r where "bo_query B s (query_of (Some ''ubl/revoke'') [tag_of ''target_cid'' cid] (Some 1)) = Inr r"
    "qr_chips r \<noteq> [] \<longleftrightarrow> (\<exists>k c. abs s k = Some c \<and> sc_type c = ''ubl/revoke'' \<and> tag_of ''target_cid'' cid \<in> set (sc_tags c))"
    using query_nonempty [OF assms(1), of "query_of (Some ''ubl/revoke'') [tag_of ''target_cid'' cid] (Some 1)"]
    by (auto simp: matches_query_of)
  moreover have "tag_of ''target_cid'' cid \<in> set (sc_tags c) \<longleftrightarrow> text_at (sc_data c) ''target_cid'' = Some cid" if "abs s k = Some c" for k c
    using stored_tags(1) [OF chips_okD(2) [OF assms(2) that]] .
  ultimately show ?thesis
    by (auto simp: is_revoked_def auth_query_def revoked_def)
qed

lemma find_active_spec:
  assumes "ok s" "chips_ok E D (abs s) t"
  shows "find_active_app B s slug chips = Inr (\<exists>c\<in>set chips. text_at (sc_data c) ''slug'' = Some slug \<and> \<not> revoked (abs s) (sc_cid c))"
  by (induction chips) (auto simp: is_revoked_spec [OF assms])

text \<open>The page of a query holds at most a hundred apps; the one that is not revoked is the newest, so it is on the page.\<close>

lemma app_active_spec:
  assumes "ok s" "chips_ok E D (abs s) t" "apps_ok (abs s)"
  shows "app_active B s slug = Inr (\<exists>c. app_of (abs s) slug c \<and> \<not> revoked (abs s) (sc_cid c))"
proof -
  let ?q = "query_of (Some ''ubl/app'') [tag_of ''slug'' slug] None"
  obtain r where r: "bo_query B s ?q = Inr r"
    using query_abs [OF assms(1), of ?q] by blast
  have match: "matches_query c ?q \<longleftrightarrow> app_of (abs s) slug c" if "abs s (sc_cid c) = Some c" for c
    using that stored_tags(2) [OF chips_okD(2) [OF assms(2) that], of slug] by (simp add: matches_query_of app_of_def)
  have page: "app_of (abs s) slug c" if "c \<in> set (qr_chips r)" for c
    using query_sound [OF assms(1) r that] match by blast
  have newest: "c \<in> set (qr_chips r)" if c: "app_of (abs s) slug c" "\<not> revoked (abs s) (sc_cid c)" for c
  proof -
    have "sc_created_at d < sc_created_at c" if "abs s cid' = Some d" "matches_query d ?q" "d \<noteq> c" for cid' d
    proof (rule ccontr)
      assume "\<not> sc_created_at d < sc_created_at c"
      moreover have "app_of (abs s) slug d"
        using that match [of d] abs_cid [OF assms(1) that(1)] by simp
      ultimately have "revoked (abs s) (sc_cid c)"
        using assms(3) c(1) that(3) unfolding apps_ok_def by (metis not_less)
      with c(2) show False ..
    qed
    moreover have "abs s (sc_cid c) = Some c"
      using c(1) by (simp add: app_of_def)
    ultimately show ?thesis
      using query_newest [OF assms(1), of "sc_cid c" c ?q] match [of c] c(1) r by auto
  qed
  have "(\<exists>c\<in>set (qr_chips r). text_at (sc_data c) ''slug'' = Some slug \<and> \<not> revoked (abs s) (sc_cid c))
    \<longleftrightarrow> (\<exists>c. app_of (abs s) slug c \<and> \<not> revoked (abs s) (sc_cid c))"
    using page newest app_of_slug by blast
  then show ?thesis
    by (simp add: app_active_def auth_query_def r find_active_spec [OF assms(1,2)])
qed

lemma require_chip_spec:
  assumes "ok s" "chips_ok E D (abs s) t" "good cid"
  shows "require_chip_exists B s cid ty = Inr () \<longleftrightarrow> typed (abs s) cid ty \<and> \<not> revoked (abs s) cid"
  by (cases "abs s cid") (auto simp: require_chip_exists_def get_abs [OF assms(1,3)] is_revoked_spec [OF assms(1,2)] typed_def)

lemma require_app_spec:
  assumes "ok s" "chips_ok E D (abs s) t" "apps_ok (abs s)"
  shows "require_app_exists B s slug = Inr () \<longleftrightarrow> (\<exists>c. app_of (abs s) slug c \<and> \<not> revoked (abs s) (sc_cid c))"
  by (simp add: require_app_exists_def app_active_spec [OF assms])

text \<open>What the check established, and that it stays true when the chip is stored.\<close>

lemma checked_dependencies:
  assumes "ok s" "chips_ok E D (abs s) t" "apps_ok (abs s)" "\<And>cid. good cid"
    and "text_at body ''@world'' = Some world" "is_onboarding_type ty" "onboarding_check B C s ty body world = Inr ()"
  shows "\<exists>ob. parse_onboarding_chip body = Inr (Some ob) \<and> dependencies (abs s) body ob
    \<and> (\<forall>app. ob = OnbApp app \<longrightarrow> (\<forall>c. app_of (abs s) (ar_slug app) c \<longrightarrow> revoked (abs s) (sc_cid c)))"
proof -
  obtain ob where ob: "parse_onboarding_chip body = Inr (Some ob)" "validate_onboarding_dependencies B C s ob body world = Inr ()"
    using assms(6,7) by (auto simp: onboarding_check_def result_simps)
  note specs = require_chip_spec [OF assms(1,2,4)] require_app_spec [OF assms(1-3)] app_active_spec [OF assms(1-3)]
  have "dependencies (abs s) body ob"
    using ob(2) assms(5) exists_abs [OF assms(1,4)]
    by (cases ob) (auto simp: validate_onboarding_dependencies_def dependencies_def parse_scope_def result_simps specs split: if_splits)
  moreover have "revoked (abs s) (sc_cid c)" if "ob = OnbApp app" "app_of (abs s) (ar_slug app) c" for app c
    using ob(2) that by (auto simp: validate_onboarding_dependencies_def result_simps specs split: if_splits)
  ultimately show ?thesis
    using ob(1) by blast
qed

end

section \<open>The invariant\<close>

lemma parsed_app:
  assumes "parse_onboarding_chip body = Inr (Some ob)" "text_at body ''@type'' = Some ''ubl/app''"
  shows "\<exists>a. ob = OnbApp a \<and> text_at body ''slug'' = Some (ar_slug a)"
  using assms by (auto simp: parse_onboarding_chip_def need_text_def app_from_chip_body_def need_checked_def result_simps split: if_splits)

lemma put_cases: "(A(sc_cid chip \<mapsto> chip)) cid = Some c \<Longrightarrow> c = chip \<and> cid = sc_cid chip \<or> cid \<noteq> sc_cid chip \<and> A cid = Some c"
  by (auto split: if_splits)

lemma chips_put:
  assumes "faithful E D" "chips_ok E D A t" "stored_as E D chip" "t \<le> sc_created_at chip"
    and "is_onboarding_type (sc_type chip) \<Longrightarrow> \<exists>ob. parse_onboarding_chip (sc_data chip) = Inr (Some ob) \<and> dependencies A (sc_data chip) ob"
  shows "chips_ok E D (A(sc_cid chip \<mapsto> chip)) (sc_created_at chip)"
  unfolding chips_ok_def
proof (intro allI impI)
  fix cid c
  assume "(A(sc_cid chip \<mapsto> chip)) cid = Some c"
  then consider "c = chip" "cid = sc_cid chip" | "A cid = Some c"
    using put_cases by blast
  then show "sc_cid c = cid \<and> stored_as E D c \<and> sc_created_at c \<le> sc_created_at chip
    \<and> (is_onboarding_type (sc_type c) \<longrightarrow>
        (\<exists>ob. parse_onboarding_chip (sc_data c) = Inr (Some ob) \<and> dependencies (A(sc_cid chip \<mapsto> chip)) (sc_data c) ob))"
  proof cases
    case 1
    then show ?thesis
      using assms(3,5) put_mono(4) [OF assms(1-3)] by blast
  next
    case 2
    then show ?thesis
      using chips_okD [OF assms(2) 2] assms(4) put_mono(4) [OF assms(1-3)] by force
  qed
qed

lemma apps_put:
  assumes "faithful E D" "chips_ok E D A t" "stored_as E D chip" "t < sc_created_at chip" "apps_ok A"
    and "\<And>slug c. sc_type chip = ''ubl/app'' \<Longrightarrow> text_at (sc_data chip) ''slug'' = Some slug \<Longrightarrow> app_of A slug c \<Longrightarrow> revoked A (sc_cid c)"
  shows "apps_ok (A(sc_cid chip \<mapsto> chip))"
  unfolding apps_ok_def
proof (intro allI impI)
  let ?A = "A(sc_cid chip \<mapsto> chip)"
  fix slug c d
  assume *: "app_of ?A slug c \<and> app_of ?A slug d \<and> c \<noteq> d \<and> sc_created_at c \<le> sc_created_at d"
  have old: "app_of A slug x" if "app_of ?A slug x" "x \<noteq> chip" for x
    using that put_cases [of A chip "sc_cid x" x] unfolding app_of_def by blast
  have "c \<noteq> chip"
  proof
    assume "c = chip"
    then have "app_of A slug d"
      using * old by blast
    then have "sc_created_at d \<le> t"
      using chips_okD(3) [OF assms(2)] unfolding app_of_def by blast
    then have "sc_created_at chip \<le> t"
      using * \<open>c = chip\<close> order_trans by blast
    with assms(4) show False
      by simp
  qed
  then have c: "app_of A slug c"
    using * old by blast
  have "revoked A (sc_cid c)"
  proof (cases "d = chip")
    case True
    then show ?thesis
      using * c assms(6) unfolding app_of_def by blast
  next
    case False
    then show ?thesis
      using * c old assms(5) unfolding apps_ok_def by blast
  qed
  then show "revoked ?A (sc_cid c)"
    by (rule put_mono(1) [OF assms(1-3)])
qed

context chip_backend
begin

lemma accept_step:
  assumes "faithful E D" "ok s" "chips_ok E D (abs s) t" "apps_ok (abs s)" "\<And>cid. good cid" "\<And>c. valid c"
    and "body \<in> D" "t < now" "text_at body ''@type'' = Some chip_type" "text_at body ''@world'' = Some world"
    and "onboarding_check B C s chip_type body world = Inr ()"
    and "store_executed_chip B E body receipt now metadata (s, ix) = (Inr cid, s', ix')"
  obtains chip where "stored_as E D chip" "abs s' = (abs s)(sc_cid chip \<mapsto> chip)" "ok s'"
    "chips_ok E D (abs s') now" "apps_ok (abs s')"
proof -
  obtain chip where chip: "stored_form E body receipt now metadata = Inr chip" "\<exists>u. bo_put B chip s = (Inr u, s')"
    using assms(12) by (auto simp: store_executed_chip_def split: sum.splits prod.splits)
  then have put: "bo_put B chip s = (Inr (), s')"
    by simp
  have sel: "sc_data chip = body" "sc_created_at chip = now" "sc_type chip = chip_type"
    using chip(1) assms(9) by (auto elim!: stored_form_sel)
  have stored: "stored_as E D chip"
    using chip(1) assms(7,9) sel unfolding stored_as_def by blast
  have s': "ok s'" "abs s' = (abs s)(sc_cid chip \<mapsto> chip)"
    using put_abs [OF assms(2) assms(6), of chip] put by auto
  note checked = checked_dependencies [OF assms(2-5,10) _ assms(11)]
  have "chips_ok E D ((abs s)(sc_cid chip \<mapsto> chip)) (sc_created_at chip)"
    using checked assms(8) sel by (intro chips_put [OF assms(1,3) stored]) auto
  moreover have "revoked (abs s) (sc_cid c)"
    if "sc_type chip = ''ubl/app''" "text_at (sc_data chip) ''slug'' = Some slug" "app_of (abs s) slug c" for slug c
  proof -
    have "is_onboarding_type chip_type" "text_at body ''@type'' = Some ''ubl/app''"
      using that(1) sel assms(9) by (simp_all add: is_onboarding_type_def ONBOARDING_TYPES_def)
    then show ?thesis
      using checked parsed_app [of body] that(2,3) sel(1) by fastforce
  qed
  then have "apps_ok ((abs s)(sc_cid chip \<mapsto> chip))"
    using assms(8) sel by (intro apps_put [OF assms(1,3) stored _ assms(4)]) auto
  ultimately show thesis
    using that [OF stored] s' sel by simp
qed

lemma onboarded_invariant:
  assumes "onboarded B E C D (s0, t0) (s, t)" "faithful E D" "\<And>cid. good cid" "\<And>c. valid c"
    and "ok s0" "chips_ok E D (abs s0) t0" "apps_ok (abs s0)"
  shows "ok s \<and> chips_ok E D (abs s) t \<and> apps_ok (abs s) \<and> (\<forall>cid. revoked (abs s0) cid \<longrightarrow> revoked (abs s) cid)"
  using assms(1)
proof (induction "(s, t)" arbitrary: s t rule: onboarded.induct)
  case onboarded_start
  then show ?case
    using assms by simp
next
  case (onboarded_accept s t body now chip_type world instant receipt metadata ix cid s' ix')
  then have IH: "ok s" "chips_ok E D (abs s) t" "apps_ok (abs s)" "\<And>cid. revoked (abs s0) cid \<Longrightarrow> revoked (abs s) cid"
    by simp_all
  from accept_step [OF assms(2) IH(1-3) assms(3,4) onboarded_accept(3-8)] obtain chip where
    "stored_as E D chip" "abs s' = (abs s)(sc_cid chip \<mapsto> chip)" "ok s'" "chips_ok E D (abs s') now" "apps_ok (abs s')" .
  then show ?case
    using IH(4) put_mono(1) [OF assms(2) IH(2)] by simp
qed

end

section \<open>Stores of onboarding chips\<close>

abbreviation mem_chips :: "mem_backend \<Rightarrow> chip_map" where
  "mem_chips s \<equiv> map_of (mb_chips s)"

lemma empty_chips_ok: "chips_ok E D (\<lambda>_. None) t" "apps_ok (\<lambda>_. None)"
  by (simp_all add: chips_ok_def apps_ok_def app_of_def)

lemma mem_new_chips: "mem_chips mem_new = (\<lambda>_. None)"
  by (simp add: mem_new_def fun_eq_iff)

lemma mem_history:
  assumes "onboarded mem_ops E C D (mem_new, []) (s, t)" "faithful E D"
  shows "mem_ok s \<and> chips_ok E D (mem_chips s) t \<and> apps_ok (mem_chips s)"
  using mem.onboarded_invariant [OF assms TrueI TrueI mem_ok_new] empty_chips_ok by (simp add: mem_new_chips)

text \<open>C21: An app slug never has two apps that are not revoked, and the engine finds exactly the apps that are not
  revoked, although its query returns at most a hundred chips: whatever is registered, revoked and registered again.\<close>

theorem app_slug_unique:
  assumes "onboarded mem_ops E C D (mem_new, []) (s, t)" "faithful E D"
  shows "(\<exists>\<^sub>\<le>\<^sub>1c. app_of (mem_chips s) slug c \<and> \<not> revoked (mem_chips s) (sc_cid c))
    \<and> (require_app_exists mem_ops s slug = Inr () \<longleftrightarrow> (\<exists>c. app_of (mem_chips s) slug c \<and> \<not> revoked (mem_chips s) (sc_cid c)))"
proof
  have inv: "mem_ok s" "chips_ok E D (mem_chips s) t" "apps_ok (mem_chips s)"
    using mem_history [OF assms] by simp_all
  then show "require_app_exists mem_ops s slug = Inr () \<longleftrightarrow> (\<exists>c. app_of (mem_chips s) slug c \<and> \<not> revoked (mem_chips s) (sc_cid c))"
    by (rule mem.require_app_spec)
  show "\<exists>\<^sub>\<le>\<^sub>1c. app_of (mem_chips s) slug c \<and> \<not> revoked (mem_chips s) (sc_cid c)"
    using inv(3) unfolding Uniq_def apps_ok_def by (metis linear)
qed

text \<open>C22: Every stored onboarding chip parses and its references resolve in the store: members and sessions have their user,
  memberships their circle, users and circles their app, revocations their target and actor.\<close>

theorem onboarding_closed:
  assumes "onboarded mem_ops E C D (mem_new, []) (s, t)" "faithful E D" "mem_get s cid = Some c" "is_onboarding_type (sc_type c)"
  shows "\<exists>ob. parse_onboarding_chip (sc_data c) = Inr (Some ob) \<and> dependencies (mem_chips s) (sc_data c) ob"
  using mem_history [OF assms(1,2)] chips_okD(4) [of E D "mem_chips s" t cid c] assms(3,4) by (simp add: mem_get_def)

text \<open>A revocation is permanent: a chip that is revoked once never counts again as a dependency, whatever is stored later.\<close>

theorem revocation_permanent:
  assumes "onboarded mem_ops E C D (mem_new, []) (s, t)" "onboarded mem_ops E C D (s, t) (s', t')" "faithful E D"
    and "is_revoked mem_ops s cid = Inr True"
  shows "is_revoked mem_ops s' cid = Inr True \<and> require_chip_exists mem_ops s' cid ty \<noteq> Inr ()"
proof -
  have inv: "mem_ok s" "chips_ok E D (mem_chips s) t" "apps_ok (mem_chips s)"
    using mem_history [OF assms(1,3)] by simp_all
  have inv': "mem_ok s'" "chips_ok E D (mem_chips s') t'" "revoked (mem_chips s) cid \<Longrightarrow> revoked (mem_chips s') cid"
    using mem.onboarded_invariant [OF assms(2,3) TrueI TrueI inv] by simp_all
  have "revoked (mem_chips s') cid"
    using inv'(3) mem.is_revoked_spec [OF inv(1,2), of cid] assms(4) by simp
  then show ?thesis
    using mem.is_revoked_spec [OF inv'(1,2), of cid] mem.require_chip_spec [OF inv'(1,2) TrueI, of cid ty] by simp
qed

section \<open>A history\<close>

text \<open>An app registers under a capability for its world, under a slug that has nothing to do with the world, is revoked
  by nobody, and a chip of another type follows.\<close>

definition hex_kms :: "(u8, u8) kms_env" where
  "hex_kms = toy_kms\<lparr>km_crypto := toy_crypto\<lparr>ce_b64 := hex_encode, ce_b64_decode := hex_decode\<rparr>\<rparr>"

definition hex_caps :: "(u8, u8) cap_env" where
  "hex_caps = demo_caps\<lparr>cp_kms := hex_kms\<rparr>"

definition demo_cap :: json where
  "demo_cap = projr (cmd_cap_issue hex_kms ([], []) ''registry:init'' ''a/x'' (replicate 64 (CHR ''0'')) None (Some ''t'') (Some ''later''))"

definition demo_app :: json where
  "demo_app = JObj [(''@type'', JStr ''ubl/app''), (''@world'', JStr ''a/x''), (''slug'', JStr ''y''), (''display_name'', JStr ''Y''),
     (''owner_did'', JStr ''did:o''), (''@cap'', demo_cap)]"

definition doc_env :: store_env where
  "doc_env = \<lparr>se_text = plain_text, se_hash = id, se_day_of = (\<lambda>_. None)\<rparr>"

definition demo_meta :: execution_metadata where
  "demo_meta = \<lparr>em_runtime_version = [], em_execution_time_ms = 0, em_fuel_consumed = 0, em_policies_applied = [],
     em_executor_did = ''did:x'', em_reproducible = True\<rparr>"

lemma demo_check: "onboarding_check mem_ops hex_caps mem_new ''ubl/app'' demo_app ''a/x'' = Inr ()"
  by code_simp

lemma demo_nrf: "\<exists>b. to_nrf1_bytes plain_text demo_app = Inr b"
proof -
  have "\<not> isl (to_nrf1_bytes plain_text demo_app)"
    by code_simp
  then show ?thesis
    by (cases "to_nrf1_bytes plain_text demo_app") simp_all
qed

lemma demo_wf: "json_wf demo_app"
  by code_simp

fun json_within :: "nat \<Rightarrow> json \<Rightarrow> bool" where
  "json_within n (JStr s) \<longleftrightarrow> drop n s = []"
| "json_within n (JArr xs) \<longleftrightarrow> drop n xs = [] \<and> list_all (json_within n) xs"
| "json_within n (JObj m) \<longleftrightarrow> drop n m = [] \<and> list_all (\<lambda>(k, v). drop n k = [] \<and> json_within n v) m"
| "json_within n _ \<longleftrightarrow> True"

lemma json_within_small: "json_within n j \<Longrightarrow> n < 2 ^ 32 \<Longrightarrow> json_small j"
  by (induction n j rule: json_within.induct) (auto simp: list_all_iff)

lemma demo_documents: "faithful doc_env {demo_app}"
proof -
  have "json_within 150 demo_app"
    by code_simp
  then have "json_small demo_app"
    by (rule json_within_small) simp
  then show ?thesis
    using demo_wf by (auto simp: faithful_def)
qed

lemma demo_history:
  obtains s cid c where "onboarded mem_ops doc_env hex_caps {demo_app} (mem_new, []) (s, ''2025'')"
    "mem_get s cid = Some c" "sc_type c = ''ubl/app''" "sc_data c = demo_app" "app_of (mem_chips s) ''y'' c"
    "\<not> revoked (mem_chips s) (sc_cid c)"
proof -
  obtain c where form: "stored_form doc_env demo_app ''b3:r'' ''2025'' demo_meta = Inr c"
    using demo_nrf by (auto simp: stored_form_def doc_env_def Let_def)
  then have sel: "sc_data c = demo_app" "sc_type c = ''ubl/app''"
    by (auto elim!: stored_form_sel simp: text_at_def demo_app_def)
  have step: "store_executed_chip mem_ops doc_env demo_app ''b3:r'' ''2025'' demo_meta (mem_new, empty_indexes)
      = (Inr (sc_cid c), mem_put c mem_new, index_chip c empty_indexes)"
    by (simp add: store_executed_chip_def form mem_ops_def)
  have "onboarded mem_ops doc_env hex_caps {demo_app} (mem_new, []) (mem_put c mem_new, ''2025'')"
  proof (rule onboarded_accept [OF onboarded_start _ _ _ _ _ step])
    show "text_at demo_app ''@type'' = Some ''ubl/app''" "text_at demo_app ''@world'' = Some ''a/x''"
      by (simp_all add: text_at_def demo_app_def)
    show "onboarding_check mem_ops (hex_caps\<lparr>cp_now := 1\<rparr>) mem_new ''ubl/app'' demo_app ''a/x'' = Inr ()"
      using demo_check by (simp add: hex_caps_def demo_caps_def)
  qed simp_all
  moreover have "mem_chips (mem_put c mem_new) = [sc_cid c \<mapsto> c]"
    by (simp add: mem_put_def mem_new_def fun_eq_iff)
  ultimately show thesis
    using sel by (intro that [of "mem_put c mem_new" "sc_cid c" c])
      (auto simp: mem_get_def app_of_def revoked_def text_at_def demo_app_def)
qed

theorem app_slug_unique_witness: "\<exists>s. require_app_exists mem_ops s ''y'' = Inr () \<and> require_app_exists mem_ops s ''x'' \<noteq> Inr ()"
proof -
  obtain s cid c where s: "onboarded mem_ops doc_env hex_caps {demo_app} (mem_new, []) (s, ''2025'')"
    "app_of (mem_chips s) ''y'' c" "\<not> revoked (mem_chips s) (sc_cid c)"
    by (rule demo_history)
  have "\<not> app_of (mem_chips s) ''x'' d" for d
  proof
    assume d: "app_of (mem_chips s) ''x'' d"
    then have "stored_as doc_env {demo_app} d"
      using mem_history [OF s(1) demo_documents] unfolding app_of_def by (metis chips_okD(2))
    then show False
      using d by (simp add: stored_as_def app_of_def text_at_def demo_app_def)
  qed
  then show ?thesis
    using app_slug_unique [OF s(1) demo_documents, of "''y''"] app_slug_unique [OF s(1) demo_documents, of "''x''"] s(2,3) by blast
qed

theorem onboarding_closed_witness:
  "\<exists>s cid c ob. mem_get s cid = Some c \<and> parse_onboarding_chip (sc_data c) = Inr (Some ob) \<and> dependencies (mem_chips s) (sc_data c) ob"
proof -
  obtain s cid c where s: "onboarded mem_ops doc_env hex_caps {demo_app} (mem_new, []) (s, ''2025'')"
    "mem_get s cid = Some c" "sc_type c = ''ubl/app''"
    by (rule demo_history)
  then show ?thesis
    using onboarding_closed [OF s(1) demo_documents s(2)] by (auto simp: is_onboarding_type_def ONBOARDING_TYPES_def)
qed

text \<open>The world of an app chip bounds its capability but not its slug: a registration is accepted exactly when the capability
  covers the world and the slug is free, so the holder of one app can register the slug of another.\<close>

lemma app_registration_iff:
  assumes "onboarded mem_ops E C D (mem_new, []) (s, t)" "faithful E D"
    and "text_at body ''@type'' = Some ''ubl/app''" "parse_onboarding_chip body = Inr (Some (OnbApp app))"
  shows "onboarding_check mem_ops C s ''ubl/app'' body world = Inr () \<longleftrightarrow>
    (\<exists>cap. require_cap C body ''registry:init'' world = Inr cap)
    \<and> (\<forall>c. app_of (mem_chips s) (ar_slug app) c \<longrightarrow> revoked (mem_chips s) (sc_cid c))"
proof -
  have inv: "mem_ok s" "chips_ok E D (mem_chips s) t" "apps_ok (mem_chips s)"
    using mem_history [OF assms(1,2)] by simp_all
  show ?thesis
    using mem.app_active_spec [OF inv, of "ar_slug app"]
    by (auto simp: onboarding_check_def is_onboarding_type_def ONBOARDING_TYPES_def assms(4) validate_onboarding_dependencies_def
        chip_cap_def result_simps split: if_splits)
qed

text \<open>The same holds of the database backend, for a serialisation that reads back what it wrote.\<close>

lemma sled_history:
  assumes "onboarded (sled_ops K) E C D (sled_new, []) (s, t)" "faithful E D" "\<And>c. codec_reads K c"
  shows "sled_ok K s \<and> chips_ok E D (sled_abs K s) t \<and> apps_ok (sled_abs K s)"
proof -
  have "sled_ok K sled_new" "sled_abs K sled_new = (\<lambda>_. None)"
    by (simp_all add: sled_new_def sled_ok_def sled_readable_def sled_abs_def fun_eq_iff)
  then show ?thesis
    using sled.onboarded_invariant [OF assms(1,2) TrueI assms(3)] empty_chips_ok by simp
qed

end
