(* ===== verification/Transition.thy ===== *)
theory Transition
  imports Silicon Kms
begin

text \<open>
  The transition stage: the registry that selects the bytecode of a chip
  (\<open>crates/ubl_runtime/src/transition_registry.rs\<close>), the key rotation chip
  (\<open>crates/ubl_runtime/src/key_rotation.rs\<close>), and the run of the receipt machine with the receipt of the
  stage (\<open>pipeline/stages/transition.rs\<close>) for chips that neither carry a well-formed WebAssembly adapter nor are audit
  or silicon compile requests. The environment variables, the JSON parser and the Unicode tables are arguments.
\<close>

section \<open>Profiles\<close>

datatype tr_profile = PassV1 | AuditV1 | NumericV1 | SiliconDefinitionV1 | SiliconCompileV1

definition profile_as_str :: "tr_profile \<Rightarrow> string" where
  "profile_as_str p = (case p of
       PassV1 \<Rightarrow> ''pass_v1'' | AuditV1 \<Rightarrow> ''audit_v1'' | NumericV1 \<Rightarrow> ''numeric_v1''
     | SiliconDefinitionV1 \<Rightarrow> ''silicon_definition_v1'' | SiliconCompileV1 \<Rightarrow> ''silicon_compile_v1'')"

record registry_env =
  rg_trim :: "string \<Rightarrow> string"
  rg_whitespace :: "char \<Rightarrow> bool"
  rg_parse :: "string \<Rightarrow> string + json"
  rg_var :: "string \<Rightarrow> string option"

definition profile_parse :: "registry_env \<Rightarrow> string \<Rightarrow> tr_profile option" where
  "profile_parse R raw =
     map_of [(''pass_v1'', PassV1), (''pass'', PassV1), (''audit_v1'', AuditV1), (''audit'', AuditV1),
       (''numeric_v1'', NumericV1), (''numeric'', NumericV1), (''num_v1'', NumericV1), (''num'', NumericV1),
       (''silicon_definition_v1'', SiliconDefinitionV1), (''silicon_definition'', SiliconDefinitionV1),
       (''silicon_def'', SiliconDefinitionV1), (''silicon_compile_v1'', SiliconCompileV1),
       (''silicon_compile'', SiliconCompileV1)] (to_ascii_lowercase (rg_trim R raw))"

record transition_resolution =
  trs_bytecode :: "u8 list"
  trs_source :: string
  trs_profile :: tr_profile

datatype registry_config_fault =
    MapText string
  | MapShape string
  | MapEntry string
  | TrNotObject
  | TrExclusive

datatype registry_error = InvalidHex | InvalidProfile string | InvalidConfig registry_config_fault

record transition_registry =
  bytecode_overrides :: "string \<rightharpoonup> u8 list"
  profile_overrides :: "string \<rightharpoonup> tr_profile"

datatype chip_tr_directive = BytecodeHex string | ProfileDirective tr_profile

definition parse_hex_bytecode :: "registry_env \<Rightarrow> string \<Rightarrow> registry_error + u8 list" where
  "parse_hex_bytecode R raw = ok_or InvalidHex (hex_decode (filter (\<lambda>c. \<not> rg_whitespace R c) raw))"

text \<open>The two maps of the environment: an entry replaces an earlier one with the same key.\<close>

fun load_entries :: "(string \<Rightarrow> registry_error + 'a) \<Rightarrow> json_obj \<Rightarrow> (string \<rightharpoonup> 'a) \<Rightarrow> registry_error + (string \<rightharpoonup> 'a)" where
  "load_entries read [] acc = Inr acc"
| "load_entries read ((chip_type, raw) # m) acc =
     and_then (ok_or (InvalidConfig (MapEntry chip_type)) (as_str raw)) (\<lambda>text.
     and_then (read text) (\<lambda>v. load_entries read m (acc(chip_type \<mapsto> v))))"

definition load_map :: "registry_env \<Rightarrow> string \<Rightarrow> (string \<Rightarrow> registry_error + 'a) \<Rightarrow> registry_error + (string \<rightharpoonup> 'a)" where
  "load_map R var read =
     (case rg_var R var of
        None \<Rightarrow> Inr Map.empty
      | Some raw \<Rightarrow>
          and_then (map_err (InvalidConfig \<circ> MapText) (rg_parse R raw)) (\<lambda>map.
            case map of
              JObj m \<Rightarrow> load_entries read m Map.empty
            | _ \<Rightarrow> Inl (InvalidConfig (MapShape var))))"

definition registry_from_env :: "registry_env \<Rightarrow> registry_error + transition_registry" where
  "registry_from_env R =
     and_then (load_map R ''UBL_TR_BYTECODE_MAP_JSON'' (parse_hex_bytecode R)) (\<lambda>bytecodes.
     and_then (load_map R ''UBL_TR_PROFILE_MAP_JSON'' (\<lambda>raw. ok_or (InvalidProfile raw) (profile_parse R raw))) (\<lambda>profiles.
       Inr \<lparr>bytecode_overrides = bytecodes, profile_overrides = profiles\<rparr>))"

definition default_profile_for :: "string \<Rightarrow> tr_profile" where
  "default_profile_for chip_type =
     (if chip_type \<in> {''ubl/app'', ''ubl/user'', ''ubl/tenant'', ''ubl/membership'', ''ubl/token'', ''ubl/revoke'', ''ubl/key.rotate''}
      then AuditV1
      else if chip_type \<in> {''ubl/payment'', ''ubl/invoice'', ''ubl/settlement'', ''ubl/quote''} then NumericV1
      else if chip_type \<in> {''ubl/silicon.bit'', ''ubl/silicon.circuit'', ''ubl/silicon.chip''} then SiliconDefinitionV1
      else if chip_type = ''ubl/silicon.compile'' then SiliconCompileV1
      else PassV1)"

definition tr_tlv_instr :: "u8 \<Rightarrow> u8 list \<Rightarrow> u8 list" where
  "tr_tlv_instr opc payload = opc # be_bytes 2 (of_nat (length payload) :: u16) @ payload"

abbreviation (input) tr_push_input_0 :: "u8 list" where
  "tr_push_input_0 \<equiv> tr_tlv_instr 0x12 (be_bytes 2 (0 :: u16))"

definition build_profile_bytecode :: "tr_profile \<Rightarrow> u8 list" where
  "build_profile_bytecode profile = (case profile of
       PassV1 \<Rightarrow> tr_push_input_0 @ tr_tlv_instr 0x10 []
     | AuditV1 \<Rightarrow> tr_push_input_0 @ tr_tlv_instr 0x14 [] @ tr_tlv_instr 0x11 [] @ tr_tlv_instr 0x10 []
     | NumericV1 \<Rightarrow>
         tr_push_input_0 @ tr_tlv_instr 0x0C [] @ tr_tlv_instr 0x03 [] @ tr_tlv_instr 0x04 []
         @ tr_tlv_instr 0x13 (bytes_of ''amount'') @ tr_tlv_instr 0x1E (be_bytes 8 (1000000 :: u64))
         @ tr_tlv_instr 0x1D [0, 0, 0, 2, 0] @ tr_tlv_instr 0x0D [] @ tr_push_input_0 @ tr_tlv_instr 0x0E []
         @ tr_tlv_instr 0x10 []
     | SiliconDefinitionV1 \<Rightarrow>
         tr_push_input_0 @ tr_tlv_instr 0x0C [] @ tr_tlv_instr 0x03 [] @ tr_tlv_instr 0x0B [] @ tr_tlv_instr 0x11 []
         @ tr_push_input_0 @ tr_tlv_instr 0x0E [] @ tr_tlv_instr 0x10 []
     | SiliconCompileV1 \<Rightarrow> tr_push_input_0 @ tr_tlv_instr 0x10 [])"

definition parse_chip_tr_directive :: "registry_env \<Rightarrow> json \<Rightarrow> registry_error + chip_tr_directive option" where
  "parse_chip_tr_directive R body =
     (case json_get body ''@tr'' of
        None \<Rightarrow> Inr None
      | Some (JObj tr) \<Rightarrow>
          (case (Option.bind (map_of tr ''bytecode_hex'') as_str, Option.bind (map_of tr ''profile'') as_str) of
             (Some _, Some _) \<Rightarrow> Inl (InvalidConfig TrExclusive)
           | (Some hex_raw, None) \<Rightarrow> Inr (Some (BytecodeHex hex_raw))
           | (None, Some profile_raw) \<Rightarrow>
               map_ok (Some \<circ> ProfileDirective) (ok_or (InvalidProfile profile_raw) (profile_parse R profile_raw))
           | (None, None) \<Rightarrow> Inr None)
      | Some _ \<Rightarrow> Inl (InvalidConfig TrNotObject))"

definition resolve :: "registry_env \<Rightarrow> transition_registry \<Rightarrow> string \<Rightarrow> json \<Rightarrow> registry_error + transition_resolution" where
  "resolve R registry chip_type body =
     and_then (parse_chip_tr_directive R body) (\<lambda>directive.
       case directive of
         Some (BytecodeHex hex_raw) \<Rightarrow>
           map_ok (\<lambda>code. \<lparr>trs_bytecode = code, trs_source = ''chip:@tr.bytecode_hex'', trs_profile = PassV1\<rparr>)
             (parse_hex_bytecode R hex_raw)
       | Some (ProfileDirective profile) \<Rightarrow>
           Inr \<lparr>trs_bytecode = build_profile_bytecode profile, trs_source = ''chip:@tr.profile'', trs_profile = profile\<rparr>
       | None \<Rightarrow>
           (case bytecode_overrides registry chip_type of
              Some bytecode \<Rightarrow>
                Inr \<lparr>trs_bytecode = bytecode, trs_source = ''env:UBL_TR_BYTECODE_MAP_JSON'', trs_profile = PassV1\<rparr>
            | None \<Rightarrow>
                (let profile = (case profile_overrides registry chip_type of Some p \<Rightarrow> p | None \<Rightarrow> default_profile_for chip_type)
                 in Inr \<lparr>trs_bytecode = build_profile_bytecode profile,
                      trs_source = (if profile_overrides registry chip_type \<noteq> None then ''env:UBL_TR_PROFILE_MAP_JSON''
                        else ''profile:'' @ profile_as_str profile),
                      trs_profile = profile\<rparr>)))"

section \<open>Key rotation\<close>

datatype key_rotation_error =
    RotationType
  | RotationMissing string
  | RotationOldDid
  | RotationOldKid
  | RotationCanon canon_error

record key_rotate_request =
  kr_old_did :: string
  kr_old_kid :: string
  kr_reason :: "string option"

record key_rotation_material =
  krm_old_did :: string
  krm_old_kid :: string
  krm_new_did :: string
  krm_new_kid :: string
  krm_new_key_cid :: string

definition key_rotate_parse :: "json \<Rightarrow> key_rotation_error + key_rotate_request" where
  "key_rotate_parse body =
     (if text_at body ''@type'' \<noteq> Some ''ubl/key.rotate'' then Inl RotationType
      else
        and_then (ok_or (RotationMissing ''old_did'') (text_at body ''old_did'')) (\<lambda>old_did.
          if \<not> starts_with ''did:key:z'' old_did then Inl RotationOldDid
          else
            and_then (ok_or (RotationMissing ''old_kid'') (text_at body ''old_kid'')) (\<lambda>old_kid.
              if \<not> starts_with old_did old_kid \<or> CHR ''#'' \<notin> set old_kid then Inl RotationOldKid
              else Inr \<lparr>kr_old_did = old_did, kr_old_kid = old_kid, kr_reason = text_at body ''reason''\<rparr>)))"

text \<open>The keyed hash of BLAKE3 is an argument; the seed is the runtime's signing key.\<close>

definition rotation_message :: "string \<Rightarrow> u8 list" where
  "rotation_message chip_cid = bytes_of ''ubl/key.rotate/v1'' @ [0] @ bytes_of chip_cid"

definition derive_new_signing_key ::
  "('sk, 'vk) kms_env \<Rightarrow> (u8 list \<Rightarrow> u8 list \<Rightarrow> u8 list) \<Rightarrow> json \<Rightarrow> u8 list \<Rightarrow> key_rotation_error + 'sk" where
  "derive_new_signing_key K keyed_hash body seed =
     and_then (map_err RotationCanon (cid_of_value (km_crypto K) body)) (\<lambda>chip_cid.
       Inr (km_sk_from_bytes K (keyed_hash seed (rotation_message chip_cid))))"

definition derive_material ::
  "('sk, 'vk) kms_env \<Rightarrow> (u8 list \<Rightarrow> u8 list \<Rightarrow> u8 list) \<Rightarrow> key_rotate_request \<Rightarrow> json \<Rightarrow> u8 list
    \<Rightarrow> key_rotation_error + key_rotation_material" where
  "derive_material K keyed_hash req body seed =
     and_then (map_err RotationCanon (cid_of_value (km_crypto K) body)) (\<lambda>chip_cid.
       let sk = km_sk_from_bytes K (keyed_hash seed (rotation_message chip_cid)); vk = km_verifying_key K sk
       in Inr \<lparr>krm_old_did = kr_old_did req, krm_old_kid = kr_old_kid req, krm_new_did = did_from_verifying_key K vk,
            krm_new_kid = kid_from_verifying_key K vk, krm_new_key_cid = key_cid K vk\<rparr>)"

definition mapping_chip ::
  "(u8 list \<Rightarrow> u8 list) \<Rightarrow> string \<Rightarrow> string \<Rightarrow> string \<Rightarrow> string \<Rightarrow> string option \<Rightarrow> key_rotation_material \<Rightarrow> json" where
  "mapping_chip hash now world rotation_chip_cid rotation_receipt_cid reason m =
     (let map_id = ''keymap-'' @ hex_encode (hash (bytes_of (krm_old_kid m @ ''|'' @ krm_new_kid m @ ''|'' @ rotation_chip_cid)))
      in JObj [(''@type'', JStr ''ubl/key.map''), (''@id'', JStr map_id), (''@ver'', JStr ''1.0''), (''@world'', JStr world),
           (''old_did'', JStr (krm_old_did m)), (''old_kid'', JStr (krm_old_kid m)), (''new_did'', JStr (krm_new_did m)),
           (''new_kid'', JStr (krm_new_kid m)), (''new_key_cid'', JStr (krm_new_key_cid m)),
           (''rotation_chip_cid'', JStr rotation_chip_cid), (''rotation_receipt_cid'', JStr rotation_receipt_cid),
           (''reason'', JStr (case reason of Some r \<Rightarrow> r | None \<Rightarrow> ''unspecified'')), (''algorithm'', JStr ''Ed25519''),
           (''created_at'', JStr now)])"

section \<open>The stage\<close>

text \<open>\<open>run_transition\<close> is the machine's part of the stage, up to the check of its signature; \<open>stage_transition_plain\<close> is the
  stage on a chip whose type is neither an audit request nor a silicon compile request. The description of a WebAssembly adapter is
  parsed as in \<open>pipeline/types.rs\<close>; its execution is not modelled: a chip with a well-formed adapter ends with \<open>TrAdapterRun\<close>, which
  no error of the code corresponds to.\<close>

record adapter_info =
  ai_wasm_sha256 :: string
  ai_abi_version :: string
  ai_wasm_cid :: "string option"
  ai_wasm_b64 :: "string option"
  ai_fuel_budget :: "u64 option"
  ai_timeout_ms :: "u64 option"
  ai_capabilities :: "string list"
  ai_attestation_signature_b64 :: "string option"
  ai_attestation_trust_anchor :: "string option"
  ai_required_receipt_claims :: "string list"

datatype adapter_error =
    AdapterNotObject
  | AdapterNoSha256
  | AdapterNoAbiVersion
  | AdapterSha256NotHex
  | AdapterAbiUnsupported string

definition strings_at :: "json_obj \<Rightarrow> string \<Rightarrow> string list" where
  "strings_at m k = (case Option.bind (map_of m k) as_array of Some arr \<Rightarrow> List.map_filter as_str arr | None \<Rightarrow> [])"

definition adapter_parse_optional :: "json \<Rightarrow> adapter_error + adapter_info option" where
  "adapter_parse_optional body =
     (case json_get body ''adapter'' of
        None \<Rightarrow> Inr None
      | Some v \<Rightarrow>
          and_then (ok_or AdapterNotObject (as_object v)) (\<lambda>adapter.
          and_then (ok_or AdapterNoSha256 (Option.bind (map_of adapter ''wasm_sha256'') as_str)) (\<lambda>wasm_sha256.
          and_then (ok_or AdapterNoAbiVersion (Option.bind (map_of adapter ''abi_version'') as_str)) (\<lambda>abi_version.
            if length wasm_sha256 \<noteq> 64 \<or> \<not> list_all is_hex_digit wasm_sha256 then Inl AdapterSha256NotHex
            else if abi_version \<noteq> ''1.0'' then Inl (AdapterAbiUnsupported abi_version)
            else Inr (Some \<lparr>ai_wasm_sha256 = wasm_sha256, ai_abi_version = abi_version,
              ai_wasm_cid = Option.bind (map_of adapter ''wasm_cid'') as_str, ai_wasm_b64 = Option.bind (map_of adapter ''wasm_b64'') as_str,
              ai_fuel_budget = Option.bind (map_of adapter ''fuel_budget'') as_u64,
              ai_timeout_ms = Option.bind (map_of adapter ''timeout_ms'') as_u64, ai_capabilities = strings_at adapter ''capabilities'',
              ai_attestation_signature_b64 = Option.bind (map_of adapter ''attestation_signature_b64'') as_str,
              ai_attestation_trust_anchor = Option.bind (map_of adapter ''attestation_trust_anchor'') as_str,
              ai_required_receipt_claims = strings_at adapter ''required_receipt_claims''\<rparr>)))))"

datatype transition_error =
    TrInputNrf rho_error
  | TrAdapter adapter_error
  | TrAdapterRun
  | TrResolution registry_error
  | TrDecode decode_error
  | TrFuelExhausted u64
  | TrStackUnderflow opcode
  | TrTypeMismatch opcode
  | TrPolicyDenied string
  | TrSign
  | TrPanic
  | TrRotation key_rotation_error
  | TrCid rho_error

definition map_exec_error :: "u64 \<Rightarrow> exec_error \<Rightarrow> transition_error" where
  "map_exec_error limit e = (case e of
       FuelExhausted \<Rightarrow> TrFuelExhausted limit
     | StackUnderflow opc \<Rightarrow> TrStackUnderflow opc
     | TypeMismatch opc \<Rightarrow> TrTypeMismatch opc
     | InvalidPayload opc \<Rightarrow> TrTypeMismatch opc
     | Deny reason \<Rightarrow> TrPolicyDenied reason
     | DenyNum reason _ \<Rightarrow> TrPolicyDenied reason
     | Panicked \<Rightarrow> TrPanic)"

text \<open>What the stage runs with: the machine's libraries, the pipeline's text tables, hash, signer and fuel.\<close>

record tr_env =
  te_vm :: vm_env
  te_text :: text_env
  te_hash :: "u8 list \<Rightarrow> u8 list"
  te_sign :: "u8 list \<Rightarrow> string"
  te_b64_decode :: "string \<Rightarrow> u8 list option"
  te_fuel_limit :: u64
  te_registry_env :: registry_env
  te_registry :: transition_registry

definition transition_vm :: "tr_env \<Rightarrow> u8 list \<Rightarrow> pipeline_cas vm" where
  "transition_vm V chip_nrf =
     (let (cas, input_cid) = pipeline_cas_put (te_hash V) pipeline_cas_new chip_nrf
      in with_body_size (vm_new \<lparr>fuel_limit = te_fuel_limit V, ghost = False, trace_on = True\<rparr> cas [input_cid])
           (of_nat (length chip_nrf)))"

definition run_transition :: "tr_env \<Rightarrow> string \<Rightarrow> json \<Rightarrow> transition_error + transition_resolution \<times> vm_outcome" where
  "run_transition V chip_type body =
     and_then (map_err TrInputNrf (to_nrf1_bytes (te_text V) body)) (\<lambda>chip_nrf.
     and_then (map_err TrAdapter (adapter_parse_optional body)) (\<lambda>adapter.
     and_then (case adapter of Some info \<Rightarrow> Inl TrAdapterRun | None \<Rightarrow> Inr ()) (\<lambda>_.
     and_then (map_err TrResolution (resolve (te_registry_env V) (te_registry V) chip_type body)) (\<lambda>resolution.
     and_then (map_err TrDecode (decode_stream (trs_bytecode resolution))) (\<lambda>instructions.
     and_then (map_err (map_exec_error (te_fuel_limit V))
         (run (te_vm V) (pipeline_providers (te_text V) (te_hash V) (te_sign V) (te_b64_decode V)) instructions
            (transition_vm V chip_nrf))) (\<lambda>(m, outcome).
       if (case rc_sig outcome of Some s \<Rightarrow> s | None \<Rightarrow> []) = [] then Inl TrSign
       else Inr (resolution, outcome)))))))"

record pipeline_receipt =
  pr_body_cid :: string
  pr_receipt_type :: string
  pr_body :: json

definition nat_json :: "nat \<Rightarrow> json" where
  "nat_json n = JNum (N_Int (int n))"

definition or_empty :: "string option \<Rightarrow> string" where
  "or_empty s = (case s of Some t \<Rightarrow> t | None \<Rightarrow> [])"

definition vm_state_json :: "tr_env \<Rightarrow> transition_resolution \<Rightarrow> vm_outcome \<Rightarrow> json" where
  "vm_state_json V res outcome =
     JObj [(''fuel_used'', nat_json (unat (out_fuel_used outcome))), (''steps'', nat_json (unat (out_steps outcome))),
       (''result'', JStr (if rc_cid outcome \<noteq> None then ''receipt_emitted'' else ''completed'')),
       (''trace_len'', nat_json (length (out_trace outcome))), (''bytecode_source'', JStr (trs_source res)),
       (''bytecode_hash'', JStr (''b3:'' @ hex_encode (te_hash V (trs_bytecode res)))),
       (''bytecode_len'', nat_json (length (trs_bytecode res))), (''bytecode_profile'', JStr (profile_as_str (trs_profile res)))]"

definition rotation_json :: "key_rotation_material \<Rightarrow> json" where
  "rotation_json m = JObj [(''old_did'', JStr (krm_old_did m)), (''old_kid'', JStr (krm_old_kid m)),
     (''new_did'', JStr (krm_new_did m)), (''new_kid'', JStr (krm_new_kid m)), (''new_key_cid'', JStr (krm_new_key_cid m))]"

definition rotation_of ::
  "('sk, 'vk) kms_env \<Rightarrow> (u8 list \<Rightarrow> u8 list \<Rightarrow> u8 list) \<Rightarrow> u8 list \<Rightarrow> string \<Rightarrow> json \<Rightarrow> transition_error + (string \<times> json) list" where
  "rotation_of K keyed_hash seed chip_type body =
     (if chip_type = ''ubl/key.rotate'' then
        and_then (map_err TrRotation (key_rotate_parse body)) (\<lambda>req.
          map_ok (\<lambda>m. [(''key_rotation'', rotation_json m)]) (map_err TrRotation (derive_material K keyed_hash req body seed)))
      else Inr [])"

definition transition_body :: "tr_env \<Rightarrow> string \<Rightarrow> transition_resolution \<Rightarrow> vm_outcome \<Rightarrow> (string \<times> json) list \<Rightarrow> json" where
  "transition_body V input_cid res outcome rotation =
     JObj ([(''@type'', JStr ''ubl/transition''), (''input_cid'', JStr input_cid),
       (''output_cid'', JStr (or_empty (rc_cid outcome))), (''vm_sig'', JStr (or_empty (rc_sig outcome))),
       (''vm_sig_payload_cid'', JStr (or_empty (rc_payload_cid outcome))), (''vm_state'', vm_state_json V res outcome)]
       @ rotation)"

definition stage_transition_plain ::
  "tr_env \<Rightarrow> ('sk, 'vk) kms_env \<Rightarrow> (u8 list \<Rightarrow> u8 list \<Rightarrow> u8 list) \<Rightarrow> u8 list \<Rightarrow> string \<Rightarrow> json \<Rightarrow> transition_error + pipeline_receipt" where
  "stage_transition_plain V K keyed_hash seed chip_type body =
     and_then (run_transition V chip_type body) (\<lambda>(res, outcome).
     and_then (rotation_of K keyed_hash seed chip_type body) (\<lambda>rotation.
       let input_cid = (case to_nrf1_bytes (te_text V) body of Inr b \<Rightarrow> ''b3:'' @ hex_encode (te_hash V b) | Inl _ \<Rightarrow> []);
           tr_body = transition_body V input_cid res outcome rotation
       in map_ok (\<lambda>nrf1_bytes. \<lparr>pr_body_cid = compute_cid (te_hash V) nrf1_bytes, pr_receipt_type = ''ubl/transition'', pr_body = tr_body\<rparr>)
            (map_err TrCid (to_nrf1_bytes (te_text V) tr_body))))"

end
