(* ===== verification/Transition_Laws.thy ===== *)
theory Transition_Laws
  imports Transition Silicon_Gate
begin

text \<open>
  What the built-in transition profiles do: the bytecode of each profile as instructions, the runs of the
  passing profiles, which always emit a signed receipt, and of the profiles that read the body, which never do.
\<close>

section \<open>Profiles as instructions\<close>

abbreviation (input) ins_input :: instr where
  "ins_input \<equiv> ins PushInput (be_bytes 2 (0 :: u16))"

definition profile_ins :: "tr_profile \<Rightarrow> instr list" where
  "profile_ins p = (case p of
       PassV1 \<Rightarrow> [ins_input, ins EmitRc []]
     | AuditV1 \<Rightarrow> [ins_input, ins Dup [], ins Drop [], ins EmitRc []]
     | NumericV1 \<Rightarrow> [ins_input, ins CasGet [], ins JsonNormalize [], ins JsonValidate [], ins JsonGetKey (bytes_of ''amount''),
         ins NumToRat (be_bytes 8 (1000000 :: u64)), ins NumToDec [0, 0, 0, 2, 0], ins SetRcBody [], ins_input, ins AttachProof [],
         ins EmitRc []]
     | SiliconDefinitionV1 \<Rightarrow> [ins_input, ins CasGet [], ins JsonNormalize [], ins CasPut [], ins Drop [], ins_input,
         ins AttachProof [], ins EmitRc []]
     | SiliconCompileV1 \<Rightarrow> [ins_input, ins EmitRc []])"

lemma tr_tlv_encode: "tr_tlv_instr (opcode_u8 opc) p = encode_instr (ins opc p)"
  by (simp add: tr_tlv_instr_def encode_instr_def tlv_instr_def)

lemma build_profile_ins: "build_profile_bytecode p = assemble (profile_ins p)"
  by (cases p) (simp_all add: build_profile_bytecode_def profile_ins_def assemble_def encode_instr_def tlv_instr_def tr_tlv_instr_def)

lemma profile_decodes: "decode_stream (build_profile_bytecode p) = Inr (profile_ins p)"
  unfolding build_profile_ins
  by (rule decode_assemble) (cases p; simp add: profile_ins_def instr_wf_def bytes_of_def)

section \<open>Steps of a traced run\<close>

lemma traced_sel [simp]:
  "stack (push_trace opc n m) = stack m" "inputs (push_trace opc n m) = inputs m" "cas (push_trace opc n m) = cas m"
  "cfg (push_trace opc n m) = cfg m" "fuel_used (push_trace opc n m) = fuel_used m"
  by (simp_all add: push_trace_def)

lemma fuel_for_trace [simp]: "fuel_for n (push_trace opc note m) = fuel_for n m"
  by (simp add: fuel_for_def)

lemma run_step:
  assumes "fuel_for (Suc n) m" "ins_op i \<noteq> EmitRc"
  shows "run E P (i # code) m = and_then (exec_op E P i (advance 1 (stack m) m)) (\<lambda>m2. run E P code (push_trace (ins_op i) None m2))"
  using assms by (simp add: fuel_for_Suc(1))

lemma run_emit:
  assumes "fuel_for (Suc n) m" "\<And>b. sign_jws P b \<noteq> []"
  shows "\<exists>m' out c s. run E P (ins EmitRc [] # code) m = Inr (m', out) \<and> rc_cid out = Some c \<and> rc_sig out = Some s \<and> s \<noteq> []"
  using assms(2) by (auto simp: fuel_for_Suc(1) [OF assms(1)] emit_rc_def finish_def Let_def split: prod.split)

lemma push_advance: "push v (advance n st m) = advance n (v # st) m"
  by (simp add: push_def advance_def)

lemma pop_advance: "pop (advance n (v # st) m) = Inr (v, advance n st m)"
  by (simp add: pop_def advance_def)

lemmas step_simps = exec_op_def push_advance pop_advance pop_cid_def pop_bytes_def Let_def

lemma run_input:
  assumes "fuel_for (Suc n) m" "inputs m = [c]"
  shows "run E P (ins_input # code) m = run E P code (push_trace PushInput None (advance 1 (V_Cid c # stack m) m))"
proof -
  have "unat (from_be (be_bytes 2 (0 :: u16)) :: u16) = 0"
    by code_simp
  then have "exec_op E P ins_input (advance 1 (stack m) m) = Inr (advance 1 (V_Cid c # stack m) m)"
    using assms(2) by (simp add: step_simps op_push_input_def)
  then show ?thesis
    using run_step [OF assms(1), of ins_input] by simp
qed

lemma run_read_body:
  assumes "fuel_for (Suc (Suc (Suc n))) m" "inputs m = [c]" "cas_get P (cas m) c = Some bytes" "json_from_slice E bytes = None"
  shows "run E P (ins_input # ins CasGet [] # ins JsonNormalize [] # code) m = Inl (Deny ''json_parse_error'')"
proof -
  let ?m1 = "push_trace PushInput None (advance 1 (V_Cid c # stack m) m)"
  let ?m2 = "push_trace CasGet None (advance 1 (V_Bytes bytes # stack m) ?m1)"
  have f1: "fuel_for (Suc (Suc n)) ?m1"
    using fuel_for_Suc(2) [OF assms(1)] by simp
  have f2: "fuel_for (Suc n) ?m2"
    using fuel_for_Suc(2) [OF f1] by simp
  have "exec_op E P (ins CasGet []) (advance 1 (stack ?m1) ?m1) = Inr (advance 1 (V_Bytes bytes # stack m) ?m1)"
    using assms(3) by (simp add: step_simps op_cas_get_def)
  then have "run E P (ins CasGet [] # ins JsonNormalize [] # code) ?m1 = run E P (ins JsonNormalize [] # code) ?m2"
    using run_step [OF f1, of "ins CasGet []" E P "ins JsonNormalize [] # code"] by (simp del: run.simps)
  also have "\<dots> = Inl (Deny ''json_parse_error'')"
    using run_step [OF f2, of "ins JsonNormalize []" E P code] assms(4) by (simp add: step_simps op_json_normalize_def del: run.simps)
  finally show ?thesis
    unfolding run_input [OF assms(1,2)] .
qed

section \<open>The built-in profiles\<close>

lemma transition_vm_sel [simp]:
  "inputs (transition_vm V nrf) = [''b3:'' @ hex_encode (te_hash V nrf)]"
  "cas (transition_vm V nrf) = [''b3:'' @ hex_encode (te_hash V nrf) \<mapsto> nrf]"
  "fuel_for n (transition_vm V nrf) \<longleftrightarrow> n \<le> unat (te_fuel_limit V)"
  by (simp_all add: transition_vm_def pipeline_cas_put_def pipeline_cas_new_def with_body_size_def vm_new_def fuel_for_def Let_def)

lemma to_nrf1_bytes_magic: "to_nrf1_bytes T j = Inr b \<Longrightarrow> \<exists>r. b = MAGIC @ r"
  by (auto simp: to_nrf1_bytes_iff encode_to_vec_def)

definition reads_body :: "tr_profile \<Rightarrow> bool" where
  "reads_body p \<longleftrightarrow> p = NumericV1 \<or> p = SiliconDefinitionV1"

lemma profile_run:
  fixes p :: tr_profile
  assumes "rejects_nrf (te_vm V)" "to_nrf1_bytes T body = Inr nrf" "4 \<le> unat (te_fuel_limit V)"
    and "\<And>b. pipeline_sign_jws (te_sign V) (te_b64_decode V) b \<noteq> []"
  defines "r \<equiv> run (te_vm V) (pipeline_providers (te_text V) (te_hash V) (te_sign V) (te_b64_decode V)) (profile_ins p) (transition_vm V nrf)"
  shows "if reads_body p then r = Inl (Deny ''json_parse_error'')
    else \<exists>m out c s. r = Inr (m, out) \<and> rc_cid out = Some c \<and> rc_sig out = Some s \<and> s \<noteq> []"
proof -
  let ?P = "pipeline_providers (te_text V) (te_hash V) (te_sign V) (te_b64_decode V)" and ?m = "transition_vm V nrf"
  let ?c = "''b3:'' @ hex_encode (te_hash V nrf)"
  let ?m1 = "push_trace PushInput None (advance 1 (V_Cid ?c # stack ?m) ?m)"
  have sign: "sign_jws ?P b \<noteq> []" for b
    using assms(4) by (simp add: pipeline_providers_def)
  have fuel: "fuel_for (Suc (Suc (Suc 1))) ?m"
    using assms(3) by simp
  have f1: "fuel_for (Suc (Suc 1)) ?m1"
    using fuel_for_Suc(2) [OF fuel] by simp
  have input: "run (te_vm V) ?P (ins_input # code) ?m = run (te_vm V) ?P code ?m1" for code
    by (rule run_input [OF fuel]) simp
  have emit: "\<exists>m out c s. run (te_vm V) ?P [ins_input, ins EmitRc []] ?m = Inr (m, out) \<and> rc_cid out = Some c \<and> rc_sig out = Some s \<and> s \<noteq> []"
    unfolding input using run_emit [OF f1 sign, of "te_vm V" "[]"] by blast
  obtain rest where "nrf = MAGIC @ rest"
    using to_nrf1_bytes_magic [OF assms(2)] by blast
  then have "json_from_slice (te_vm V) nrf = None"
    using assms(1) by (simp add: rejects_nrf_def)
  then have read: "run (te_vm V) ?P (ins_input # ins CasGet [] # ins JsonNormalize [] # code) ?m = Inl (Deny ''json_parse_error'')" for code
    by (intro run_read_body [OF fuel]) (simp_all add: pipeline_providers_def pipeline_cas_get_def)
  have audit: "\<exists>m out c s. run (te_vm V) ?P [ins_input, ins Dup [], ins Drop [], ins EmitRc []] ?m = Inr (m, out)
      \<and> rc_cid out = Some c \<and> rc_sig out = Some s \<and> s \<noteq> []"
  proof -
    let ?m2 = "push_trace Dup None (advance 1 (V_Cid ?c # V_Cid ?c # stack ?m) ?m1)"
    let ?m3 = "push_trace Drop None (advance 1 (V_Cid ?c # stack ?m) ?m2)"
    have f2: "fuel_for (Suc 1) ?m2"
      using fuel_for_Suc(2) [OF f1] by simp
    have f3: "fuel_for 1 ?m3"
      using fuel_for_Suc(2) [OF f2] by simp
    have "run (te_vm V) ?P (ins Dup [] # code) ?m1 = run (te_vm V) ?P code ?m2" for code
      using run_step [OF f1, of "ins Dup []" "te_vm V" ?P code] by (simp add: step_simps op_dup_def del: run.simps)
    moreover have "run (te_vm V) ?P (ins Drop [] # code) ?m2 = run (te_vm V) ?P code ?m3" for code
      using run_step [OF f2, of "ins Drop []" "te_vm V" ?P code] by (simp add: step_simps op_drop_def del: run.simps)
    ultimately show ?thesis
      unfolding input using run_emit [of 0 ?m3 ?P "te_vm V" "[]"] f3 sign by (simp del: run.simps)
  qed
  show ?thesis
    unfolding r_def reads_body_def profile_ins_def using emit read audit by (cases p) (simp_all del: run.simps)
qed

lemma body_profiles:
  "reads_body (default_profile_for t) \<longleftrightarrow> t \<in> {''ubl/payment'', ''ubl/invoice'', ''ubl/settlement'', ''ubl/quote'',
     ''ubl/silicon.bit'', ''ubl/silicon.circuit'', ''ubl/silicon.chip''}"
  by (simp add: reads_body_def default_profile_for_def)

text \<open>C23: The default transition of a chip type decides its fate. For a chip without adapter and without a transition of its own (\<open>@tr\<close>), of a
  type for which the registry has no override, the machine's run of the built-in profile denies every payment, invoice, settlement and quote
  and every silicon bit, circuit and chip, because their profile parses the canonical bytes of the body as JSON text, and emits a receipt
  with an identifier and a signature for every other type. A fuel limit of four suffices.\<close>

theorem default_transition_outcome:
  assumes "rejects_nrf (te_vm V)" "to_nrf1_bytes (te_text V) body = Inr nrf" "4 \<le> unat (te_fuel_limit V)"
    and "\<And>b. pipeline_sign_jws (te_sign V) (te_b64_decode V) b \<noteq> []" "json_get body ''adapter'' = None"
    and "json_get body ''@tr'' = None" "bytecode_overrides (te_registry V) t = None" "profile_overrides (te_registry V) t = None"
  shows "if t \<in> {''ubl/payment'', ''ubl/invoice'', ''ubl/settlement'', ''ubl/quote'',
      ''ubl/silicon.bit'', ''ubl/silicon.circuit'', ''ubl/silicon.chip''}
    then run_transition V t body = Inl (TrPolicyDenied ''json_parse_error'')
    else \<exists>res out c s. run_transition V t body = Inr (res, out) \<and> trs_profile res = default_profile_for t
      \<and> rc_cid out = Some c \<and> rc_sig out = Some s \<and> s \<noteq> []"
proof -
  have res: "resolve (te_registry_env V) (te_registry V) t body = Inr \<lparr>trs_bytecode = build_profile_bytecode (default_profile_for t),
      trs_source = ''profile:'' @ profile_as_str (default_profile_for t), trs_profile = default_profile_for t\<rparr>"
    using assms(6-8) by (simp add: resolve_def parse_chip_tr_directive_def Let_def)
  show ?thesis
    unfolding body_profiles [symmetric] using profile_run [OF assms(1-4), of "default_profile_for t"]
    by (auto simp: run_transition_def adapter_parse_optional_def assms(2,5) res profile_decodes map_exec_error_def split: if_splits)
qed

definition demo_tr :: tr_env where
  "demo_tr = \<lparr>te_vm = strict_env, te_text = plain_text, te_hash = id, te_sign = demo_signer, te_b64_decode = demo_b64,
     te_fuel_limit = 4, te_registry_env = \<lparr>rg_trim = id, rg_whitespace = (\<lambda>c. c = CHR '' ''), rg_parse = (\<lambda>_. Inl []), rg_var = (\<lambda>_. None)\<rparr>,
     te_registry = \<lparr>bytecode_overrides = Map.empty, profile_overrides = Map.empty\<rparr>\<rparr>"

theorem default_transition_outcome_witness:
  "run_transition demo_tr ''ubl/payment'' (JObj [(''b'', JBool True)]) = Inl (TrPolicyDenied ''json_parse_error'')
   \<and> (\<exists>res out c. run_transition demo_tr ''ubl/document'' (JObj [(''b'', JBool True)]) = Inr (res, out) \<and> rc_cid out = Some c)"
proof -
  have hyps: "rejects_nrf (te_vm demo_tr)" "to_nrf1_bytes (te_text demo_tr) (JObj [(''b'', JBool True)]) = Inr (MAGIC @ [7, 1, 4, 1, 98, 2])"
    "4 \<le> unat (te_fuel_limit demo_tr)" "\<And>b. pipeline_sign_jws (te_sign demo_tr) (te_b64_decode demo_tr) b \<noteq> []"
    "json_get (JObj [(''b'', JBool True)]) ''adapter'' = None" "json_get (JObj [(''b'', JBool True)]) ''@tr'' = None"
    "bytecode_overrides (te_registry demo_tr) t = None" "profile_overrides (te_registry demo_tr) t = None" for t
    using strict_env(1) demo_body demo_signs by (simp_all add: demo_tr_def)
  show ?thesis
    using default_transition_outcome [OF hyps, of "''ubl/payment''"] default_transition_outcome [OF hyps, of "''ubl/document''"]
    by auto
qed

section \<open>Rotated keys\<close>

text \<open>The announced key is the derived one: the identifier in the rotation material reads back to the verifying key of
  the signing key the runtime derives.\<close>

lemma rotation_announces_key:
  assumes "sound_kms K" "derive_new_signing_key K kh body seed = Inr sk" "derive_material K kh req body seed = Inr m"
  shows "verifying_key_from_did K (krm_new_did m) = Inr (km_verifying_key K sk)"
    and "krm_new_kid m = krm_new_did m @ ''#ed25519''" "krm_new_key_cid m = key_cid K (km_verifying_key K sk)"
  using assms did_key_roundtrip [of K "km_verifying_key K sk"]
  by (auto simp: derive_new_signing_key_def derive_material_def result_simps Let_def kid_from_verifying_key_def)

end
