(* ===== verification/Audit_Chip.thy ===== *)
theory Audit_Chip
  imports Capability Chip_Backends Knock
begin

text \<open>
  Audit requests (\<open>crates/ubl_runtime/src/audit_chip.rs\<close>): reports, ledger snapshots, segment compaction and
  advisories, their readers and the validation of the check stage against the chip store. Instants are integers, read and
  printed by the fields of \<open>cap_env\<close>; \<open>trim\<close> is an argument. The snapshots that the check admits
  are disjoint.
\<close>

section \<open>Requests\<close>

record time_range =
  tr_start :: int
  tr_end :: int

record report_request =
  rp_window :: "string option"
  rp_range :: "time_range option"
  rp_format :: "string option"

record snapshot_request =
  sr_range :: time_range

record segment_source =
  sg_path :: string
  sg_sha256 :: string
  sg_lines :: u64

record compact_request =
  cm_range :: time_range
  cm_snapshot_ref :: string
  cm_source_segments :: "segment_source list"
  cm_mode :: string

record advisory_request =
  av_subject_kind :: string
  av_subject_receipt_cid :: string

datatype audit_request =
    AuditReport report_request
  | AuditSnapshot snapshot_request
  | AuditCompact compact_request
  | AuditAdvisory advisory_request

datatype audit_error =
    AuditInvalidField string
  | AuditCapability cap_error
  | AuditChipStore store_error
  | AuditStoreRequired
  | SnapshotOverlap string string
  | SnapshotRefNotFound string
  | SnapshotRefTypeMismatch string string
  | SnapshotDoesNotCoverRange
  | SubjectReceiptNotFound string
  | AuditPanicked

abbreviation TYPE_AUDIT_REPORT :: string where "TYPE_AUDIT_REPORT \<equiv> ''audit/report.request.v1''"
abbreviation TYPE_AUDIT_SNAPSHOT :: string where "TYPE_AUDIT_SNAPSHOT \<equiv> ''audit/ledger.snapshot.request.v1''"
abbreviation TYPE_LEDGER_COMPACT :: string where "TYPE_LEDGER_COMPACT \<equiv> ''ledger/segment.compact.v1''"
abbreviation TYPE_AUDIT_ADVISORY :: string where "TYPE_AUDIT_ADVISORY \<equiv> ''audit/advisory.request.v1''"

definition is_audit_request_type :: "string \<Rightarrow> bool" where
  "is_audit_request_type chip_type \<longleftrightarrow>
     chip_type \<in> {TYPE_AUDIT_REPORT, TYPE_AUDIT_SNAPSHOT, TYPE_LEDGER_COMPACT, TYPE_AUDIT_ADVISORY}"

section \<open>Readers\<close>

definition parse_range :: "('sk, 'vk) cap_env \<Rightarrow> json \<Rightarrow> audit_error + time_range" where
  "parse_range C v =
     and_then (ok_or (AuditInvalidField ''range.start missing'') (text_at v ''start'')) (\<lambda>start.
     and_then (ok_or (AuditInvalidField ''range.end missing'') (text_at v ''end'')) (\<lambda>end_text.
     and_then (ok_or (AuditInvalidField ''range.start invalid RFC-3339'') (cp_parse_time C start)) (\<lambda>start.
     and_then (ok_or (AuditInvalidField ''range.end invalid RFC-3339'') (cp_parse_time C end_text)) (\<lambda>finish.
       if finish \<le> start then Inl (AuditInvalidField ''range.end must be greater than range.start'')
       else Inr \<lparr>tr_start = start, tr_end = finish\<rparr>))))"

text \<open>\<open>split_at\<close> panics inside a character: when the last byte of the window continues one.\<close>

definition parse_window :: "string \<Rightarrow> audit_error + unit" where
  "parse_window window =
     (if window = [] then Inl (AuditInvalidField ''window cannot be empty'')
      else if utf8_cont (of_char (last window)) then Inl AuditPanicked
      else
        and_then (ok_or (AuditInvalidField ''window must be like 30s|5m|1h'') (parse_usize (butlast window))) (\<lambda>n.
          if n = 0 then Inl (AuditInvalidField ''window must be greater than zero'')
          else if [last window] \<notin> {''s'', ''S'', ''m'', ''M'', ''h'', ''H''} then Inl (AuditInvalidField ''window unit must be s|m|h'')
          else Inr ()))"

definition parse_report_request :: "('sk, 'vk) cap_env \<Rightarrow> json \<Rightarrow> audit_error + report_request" where
  "parse_report_request C body =
     (let window = text_at body ''window''
      in and_then (case window of Some w \<Rightarrow> parse_window w | None \<Rightarrow> Inr ()) (\<lambda>_.
         and_then (case json_get body ''range'' of
             Some range_val \<Rightarrow> map_ok Some (parse_range C range_val)
           | None \<Rightarrow>
               (case (json_get body ''start'', json_get body ''end'') of
                  (Some s, Some e) \<Rightarrow> map_ok Some (parse_range C (JObj [(''start'', s), (''end'', e)]))
                | _ \<Rightarrow> Inr None)) (\<lambda>range.
           if window = None \<and> range = None then Inl (AuditInvalidField ''report request requires either window or range'')
           else Inr \<lparr>rp_window = window, rp_range = range, rp_format = text_at body ''format''\<rparr>)))"

definition parse_snapshot_request :: "('sk, 'vk) cap_env \<Rightarrow> json \<Rightarrow> audit_error + snapshot_request" where
  "parse_snapshot_request C body =
     and_then (ok_or (AuditInvalidField ''missing range'') (json_get body ''range'')) (\<lambda>range_val.
       map_ok (\<lambda>range. \<lparr>sr_range = range\<rparr>) (parse_range C range_val))"

definition segment_field :: "nat \<Rightarrow> string \<Rightarrow> audit_error" where
  "segment_field idx fault = AuditInvalidField (''source_segments['' @ show_nat idx @ '']'' @ fault)"

definition parse_segment :: "nat \<times> json \<Rightarrow> audit_error + segment_source" where
  "parse_segment = (\<lambda>(idx, segment).
     and_then (ok_or (segment_field idx ''.path'') (text_at segment ''path'')) (\<lambda>path.
     and_then (ok_or (segment_field idx ''.sha256'') (text_at segment ''sha256'')) (\<lambda>sha256.
     and_then (ok_or (segment_field idx ''.lines'') (Option.bind (json_get segment ''lines'') as_u64)) (\<lambda>lines.
       Inr \<lparr>sg_path = path, sg_sha256 = sha256, sg_lines = lines\<rparr>))))"

definition validate_segment :: "(string \<Rightarrow> string) \<Rightarrow> nat \<times> segment_source \<Rightarrow> audit_error + unit" where
  "validate_segment trim = (\<lambda>(idx, segment).
     if trim (sg_path segment) = [] then Inl (segment_field idx ''.path cannot be empty'')
     else if sg_lines segment = 0 then Inl (segment_field idx ''.lines must be > 0'')
     else if length (sg_sha256 segment) \<noteq> 64 \<or> \<not> list_all is_hex_digit (sg_sha256 segment)
     then Inl (segment_field idx ''.sha256 must be 64 hex chars'')
     else Inr ())"

definition validate_source_segments :: "(string \<Rightarrow> string) \<Rightarrow> segment_source list \<Rightarrow> audit_error + unit" where
  "validate_source_segments trim segments = for_each (validate_segment trim) (zip [0..<length segments] segments)"

definition parse_compact_request :: "('sk, 'vk) cap_env \<Rightarrow> (string \<Rightarrow> string) \<Rightarrow> json \<Rightarrow> audit_error + compact_request" where
  "parse_compact_request C trim body =
     and_then (ok_or (AuditInvalidField ''missing range'') (json_get body ''range'')) (\<lambda>range_val.
     and_then (parse_range C range_val) (\<lambda>range.
     and_then (ok_or (AuditInvalidField ''missing snapshot_ref'') (text_at body ''snapshot_ref'')) (\<lambda>snapshot_ref.
       if \<not> starts_with ''b3:'' snapshot_ref then Inl (AuditInvalidField ''snapshot_ref must be CID-like (b3:...)'')
       else
         and_then (ok_or (AuditInvalidField ''missing mode'') (text_at body ''mode'')) (\<lambda>mode.
           if mode \<notin> {''archive_then_delete'', ''delete_with_rollup''}
           then Inl (AuditInvalidField ''mode must be archive_then_delete|delete_with_rollup'')
           else
             and_then (ok_or (AuditInvalidField ''missing source_segments'')
                 (Option.bind (json_get body ''source_segments'') as_array)) (\<lambda>segments.
               if segments = [] then Inl (AuditInvalidField ''source_segments cannot be empty'')
               else
                 and_then (collect_results parse_segment (zip [0..<length segments] segments)) (\<lambda>source_segments.
                 and_then (validate_source_segments trim source_segments) (\<lambda>_.
                   Inr \<lparr>cm_range = range, cm_snapshot_ref = snapshot_ref, cm_source_segments = source_segments, cm_mode = mode\<rparr>)))))))"

definition parse_advisory_request :: "json \<Rightarrow> audit_error + advisory_request" where
  "parse_advisory_request body =
     and_then (ok_or (AuditInvalidField ''missing subject'') (json_get body ''subject'')) (\<lambda>subject.
     and_then (ok_or (AuditInvalidField ''subject.kind'') (text_at subject ''kind'')) (\<lambda>subject_kind.
       if subject_kind \<notin> {''report'', ''snapshot''} then Inl (AuditInvalidField ''subject.kind must be report|snapshot'')
       else
         and_then (ok_or (AuditInvalidField ''subject.receipt_cid'') (text_at subject ''receipt_cid'')) (\<lambda>cid.
           if \<not> starts_with ''b3:'' cid then Inl (AuditInvalidField ''subject.receipt_cid must be CID-like (b3:...)'')
           else Inr \<lparr>av_subject_kind = subject_kind, av_subject_receipt_cid = cid\<rparr>)))"

definition parse_audit_request :: "('sk, 'vk) cap_env \<Rightarrow> (string \<Rightarrow> string) \<Rightarrow> string \<Rightarrow> json \<Rightarrow> audit_error + audit_request" where
  "parse_audit_request C trim chip_type body =
     (if chip_type = TYPE_AUDIT_REPORT then map_ok AuditReport (parse_report_request C body)
      else if chip_type = TYPE_AUDIT_SNAPSHOT then map_ok AuditSnapshot (parse_snapshot_request C body)
      else if chip_type = TYPE_LEDGER_COMPACT then map_ok AuditCompact (parse_compact_request C trim body)
      else if chip_type = TYPE_AUDIT_ADVISORY then map_ok AuditAdvisory (parse_advisory_request body)
      else Inl (AuditInvalidField (''unsupported audit chip type '' @ chip_type)))"

section \<open>Validation\<close>

definition ranges_overlap :: "time_range \<Rightarrow> time_range \<Rightarrow> bool" where
  "ranges_overlap a b \<longleftrightarrow> tr_start a \<le> tr_end b \<and> tr_start b \<le> tr_end a"

definition range_covers :: "time_range \<Rightarrow> time_range \<Rightarrow> bool" where
  "range_covers outer inner \<longleftrightarrow> tr_start outer \<le> tr_start inner \<and> tr_end outer \<ge> tr_end inner"

definition validate_advisory_inputs :: "json \<Rightarrow> audit_error + unit" where
  "validate_advisory_inputs body =
     (case json_get body ''inputs'' of
        None \<Rightarrow> Inr ()
      | Some inputs \<Rightarrow>
          and_then (ok_or (AuditInvalidField ''inputs must be object'') (as_object inputs)) (\<lambda>m.
            for_each (\<lambda>(key, _). if key \<in> {''dataset_cid'', ''histograms_cid'', ''hll_cid''} then Inr ()
              else Inl (AuditInvalidField (''inputs.'' @ key @ '' not allowed; only aggregate CIDs are accepted''))) m))"

definition snapshot_clash :: "('sk, 'vk) cap_env \<Rightarrow> string \<Rightarrow> time_range \<Rightarrow> string option \<Rightarrow> stored_chip \<Rightarrow> bool" where
  "snapshot_clash C world requested_range requested_id chip =
     (if (case text_at (sc_data chip) ''@world'' of Some w \<Rightarrow> w \<noteq> world | None \<Rightarrow> False) then False
      else if requested_id \<noteq> None \<and> text_at (sc_data chip) ''@id'' = requested_id then False
      else (case parse_snapshot_request C (sc_data chip) of
          Inl _ \<Rightarrow> False
        | Inr existing \<Rightarrow> ranges_overlap requested_range (sr_range existing)))"

definition ensure_no_snapshot_overlap ::
  "'s backend_ops \<Rightarrow> ('sk, 'vk) cap_env \<Rightarrow> 's \<Rightarrow> string \<Rightarrow> time_range \<Rightarrow> json \<Rightarrow> audit_error + unit" where
  "ensure_no_snapshot_overlap B C s world requested_range body =
     and_then (map_err AuditChipStore (bo_by_type B s TYPE_AUDIT_SNAPSHOT)) (\<lambda>existing.
       for_each (\<lambda>chip. if snapshot_clash C world requested_range (text_at body ''@id'') chip
         then Inl (SnapshotOverlap (cp_show_time C (tr_start requested_range)) (cp_show_time C (tr_end requested_range)))
         else Inr ()) existing)"

definition find_snapshot_chip_by_ref :: "'s backend_ops \<Rightarrow> 's \<Rightarrow> string \<Rightarrow> audit_error + stored_chip option" where
  "find_snapshot_chip_by_ref B s snapshot_ref =
     and_then (map_err AuditChipStore (bo_get B s snapshot_ref)) (\<lambda>found.
       case found of
         Some chip \<Rightarrow> Inr (Some chip)
       | None \<Rightarrow> map_err AuditChipStore (bo_get_by_receipt B s snapshot_ref))"

definition ensure_snapshot_reference_covers_range ::
  "'s backend_ops \<Rightarrow> ('sk, 'vk) cap_env \<Rightarrow> 's \<Rightarrow> string \<Rightarrow> time_range \<Rightarrow> audit_error + unit" where
  "ensure_snapshot_reference_covers_range B C s snapshot_ref compact_range =
     and_then (find_snapshot_chip_by_ref B s snapshot_ref) (\<lambda>found.
     and_then (ok_or (SnapshotRefNotFound snapshot_ref) found) (\<lambda>snapshot_chip.
       if sc_type snapshot_chip \<noteq> TYPE_AUDIT_SNAPSHOT
       then Inl (SnapshotRefTypeMismatch TYPE_AUDIT_SNAPSHOT (sc_type snapshot_chip))
       else
         and_then (parse_snapshot_request C (sc_data snapshot_chip)) (\<lambda>snapshot_req.
           if \<not> range_covers (sr_range snapshot_req) compact_range then Inl SnapshotDoesNotCoverRange else Inr ())))"

definition audit_cap :: "('sk, 'vk) cap_env \<Rightarrow> json \<Rightarrow> string \<Rightarrow> string \<Rightarrow> audit_error + capability" where
  "audit_cap C body action world = map_err AuditCapability (require_cap C body action world)"

definition validate_request_for_check :: "'s backend_ops \<Rightarrow> ('sk, 'vk) cap_env \<Rightarrow> (string \<Rightarrow> string) \<Rightarrow> 's option \<Rightarrow> string \<Rightarrow> json \<Rightarrow>
    string \<Rightarrow> audit_error + audit_request" where
  "validate_request_for_check B C trim store chip_type body world =
     and_then (parse_audit_request C trim chip_type body) (\<lambda>parsed.
     and_then (case parsed of
         AuditReport req \<Rightarrow>
           and_then (audit_cap C body ''audit:report'' world) (\<lambda>_.
             case rp_format req of
               Some format \<Rightarrow> if format \<notin> {''ndjson'', ''csv'', ''pdf''}
                 then Inl (AuditInvalidField (''format must be one of ndjson|csv|pdf, got '' @ format)) else Inr ()
             | None \<Rightarrow> Inr ())
       | AuditSnapshot req \<Rightarrow>
           and_then (audit_cap C body ''audit:snapshot'' world) (\<lambda>_.
           and_then (ok_or AuditStoreRequired store) (\<lambda>s.
             ensure_no_snapshot_overlap B C s world (sr_range req) body))
       | AuditCompact req \<Rightarrow>
           and_then (audit_cap C body ''ledger:compact'' world) (\<lambda>_.
           and_then (ok_or AuditStoreRequired store) (\<lambda>s.
           and_then (ensure_snapshot_reference_covers_range B C s (cm_snapshot_ref req) (cm_range req)) (\<lambda>_.
             validate_source_segments trim (cm_source_segments req))))
       | AuditAdvisory req \<Rightarrow>
           and_then (audit_cap C body ''audit:advisory'' world) (\<lambda>_.
           and_then (validate_advisory_inputs body) (\<lambda>_.
           and_then (ok_or AuditStoreRequired store) (\<lambda>s.
           and_then (map_err AuditChipStore (bo_get_by_receipt B s (av_subject_receipt_cid req))) (\<lambda>subject.
             if subject = None then Inl (SubjectReceiptNotFound (av_subject_receipt_cid req)) else Inr ()))))) (\<lambda>_.
       Inr parsed))"

section \<open>Disjoint snapshots\<close>

text \<open>The stores that chips lead to when every audit request among them passed its validation. Time advances between requests.\<close>

inductive audited :: "'s backend_ops \<Rightarrow> store_env \<Rightarrow> ('sk, 'vk) cap_env \<Rightarrow> (string \<Rightarrow> string) \<Rightarrow> 's \<Rightarrow> 's \<Rightarrow> bool" for B E C trim start where
  audited_start: "audited B E C trim start start"
| audited_store: "audited B E C trim start s \<Longrightarrow> text_at body ''@type'' = Some chip_type \<Longrightarrow> text_at body ''@world'' = Some world \<Longrightarrow>
    (is_audit_request_type chip_type \<Longrightarrow> validate_request_for_check B (C\<lparr>cp_now := instant\<rparr>) trim (Some s) chip_type body world = Inr req) \<Longrightarrow>
    store_executed_chip B E body receipt now metadata (s, ix) = (Inr cid, s', ix') \<Longrightarrow>
    audited B E C trim start s'"

definition snapshot_of :: "('sk, 'vk) cap_env \<Rightarrow> stored_chip \<Rightarrow> string \<Rightarrow> time_range \<Rightarrow> bool" where
  "snapshot_of C c world r \<longleftrightarrow> sc_type c = TYPE_AUDIT_SNAPSHOT \<and> text_at (sc_data c) ''@world'' = Some world
     \<and> parse_snapshot_request C (sc_data c) = Inr \<lparr>sr_range = r\<rparr>"

definition snapshots_disjoint :: "('sk, 'vk) cap_env \<Rightarrow> (string \<Rightarrow> stored_chip option) \<Rightarrow> bool" where
  "snapshots_disjoint C A \<longleftrightarrow> (\<forall>a b c d world r q. A a = Some c \<and> A b = Some d \<and> snapshot_of C c world r \<and> snapshot_of C d world q
     \<and> text_at (sc_data c) ''@id'' \<noteq> text_at (sc_data d) ''@id'' \<longrightarrow> \<not> ranges_overlap r q)"

lemma parse_range_now [simp]: "parse_range (C\<lparr>cp_now := n\<rparr>) v = parse_range C v"
  by (simp add: parse_range_def)

lemma parse_snapshot_now [simp]: "parse_snapshot_request (C\<lparr>cp_now := n\<rparr>) v = parse_snapshot_request C v"
  by (simp add: parse_snapshot_request_def)

lemma snapshot_clash_now [simp]: "snapshot_clash (C\<lparr>cp_now := n\<rparr>) = snapshot_clash C"
  by (simp add: fun_eq_iff snapshot_clash_def cong: if_cong)

lemma ensure_no_overlap_now [simp]: "ensure_no_snapshot_overlap B (C\<lparr>cp_now := n\<rparr>) = ensure_no_snapshot_overlap B C"
  by (simp add: fun_eq_iff ensure_no_snapshot_overlap_def cong: if_cong)

lemma snapshot_validated:
  assumes "validate_request_for_check B C trim (Some s) TYPE_AUDIT_SNAPSHOT body world = Inr req" "parse_snapshot_request C body = Inr q"
  shows "ensure_no_snapshot_overlap B C s world (sr_range q) body = Inr ()"
  using assms by (auto simp: validate_request_for_check_def parse_audit_request_def result_simps)

lemma ranges_overlap_commute: "ranges_overlap a b \<longleftrightarrow> ranges_overlap b a"
  by (auto simp: ranges_overlap_def)

lemma for_each_Inr: "for_each f xs = Inr () \<longleftrightarrow> (\<forall>x \<in> set xs. f x = Inr ())"
  by (induction xs) (auto simp: result_simps)

lemma snapshot_clash_of:
  "snapshot_of C d world q \<Longrightarrow> i \<noteq> text_at (sc_data d) ''@id'' \<Longrightarrow> snapshot_clash C world r i d \<longleftrightarrow> ranges_overlap r q"
  by (auto simp: snapshot_clash_def snapshot_of_def)

context chip_backend
begin

lemma snapshot_admitted:
  assumes "ok s" "ensure_no_snapshot_overlap B C s world r body = Inr ()"
    and "abs s cid = Some d" "snapshot_of C d world q" "text_at body ''@id'' \<noteq> text_at (sc_data d) ''@id''"
  shows "\<not> ranges_overlap r q"
proof -
  obtain chips where chips: "bo_by_type B s TYPE_AUDIT_SNAPSHOT = Inr chips"
    "{c. \<exists>cid. abs s cid = Some c \<and> sc_type c = TYPE_AUDIT_SNAPSHOT} \<subseteq> set chips"
    using by_type_abs [OF assms(1)] by blast
  have "d \<in> set chips"
    using chips(2) assms(3,4) by (auto simp: snapshot_of_def)
  then have "\<not> snapshot_clash C world r (text_at body ''@id'') d"
    using assms(2) by (auto simp: ensure_no_snapshot_overlap_def chips(1) for_each_Inr split: if_split_asm)
  then show ?thesis
    using assms(4,5) by (simp add: snapshot_clash_of)
qed

lemma put_snapshots_disjoint:
  assumes "ok s" "snapshots_disjoint C (abs s)"
    and "\<And>world r. snapshot_of C chip world r \<Longrightarrow> ensure_no_snapshot_overlap B C s world r (sc_data chip) = Inr ()"
  shows "snapshots_disjoint C ((abs s)(sc_cid chip \<mapsto> chip))"
  unfolding snapshots_disjoint_def
proof (intro allI impI, elim conjE)
  fix a b c d world r q
  assume A: "((abs s)(sc_cid chip \<mapsto> chip)) a = Some c" "((abs s)(sc_cid chip \<mapsto> chip)) b = Some d"
    and snap: "snapshot_of C c world r" "snapshot_of C d world q" and ids: "text_at (sc_data c) ''@id'' \<noteq> text_at (sc_data d) ''@id''"
  consider "c = chip" "abs s b = Some d" | "d = chip" "abs s a = Some c" | "abs s a = Some c" "abs s b = Some d"
    using A ids by (cases "a = sc_cid chip"; cases "b = sc_cid chip") simp_all
  then show "\<not> ranges_overlap r q"
  proof cases
    case 1
    then show ?thesis
      using snapshot_admitted [OF assms(1) assms(3), of world r b d q] snap ids by simp
  next
    case 2
    then have "\<not> ranges_overlap q r"
      using snapshot_admitted [OF assms(1) assms(3), of world q a c r] snap ids by simp
    then show ?thesis
      by (simp add: ranges_overlap_commute)
  next
    case 3
    then show ?thesis
      using assms(2) snap ids unfolding snapshots_disjoint_def by blast
  qed
qed

lemma audited_invariant:
  assumes "audited B E C trim start s" "ok start" "abs start = Map.empty" "\<And>c. valid c"
  shows "ok s \<and> snapshots_disjoint C (abs s)"
  using assms(1)
proof induction
  case audited_start
  then show ?case
    using assms(2,3) by (simp add: snapshots_disjoint_def)
next
  case (audited_store s body chip_type world instant req receipt now metadata ix cid s' ix')
  then have ok: "ok s" and disjoint: "snapshots_disjoint C (abs s)"
    by simp_all
  obtain chip where chip: "stored_form E body receipt now metadata = Inr chip" "bo_put B chip s = (Inr (), s')"
    using audited_store.hyps(5) by (auto simp: store_executed_chip_def split: sum.split_asm prod.split_asm)
  have sel: "sc_data chip = body" "sc_type chip = chip_type"
    using chip(1) audited_store.hyps(2) by (auto simp: stored_form_def result_simps Let_def)
  have s': "ok s'" "abs s' = (abs s)(sc_cid chip \<mapsto> chip)"
    using put_abs [OF ok assms(4), of chip] chip(2) by auto
  have "ensure_no_snapshot_overlap B C s w r (sc_data chip) = Inr ()" if snap: "snapshot_of C chip w r" for w r
  proof -
    have "chip_type = TYPE_AUDIT_SNAPSHOT" "w = world" and r: "parse_snapshot_request C body = Inr \<lparr>sr_range = r\<rparr>"
      using snap sel audited_store.hyps(3) by (simp_all add: snapshot_of_def)
    then have "ensure_no_snapshot_overlap B (C\<lparr>cp_now := instant\<rparr>) s w r body = Inr ()"
      using snapshot_validated [of B "C\<lparr>cp_now := instant\<rparr>" trim s body world req "\<lparr>sr_range = r\<rparr>"] audited_store.hyps(4)
      by (simp add: is_audit_request_type_def)
    then show ?thesis
      by (simp add: sel)
  qed
  then show ?case
    unfolding s'(2) using put_snapshots_disjoint [OF ok disjoint, of chip] s'(1) by blast
qed

end

text \<open>In every reachable store the ledger snapshots of a world are disjoint: two stored snapshot requests of one world with
  different identifiers never overlap in time, whatever other chips were stored in between.\<close>

theorem snapshots_never_overlap:
  assumes "audited mem_ops E C trim mem_new s"
    and "mem_get s a = Some c" "mem_get s b = Some d" "snapshot_of C c world r" "snapshot_of C d world q"
    and "text_at (sc_data c) ''@id'' \<noteq> text_at (sc_data d) ''@id''"
  shows "\<not> ranges_overlap r q"
proof -
  have "snapshots_disjoint C (map_of (mb_chips s))"
    using mem.audited_invariant [OF assms(1) mem_ok_new] by (simp add: mem_new_def fun_eq_iff)
  then show ?thesis
    using assms(2-) unfolding snapshots_disjoint_def mem_get_def by blast
qed

lemma sled_snapshots_never_overlap:
  assumes "audited (sled_ops K) E C trim sled_new s" "\<And>c. codec_reads K c"
  shows "snapshots_disjoint C (sled_abs K s)"
proof -
  have "sled_ok K sled_new" "sled_abs K sled_new = Map.empty"
    by (auto simp: sled_ok_def sled_new_def sled_readable_def sled_indexed_def sled_abs_def fun_eq_iff)
  then show ?thesis
    using sled.audited_invariant [OF assms(1) _ _ assms(2)] by simp
qed

text \<open>A window that ends in a character of several bytes makes the reader panic.\<close>

lemma window_panics: "parse_window (string_of_bytes [0x35, 0xC3, 0xA9]) = Inl AuditPanicked"
  by code_simp

end
