(* ===== verification/Policy_Chain.thy ===== *)
theory Policy_Chain
  imports Policy Receipt
begin

text \<open>
  The policies of a request: the genesis policy and its chip (\<open>crates/ubl_runtime/src/genesis.rs\<close>), the
  loader that collects the policies attached to the ancestors of a chip with its in-memory storage
  (\<open>policy_loader.rs\<close>), and the evaluation of a chain of policies with its trace
  (\<open>pipeline/stages/check.rs\<close>, \<open>pipeline/mod.rs\<close>). The readers that \<open>serde\<close> derives for circuits and scopes are
  fields of \<open>policy_reader\<close>; a hash map is an association list and a hash set a list.
\<close>

section \<open>Serialised policies\<close>

definition usize_json :: "nat \<Rightarrow> json" where
  "usize_json n = JNum (N_Int (int n))"

fun expression_json :: "expression \<Rightarrow> json" where
  "expression_json (Always b) = JObj [(''Always'', JBool b)]"
| "expression_json (ContextHas k) = JObj [(''ContextHas'', JStr k)]"
| "expression_json (ContextEquals k v) = JObj [(''ContextEquals'', JArr [JStr k, v])]"
| "expression_json (BodySizeLte n) = JObj [(''BodySizeLte'', usize_json n)]"
| "expression_json (TypeEquals t) = JObj [(''TypeEquals'', JStr t)]"
| "expression_json (And es) = JObj [(''And'', JArr (map expression_json es))]"
| "expression_json (Or es) = JObj [(''Or'', JArr (map expression_json es))]"
| "expression_json (NotE e) = JObj [(''Not'', expression_json e)]"

definition reasoning_bit_json :: "reasoning_bit \<Rightarrow> json" where
  "reasoning_bit_json rb = JObj [(''id'', JStr (rb_id rb)), (''name'', JStr (rb_name rb)),
     (''condition'', expression_json (rb_condition rb)), (''on_true'', decision_json (rb_on_true rb)),
     (''on_false'', decision_json (rb_on_false rb)), (''requires_context'', JArr (map JStr (rb_requires_context rb)))]"

fun aggregation_json :: "aggregation_mode \<Rightarrow> json" where
  "aggregation_json AllMode = JStr ''All''"
| "aggregation_json AnyMode = JStr ''Any''"
| "aggregation_json Majority = JStr ''Majority''"
| "aggregation_json (KofN k n) = JObj [(''KofN'', JObj [(''k'', usize_json k), (''n'', usize_json n)])]"
| "aggregation_json FirstDecisive = JStr ''FirstDecisive''"

fun circuit_json :: "circuit \<Rightarrow> json"
and composition_json :: "composition_mode \<Rightarrow> json"
and branch_json :: "conditional_branch \<Rightarrow> json" where
  "circuit_json (Circuit cid name bits cm agg) =
     JObj [(''id'', JStr cid), (''name'', JStr name), (''reasoning_bits'', JArr (map reasoning_bit_json bits)),
       (''composition'', composition_json cm), (''aggregator'', aggregation_json agg)]"
| "composition_json Sequential = JStr ''Sequential''"
| "composition_json Parallel = JStr ''Parallel''"
| "composition_json (Conditional branches) = JObj [(''Conditional'', JArr (map branch_json branches))]"
| "branch_json (ConditionalBranch c th el) =
     JObj [(''condition'', expression_json c), (''then_circuit'', circuit_json th),
       (''else_circuit'', case el of None \<Rightarrow> JNull | Some e \<Rightarrow> circuit_json e)]"

definition scope_json :: "policy_scope \<Rightarrow> json" where
  "scope_json s = JObj [(''chip_types'', JArr (map JStr (scope_chip_types s))),
     (''operations'', JArr (map JStr (scope_operations s))), (''level'', JStr (scope_level s))]"

section \<open>The genesis policy\<close>

definition GENESIS_TYPES :: "string list" where
  "GENESIS_TYPES = [''ubl/app'', ''ubl/tenant'', ''ubl/user'', ''ubl/policy'', ''ubl/token'', ''ubl/invite'', ''ubl/ai.passport'',
     ''ubl/wasm.module'', ''ubl/verification'', ''ubl/advisory'', ''ubl/adapter'', ''ubl/membership'', ''ubl/revoke'',
     ''ubl/key.rotate'', ''ubl/document'', ''audit/report.request.v1'', ''audit/ledger.snapshot.request.v1'',
     ''ledger/segment.compact.v1'', ''audit/advisory.request.v1'']"

definition create_type_validation_rb :: reasoning_bit where
  "create_type_validation_rb = \<lparr>rb_id = ''type_validation'', rb_name = ''Valid Chip Type'',
     rb_condition = Or (map TypeEquals GENESIS_TYPES), rb_on_true = Allow, rb_on_false = DenyDecision,
     rb_requires_context = [''chip.@type'']\<rparr>"

definition create_id_required_rb :: reasoning_bit where
  "create_id_required_rb = \<lparr>rb_id = ''has_logical_id'', rb_name = ''Has ID Field'', rb_condition = ContextHas ''chip.id'',
     rb_on_true = Allow, rb_on_false = DenyDecision, rb_requires_context = [''chip.id'']\<rparr>"

definition create_size_limit_rb :: reasoning_bit where
  "create_size_limit_rb = \<lparr>rb_id = ''size_limit'', rb_name = ''Body Size Limit'', rb_condition = BodySizeLte 1048576,
     rb_on_true = Allow, rb_on_false = DenyDecision, rb_requires_context = []\<rparr>"

definition create_no_malicious_content_rb :: reasoning_bit where
  "create_no_malicious_content_rb = \<lparr>rb_id = ''no_malicious_content'', rb_name = ''No Malicious Content'',
     rb_condition = And [NotE (ContextEquals ''body.script'' (JStr ''*'')), NotE (ContextEquals ''body.query'' (JStr ''DROP TABLE*''))],
     rb_on_true = Allow, rb_on_false = DenyDecision, rb_requires_context = []\<rparr>"

definition create_genesis_circuit :: circuit where
  "create_genesis_circuit = Circuit ''genesis_validation'' ''Genesis Validation Circuit''
     [create_type_validation_rb, create_id_required_rb, create_size_limit_rb, create_no_malicious_content_rb] Sequential AllMode"

definition create_genesis_policy :: policy_bit where
  "create_genesis_policy = \<lparr>pb_id = ''ubl.genesis.v1'', pb_name = ''UBL Genesis Policy'', pb_circuits = [create_genesis_circuit],
     pb_scope = \<lparr>scope_chip_types = [''*''], scope_operations = [''create'', ''update''], scope_level = ''genesis''\<rparr>\<rparr>"

definition create_genesis_chip_body :: json where
  "create_genesis_chip_body = JObj [(''@type'', JStr ''ubl/policy.genesis''), (''id'', JStr ''ubl.genesis.v1''),
     (''version'', JStr ''1.0''), (''description'', JStr ''Genesis Policy - Root of all UBL policies''),
     (''created_at'', JStr ''2025-02-15T00:00:00Z''), (''circuits'', JArr (map circuit_json (pb_circuits create_genesis_policy))),
     (''scope'', scope_json (pb_scope create_genesis_policy))]"

text \<open>\<^const>\<open>None\<close> is the panic of \<open>expect\<close>.\<close>

definition genesis_chip_cid :: "text_env \<Rightarrow> (u8 list \<Rightarrow> u8 list) \<Rightarrow> string option" where
  "genesis_chip_cid T hash =
     (case to_nrf1_bytes T create_genesis_chip_body of Inr b \<Rightarrow> Some (compute_cid hash b) | Inl _ \<Rightarrow> None)"

definition is_genesis_chip :: "text_env \<Rightarrow> (u8 list \<Rightarrow> u8 list) \<Rightarrow> string \<Rightarrow> bool" where
  "is_genesis_chip T hash cid \<longleftrightarrow> genesis_chip_cid T hash = Some cid"

section \<open>The policy storage\<close>

record chip_data =
  cd_cid :: string
  cd_type :: string
  cd_body :: json
  cd_parents :: "string list"

record policy_storage =
  ps_chips :: "(string \<times> chip_data) list"
  ps_by_type :: "(string \<times> string list) list"
  ps_by_parent :: "(string \<times> string list) list"

definition policy_storage_new :: policy_storage where
  "policy_storage_new = \<lparr>ps_chips = [], ps_by_type = [], ps_by_parent = []\<rparr>"

definition entry_or_empty :: "(string \<times> string list) list \<Rightarrow> string \<Rightarrow> string list" where
  "entry_or_empty m k = (case map_of m k of Some cids \<Rightarrow> cids | None \<Rightarrow> [])"

definition push_entry :: "string \<Rightarrow> string \<Rightarrow> (string \<times> string list) list \<Rightarrow> (string \<times> string list) list" where
  "push_entry cid k m = obj_insert k (entry_or_empty m k @ [cid]) m"

definition add_chip :: "chip_data \<Rightarrow> policy_storage \<Rightarrow> policy_storage" where
  "add_chip chip s =
     \<lparr>ps_chips = obj_insert (cd_cid chip) chip (ps_chips s),
      ps_by_type = push_entry (cd_cid chip) (cd_type chip) (ps_by_type s),
      ps_by_parent = fold (push_entry (cd_cid chip)) (cd_parents chip) (ps_by_parent s)\<rparr>"

definition policy_get_chip :: "policy_storage \<Rightarrow> string \<Rightarrow> chip_data option" where
  "policy_get_chip s cid = map_of (ps_chips s) cid"

definition query_by_type :: "policy_storage \<Rightarrow> string \<Rightarrow> chip_data list" where
  "query_by_type s chip_type = List.map_filter (policy_get_chip s) (entry_or_empty (ps_by_type s) chip_type)"

definition find_children :: "policy_storage \<Rightarrow> string \<Rightarrow> chip_data list" where
  "find_children s parent_cid = List.map_filter (policy_get_chip s) (entry_or_empty (ps_by_parent s) parent_cid)"

section \<open>The loader\<close>

datatype policy_format_fault = MissingCircuits | MissingScope | InvalidCircuits string | InvalidScope string

datatype policy_error = PolicyFormat policy_format_fault | CircularDependency string

text \<open>One round over the current parents, with the visited identifiers, the ancestry so far and the next parents.\<close>

fun visit_parents :: "(string \<Rightarrow> bool) \<Rightarrow> policy_storage \<Rightarrow> string list \<Rightarrow> string list \<Rightarrow> string list \<Rightarrow> string list \<Rightarrow>
    policy_error + string list \<times> string list \<times> string list" where
  "visit_parents genesis s [] visited ancestry next_parents = Inr (visited, ancestry, next_parents)"
| "visit_parents genesis s (parent_cid # parents) visited ancestry next_parents =
     (if parent_cid \<in> set visited then Inl (CircularDependency parent_cid)
      else if genesis parent_cid then visit_parents genesis s parents (parent_cid # visited) ancestry next_parents
      else visit_parents genesis s parents (parent_cid # visited) (ancestry @ [parent_cid])
        (next_parents @ (case policy_get_chip s parent_cid of Some chip \<Rightarrow> cd_parents chip | None \<Rightarrow> [])))"

text \<open>A round that finds further parents visits a stored chip for the first time.\<close>

abbreviation unvisited :: "policy_storage \<Rightarrow> string list \<Rightarrow> string set" where
  "unvisited s visited \<equiv> fst ` set (ps_chips s) - set visited"

lemma visit_parents_visits:
  assumes "visit_parents genesis s ps visited ancestry ns = Inr (visited', ancestry', ns')"
  shows "set visited \<subseteq> set visited' \<and> (ns' \<noteq> [] \<longrightarrow> ns \<noteq> [] \<or> unvisited s visited' \<subset> unvisited s visited)"
  using assms
proof (induction ps arbitrary: visited ancestry ns)
  case (Cons p ps)
  let ?extra = "if genesis p then [] else (case policy_get_chip s p of Some chip \<Rightarrow> cd_parents chip | None \<Rightarrow> [])"
  have new: "p \<notin> set visited"
    using Cons.prems by (simp split: if_split_asm)
  have "visit_parents genesis s ps (p # visited) (if genesis p then ancestry else ancestry @ [p]) (ns @ ?extra) = Inr (visited', ancestry', ns')"
    using Cons.prems new by (simp split: if_split_asm)
  then have step: "set (p # visited) \<subseteq> set visited'"
    "ns' \<noteq> [] \<longrightarrow> ns @ ?extra \<noteq> [] \<or> unvisited s visited' \<subset> unvisited s (p # visited)"
    by (rule Cons.IH [THEN conjunct1], rule Cons.IH [THEN conjunct2])
  show ?case
  proof (cases "p \<in> fst ` set (ps_chips s)")
    case True
    then have "unvisited s (p # visited) \<subset> unvisited s visited"
      using new by auto
    with step(1) show ?thesis
      by auto
  next
    case False
    then have "policy_get_chip s p = None" "unvisited s (p # visited) = unvisited s visited"
      by (auto simp: policy_get_chip_def map_of_eq_None_iff)
    with step show ?thesis
      by simp
  qed
qed simp

function ancestry_loop :: "(string \<Rightarrow> bool) \<Rightarrow> policy_storage \<Rightarrow> string list \<Rightarrow> string list \<Rightarrow> string list \<Rightarrow> policy_error + string list" where
  "ancestry_loop genesis s current_parents visited ancestry =
     (if current_parents = [] then Inr ancestry
      else and_then (visit_parents genesis s current_parents visited ancestry []) (\<lambda>(visited', ancestry', next_parents).
        ancestry_loop genesis s next_parents visited' ancestry'))"
  by pat_completeness auto
termination
proof (relation "measures [\<lambda>(_, s, _, visited, _). card (unvisited s visited), \<lambda>(_, _, current, _, _). length (take 1 current)]")
  fix genesis :: "string \<Rightarrow> bool" and s current visited ancestry r visited' r' ancestry' next_parents
  assume *: "current \<noteq> []" "visit_parents genesis s current visited ancestry [] = Inr r" "(visited', r') = r"
    "(ancestry', next_parents) = r'"
  have v: "set visited \<subseteq> set visited'" "next_parents \<noteq> [] \<Longrightarrow> unvisited s visited' \<subset> unvisited s visited"
    using visit_parents_visits [of genesis s current visited ancestry "[]"] *(2-4) by auto
  have "card (unvisited s visited') \<le> card (unvisited s visited)"
    by (rule card_mono) (use v(1) in auto)
  moreover have "card (unvisited s visited') < card (unvisited s visited)" if "next_parents \<noteq> []"
    by (rule psubset_card_mono [OF _ v(2) [OF that]]) simp
  ultimately show "((genesis, s, next_parents, visited', ancestry'), (genesis, s, current, visited, ancestry))
      \<in> measures [\<lambda>(_, s, _, visited, _). card (unvisited s visited), \<lambda>(_, _, current, _, _). length (take 1 current)]"
    using *(1) by (cases "next_parents = []") (auto simp: le_less)
qed simp

declare ancestry_loop.simps [simp del]

definition resolve_ancestry :: "(string \<Rightarrow> bool) \<Rightarrow> policy_storage \<Rightarrow> string list \<Rightarrow> policy_error + string list" where
  "resolve_ancestry genesis s parents = map_ok rev (ancestry_loop genesis s parents [] [])"

text \<open>The readers that \<open>serde\<close> derives for circuits and scopes.\<close>

record policy_reader =
  pl_circuits :: "json \<Rightarrow> string + circuit list"
  pl_scope :: "json \<Rightarrow> string + policy_scope"

definition parse_policy_chip :: "policy_reader \<Rightarrow> chip_data \<Rightarrow> policy_error + policy_bit" where
  "parse_policy_chip R chip =
     and_then (ok_or (PolicyFormat MissingCircuits) (json_get (cd_body chip) ''circuits'')) (\<lambda>circuits.
     and_then (ok_or (PolicyFormat MissingScope) (json_get (cd_body chip) ''scope'')) (\<lambda>scope.
     and_then (map_err (PolicyFormat \<circ> InvalidCircuits) (pl_circuits R circuits)) (\<lambda>circuits.
     and_then (map_err (PolicyFormat \<circ> InvalidScope) (pl_scope R scope)) (\<lambda>scope.
       let pid = (case Option.bind (json_get (cd_body chip) ''id'') as_str of Some i \<Rightarrow> i | None \<Rightarrow> cd_cid chip);
           name = (case Option.bind (json_get (cd_body chip) ''description'') as_str of Some d \<Rightarrow> d | None \<Rightarrow> pid)
       in Inr \<lparr>pb_id = pid, pb_name = name, pb_circuits = circuits, pb_scope = scope\<rparr>))))"

definition find_attached_policies :: "policy_reader \<Rightarrow> policy_storage \<Rightarrow> string \<Rightarrow> policy_error + policy_bit list" where
  "find_attached_policies R s chip_cid =
     collect_results (parse_policy_chip R) (filter (\<lambda>chip. starts_with ''ubl/policy'' (cd_type chip)) (find_children s chip_cid))"

definition load_policy_chain :: "policy_reader \<Rightarrow> (string \<Rightarrow> bool) \<Rightarrow> policy_storage \<Rightarrow> string list \<Rightarrow> policy_error + policy_bit list" where
  "load_policy_chain R genesis s parents =
     and_then (resolve_ancestry genesis s parents) (\<lambda>ancestry.
       map_ok (\<lambda>attached. create_genesis_policy # concat attached) (collect_results (find_attached_policies R s) ancestry))"

section \<open>Evaluating a chain\<close>

record check_result =
  ck_decision :: decision
  ck_reason :: string
  ck_short_circuited :: bool
  ck_trace :: "policy_trace_entry list"

text \<open>The durations that the trace reports are arguments: nanoseconds of the n-th vote, milliseconds of the n-th policy.\<close>

definition policy_result_to_trace :: "(nat \<Rightarrow> u64) \<Rightarrow> i64 \<Rightarrow> policy_result \<Rightarrow> policy_trace_entry" where
  "policy_result_to_trace nanos duration_ms r =
     (let votes = concat (map cr_rb_results (pr_circuit_results r)); parts = split_on (CHR ''.'') (pr_policy_id r)
      in \<lparr>pt_level = (if length parts > 1 then parts ! 1 else ''unknown''), pt_policy_id = pr_policy_id r, pt_result = pr_decision r,
          pt_reason = pr_reason r,
          pt_rb_results = map (\<lambda>(i, rb). \<lparr>rv_rb_id = res_rb_id rb, rv_decision = res_decision rb, rv_reason = res_reason rb,
            rv_inputs_used = res_inputs_used rb, rv_duration_nanos = nanos i\<rparr>) (zip [0..<length votes] votes),
          pt_duration_ms = duration_ms\<rparr>)"

fun evaluate_policies :: "(nat \<Rightarrow> nat \<Rightarrow> u64) \<Rightarrow> (nat \<Rightarrow> i64) \<Rightarrow> eval_context \<Rightarrow> policy_bit list \<Rightarrow> policy_trace_entry list \<Rightarrow> check_result" where
  "evaluate_policies nanos millis ctx [] trace =
     \<lparr>ck_decision = Allow, ck_reason = ''All policies allowed'', ck_short_circuited = False, ck_trace = trace\<rparr>"
| "evaluate_policies nanos millis ctx (policy # policies) trace =
     (let result = policy_evaluate policy ctx; i = length trace;
          trace' = trace @ [policy_result_to_trace (nanos i) (millis i) result]
      in if pr_decision result = DenyDecision
         then \<lparr>ck_decision = DenyDecision, ck_reason = pr_reason result, ck_short_circuited = True, ck_trace = trace'\<rparr>
         else evaluate_policies nanos millis ctx policies trace')"

definition policy_context :: "(json \<Rightarrow> nat) \<Rightarrow> string \<Rightarrow> string option \<Rightarrow> json \<Rightarrow> eval_context" where
  "policy_context body_len chip_type chip_id body =
     \<lparr>ctx_chip = body, ctx_body_size = body_len body,
      ctx_variables = (case chip_id of
          Some i \<Rightarrow> [''chip.@type'' \<mapsto> JStr chip_type, ''chip.id'' \<mapsto> JStr i]
        | None \<Rightarrow> [''chip.@type'' \<mapsto> JStr chip_type])\<rparr>"

section \<open>What the genesis policy admits\<close>

lemma genesis_bits:
  "denies (rb_evaluate create_type_validation_rb ctx)
     \<longleftrightarrow> (case Option.bind (json_get (ctx_chip ctx) ''@type'') as_str of Some t \<Rightarrow> t \<notin> set GENESIS_TYPES | None \<Rightarrow> True)"
  "denies (rb_evaluate create_id_required_rb ctx) \<longleftrightarrow> ctx_variables ctx ''chip.id'' = None"
  "denies (rb_evaluate create_size_limit_rb ctx) \<longleftrightarrow> \<not> ctx_body_size ctx \<le> 1048576"
  "denies (rb_evaluate create_no_malicious_content_rb ctx) \<longleftrightarrow>
     (\<exists>k v p. (k, p) \<in> {(''body.script'', ''*''), (''body.query'', ''DROP TABLE*'')} \<and> ctx_variables ctx k = Some v \<and> json_eq v (JStr p))"
  by (auto simp: rb_evaluate_def create_type_validation_rb_def create_id_required_rb_def create_size_limit_rb_def
      create_no_malicious_content_rb_def Let_def list_ex_iff split: option.split)

lemma sequential_all_denies:
  "cr_decision (evaluate_sequential cid AllMode bits ctx) = DenyDecision \<longleftrightarrow> (\<exists>r \<in> set (bit_results bits ctx). denies r)"
proof (cases "dropWhile (\<lambda>r. \<not> denies r) (bit_results bits ctx)")
  case Nil
  then have "\<forall>r \<in> set (bit_results bits ctx). \<not> denies r"
    by (simp add: dropWhile_eq_Nil_conv)
  then show ?thesis
    by (simp add: evaluate_sequential_def sequential_loop_eq Nil aggregate_results_def aggregate_decision_def decided_def filter_empty_conv)
next
  case (Cons r rest)
  then have "r \<in> set (dropWhile (\<lambda>r. \<not> denies r) (bit_results bits ctx))" "denies r"
    using hd_dropWhile [of "\<lambda>r. \<not> denies r" "bit_results bits ctx"] by auto
  then have "r \<in> set (bit_results bits ctx)" "denies r"
    by (auto dest: set_dropWhileD)
  then show ?thesis
    by (auto simp: evaluate_sequential_def sequential_loop_eq Cons)
qed

lemma genesis_policy_bits:
  "pr_decision (policy_evaluate create_genesis_policy ctx) = (if \<exists>r \<in> set (bit_results [create_type_validation_rb,
     create_id_required_rb, create_size_limit_rb, create_no_malicious_content_rb] ctx). denies r then DenyDecision else Allow)"
  unfolding sequential_all_denies [symmetric, of _ _ "''genesis_validation''"]
  by (simp add: policy_evaluate_def create_genesis_policy_def create_genesis_circuit_def Let_def)

lemma genesis_decision:
  "pr_decision (policy_evaluate create_genesis_policy (policy_context body_len chip_type chip_id body)) =
     (if (\<exists>t. Option.bind (json_get body ''@type'') as_str = Some t \<and> t \<in> set GENESIS_TYPES)
        \<and> chip_id \<noteq> None \<and> body_len body \<le> 1048576 then Allow else DenyDecision)"
proof -
  let ?ctx = "policy_context body_len chip_type chip_id body"
  let ?bits = "[create_type_validation_rb, create_id_required_rb, create_size_limit_rb, create_no_malicious_content_rb]"
  have ctx: "ctx_variables ?ctx k = (if k = ''chip.id'' then map_option JStr chip_id else if k = ''chip.@type'' then Some (JStr chip_type) else None)" for k
    by (simp add: policy_context_def split: option.split)
  have clean: "\<not> denies (rb_evaluate create_no_malicious_content_rb ?ctx)"
    by (simp add: genesis_bits ctx)
  have "(\<exists>r \<in> set (bit_results ?bits ?ctx). denies r) \<longleftrightarrow> \<not> ((\<exists>t. Option.bind (json_get body ''@type'') as_str = Some t
      \<and> t \<in> set GENESIS_TYPES) \<and> chip_id \<noteq> None \<and> body_len body \<le> 1048576)"
    using clean by (simp add: genesis_bits ctx split: option.split) (auto simp: policy_context_def)
  then show ?thesis
    unfolding genesis_policy_bits by (simp only: if_not_P not_not split: if_split) blast
qed


lemma genesis_type_member: "t \<in> set GENESIS_TYPES \<longleftrightarrow> t \<in>
    {''ubl/app'', ''ubl/tenant'', ''ubl/user'', ''ubl/policy'', ''ubl/token'', ''ubl/invite'', ''ubl/ai.passport'', ''ubl/wasm.module'',
     ''ubl/verification'', ''ubl/advisory'', ''ubl/adapter'', ''ubl/membership'', ''ubl/revoke'', ''ubl/key.rotate'', ''ubl/document'',
     ''audit/report.request.v1'', ''audit/ledger.snapshot.request.v1'', ''ledger/segment.compact.v1'', ''audit/advisory.request.v1''}"
  by (simp only: GENESIS_TYPES_def list.set)

text \<open>C24: The genesis policy, which every request is checked against first, denies exactly the chips whose type is not one of
  the nineteen types of the code, that have no identifier or that are larger than a mebibyte. Its content rule never denies: it looks
  for context variables that the check stage does not set. In particular payments, invoices and silicon chips, which other
  stages handle, are never admitted. (The published policy file with the same identifier lists only the first eight types.)\<close>

theorem genesis_admits_iff:
  "pr_decision (policy_evaluate create_genesis_policy (policy_context body_len chip_type chip_id body)) = Allow \<longleftrightarrow>
     (\<exists>t. json_get body ''@type'' = Some (JStr t) \<and> t \<in>
        {''ubl/app'', ''ubl/tenant'', ''ubl/user'', ''ubl/policy'', ''ubl/token'', ''ubl/invite'', ''ubl/ai.passport'', ''ubl/wasm.module'',
         ''ubl/verification'', ''ubl/advisory'', ''ubl/adapter'', ''ubl/membership'', ''ubl/revoke'', ''ubl/key.rotate'', ''ubl/document'',
         ''audit/report.request.v1'', ''audit/ledger.snapshot.request.v1'', ''ledger/segment.compact.v1'', ''audit/advisory.request.v1''})
     \<and> chip_id \<noteq> None \<and> body_len body \<le> 1048576"
  unfolding genesis_decision genesis_type_member by (simp add: bind_eq_Some_conv as_str_Some)

text \<open>The scope of a policy has no influence: it is neither compared with the type of the chip nor with the operation.\<close>

lemma policy_scope_ignored: "policy_evaluate (p\<lparr>pb_scope := scope\<rparr>) ctx = policy_evaluate p ctx"
  by (simp add: policy_evaluate_def)

text \<open>The identifier of the genesis chip exists: its body has canonical bytes whatever Unicode tables are in use.\<close>

lemma genesis_texts: "printable_ascii s \<Longrightarrow> text_laws T \<Longrightarrow> key_ok T s"
  using printable_ascii_clean [of s] by (auto simp: key_ok_def text_laws_def)

lemma genesis_encodes:
  assumes "text_laws T"
  shows "\<exists>cid. genesis_chip_cid T hash = Some cid"
proof -
  have ascii: "key_ok T s" if "list_all (\<lambda>c. 32 \<le> (of_char c :: nat) \<and> of_char c < (127 :: nat)) s" for s
    using that assms by (intro genesis_texts) (simp_all add: printable_ascii_def list_all_iff)
  have "text_ok T create_genesis_chip_body" "json_i64 create_genesis_chip_body"
    by (simp_all add: create_genesis_chip_body_def create_genesis_policy_def create_genesis_circuit_def create_type_validation_rb_def
        create_id_required_rb_def create_size_limit_rb_def create_no_malicious_content_rb_def GENESIS_TYPES_def reasoning_bit_json_def
        scope_json_def decision_json_def show_decision_def usize_json_def ascii)
  then obtain b where "to_nrf1_bytes T create_genesis_chip_body = Inr b"
    using text_ok_nrf [of T create_genesis_chip_body] by (auto simp: to_nrf1_bytes_iff)
  then show ?thesis
    by (simp add: genesis_chip_cid_def)
qed

section \<open>The ancestors of a chip\<close>

definition parents_of :: "(string \<Rightarrow> bool) \<Rightarrow> policy_storage \<Rightarrow> string \<Rightarrow> string list" where
  "parents_of genesis s cid =
     (if genesis cid then [] else (case policy_get_chip s cid of Some chip \<Rightarrow> cd_parents chip | None \<Rightarrow> []))"

definition ancestors :: "(string \<Rightarrow> bool) \<Rightarrow> policy_storage \<Rightarrow> string set \<Rightarrow> string set" where
  "ancestors genesis s start = {(x, y). y \<in> set (parents_of genesis s x)}\<^sup>* `` start"

lemma visit_parents_spec:
  assumes "visit_parents genesis s ps visited ancestry ns = Inr (visited', ancestry', ns')"
  shows "set visited' = set visited \<union> set ps \<and> ancestry' = ancestry @ filter (\<lambda>p. \<not> genesis p) ps
    \<and> ns' = ns @ concat (map (parents_of genesis s) ps) \<and> distinct ps \<and> set ps \<inter> set visited = {}"
  using assms
proof (induction ps arbitrary: visited ancestry ns)
  case (Cons p ps)
  have new: "p \<notin> set visited"
    using Cons.prems by (simp split: if_split_asm)
  have "visit_parents genesis s ps (p # visited) (if genesis p then ancestry else ancestry @ [p]) (ns @ parents_of genesis s p)
      = Inr (visited', ancestry', ns')"
    using Cons.prems new by (simp add: parents_of_def split: if_split_asm)
  from Cons.IH [OF this] new show ?case
    by auto
qed simp

lemma ancestors_parents:
  assumes "X = (\<Union>p \<in> Y. set (parents_of genesis s p))"
  shows "ancestors genesis s X \<subseteq> ancestors genesis s Y"
proof
  fix y
  let ?R = "{(x, y). y \<in> set (parents_of genesis s x)}"
  assume "y \<in> ancestors genesis s X"
  then obtain x p where "(x, y) \<in> ?R\<^sup>*" "p \<in> Y" "(p, x) \<in> ?R"
    using assms by (auto simp: ancestors_def)
  then show "y \<in> ancestors genesis s Y"
    unfolding ancestors_def by (blast intro: converse_rtrancl_into_rtrancl)
qed

lemma ancestry_loop_spec:
  assumes "ancestry_loop genesis s current visited ancestry = Inr result"
    and "set ancestry = {v \<in> set visited. \<not> genesis v}" "distinct ancestry"
    and "\<forall>v \<in> set visited. set (parents_of genesis s v) \<subseteq> set visited \<union> set current"
  shows "distinct result \<and> (\<exists>V. set result = {v \<in> V. \<not> genesis v} \<and> set visited \<union> set current \<subseteq> V
    \<and> (\<forall>v \<in> V. set (parents_of genesis s v) \<subseteq> V) \<and> V \<subseteq> set visited \<union> ancestors genesis s (set current))"
  using assms
proof (induction genesis s current visited ancestry rule: ancestry_loop.induct)
  case (1 genesis s current visited ancestry)
  show ?case
  proof (cases "current = []")
    case True
    then show ?thesis
      using "1.prems" by (auto simp: ancestry_loop.simps)
  next
    case False
    obtain v' a' n' where step: "visit_parents genesis s current visited ancestry [] = Inr (v', a', n')"
      and rest: "ancestry_loop genesis s n' v' a' = Inr result"
      using "1.prems"(1) False by (auto simp: ancestry_loop.simps [of genesis s current] result_simps)
    note spec = visit_parents_spec [OF step, THEN conjunct1] visit_parents_spec [OF step, THEN conjunct2, THEN conjunct1]
      visit_parents_spec [OF step, THEN conjunct2, THEN conjunct2, THEN conjunct1] visit_parents_spec [OF step, THEN conjunct2, THEN conjunct2, THEN conjunct2]
    have ih: "distinct result \<and> (\<exists>V. set result = {v \<in> V. \<not> genesis v} \<and> set v' \<union> set n' \<subseteq> V
        \<and> (\<forall>v \<in> V. set (parents_of genesis s v) \<subseteq> V) \<and> V \<subseteq> set v' \<union> ancestors genesis s (set n'))"
    proof (rule "1.IH" [OF False step refl refl rest])
      show "set a' = {v \<in> set v'. \<not> genesis v}"
        using spec "1.prems"(2) by auto
      show "distinct a'"
        using spec "1.prems"(2,3) by auto
      show "\<forall>v \<in> set v'. set (parents_of genesis s v) \<subseteq> set v' \<union> set n'"
        using spec "1.prems"(4) by auto
    qed
    have "set n' = (\<Union>p \<in> set current. set (parents_of genesis s p))"
      using spec(3) by simp
    then have sub: "ancestors genesis s (set n') \<subseteq> ancestors genesis s (set current)" "set current \<subseteq> ancestors genesis s (set current)"
      by (rule ancestors_parents) (auto simp: ancestors_def)
    obtain V where V: "set result = {v \<in> V. \<not> genesis v}" "set v' \<union> set n' \<subseteq> V"
      "\<forall>v \<in> V. set (parents_of genesis s v) \<subseteq> V" "V \<subseteq> set v' \<union> ancestors genesis s (set n')"
      using ih by blast
    have "set visited \<union> set current \<subseteq> V" "V \<subseteq> set visited \<union> ancestors genesis s (set current)"
      using V(2,4) sub spec(1) by auto
    with ih V(1,3) show ?thesis
      by blast
  qed
qed

text \<open>C25: Ancestry resolution returns every ancestor but genesis exactly once, following the parents of stored chips and
  stopping at genesis; it returns for every storage, cyclic or not.\<close>

theorem ancestry_complete:
  assumes "resolve_ancestry genesis s parents = Inr ancestry"
  shows "distinct ancestry \<and> set ancestry = {c \<in> ancestors genesis s (set parents). \<not> genesis c}"
proof -
  obtain result where result: "ancestry_loop genesis s parents [] [] = Inr result" "ancestry = rev result"
    using assms by (auto simp: resolve_ancestry_def result_simps)
  obtain V where V: "distinct result" "set result = {v \<in> V. \<not> genesis v}" "set parents \<subseteq> V"
    "\<forall>v \<in> V. set (parents_of genesis s v) \<subseteq> V" "V \<subseteq> ancestors genesis s (set parents)"
    using ancestry_loop_spec [OF result(1)] by simp blast
  have "y \<in> V" if "(x, y) \<in> {(x, y). y \<in> set (parents_of genesis s x)}\<^sup>*" "x \<in> V" for x y
    using that by (induction rule: rtrancl_induct) (use V(4) in auto)
  then have "ancestors genesis s (set parents) = V"
    using V(3,5) by (auto simp: ancestors_def)
  then show ?thesis
    using V(1,2) result(2) by simp
qed

definition demo_parent :: "string \<Rightarrow> string list \<Rightarrow> chip_data" where
  "demo_parent cid parents = \<lparr>cd_cid = cid, cd_type = ''ubl/app'', cd_body = JNull, cd_parents = parents\<rparr>"

definition demo_storage :: policy_storage where
  "demo_storage = fold add_chip [demo_parent ''top'' [''g''], demo_parent ''left'' [''top''], demo_parent ''right'' [''top'']] policy_storage_new"

theorem ancestry_complete_witness:
  "resolve_ancestry (\<lambda>c. c = ''g'') demo_storage [''left''] = Inr [''top'', ''left'']
   \<and> {''top'', ''left''} = {c \<in> ancestors (\<lambda>c. c = ''g'') demo_storage {''left''}. c \<noteq> ''g''}"
proof -
  have r: "resolve_ancestry (\<lambda>c. c = ''g'') demo_storage [''left''] = Inr [''top'', ''left'']"
    by code_simp
  show ?thesis
    using ancestry_complete [OF r] r by simp
qed

text \<open>Two parents with a common ancestor are taken for a cycle.\<close>

lemma shared_ancestor_rejected:
  "resolve_ancestry (\<lambda>c. c = ''g'') demo_storage [''left'', ''right''] = Inl (CircularDependency ''top'')"
  by code_simp

section \<open>Chains of policies\<close>

text \<open>A chain decides as the conjunction of its policies: it denies exactly when some policy denies, its trace is the
  evaluated prefix up to the first refusal, and a chip without parents is checked against the genesis policy alone.\<close>

lemma evaluate_policies_decision:
  "ck_decision (evaluate_policies nanos millis ctx policies trace) =
     (if \<exists>p \<in> set policies. pr_decision (policy_evaluate p ctx) = DenyDecision then DenyDecision else Allow)"
  by (induction policies arbitrary: trace) (simp_all add: Let_def)

lemma trace_policy_id: "pt_policy_id (policy_result_to_trace nanos ms (policy_evaluate p ctx)) = pb_id p"
proof -
  have "pr_policy_id (policy_loop pid cs ctx rs) = pid" for pid cs rs
    by (induction cs arbitrary: rs) (simp_all add: Let_def)
  then show ?thesis
    by (simp add: policy_result_to_trace_def policy_evaluate_def Let_def)
qed

lemma evaluate_policies_trace:
  "\<exists>n. map pt_policy_id (ck_trace (evaluate_policies nanos millis ctx policies trace))
     = map pt_policy_id trace @ map pb_id (take n policies)"
proof (induction policies arbitrary: trace)
  case (Cons p policies)
  show ?case
  proof (cases "pr_decision (policy_evaluate p ctx) = DenyDecision")
    case True
    then show ?thesis
      by (intro exI [of _ 1]) (simp add: Let_def trace_policy_id)
  next
    case False
    let ?trace = "trace @ [policy_result_to_trace (nanos (length trace)) (millis (length trace)) (policy_evaluate p ctx)]"
    obtain n where "map pt_policy_id (ck_trace (evaluate_policies nanos millis ctx policies ?trace))
        = map pt_policy_id ?trace @ map pb_id (take n policies)"
      using Cons.IH by blast
    with False show ?thesis
      by (intro exI [of _ "Suc n"]) (simp add: Let_def trace_policy_id)
  qed
qed (auto intro: exI [of _ 0])

lemma orphan_chain: "load_policy_chain R genesis s [] = Inr [create_genesis_policy]"
  by (simp add: load_policy_chain_def resolve_ancestry_def ancestry_loop.simps)

end
