(* ===== verification/Check_Stage.thy ===== *)
theory Check_Stage
  imports Audit_Chip Auth_Laws Transition_Laws Policy_Chain
begin

text \<open>
  The check stage (\<open>crates/ubl_runtime/src/pipeline/stages/check.rs\<close>) as a whole: onboarding, key rotation, audit and
  silicon requests are validated against the chip store, a silicon gate runs, and the policies of the chip decide. The
  chip store is optional, as in the pipeline. What the stage needs from its surroundings is a \<open>check_env\<close>; the resolution of
  chip graphs has a depth, for which the number of silicon chips in the store is enough.
\<close>

record ('s, 'sk, 'vk) check_env =
  kv_backend :: "'s backend_ops"
  kv_show_store_error :: "store_error \<Rightarrow> string"
  kv_cap :: "('sk, 'vk) cap_env"
  kv_tr :: tr_env
  kv_silicon :: silicon_text
  kv_depth :: nat
  kv_reader :: policy_reader
  kv_storage :: policy_storage
  kv_body_len :: "json \<Rightarrow> nat"
  kv_nanos :: "nat \<Rightarrow> nat \<Rightarrow> u64"
  kv_millis :: "nat \<Rightarrow> i64"
  kv_gate_ms :: i64

datatype check_error =
    CkOnboarding onboarding_check_error
  | CkRotation key_rotation_error
  | CkRotationCap cap_error
  | CkStoreQuery store_error
  | CkAlreadyRotated string
  | CkAudit audit_error
  | CkSilicon silicon_error
  | CkGateCompile silicon_error
  | CkGateInternal string
  | CkGateDepth
  | CkPanicked
  | CkPolicy policy_error

text \<open>Without a chip store an onboarding chip is only parsed.\<close>

definition onboarding_precheck :: "('s, 'sk, 'vk) check_env \<Rightarrow> 's option \<Rightarrow> string \<Rightarrow> json \<Rightarrow> string \<Rightarrow> check_error + unit" where
  "onboarding_precheck V store chip_type body world =
     map_err CkOnboarding (case store of
         Some s \<Rightarrow> onboarding_check (kv_backend V) (kv_cap V) s chip_type body world
       | None \<Rightarrow>
           if is_onboarding_type chip_type then
             and_then (map_err OcInvalid (parse_onboarding_chip body)) (\<lambda>onboarding.
               map_ok (\<lambda>_. ()) (ok_or (OcUnrecognized chip_type) onboarding))
           else Inr ())"

definition rotation_precheck :: "('s, 'sk, 'vk) check_env \<Rightarrow> 's option \<Rightarrow> string \<Rightarrow> json \<Rightarrow> string \<Rightarrow> check_error + unit" where
  "rotation_precheck V store chip_type body world =
     (if chip_type = ''ubl/key.rotate'' then
        and_then (map_err CkRotation (key_rotate_parse body)) (\<lambda>parsed.
        and_then (map_err CkRotationCap (require_cap (kv_cap V) body ''key:rotate'' world)) (\<lambda>_.
          case store of
            None \<Rightarrow> Inr ()
          | Some s \<Rightarrow>
              and_then (map_err CkStoreQuery (bo_query (kv_backend V) s
                  (query_of (Some ''ubl/key.map'') [tag_of ''old_kid'' (kr_old_kid parsed)] (Some 1)))) (\<lambda>existing.
                if qr_chips existing \<noteq> [] then Inl (CkAlreadyRotated (kr_old_kid parsed)) else Inr ())))
      else Inr ())"

definition audit_precheck :: "('s, 'sk, 'vk) check_env \<Rightarrow> 's option \<Rightarrow> string \<Rightarrow> json \<Rightarrow> string \<Rightarrow> check_error + unit" where
  "audit_precheck V store chip_type body world =
     (if is_audit_request_type chip_type
      then map_ok (\<lambda>_. ()) (map_err CkAudit
        (validate_request_for_check (kv_backend V) (kv_cap V) (trim (kv_silicon V)) store chip_type body world))
      else Inr ())"

definition silicon_store :: "('s, 'sk, 'vk) check_env \<Rightarrow> 's \<Rightarrow> chip_store" where
  "silicon_store V s cid = map_err (kv_show_store_error V) (bo_get (kv_backend V) s cid)"

definition silicon_precheck :: "('s, 'sk, 'vk) check_env \<Rightarrow> 's option \<Rightarrow> string \<Rightarrow> json \<Rightarrow> check_error + unit" where
  "silicon_precheck V store chip_type body =
     (if is_silicon_type chip_type
      then map_ok (\<lambda>_. ()) (map_err CkSilicon (validate_for_check (kv_silicon V) chip_type body (map_option (silicon_store V) store)))
      else Inr ())"

definition gate_denial :: "i64 \<Rightarrow> string \<Rightarrow> string \<Rightarrow> check_result" where
  "gate_denial ms gate_cid reason = \<lparr>ck_decision = DenyDecision,
     ck_reason = ''@silicon_gate '' @ quoted gate_cid @ '' denied: '' @ reason, ck_short_circuited = True,
     ck_trace = [\<lparr>pt_level = ''silicon_gate'', pt_policy_id = ''silicon_gate:'' @ gate_cid, pt_result = DenyDecision,
       pt_reason = ''silicon gate denied: '' @ reason, pt_rb_results = [], pt_duration_ms = ms\<rparr>]\<rparr>"

definition silicon_gate_check :: "('s, 'sk, 'vk) check_env \<Rightarrow> 's option \<Rightarrow> json \<Rightarrow> check_error + check_result option" where
  "silicon_gate_check V store body =
     (case (get_str body ''@silicon_gate'', store) of
        (Some gate_cid, Some s) \<Rightarrow>
          (case gate_compile (kv_depth V) (kv_silicon V) (silicon_store V s) gate_cid of
             None \<Rightarrow> Inl CkGateDepth
           | Some compiled \<Rightarrow>
               let R = kv_tr V
               in case run_gate (te_vm R) (te_text R) (te_hash R) (te_sign R) (te_b64_decode R) (te_fuel_limit R) body compiled of
                    GatePass \<Rightarrow> Inr None
                  | GateDenied reason \<Rightarrow> Inr (Some (gate_denial (kv_gate_ms V) gate_cid reason))
                  | GateInvalidChip e \<Rightarrow> Inl (CkGateCompile e)
                  | GateInternal m \<Rightarrow> Inl (CkGateInternal m)
                  | GatePanicked \<Rightarrow> Inl CkPanicked)
      | _ \<Rightarrow> Inr None)"

definition policy_check :: "('s, 'sk, 'vk) check_env \<Rightarrow> string \<Rightarrow> string option \<Rightarrow> json \<Rightarrow> string list \<Rightarrow> check_error + check_result" where
  "policy_check V chip_type chip_id body parents =
     and_then (map_err CkPolicy
         (load_policy_chain (kv_reader V) (is_genesis_chip (te_text (kv_tr V)) (te_hash (kv_tr V))) (kv_storage V) parents)) (\<lambda>policies.
       Inr (evaluate_policies (kv_nanos V) (kv_millis V) (policy_context (kv_body_len V) chip_type chip_id body) policies []))"

definition stage_check :: "('s, 'sk, 'vk) check_env \<Rightarrow> 's option \<Rightarrow> string \<Rightarrow> string option \<Rightarrow> json \<Rightarrow> string \<Rightarrow> string list \<Rightarrow>
    check_error + check_result" where
  "stage_check V store chip_type chip_id body world parents =
     and_then (onboarding_precheck V store chip_type body world) (\<lambda>_.
     and_then (rotation_precheck V store chip_type body world) (\<lambda>_.
     and_then (audit_precheck V store chip_type body world) (\<lambda>_.
     and_then (silicon_precheck V store chip_type body) (\<lambda>_.
     and_then (silicon_gate_check V store body) (\<lambda>gate.
       case gate of
         Some denied \<Rightarrow> Inr denied
       | None \<Rightarrow> policy_check V chip_type chip_id body parents)))))"

section \<open>What the stage admits\<close>

lemma stage_check_Inr:
  assumes "stage_check V store chip_type chip_id body world parents = Inr r"
  obtains "onboarding_precheck V store chip_type body world = Inr ()" "rotation_precheck V store chip_type body world = Inr ()"
    "audit_precheck V store chip_type body world = Inr ()" "silicon_precheck V store chip_type body = Inr ()"
    "(\<exists>d. silicon_gate_check V store body = Inr (Some d) \<and> r = d)
     \<or> silicon_gate_check V store body = Inr None \<and> policy_check V chip_type chip_id body parents = Inr r"
proof -
  obtain gate where pre: "onboarding_precheck V store chip_type body world = Inr ()" "rotation_precheck V store chip_type body world = Inr ()"
    "audit_precheck V store chip_type body world = Inr ()" "silicon_precheck V store chip_type body = Inr ()"
    and gate: "silicon_gate_check V store body = Inr gate"
    "(case gate of Some denied \<Rightarrow> Inr denied | None \<Rightarrow> policy_check V chip_type chip_id body parents) = Inr r"
    using assms unfolding stage_check_def result_simps by (metis (full_types) old.unit.exhaust)
  show thesis
    using gate by (intro that [OF pre]) (cases gate; simp)
qed

lemma silicon_gate_check_denies: "silicon_gate_check V store body = Inr (Some d) \<Longrightarrow> ck_decision d = DenyDecision"
  by (auto simp: silicon_gate_check_def gate_denial_def Let_def split: option.split_asm gate_outcome.split_asm)

lemma policy_check_decision:
  assumes "policy_check V chip_type chip_id body parents = Inr r"
  obtains attached where "load_policy_chain (kv_reader V) (is_genesis_chip (te_text (kv_tr V)) (te_hash (kv_tr V))) (kv_storage V) parents
      = Inr (create_genesis_policy # attached)"
    "ck_decision r = (if \<exists>p \<in> set (create_genesis_policy # attached).
        pr_decision (policy_evaluate p (policy_context (kv_body_len V) chip_type chip_id body)) = DenyDecision then DenyDecision else Allow)"
  using assms by (auto simp: policy_check_def load_policy_chain_def result_simps evaluate_policies_decision simp del: evaluate_policies.simps)

text \<open>What the check stage admits is well-typed, bounded and validated: a chip that the stage allows has one of the types of the
  genesis policy, an identifier and at most a mebibyte of JSON text, its onboarding, key rotation and audit checks passed against
  the store as it was, and no attached policy denies it. A chip without parents, as every submitted one is, is allowed exactly
  when the genesis policy admits it and its silicon gate, if any, lets it pass.\<close>

theorem stage_check_admits:
  assumes "stage_check V store chip_type chip_id body world parents = Inr r" "text_at body ''@type'' = Some chip_type"
  shows "(ck_decision r = Allow \<longrightarrow> chip_type \<in> set GENESIS_TYPES \<and> chip_id \<noteq> None \<and> kv_body_len V body \<le> 1048576
      \<and> onboarding_precheck V store chip_type body world = Inr () \<and> rotation_precheck V store chip_type body world = Inr ()
      \<and> audit_precheck V store chip_type body world = Inr () \<and> silicon_gate_check V store body = Inr None)
    \<and> (parents = [] \<longrightarrow> (ck_decision r = Allow \<longleftrightarrow> chip_type \<in> set GENESIS_TYPES \<and> chip_id \<noteq> None
      \<and> kv_body_len V body \<le> 1048576 \<and> silicon_gate_check V store body = Inr None))"
  using assms(1)
proof (rule stage_check_Inr)
  let ?ctx = "policy_context (kv_body_len V) chip_type chip_id body"
  have genesis: "pr_decision (policy_evaluate create_genesis_policy ?ctx) = (if chip_type \<in> set GENESIS_TYPES \<and> chip_id \<noteq> None
      \<and> kv_body_len V body \<le> 1048576 then Allow else DenyDecision)"
    using assms(2) by (auto simp: genesis_decision text_at_def)
  show ?thesis if "onboarding_precheck V store chip_type body world = Inr ()" "rotation_precheck V store chip_type body world = Inr ()"
    "audit_precheck V store chip_type body world = Inr ()" "silicon_precheck V store chip_type body = Inr ()"
    "(\<exists>d. silicon_gate_check V store body = Inr (Some d) \<and> r = d)
     \<or> silicon_gate_check V store body = Inr None \<and> policy_check V chip_type chip_id body parents = Inr r"
  proof (cases "silicon_gate_check V store body = Inr None")
    case True
    then have "policy_check V chip_type chip_id body parents = Inr r"
      using that(5) by auto
    then obtain attached where chain: "load_policy_chain (kv_reader V) (is_genesis_chip (te_text (kv_tr V)) (te_hash (kv_tr V)))
        (kv_storage V) parents = Inr (create_genesis_policy # attached)"
      and d: "ck_decision r = (if \<exists>p \<in> set (create_genesis_policy # attached). pr_decision (policy_evaluate p ?ctx) = DenyDecision
        then DenyDecision else Allow)"
      by (rule policy_check_decision)
    have "attached = []" if "parents = []"
      using chain that by (simp add: orphan_chain)
    then show ?thesis
      using d genesis that(1-3) True by auto
  next
    case False
    then have "ck_decision r = DenyDecision"
      using that(5) silicon_gate_check_denies by blast
    then show ?thesis
      using False by simp
  qed
qed

end
