(* ===== verification/Pipeline.thy ===== *)
theory Pipeline
  imports Check_Stage Envelope Receipt_Chain Durable_Laws Knock
begin

text \<open>
  The pipeline (\<open>crates/ubl_runtime/src/pipeline/processing.rs\<close>): a request is parsed (\<open>types.rs\<close>), its author is
  resolved (\<open>authorship.rs\<close>), a request that was processed before is replayed, and otherwise the stages write-ahead, check,
  transition and write-finished (\<open>stages/*.rs\<close>) run, each recorded in the receipt; the chip is stored and the result is committed.

  The state of a pipeline is a \<open>pipeline_state\<close>, passed explicitly; every operation returns it with its result or error, so that
  what an early return leaves behind is visible. The clock, nonces, durations and the failures of the database are a \<open>pipe_run\<close>,
  what one request observes; the process-wide configuration and the libraries are a \<open>pipe_env\<close>. Events, log lines and
  the best-effort ledger have no influence on the result and are left out; so is the optional advisory engine, whose background
  tasks store chips of their own: the pipeline of the model has none. The transition is that of chips outside
  the audit and silicon compile types and without a well-formed adapter; for these types the model ends with \<open>PeOutside\<close>, for
  a well-formed adapter with \<open>TrAdapterRun\<close>.
\<close>

section \<open>Requests\<close>

record chip_request =
  cq_chip_type :: string
  cq_body :: json
  cq_parents :: "string list"
  cq_operation :: "string option"

record authorship_context =
  ac_subject_did_hint :: "string option"
  ac_knock_cid :: "string option"

record parsed_request =
  pq_type :: string
  pq_id :: "string option"
  pq_world :: string
  pq_request :: chip_request

datatype request_fault = NotAnObject | MissingType | TypeDiffers string string | MissingWorld | BadEnvelopeWorld envelope_error

definition parse_chip_request :: "chip_request \<Rightarrow> request_fault + parsed_request" where
  "parse_chip_request request =
     and_then (ok_or NotAnObject (as_object (cq_body request))) (\<lambda>body.
     and_then (ok_or MissingType (Option.bind (map_of body ''@type'') as_str)) (\<lambda>chip_type.
       if chip_type \<noteq> cq_chip_type request then Inl (TypeDiffers (cq_chip_type request) chip_type)
       else
         and_then (ok_or MissingWorld (Option.bind (map_of body ''@world'') as_str)) (\<lambda>world.
         and_then (map_err BadEnvelopeWorld (validate_world world)) (\<lambda>_.
           Inr \<lparr>pq_type = chip_type,
             pq_id = (case Option.bind (map_of body ''@id'') as_str of Some i \<Rightarrow> Some i | None \<Rightarrow> Option.bind (map_of body ''id'') as_str),
             pq_world = world, pq_request = request\<rparr>))))"

abbreviation pq_body :: "parsed_request \<Rightarrow> json" where
  "pq_body p \<equiv> cq_body (pq_request p)"

definition pq_operation :: "parsed_request \<Rightarrow> string" where
  "pq_operation p = (case cq_operation (pq_request p) of Some op \<Rightarrow> op | None \<Rightarrow> ''create'')"

definition decision_to_wire :: "decision \<Rightarrow> string" where
  "decision_to_wire d = (case d of Allow \<Rightarrow> ''allow'' | DenyDecision \<Rightarrow> ''deny'' | Require \<Rightarrow> ''require'')"

section \<open>Authorship\<close>

record actor_hint =
  ah_ip_prefix :: "string option"
  ah_user_agent_hash :: "string option"

text \<open>The text of a JSON value, the fallback of a value without canonical bytes, is an argument.\<close>

record author_env =
  ax_text :: text_env
  ax_hash :: "u8 list \<Rightarrow> u8 list"
  ax_to_vec :: "json \<Rightarrow> u8 list"

definition knock_cid_from_bytes :: "author_env \<Rightarrow> u8 list \<Rightarrow> string" where
  "knock_cid_from_bytes X bytes = ''b3:'' @ hex_encode (ax_hash X bytes)"

definition knock_cid_from_value :: "author_env \<Rightarrow> json \<Rightarrow> string" where
  "knock_cid_from_value X v =
     (case to_nrf1_bytes (ax_text X) v of Inr nrf \<Rightarrow> compute_cid (ax_hash X) nrf | Inl _ \<Rightarrow> knock_cid_from_bytes X (ax_to_vec X v))"

definition claims_fingerprint :: "author_env \<Rightarrow> json \<Rightarrow> string" where
  "claims_fingerprint X claims =
     (case to_nrf1_bytes (ax_text X) claims of Inr nrf \<Rightarrow> compute_cid (ax_hash X) nrf
      | Inl _ \<Rightarrow> knock_cid_from_bytes X (ax_to_vec X claims))"

definition as_did :: "string option \<Rightarrow> string option" where
  "as_did s = (case s of Some d \<Rightarrow> if starts_with ''did:'' d then Some d else None | None \<Rightarrow> None)"

definition actor_of :: "json \<Rightarrow> json_obj option" where
  "actor_of body = Option.bind (json_get body ''actor'') as_object"

definition extract_explicit_did :: "json \<Rightarrow> string option" where
  "extract_explicit_did body =
     (case as_did (Option.bind (actor_of body) (\<lambda>o1. Option.bind (map_of o1 ''did'') as_str)) of
        Some did \<Rightarrow> Some did
      | None \<Rightarrow>
          (case as_did (text_at body ''did'') of
             Some did \<Rightarrow> Some did
           | None \<Rightarrow> as_did (text_at body ''owner_did'')))"

definition copy_if_str :: "json_obj \<Rightarrow> string \<Rightarrow> json_obj \<Rightarrow> json_obj" where
  "copy_if_str src key dst = (case Option.bind (map_of src key) as_str of Some v \<Rightarrow> obj_insert key (JStr v) dst | None \<Rightarrow> dst)"

definition insert_opt :: "string \<Rightarrow> string option \<Rightarrow> json_obj \<Rightarrow> json_obj" where
  "insert_opt key v m = (case v of Some s \<Rightarrow> obj_insert key (JStr s) m | None \<Rightarrow> m)"

definition resolve_subject_did :: "author_env \<Rightarrow> json option \<Rightarrow> actor_hint option \<Rightarrow> string" where
  "resolve_subject_did X body hint =
     (case Option.bind body extract_explicit_did of
        Some did \<Rightarrow> did
      | None \<Rightarrow>
          let c1 = (case Option.bind body actor_of of
                Some actor \<Rightarrow> fold (copy_if_str actor) [''installation_key'', ''client_pubkey'', ''device_id'', ''session_id'', ''kid''] []
              | None \<Rightarrow> []);
              c2 = (case hint of
                Some h \<Rightarrow> insert_opt ''user_agent_hash'' (ah_user_agent_hash h) (insert_opt ''ip_prefix'' (ah_ip_prefix h) c1)
              | None \<Rightarrow> c1)
          in ''did:ubl:anon:'' @ claims_fingerprint X (JObj c2))"

section \<open>State and surroundings\<close>

record stage_secrets =
  sx_current :: string
  sx_prev :: "string option"

record 's pipeline_state =
  pp_seen :: "string list"
  pp_store :: "('s \<times> chip_indexes) option"
  pp_idem :: idem_store
  pp_durable :: "durable_db option"
  pp_secrets :: stage_secrets

record ('s, 'sk, 'vk) pipe_env =
  pe_check :: "('s, 'sk, 'vk) check_env"
  pe_receipt :: "('sk, 'vk) receipt_env"
  pe_kms :: "('sk, 'vk) kms_env"
  pe_author :: author_env
  pe_store_env :: store_env
  pe_codec :: text_codec
  pe_from_json :: "json \<Rightarrow> unified_receipt option"
  pe_signing_key :: 'sk
  pe_sk_bytes :: "'sk \<Rightarrow> u8 list"
  pe_did :: string
  pe_kid :: string
  pe_mode :: crypto_mode
  pe_runtime :: runtime_info

text \<open>What one request observes: its two nonces, the times and durations it reads, the failures of its database calls.\<close>

record pipe_run =
  pn_nonce :: string
  pn_wa_nonce :: string
  pn_now :: "nat \<Rightarrow> string"
  pn_secs :: "nat \<Rightarrow> int"
  pn_ms :: "nat \<Rightarrow> i64"
  pn_lookup_io :: faults
  pn_nonce_io :: faults
  pn_secrets_io :: faults
  pn_commit_io :: faults

record pipeline_result =
  ps_final_receipt :: pipeline_receipt
  ps_chain :: "string list"
  ps_decision :: decision
  ps_receipt :: unified_receipt
  ps_replayed :: bool

datatype pipeline_error =
    PeKnock knock_error
  | PeRequest request_fault
  | PeMissingAnchors
  | PeIdemLookup durable_error
  | PeNonceInMemory
  | PeNoncePersist durable_error
  | PeNonceDurable
  | PeReplayDetected
  | PePanicked
  | PeStageCid rho_error
  | PeReceipt receipt_error
  | PeCheck check_error
  | PeTransition transition_error
  | PeOutside
  | PeSign receipt_error
  | PeRotateStore store_error
  | PeRotation key_rotation_error
  | PeRotateNeedsStore
  | PeSecretPersist durable_error
  | PeIdempotencyConflict string
  | PeDurableCommitFailed durable_error

type_synonym ('s, 'a) outcome = "(pipeline_error + 'a) \<times> 's pipeline_state"

definition bind_st :: "('s, 'a) outcome \<Rightarrow> ('a \<Rightarrow> 's pipeline_state \<Rightarrow> ('s, 'b) outcome) \<Rightarrow> ('s, 'b) outcome" where
  "bind_st r f = (case r of (Inl e, st) \<Rightarrow> (Inl e, st) | (Inr a, st) \<Rightarrow> f a st)"

section \<open>Stages\<close>

definition receipt_of_body :: "('s, 'sk, 'vk) pipe_env \<Rightarrow> string \<Rightarrow> json \<Rightarrow> pipeline_error + pipeline_receipt" where
  "receipt_of_body E receipt_type body =
     (let R = kv_tr (pe_check E)
      in map_ok (\<lambda>nrf. \<lparr>pr_body_cid = compute_cid (te_hash R) nrf, pr_receipt_type = receipt_type, pr_body = body\<rparr>)
           (map_err PeStageCid (to_nrf1_bytes (te_text R) body)))"

definition wa_body :: "('s, 'sk, 'vk) pipe_env \<Rightarrow> pipe_run \<Rightarrow> parsed_request \<Rightarrow> string \<Rightarrow> json" where
  "wa_body E n p genesis = JObj [(''ghost'', JBool True), (''chip_cid'', JStr ''pending''), (''policy_cid'', JStr genesis),
     (''frozen_time'', JStr (pn_now n 10)), (''caller'', JStr (pe_did E)), (''context'', pq_body p), (''operation'', JStr (pq_operation p)),
     (''nonce'', JStr (pn_wa_nonce n)), (''kid'', JStr (pe_kid E))]"

definition stage_write_ahead :: "('s, 'sk, 'vk) pipe_env \<Rightarrow> pipe_run \<Rightarrow> parsed_request \<Rightarrow> 's pipeline_state \<Rightarrow> ('s, pipeline_receipt) outcome" where
  "stage_write_ahead E n p st =
     (if pn_wa_nonce n \<in> set (pp_seen st) then (Inl PeReplayDetected, st)
      else
        let st' = st\<lparr>pp_seen := pn_wa_nonce n # pp_seen st\<rparr>; R = kv_tr (pe_check E)
        in case genesis_chip_cid (te_text R) (te_hash R) of
             None \<Rightarrow> (Inl PePanicked, st')
           | Some genesis \<Rightarrow> (receipt_of_body E ''ubl/wa'' (wa_body E n p genesis), st'))"

definition wf_body :: "decision \<Rightarrow> string \<Rightarrow> string option \<Rightarrow> json_obj \<Rightarrow> i64 \<Rightarrow> policy_trace_entry list \<Rightarrow> bool \<Rightarrow> json" where
  "wf_body d wa_cid tr_cid artifacts ms entries short_circuited = JObj [(''decision'', decision_json d), (''wa_cid'', JStr wa_cid),
     (''tr_cid'', case tr_cid of Some c \<Rightarrow> JStr c | None \<Rightarrow> JNull), (''artifacts'', JObj artifacts), (''duration_ms'', i64_json ms),
     (''policy_trace'', JArr (map policy_trace_json entries)), (''short_circuited'', JBool short_circuited)]"

definition tr_artifacts :: "json \<Rightarrow> json_obj" where
  "tr_artifacts tr_body =
     (case Option.bind (json_get tr_body ''artifacts'') as_object of
        Some m \<Rightarrow> List.map_filter (\<lambda>(k, v). map_option (\<lambda>c. (k, JStr c)) (as_str v)) m
      | None \<Rightarrow> [])"

definition stage_write_finished :: "('s, 'sk, 'vk) pipe_env \<Rightarrow> parsed_request \<Rightarrow> pipeline_receipt \<Rightarrow> pipeline_receipt \<Rightarrow> check_result \<Rightarrow> i64 \<Rightarrow>
    pipeline_error + pipeline_receipt" where
  "stage_write_finished E p wa tr check ms =
     (let R = kv_tr (pe_check E)
      in and_then (map_err PeStageCid (to_nrf1_bytes (te_text R) (pq_body p))) (\<lambda>chip_nrf1.
           let artifacts = fold (\<lambda>(k, v). obj_insert k v) (tr_artifacts (pr_body tr)) [(''chip'', JStr (compute_cid (te_hash R) chip_nrf1))]
           in receipt_of_body E ''ubl/wf'' (wf_body (ck_decision check) (pr_body_cid wa) (Some (pr_body_cid tr)) artifacts ms
                (ck_trace check) (ck_short_circuited check))))"

definition create_deny_receipt :: "('s, 'sk, 'vk) pipe_env \<Rightarrow> pipeline_receipt \<Rightarrow> check_result \<Rightarrow> i64 \<Rightarrow> pipeline_error + pipeline_receipt" where
  "create_deny_receipt E wa check ms =
     receipt_of_body E ''ubl/wf'' (wf_body DenyDecision (pr_body_cid wa) None [] ms (ck_trace check) True)"

definition stage_exec :: "pipeline_stage \<Rightarrow> string \<Rightarrow> string \<Rightarrow> string option \<Rightarrow> policy_trace_entry list \<Rightarrow> i64 \<Rightarrow> stage_execution" where
  "stage_exec stage now input output entries ms = \<lparr>st_stage = stage, st_timestamp = now, st_input_cid = input, st_output_cid = output,
     st_fuel_used = None, st_policy_trace = entries, st_vm_sig = None, st_vm_sig_payload_cid = None, st_auth_token = [], st_duration_ms = ms\<rparr>"

definition append_stage_receipt :: "('s, 'sk, 'vk) pipe_env \<Rightarrow> 's pipeline_state \<Rightarrow> stage_execution \<Rightarrow> unified_receipt \<Rightarrow> pipeline_error + unified_receipt" where
  "append_stage_receipt E st stage r =
     (case append_stage_with_secrets (pe_receipt E) (sx_current (pp_secrets st)) (sx_prev (pp_secrets st)) stage r of
        (r', Inl e) \<Rightarrow> Inl (PeReceipt e)
      | (r', Inr _) \<Rightarrow> Inr r')"

definition sign_receipt :: "('s, 'sk, 'vk) pipe_env \<Rightarrow> unified_receipt \<Rightarrow> pipeline_error + unified_receipt" where
  "sign_receipt E r = map_err PeSign (finalize_and_sign (pe_receipt E) (pe_signing_key E) (pe_mode E) r)"


section \<open>Persistence\<close>

definition commit_input_of :: "('s, 'sk, 'vk) pipe_env \<Rightarrow> pipe_run \<Rightarrow> idempotency_key option \<Rightarrow> string \<Rightarrow> pipeline_result \<Rightarrow> commit_input" where
  "commit_input_of E n idem_key world result =
     \<lparr>ci_receipt_cid = ur_receipt_cid (ps_receipt result), ci_receipt_json = to_json (ps_receipt result), ci_did = pe_did E, ci_kid = pe_kid E,
      ci_rt_hash = (case ur_rt (ps_receipt result) of Some rt \<Rightarrow> rt_binary_hash rt | None \<Rightarrow> rt_binary_hash (pe_runtime E)),
      ci_decision = decision_to_wire (ps_decision result),
      ci_idem_key = map_option (to_durable_key (te_hash (kv_tr (pe_check E)))) idem_key, ci_chain = ps_chain result,
      ci_outbox_events = [\<lparr>ne_type = ''emit_receipt'', ne_payload = JObj [(''receipt_cid'', JStr (ur_receipt_cid (ps_receipt result))),
        (''decision'', JStr (decision_to_wire (ps_decision result))), (''world'', JStr world)]\<rparr>],
      ci_created_at = pn_secs n 0, ci_fail_after_receipt_write = False\<rparr>"

definition cached_of :: "pipe_run \<Rightarrow> pipeline_result \<Rightarrow> cached_result" where
  "cached_of n result = \<lparr>cr_receipt_cid = ur_receipt_cid (ps_receipt result), cr_response_json = to_json (ps_receipt result),
     cr_decision = decision_to_wire (ps_decision result), cr_chain = ps_chain result, cr_created_at = pn_now n 9\<rparr>"

definition persist_final_result :: "('s, 'sk, 'vk) pipe_env \<Rightarrow> pipe_run \<Rightarrow> idempotency_key option \<Rightarrow> string \<Rightarrow> pipeline_result \<Rightarrow>
    's pipeline_state \<Rightarrow> ('s, unit) outcome" where
  "persist_final_result E n idem_key world result st =
     (case pp_durable st of
        Some db \<Rightarrow>
          (case commit_wf_atomically (pe_codec E) (pn_commit_io n) (commit_input_of E n idem_key world result) db of
             (Inr _, db') \<Rightarrow> (Inr (), st\<lparr>pp_durable := Some db'\<rparr>)
           | (Inl (IdempotencyConflict e), db') \<Rightarrow> (Inl (PeIdempotencyConflict e), st\<lparr>pp_durable := Some db'\<rparr>)
           | (Inl e, db') \<Rightarrow> (Inl (PeDurableCommitFailed e), st\<lparr>pp_durable := Some db'\<rparr>))
      | None \<Rightarrow>
          (case idem_key of
             Some key \<Rightarrow> (Inr (), st\<lparr>pp_idem := store_put key (cached_of n result) (pp_idem st)\<rparr>)
           | None \<Rightarrow> (Inr (), st)))"

section \<open>Storing the chip\<close>

definition exec_metadata :: "('s, 'sk, 'vk) pipe_env \<Rightarrow> string \<Rightarrow> i64 \<Rightarrow> check_result \<Rightarrow> execution_metadata" where
  "exec_metadata E version ms check = \<lparr>em_runtime_version = version, em_execution_time_ms = ms,
     em_fuel_consumed = te_fuel_limit (kv_tr (pe_check E)), em_policies_applied = map pt_policy_id (ck_trace check),
     em_executor_did = pe_did E, em_reproducible = True\<rparr>"

definition put_chip :: "('s, 'sk, 'vk) pipe_env \<Rightarrow> json \<Rightarrow> string \<Rightarrow> string \<Rightarrow> execution_metadata \<Rightarrow> 's \<times> chip_indexes \<Rightarrow> 's pipeline_state \<Rightarrow>
    (store_error + string) \<times> 's pipeline_state" where
  "put_chip E body receipt_cid now metadata store st =
     (case store_executed_chip (kv_backend (pe_check E)) (pe_store_env E) body receipt_cid now metadata store of
        (r, store') \<Rightarrow> (r, st\<lparr>pp_store := Some store'\<rparr>))"

definition derive_stage_secret :: "('s, 'sk, 'vk) pipe_env \<Rightarrow> 'sk \<Rightarrow> u8 list" where
  "derive_stage_secret E sk = re_keyed_hash (pe_receipt E) (pe_sk_bytes E sk) (bytes_of ''ubl.stage_secret.v1'')"

text \<open>The new stage secret replaces the current one, which becomes the previous one, before it is persisted.\<close>

definition rotate_secrets :: "('s, 'sk, 'vk) pipe_env \<Rightarrow> pipe_run \<Rightarrow> parsed_request \<Rightarrow> 's pipeline_state \<Rightarrow> ('s, unit) outcome" where
  "rotate_secrets E n p st =
     (case derive_new_signing_key (pe_kms E) (re_keyed_hash (pe_receipt E)) (pq_body p) (pe_sk_bytes E (pe_signing_key E)) of
        Inl e \<Rightarrow> (Inl (PeRotation e), st)
      | Inr new_sk \<Rightarrow>
          let new_secret = ''hex:'' @ hex_encode (derive_stage_secret E new_sk); prev = Some (sx_current (pp_secrets st));
              st1 = st\<lparr>pp_secrets := \<lparr>sx_current = new_secret, sx_prev = prev\<rparr>\<rparr>
          in case pp_durable st1 of
               None \<Rightarrow> (Inr (), st1)
             | Some db \<Rightarrow>
                 (case put_stage_secrets (pn_secrets_io n) (pn_secs n 1) new_secret prev db of
                    (Inl e, db') \<Rightarrow> (Inl (PeSecretPersist e), st1\<lparr>pp_durable := Some db'\<rparr>)
                  | (Inr _, db') \<Rightarrow> (Inr (), st1\<lparr>pp_durable := Some db'\<rparr>)))"

definition complete_rotation :: "('s, 'sk, 'vk) pipe_env \<Rightarrow> pipe_run \<Rightarrow> parsed_request \<Rightarrow> string \<Rightarrow> check_result \<Rightarrow> string \<Rightarrow> 's pipeline_state \<Rightarrow>
    ('s, unit) outcome" where
  "complete_rotation E n p receipt_cid check rotation_chip_cid st =
     (case and_then (key_rotate_parse (pq_body p)) (\<lambda>req.
           map_ok (\<lambda>m. (req, m)) (derive_material (pe_kms E) (re_keyed_hash (pe_receipt E)) req (pq_body p) (pe_sk_bytes E (pe_signing_key E)))) of
        Inl e \<Rightarrow> (Inl (PeRotation e), st)
      | Inr (req, material) \<Rightarrow>
          let mapping = mapping_chip (te_hash (kv_tr (pe_check E))) (pn_now n 7) (pq_world p) rotation_chip_cid receipt_cid (kr_reason req) material
          in case pp_store st of
               None \<Rightarrow> (Inl PeRotateNeedsStore, st)
             | Some store \<Rightarrow>
                 (case put_chip E mapping receipt_cid (pn_now n 8) (exec_metadata E ''key_rotation/0.1'' (pn_ms n 5) check) store st of
                    (Inl e, st1) \<Rightarrow> (Inl (PeRotateStore e), st1)
                  | (Inr _, st1) \<Rightarrow> rotate_secrets E n p st1))"

text \<open>A chip that cannot be stored is only logged, unless it rotates a key.\<close>

definition store_chip :: "('s, 'sk, 'vk) pipe_env \<Rightarrow> pipe_run \<Rightarrow> parsed_request \<Rightarrow> string \<Rightarrow> check_result \<Rightarrow> 's pipeline_state \<Rightarrow> ('s, unit) outcome" where
  "store_chip E n p receipt_cid check st =
     (case pp_store st of
        None \<Rightarrow> if pq_type p = ''ubl/key.rotate'' then (Inl PeRotateNeedsStore, st) else (Inr (), st)
      | Some store \<Rightarrow>
          (case put_chip E (pq_body p) receipt_cid (pn_now n 6) (exec_metadata E ''ubl_vm/0.1'' (pn_ms n 5) check) store st of
             (r, st1) \<Rightarrow>
               if pq_type p = ''ubl/key.rotate'' then
                 (case r of Inl e \<Rightarrow> (Inl (PeRotateStore e), st1) | Inr cid \<Rightarrow> complete_rotation E n p receipt_cid check cid st1)
               else (Inr (), st1)))"

section \<open>Processing\<close>

definition denied_result :: "('s, 'sk, 'vk) pipe_env \<Rightarrow> pipe_run \<Rightarrow> 's pipeline_state \<Rightarrow> pipeline_receipt \<Rightarrow> check_result \<Rightarrow> unified_receipt \<Rightarrow>
    pipeline_error + pipeline_result" where
  "denied_result E n st wa check r2 =
     (let r3 = deny_with_secrets (pe_receipt E) (ck_reason check) (Some (sx_current (pp_secrets st))) r2
      in and_then (create_deny_receipt E wa check (pn_ms n 2)) (\<lambda>wf.
         and_then (append_stage_receipt E st (stage_exec WriteFinished (pn_now n 3) (pr_body_cid wa) (Some (pr_body_cid wf))
             (ck_trace check) (pn_ms n 2)) r3) (\<lambda>r4.
         and_then (sign_receipt E r4) (\<lambda>r5.
           Inr \<lparr>ps_final_receipt = wf, ps_chain = [pr_body_cid wa, ''no-tr'', pr_body_cid wf], ps_decision = DenyDecision,
             ps_receipt = r5, ps_replayed = False\<rparr>))))"

definition transition_exec :: "pipe_run \<Rightarrow> pipeline_receipt \<Rightarrow> pipeline_receipt \<Rightarrow> stage_execution" where
  "transition_exec n wa tr =
     (stage_exec Receipt.Transition (pn_now n 3) (pr_body_cid wa) (Some (pr_body_cid tr)) [] (pn_ms n 3))
       \<lparr>st_fuel_used := Option.bind (json_get (pr_body tr) ''vm_state'') (\<lambda>v. Option.bind (json_get v ''fuel_used'') as_u64),
        st_vm_sig := text_at (pr_body tr) ''vm_sig'', st_vm_sig_payload_cid := text_at (pr_body tr) ''vm_sig_payload_cid''\<rparr>"

definition plain_chip :: "parsed_request \<Rightarrow> bool" where
  "plain_chip p \<longleftrightarrow> \<not> is_audit_request_type (pq_type p) \<and> pq_type p \<noteq> TYPE_SILICON_COMPILE"

definition stage_transition :: "('s, 'sk, 'vk) pipe_env \<Rightarrow> parsed_request \<Rightarrow> pipeline_error + pipeline_receipt" where
  "stage_transition E p =
     (if plain_chip p
      then map_err PeTransition (stage_transition_plain (kv_tr (pe_check E)) (pe_kms E) (re_keyed_hash (pe_receipt E))
        (pe_sk_bytes E (pe_signing_key E)) (pq_type p) (pq_body p))
      else Inl PeOutside)"

definition allowed_result :: "('s, 'sk, 'vk) pipe_env \<Rightarrow> pipe_run \<Rightarrow> parsed_request \<Rightarrow> 's pipeline_state \<Rightarrow> pipeline_receipt \<Rightarrow> check_result \<Rightarrow>
    unified_receipt \<Rightarrow> pipeline_error + pipeline_result" where
  "allowed_result E n p st wa check r2 =
     and_then (stage_transition E p) (\<lambda>tr.
     and_then (append_stage_receipt E st (transition_exec n wa tr) r2) (\<lambda>r3.
     and_then (stage_write_finished E p wa tr check (pn_ms n 2)) (\<lambda>wf.
     and_then (append_stage_receipt E st (stage_exec WriteFinished (pn_now n 4) (pr_body_cid tr) (Some (pr_body_cid wf)) [] (pn_ms n 4)) r3) (\<lambda>r4.
     and_then (sign_receipt E r4) (\<lambda>r5.
       Inr \<lparr>ps_final_receipt = wf, ps_chain = [pr_body_cid wa, pr_body_cid tr, pr_body_cid wf], ps_decision = ck_decision check,
         ps_receipt = r5, ps_replayed = False\<rparr>)))))"

definition run_stages :: "('s, 'sk, 'vk) pipe_env \<Rightarrow> pipe_run \<Rightarrow> parsed_request \<Rightarrow> idempotency_key \<Rightarrow> unified_receipt \<Rightarrow> 's pipeline_state \<Rightarrow>
    ('s, pipeline_result) outcome" where
  "run_stages E n p key r0 st0 =
     bind_st (stage_write_ahead E n p st0) (\<lambda>wa st.
     bind_st (append_stage_receipt E st (stage_exec WriteAhead (pn_now n 1) (pr_body_cid wa) (Some (pr_body_cid wa)) [] (pn_ms n 0)) r0, st) (\<lambda>r1 st.
     bind_st (map_err PeCheck (stage_check (pe_check E) (map_option fst (pp_store st)) (pq_type p) (pq_id p) (pq_body p) (pq_world p)
         (cq_parents (pq_request p))), st) (\<lambda>check st.
     bind_st (append_stage_receipt E st (stage_exec Check (pn_now n 2) (pr_body_cid wa) None (ck_trace check) (pn_ms n 1)) r1, st) (\<lambda>r2 st.
       if ck_decision check = DenyDecision then
         bind_st (denied_result E n st wa check r2, st) (\<lambda>result st.
         bind_st (persist_final_result E n (Some key) (pq_world p) result st) (\<lambda>_ st. (Inr result, st)))
       else
         bind_st (allowed_result E n p st wa check r2, st) (\<lambda>result st.
         bind_st (store_chip E n p (ur_receipt_cid (ps_receipt result)) check st) (\<lambda>_ st.
         bind_st (persist_final_result E n (Some key) (pq_world p) result st) (\<lambda>_ st. (Inr result, st))))))))"

definition mark_nonce :: "pipe_run \<Rightarrow> 's pipeline_state \<Rightarrow> ('s, unit) outcome" where
  "mark_nonce n st =
     (if pn_nonce n \<in> set (pp_seen st) then (Inl PeNonceInMemory, st)
      else
        let st1 = st\<lparr>pp_seen := pn_nonce n # pp_seen st\<rparr>
        in case pp_durable st1 of
             None \<Rightarrow> (Inr (), st1)
           | Some db \<Rightarrow>
               (case nonce_mark_if_new (pn_nonce_io n) (pn_secs n 2) (pn_nonce n) (24 * 60 * 60) db of
                  (Inl e, db') \<Rightarrow> (Inl (PeNoncePersist e), st1\<lparr>pp_durable := Some db'\<rparr>)
                | (Inr is_new, db') \<Rightarrow> (if is_new then Inr () else Inl PeNonceDurable, st1\<lparr>pp_durable := Some db'\<rparr>)))"

definition lookup_cached :: "('s, 'sk, 'vk) pipe_env \<Rightarrow> pipe_run \<Rightarrow> idempotency_key \<Rightarrow> 's pipeline_state \<Rightarrow> pipeline_error + cached_result option" where
  "lookup_cached E n key st =
     (case pp_durable st of
        Some db \<Rightarrow> map_err PeIdemLookup
          (get_idempotent (pe_codec E) (pn_lookup_io n) (to_durable_key (te_hash (kv_tr (pe_check E))) key) db)
      | None \<Rightarrow> Inr (store_get (pp_idem st) key))"

definition replay_result :: "('s, 'sk, 'vk) pipe_env \<Rightarrow> pipe_run \<Rightarrow> cached_result \<Rightarrow> pipeline_result" where
  "replay_result E n cached =
     \<lparr>ps_final_receipt = \<lparr>pr_body_cid = cr_receipt_cid cached, pr_receipt_type = ''ubl/wf'', pr_body = cr_response_json cached\<rparr>,
      ps_chain = cr_chain cached,
      ps_decision = (if eq_ignore_ascii_case (cr_decision cached) ''allow'' \<or> find_after ''Allow'' (cr_decision cached) \<noteq> None
        then Allow else DenyDecision),
      ps_receipt = (case pe_from_json E (cr_response_json cached) of Some r \<Rightarrow> r | None \<Rightarrow> receipt_new (pn_now n 0) [] [] [] []),
      ps_replayed = True\<rparr>"

definition initial_receipt :: "('s, 'sk, 'vk) pipe_env \<Rightarrow> pipe_run \<Rightarrow> parsed_request \<Rightarrow> authorship_context \<Rightarrow> unified_receipt" where
  "initial_receipt E n p ctx =
     (let subject_did = (case ac_subject_did_hint ctx of Some d \<Rightarrow> d | None \<Rightarrow> resolve_subject_did (pe_author E) (Some (pq_body p)) None);
          knock_cid = (case ac_knock_cid ctx of Some c \<Rightarrow> c | None \<Rightarrow> knock_cid_from_value (pe_author E) (pq_body p))
      in with_knock_cid (Some knock_cid) (with_subject_did (Some subject_did) (with_runtime_info (pe_runtime E)
           (receipt_new (pn_now n 0) (pq_world p) (pe_did E) (pe_kid E) (pn_nonce n)))))"

definition process_chip_with_context :: "('s, 'sk, 'vk) pipe_env \<Rightarrow> pipe_run \<Rightarrow> chip_request \<Rightarrow> authorship_context \<Rightarrow> 's pipeline_state \<Rightarrow>
    ('s, pipeline_result) outcome" where
  "process_chip_with_context E n request ctx st0 =
     bind_st (map_err PeRequest (parse_chip_request request), st0) (\<lambda>p st.
     bind_st (ok_or PeMissingAnchors (key_from_chip_body (pq_body p)), st) (\<lambda>key st.
     bind_st (lookup_cached E n key st, st) (\<lambda>cached st.
       case cached of
         Some c \<Rightarrow> (Inr (replay_result E n c), st)
       | None \<Rightarrow> bind_st (mark_nonce n st) (\<lambda>_ st. run_stages E n p key (initial_receipt E n p ctx) st))))"

definition process_chip :: "('s, 'sk, 'vk) pipe_env \<Rightarrow> pipe_run \<Rightarrow> chip_request \<Rightarrow> 's pipeline_state \<Rightarrow> ('s, pipeline_result) outcome" where
  "process_chip E n request = process_chip_with_context E n request \<lparr>ac_subject_did_hint = None, ac_knock_cid = None\<rparr>"

definition process_raw :: "('s, 'sk, 'vk) pipe_env \<Rightarrow> knock_env \<Rightarrow> bool \<Rightarrow> f64_import_mode \<Rightarrow> pipe_run \<Rightarrow> u8 list \<Rightarrow> 's pipeline_state \<Rightarrow>
    ('s, pipeline_result) outcome" where
  "process_raw E K require_unc1 mode n bytes st =
     bind_st (map_err PeKnock (knock_with_options K bytes require_unc1 mode), st) (\<lambda>v st.
       process_chip_with_context E n
         \<lparr>cq_chip_type = or_empty (text_at v ''@type''), cq_body = v, cq_parents = [], cq_operation = Some ''create''\<rparr>
         \<lparr>ac_subject_did_hint = Some (resolve_subject_did (pe_author E) (Some v) None),
          ac_knock_cid = Some (knock_cid_from_bytes (pe_author E) bytes)\<rparr> st)"

text \<open>A body that the gate refuses still gets a signed and persisted receipt, without an idempotency key.\<close>

definition process_knock_rejection :: "('s, 'sk, 'vk) pipe_env \<Rightarrow> pipe_run \<Rightarrow> string \<Rightarrow> string \<Rightarrow> string \<Rightarrow> string option \<Rightarrow> 's pipeline_state \<Rightarrow>
    ('s, pipeline_result) outcome" where
  "process_knock_rejection E n knock_cid reason_code reason subject_did_hint st =
     (let world = ''ubl/system'';
          subject_did = (case subject_did_hint of Some d \<Rightarrow> d | None \<Rightarrow> resolve_subject_did (pe_author E) None None);
          r0 = (with_knock_cid (Some knock_cid) (with_subject_did (Some subject_did) (with_runtime_info (pe_runtime E)
            (receipt_new (pn_now n 0) world (pe_did E) (pe_kid E) (pn_nonce n)))))\<lparr>ur_type := ''ubl/knock.deny.v1''\<rparr>
      in bind_st (append_stage_receipt E st (stage_exec Knock (pn_now n 1) knock_cid (Some knock_cid) [] 0) r0, st) (\<lambda>r1 st.
           let r2 = (case ur_effects r1 of
                 JObj m \<Rightarrow> r1\<lparr>ur_effects := JObj (obj_insert ''knock_cid'' (JStr knock_cid) (obj_insert ''reason_code'' (JStr reason_code) m))\<rparr>
               | _ \<Rightarrow> r1);
               r3 = deny_with_secrets (pe_receipt E) reason (Some (sx_current (pp_secrets st))) r2
           in bind_st (append_stage_receipt E st (stage_exec WriteFinished (pn_now n 2) knock_cid None [] 0) r3, st) (\<lambda>r4 st.
              bind_st (sign_receipt E r4, st) (\<lambda>r5 st.
                let result = \<lparr>ps_final_receipt = \<lparr>pr_body_cid = ur_receipt_cid r5, pr_receipt_type = ''ubl/wf'', pr_body = to_json r5\<rparr>,
                      ps_chain = [knock_cid, ''no-tr'', ur_receipt_cid r5], ps_decision = DenyDecision, ps_receipt = r5, ps_replayed = False\<rparr>
                in bind_st (persist_final_result E n None world result st) (\<lambda>_ st. (Inr result, st))))))"

end
