(* ===== verification/Pipeline_Laws.thy ===== *)
theory Pipeline_Laws
  imports Pipeline
begin

text \<open>
  Properties of the pipeline. What a request leaves behind is described through \<open>recorded\<close>, the receipts, idempotency rows and
  outbox of the state: an error changes none of them, a new result is recorded once and completely, and a repeated request is
  answered from the record. The receipt of a new result verifies and names the stages that ran. \<open>Pipeline_Run\<close> evaluates a request.
\<close>

section \<open>Sequences of fallible steps\<close>

lemma bind_st_Inr [result_simps]: "bind_st r f = (Inr b, st') \<longleftrightarrow> (\<exists>a st. r = (Inr a, st) \<and> f a st = (Inr b, st'))"
  by (auto simp: bind_st_def split: sum.splits prod.splits)

lemma bind_st_Inl [result_simps]:
  "bind_st r f = (Inl e, st') \<longleftrightarrow> r = (Inl e, st') \<or> (\<exists>a st. r = (Inr a, st) \<and> f a st = (Inl e, st'))"
  by (auto simp: bind_st_def split: sum.splits prod.splits)

lemma bind_st_cases:
  assumes "bind_st r f = (x, st')"
  obtains e where "r = (Inl e, st')" "x = Inl e"
  | a st where "r = (Inr a, st)" "f a st = (x, st')"
  using assms by (auto simp: bind_st_def split: sum.splits prod.splits)

section \<open>What is recorded\<close>

definition records :: "durable_db \<Rightarrow> receipt_row list \<times> idem_row list \<times> outbox_row list \<times> int" where
  "records db = (db_receipts db, db_idem db, db_outbox db, db_seq db)"

definition recorded :: "'s pipeline_state \<Rightarrow> (receipt_row list \<times> idem_row list \<times> outbox_row list \<times> int) option \<times> idem_store" where
  "recorded st = (map_option records (pp_durable st), pp_idem st)"

definition logged :: "('s, 'sk, 'vk) pipe_env \<Rightarrow> pipe_run \<Rightarrow> idempotency_key option \<Rightarrow> string \<Rightarrow> pipeline_result \<Rightarrow> 's pipeline_state \<Rightarrow> 's pipeline_state" where
  "logged E n key world result st =
     (case pp_durable st of
        Some db \<Rightarrow> st\<lparr>pp_durable := Some (committed (pe_codec E) (commit_input_of E n key world result) db)\<rparr>
      | None \<Rightarrow> (case key of Some k \<Rightarrow> st\<lparr>pp_idem := store_put k (cached_of n result) (pp_idem st)\<rparr> | None \<Rightarrow> st))"

definition unclaimed :: "('s, 'sk, 'vk) pipe_env \<Rightarrow> idempotency_key \<Rightarrow> 's pipeline_state \<Rightarrow> bool" where
  "unclaimed E key st \<longleftrightarrow>
     (case pp_durable st of
        Some db \<Rightarrow> idem_lookup (to_durable_key (te_hash (kv_tr (pe_check E))) key) db = None
      | None \<Rightarrow> store_get (pp_idem st) key = None)"

lemma records_committed: "records db1 = records db2 \<Longrightarrow> records (committed T input db1) = records (committed T input db2)"
  by (auto simp: records_def committed_def receipt_rows_def)

lemma recorded_logged: "recorded st1 = recorded st2 \<Longrightarrow> recorded (logged E n key world result st1) = recorded (logged E n key world result st2)"
  by (cases "pp_durable st1"; cases "pp_durable st2")
    (auto simp: recorded_def logged_def intro: records_committed split: option.split)

lemma unclaimed_recorded: "recorded st1 = recorded st2 \<Longrightarrow> unclaimed E key st1 = unclaimed E key st2"
  by (cases "pp_durable st1"; cases "pp_durable st2") (auto simp: recorded_def unclaimed_def records_def idem_lookup_def)

lemma logged_frame [simp]: "pp_store (logged E n key world result st) = pp_store st" "pp_secrets (logged E n key world result st) = pp_secrets st"
  by (auto simp: logged_def split: option.split)

text \<open>The stages before the commit leave the records alone; only storing the chip changes the chip store and the secrets.\<close>

definition quiet :: "'s pipeline_state \<Rightarrow> 's pipeline_state \<Rightarrow> bool" where
  "quiet st st' \<longleftrightarrow> recorded st' = recorded st \<and> pp_store st' = pp_store st \<and> pp_secrets st' = pp_secrets st"

lemma quiet_refl [simp]: "quiet st st"
  by (simp add: quiet_def)

lemma quiet_trans [trans]: "quiet st1 st2 \<Longrightarrow> quiet st2 st3 \<Longrightarrow> quiet st1 st3"
  by (simp add: quiet_def)

lemma write_ahead_quiet: "stage_write_ahead E n p st = (r, st') \<Longrightarrow> quiet st st'"
  by (auto simp: stage_write_ahead_def quiet_def recorded_def Let_def split: if_split_asm option.split_asm)

lemma mark_nonce_quiet: "mark_nonce n st = (r, st') \<Longrightarrow> quiet st st'"
  by (auto simp: mark_nonce_def quiet_def recorded_def Let_def records_def split: if_split_asm option.split_asm sum.split_asm prod.split_asm
      elim!: nonce_mark_cases)

lemma put_chip_recorded: "put_chip E body cid now meta store st = (r, st') \<Longrightarrow> recorded st' = recorded st"
  by (auto simp: put_chip_def recorded_def split: prod.split_asm)

lemma rotate_secrets_recorded: "rotate_secrets E n p st = (r, st') \<Longrightarrow> recorded st' = recorded st"
  by (auto simp: rotate_secrets_def recorded_def Let_def records_def split: option.split_asm sum.split_asm prod.split_asm
      dest!: secrets_Inl_Inr)

lemma complete_rotation_recorded: "complete_rotation E n p cid check rot st = (r, st') \<Longrightarrow> recorded st' = recorded st"
  by (auto simp: complete_rotation_def Let_def split: option.split_asm sum.split_asm prod.split_asm
      dest!: rotate_secrets_recorded put_chip_recorded)

lemma store_chip_recorded: "store_chip E n p cid check st = (r, st') \<Longrightarrow> recorded st' = recorded st"
  by (auto simp: store_chip_def split: option.split_asm sum.split_asm prod.split_asm if_split_asm
      dest!: complete_rotation_recorded put_chip_recorded)

lemma persist_Inl: "persist_final_result E n key world result st = (Inl e, st') \<Longrightarrow> st' = st"
  by (auto simp: persist_final_result_def split: option.split_asm sum.split_asm prod.split_asm durable_error.split_asm dest!: commit_Inl)

lemma persist_Inr:
  assumes "persist_final_result E n (Some key) world result st = (Inr u, st')"
  shows "st' = logged E n (Some key) world result st" "pp_durable st \<noteq> None \<Longrightarrow> unclaimed E key st"
  using assms
  by (auto simp: persist_final_result_def logged_def unclaimed_def idem_lookup_None conflicts_def commit_input_of_def
      split: option.split_asm sum.split_asm prod.split_asm durable_error.split_asm dest!: commit_Inr)

section \<open>The stages\<close>

lemma run_stages_Inl:
  assumes "run_stages E n p key r0 st = (Inl e, st')"
  shows "recorded st' = recorded st"
proof -
  have "recorded st' = recorded st1" if "quiet st st1" "(if ck_decision check = DenyDecision then
         bind_st (denied_result E n st1 wa check r2, st1) (\<lambda>result st.
         bind_st (persist_final_result E n (Some key) (pq_world p) result st) (\<lambda>_ st. (Inr result, st)))
       else
         bind_st (allowed_result E n p st1 wa check r2, st1) (\<lambda>result st.
         bind_st (store_chip E n p (ur_receipt_cid (ps_receipt result)) check st) (\<lambda>_ st.
         bind_st (persist_final_result E n (Some key) (pq_world p) result st) (\<lambda>_ st. (Inr result, st))))) = (Inl e, st')"
    for st1 wa check r2
    using that by (auto simp: result_simps dest!: persist_Inl store_chip_recorded split: if_split_asm)
  with assms show ?thesis
    unfolding run_stages_def result_simps prod.inject
    by (elim disjE exE conjE) (auto dest!: write_ahead_quiet simp: quiet_def)
qed

lemma run_stages_Inr:
  assumes "run_stages E n p key r0 st = (Inr result, st')"
  obtains wa check r1 r2 st1 st2 where "quiet st st1" "recorded st2 = recorded st" "st' = logged E n (Some key) (pq_world p) result st2"
    "append_stage_receipt E st1 (stage_exec WriteAhead (pn_now n 1) (pr_body_cid wa) (Some (pr_body_cid wa)) [] (pn_ms n 0)) r0 = Inr r1"
    "stage_check (pe_check E) (map_option fst (pp_store st1)) (pq_type p) (pq_id p) (pq_body p) (pq_world p) (cq_parents (pq_request p)) = Inr check"
    "append_stage_receipt E st1 (stage_exec Check (pn_now n 2) (pr_body_cid wa) None (ck_trace check) (pn_ms n 1)) r1 = Inr r2"
    "pp_durable st \<noteq> None \<Longrightarrow> unclaimed E key st"
    "ck_decision check = DenyDecision \<and> denied_result E n st1 wa check r2 = Inr result \<and> st2 = st1
     \<or> ck_decision check \<noteq> DenyDecision \<and> allowed_result E n p st1 wa check r2 = Inr result
       \<and> store_chip E n p (ur_receipt_cid (ps_receipt result)) check st1 = (Inr (), st2)"
proof -
  obtain wa check r1 r2 st1 where wa: "stage_write_ahead E n p st = (Inr wa, st1)"
    and steps: "append_stage_receipt E st1 (stage_exec WriteAhead (pn_now n 1) (pr_body_cid wa) (Some (pr_body_cid wa)) [] (pn_ms n 0)) r0 = Inr r1"
    "stage_check (pe_check E) (map_option fst (pp_store st1)) (pq_type p) (pq_id p) (pq_body p) (pq_world p) (cq_parents (pq_request p)) = Inr check"
    "append_stage_receipt E st1 (stage_exec Check (pn_now n 2) (pr_body_cid wa) None (ck_trace check) (pn_ms n 1)) r1 = Inr r2"
    and final: "(if ck_decision check = DenyDecision then
         bind_st (denied_result E n st1 wa check r2, st1) (\<lambda>result st.
         bind_st (persist_final_result E n (Some key) (pq_world p) result st) (\<lambda>_ st. (Inr result, st)))
       else
         bind_st (allowed_result E n p st1 wa check r2, st1) (\<lambda>result st.
         bind_st (store_chip E n p (ur_receipt_cid (ps_receipt result)) check st) (\<lambda>_ st.
         bind_st (persist_final_result E n (Some key) (pq_world p) result st) (\<lambda>_ st. (Inr result, st))))) = (Inr result, st')"
    using assms unfolding run_stages_def result_simps prod.inject by blast
  obtain st2 u where persist: "persist_final_result E n (Some key) (pq_world p) result st2 = (Inr u, st')"
    and branch: "ck_decision check = DenyDecision \<and> denied_result E n st1 wa check r2 = Inr result \<and> st2 = st1
     \<or> ck_decision check \<noteq> DenyDecision \<and> allowed_result E n p st1 wa check r2 = Inr result
       \<and> store_chip E n p (ur_receipt_cid (ps_receipt result)) check st1 = (Inr (), st2)"
    using final by (auto simp: result_simps split: if_split_asm)
  have quiet: "quiet st st1"
    using wa by (rule write_ahead_quiet)
  then have rec: "recorded st2 = recorded st"
    using branch by (auto simp: quiet_def dest!: store_chip_recorded)
  then have "unclaimed E key st" if "pp_durable st \<noteq> None"
    using persist_Inr(2) [OF persist] unclaimed_recorded [OF rec, of E key] that by (cases "pp_durable st2") (auto simp: recorded_def)
  then show thesis
    using that [OF quiet rec persist_Inr(1) [OF persist] steps _ branch] by blast
qed

section \<open>Requests leave all of their record or none of it\<close>

lemma lookup_cached_None: "lookup_cached E n key st = Inr None \<Longrightarrow> unclaimed E key st"
  by (auto simp: lookup_cached_def unclaimed_def get_idempotent_def idem_lookup_def result_simps Let_def split: option.split_asm)

lemma process_cases:
  assumes "process_chip_with_context E n request ctx st = (r, st')"
  obtains (failed) e where "r = Inl e" "recorded st' = recorded st"
  | (replayed) p key c where "parse_chip_request request = Inr p" "key_from_chip_body (cq_body request) = Some key"
      "lookup_cached E n key st = Inr (Some c)" "r = Inr (replay_result E n c)" "st' = st"
  | (ran) p key st1 result where "parse_chip_request request = Inr p" "key_from_chip_body (cq_body request) = Some key"
      "quiet st st1" "run_stages E n p key (initial_receipt E n p ctx) st1 = (Inr result, st')" "r = Inr result" "unclaimed E key st"
proof -
  have body: "pq_body p = cq_body request" if "parse_chip_request request = Inr p" for p
    using that by (auto simp: parse_chip_request_def result_simps split: if_split_asm)
  show thesis
    using assms unfolding process_chip_with_context_def
  proof (elim bind_st_cases, goal_cases)
    case (4 p st0 key st0' cached st0'')
    then have lookup: "parse_chip_request request = Inr p" "key_from_chip_body (cq_body request) = Some key" "lookup_cached E n key st = Inr cached"
      "st0 = st" "st0' = st" "st0'' = st"
      using body by (auto simp: result_simps)
    show thesis
    proof (cases cached)
      case None
      with 4 lookup obtain x st1 where mark: "mark_nonce n st = (x, st1)"
        "bind_st (x, st1) (\<lambda>_ st. run_stages E n p key (initial_receipt E n p ctx) st) = (r, st')"
        by (cases "mark_nonce n st") auto
      note quiet = mark_nonce_quiet [OF mark(1)]
      show thesis
      proof (cases r)
        case (Inl e)
        then show thesis
          using mark(2) quiet failed by (auto simp: result_simps quiet_def dest!: run_stages_Inl)
      next
        case (Inr result)
        then show thesis
          using mark(2) ran [OF lookup(1,2) quiet] lookup_cached_None [of E n key st] lookup(3) None by (auto simp: result_simps)
      qed
    next
      case (Some c)
      then show thesis
        using 4(4) lookup by (intro replayed [of p key c]) simp_all
    qed
  qed (rule failed; simp)+
qed

section \<open>Receipts\<close>

lemma append_receipt_Inr:
  assumes "append_stage_receipt E st stage r = Inr r'"
  shows "verify_auth_chain_with_secrets (pe_receipt E) (sx_current (pp_secrets st)) (sx_prev (pp_secrets st)) r'"
    "map st_stage (ur_stages r') = map st_stage (ur_stages r) @ [st_stage stage]" "ur_decision r' = ur_decision r"
proof -
  have app: "append_stage_with_secrets (pe_receipt E) (sx_current (pp_secrets st)) (sx_prev (pp_secrets st)) stage r = (r', Inr ())"
    using assms by (auto simp: append_stage_receipt_def split: prod.split_asm sum.split_asm)
  then show "verify_auth_chain_with_secrets (pe_receipt E) (sx_current (pp_secrets st)) (sx_prev (pp_secrets st)) r'"
    by (rule append_ok_verifies)
  show "map st_stage (ur_stages r') = map st_stage (ur_stages r) @ [st_stage stage]" "ur_decision r' = ur_decision r"
    using app by (auto simp: append_stage_with_secrets_def recompute_cid_def Let_def stamp_def
        split: prod.split_asm sum.split_asm if_split_asm)
qed

lemma rebuild_keeps: "rebuild_stages E key shadow ss = Some r \<Longrightarrow>
    map st_stage (ur_stages r) = map st_stage (ur_stages shadow) @ map st_stage ss \<and> ur_decision r = ur_decision shadow"
proof (induction ss arbitrary: shadow)
  case (Cons s ss)
  then show ?case
    by (force simp: recompute_cid_def Let_def stamp_def split: prod.split_asm sum.split_asm)
qed simp

lemma rebuild_chain_keeps:
  "map st_stage (ur_stages (rebuild_auth_chain_with_current_key E s r)) = map st_stage (ur_stages r)
   \<and> ur_decision (rebuild_auth_chain_with_current_key E s r) = ur_decision r"
  by (auto simp: rebuild_auth_chain_with_current_key_def empty_shadow_def dest!: rebuild_keeps split: option.split)

lemma deny_keeps: "map st_stage (ur_stages (deny_with_secrets E reason s r)) = map st_stage (ur_stages r)"
  "ur_decision (deny_with_secrets E reason s r) = DenyDecision"
  by (simp_all add: deny_with_secrets_def recompute_cid_def Let_def rebuild_chain_keeps split: sum.split)

lemma sign_receipt_Inr:
  assumes "sign_receipt E r = Inr r'"
  shows "verify_auth_chain_with_secrets (pe_receipt E) c p r' \<longleftrightarrow> verify_auth_chain_with_secrets (pe_receipt E) c p r"
    "ur_stages r' = ur_stages r" "ur_decision r' = ur_decision r"
proof -
  obtain s where "r' = r\<lparr>ur_sig := s\<rparr>"
    using assms by (auto simp: sign_receipt_def finalize_and_sign_def Let_def result_simps)
  then show "verify_auth_chain_with_secrets (pe_receipt E) c p r' \<longleftrightarrow> verify_auth_chain_with_secrets (pe_receipt E) c p r"
    "ur_stages r' = ur_stages r" "ur_decision r' = ur_decision r"
    by (simp_all add: verify_secrets_iff sign_keeps_chain)
qed

lemma receipt_new_fields [simp]: "ur_stages (initial_receipt E n p ctx) = []" "ur_decision (initial_receipt E n p ctx) = Allow"
  by (simp_all add: initial_receipt_def receipt_new_def with_knock_cid_def with_subject_did_def with_runtime_info_def Let_def)

definition stages_of :: "decision \<Rightarrow> pipeline_stage list" where
  "stages_of d = (if d = DenyDecision then [WriteAhead, Check, WriteFinished] else [WriteAhead, Check, Receipt.Transition, WriteFinished])"

definition attested :: "('s, 'sk, 'vk) pipe_env \<Rightarrow> stage_secrets \<Rightarrow> pipeline_result \<Rightarrow> bool" where
  "attested E s result \<longleftrightarrow> verify_auth_chain_with_secrets (pe_receipt E) (sx_current s) (sx_prev s) (ps_receipt result)
     \<and> map st_stage (ur_stages (ps_receipt result)) = stages_of (ps_decision result)
     \<and> ur_decision (ps_receipt result) = ps_decision result"

lemma denied_result_attested:
  assumes "denied_result E n st wa check r = Inr result" "map st_stage (ur_stages r) = [WriteAhead, Check]"
  shows "attested E (pp_secrets st) result" "ps_decision result = DenyDecision" "\<not> ps_replayed result"
  using assms by (auto simp: denied_result_def result_simps Let_def attested_def stages_of_def sign_receipt_Inr append_receipt_Inr deny_keeps stage_exec_def)

lemma allowed_result_attested:
  assumes "allowed_result E n p st wa check r = Inr result" "map st_stage (ur_stages r) = [WriteAhead, Check]"
    "ck_decision check = Allow" "ur_decision r = Allow"
  shows "attested E (pp_secrets st) result" "ps_decision result = Allow" "\<not> ps_replayed result"
  using assms by (auto simp: allowed_result_def result_simps Let_def attested_def stages_of_def sign_receipt_Inr append_receipt_Inr
      stage_exec_def transition_exec_def)

lemma stage_check_decides: "stage_check V store chip_type chip_id body world parents = Inr r \<Longrightarrow> ck_decision r \<in> {Allow, DenyDecision}"
  by (elim stage_check_Inr) (auto dest!: silicon_gate_check_denies elim!: policy_check_decision split: if_split_asm)

lemma parse_request_fields:
  assumes "parse_chip_request request = Inr p"
  shows "pq_request p = request" "text_at (cq_body request) ''@type'' = Some (pq_type p)" "text_at (cq_body request) ''@world'' = Some (pq_world p)"
    "pq_type p = cq_chip_type request"
  using assms by (cases "cq_body request"; auto simp: parse_chip_request_def result_simps text_at_def split: if_split_asm)+

text \<open>What the check stage requires of a chip that it admits, on the chip store of the state.\<close>

definition admissible :: "('s, 'sk, 'vk) pipe_env \<Rightarrow> 's pipeline_state \<Rightarrow> parsed_request \<Rightarrow> bool" where
  "admissible E st p \<longleftrightarrow>
     (let V = pe_check E; store = map_option fst (pp_store st)
      in pq_type p \<in> set GENESIS_TYPES \<and> pq_id p \<noteq> None \<and> kv_body_len V (pq_body p) \<le> 1048576
         \<and> onboarding_precheck V store (pq_type p) (pq_body p) (pq_world p) = Inr ()
         \<and> rotation_precheck V store (pq_type p) (pq_body p) (pq_world p) = Inr ()
         \<and> audit_precheck V store (pq_type p) (pq_body p) (pq_world p) = Inr () \<and> silicon_gate_check V store (pq_body p) = Inr None)"

lemma run_stages_result:
  assumes "run_stages E n p key (initial_receipt E n p ctx) st = (Inr result, st')" "text_at (pq_body p) ''@type'' = Some (pq_type p)"
  shows "attested E (pp_secrets st) result" "\<not> ps_replayed result"
    "recorded st' = recorded (logged E n (Some key) (pq_world p) result st)"
    "ps_decision result = DenyDecision \<and> pp_store st' = pp_store st \<and> pp_secrets st' = pp_secrets st
     \<or> ps_decision result = Allow \<and> admissible E st p"
proof -
  from assms(1) obtain wa check r1 r2 st1 st2 where quiet: "quiet st st1" "recorded st2 = recorded st"
    and st': "st' = logged E n (Some key) (pq_world p) result st2"
    and r1: "append_stage_receipt E st1 (stage_exec WriteAhead (pn_now n 1) (pr_body_cid wa) (Some (pr_body_cid wa)) [] (pn_ms n 0))
      (initial_receipt E n p ctx) = Inr r1"
    and check: "stage_check (pe_check E) (map_option fst (pp_store st1)) (pq_type p) (pq_id p) (pq_body p) (pq_world p) (cq_parents (pq_request p)) = Inr check"
    and r2: "append_stage_receipt E st1 (stage_exec Check (pn_now n 2) (pr_body_cid wa) None (ck_trace check) (pn_ms n 1)) r1 = Inr r2"
    and branch: "ck_decision check = DenyDecision \<and> denied_result E n st1 wa check r2 = Inr result \<and> st2 = st1
     \<or> ck_decision check \<noteq> DenyDecision \<and> allowed_result E n p st1 wa check r2 = Inr result
       \<and> store_chip E n p (ur_receipt_cid (ps_receipt result)) check st1 = (Inr (), st2)"
    by (rule run_stages_Inr)
  have stages: "map st_stage (ur_stages r2) = [WriteAhead, Check]" "ur_decision r2 = Allow"
    using append_receipt_Inr(2,3) [OF r1] append_receipt_Inr(2,3) [OF r2] by (simp_all add: stage_exec_def)
  show "recorded st' = recorded (logged E n (Some key) (pq_world p) result st)"
    unfolding st' by (rule recorded_logged [OF quiet(2)])
  consider (deny) "ck_decision check = DenyDecision" "denied_result E n st1 wa check r2 = Inr result" "st2 = st1"
    | (admit) "ck_decision check = Allow" "allowed_result E n p st1 wa check r2 = Inr result"
    using branch stage_check_decides [OF check] by auto
  note cases = this
  have "attested E (pp_secrets st1) result"
    using cases denied_result_attested(1) [OF _ stages(1)] allowed_result_attested(1) [OF _ stages(1) _ stages(2)] by cases blast+
  then show "attested E (pp_secrets st) result"
    using quiet(1) by (simp add: quiet_def)
  show "\<not> ps_replayed result"
    using cases denied_result_attested(3) [OF _ stages(1)] allowed_result_attested(3) [OF _ stages(1) _ stages(2)] by cases blast+
  show "ps_decision result = DenyDecision \<and> pp_store st' = pp_store st \<and> pp_secrets st' = pp_secrets st
     \<or> ps_decision result = Allow \<and> admissible E st p"
    using cases
  proof cases
    case deny
    then show ?thesis
      using denied_result_attested(2) [OF deny(2) stages(1)] quiet(1) by (simp add: st' quiet_def)
  next
    case admit
    moreover have "admissible E st p"
      using stage_check_admits [OF check assms(2)] admit(1) quiet(1) by (simp add: admissible_def quiet_def)
    ultimately show ?thesis
      using allowed_result_attested(2) [OF admit(2) stages(1) admit(1) stages(2)] by simp
  qed
qed




text \<open>C6: The receipt of a newly decided request can be checked: its token chain verifies under the stage secrets with which the
  request started, it names exactly the stages that ran (the transition only if the chip was admitted) and carries the decision
  that is returned. A denial leaves the chip store and the secrets as they were; and only a chip with a type of the genesis
  policy, an identifier and a size within the limit, whose checks against the chip store passed, is ever admitted.\<close>

theorem new_results_attested:
  "case process_chip_with_context E n request ctx st of
     (Inl e, st') \<Rightarrow> recorded st' = recorded st
   | (Inr result, st') \<Rightarrow>
       if ps_replayed result then st' = st
       else attested E (pp_secrets st) result
         \<and> (case ps_decision result of
              DenyDecision \<Rightarrow> pp_store st' = pp_store st \<and> pp_secrets st' = pp_secrets st
            | Allow \<Rightarrow> \<exists>p. parse_chip_request request = Inr p \<and> admissible E st p
            | Require \<Rightarrow> False)"
proof -
  obtain r st' where run: "process_chip_with_context E n request ctx st = (r, st')"
    by (rule prod.exhaust)
  then show ?thesis
  proof (cases rule: process_cases)
    case (ran p key st1 result)
    have "text_at (pq_body p) ''@type'' = Some (pq_type p)"
      using parse_request_fields [OF ran(1)] by simp
    note stages = run_stages_result [OF ran(4) this]
    have "admissible E st1 p = admissible E st p" "attested E (pp_secrets st) result"
      using ran(3) stages(1) by (simp_all add: admissible_def quiet_def)
    then show ?thesis
      using run ran(1,3,5) stages(2,4) by (auto simp: quiet_def)
  qed (simp_all add: run replay_result_def)
qed

section \<open>Repeated requests\<close>

abbreviation durable_key_of :: "('s, 'sk, 'vk) pipe_env \<Rightarrow> idempotency_key \<Rightarrow> string" where
  "durable_key_of E \<equiv> to_durable_key (te_hash (kv_tr (pe_check E)))"

definition remembered :: "('s, 'sk, 'vk) pipe_env \<Rightarrow> idempotency_key \<Rightarrow> idem_row \<Rightarrow> cached_result \<Rightarrow> 's pipeline_state \<Rightarrow> bool" where
  "remembered E key row c st \<longleftrightarrow>
     (case pp_durable st of Some db \<Rightarrow> idem_lookup (durable_key_of E key) db = Some row | None \<Rightarrow> store_get (pp_idem st) key = Some c)"

lemma remembered_recorded: "recorded st1 = recorded st2 \<Longrightarrow> remembered E key row c st1 = remembered E key row c st2"
  by (cases "pp_durable st1"; cases "pp_durable st2") (auto simp: recorded_def remembered_def records_def idem_lookup_def)

lemma remembered_logged: "remembered E key row c st \<Longrightarrow> unclaimed E key' st \<Longrightarrow> remembered E key row c (logged E n (Some key') world result st)"
  by (cases "pp_durable st"; cases "key' = key")
    (auto simp: remembered_def logged_def unclaimed_def committed_def idem_lookup_def find_append store_get_def store_put_def lookup_update')

lemma remembered_new: "unclaimed E key st \<Longrightarrow>
    remembered E key (idem_row_of (pe_codec E) (durable_key_of E key) (commit_input_of E n (Some key) world result)) (cached_of n result)
      (logged E n (Some key) world result st)"
  by (cases "pp_durable st")
    (auto simp: remembered_def logged_def unclaimed_def idem_lookup_None conflicts_def commit_input_of_def store_get_def store_put_def
      idem_lookup_committed lookup_update')

definition process_all :: "('s, 'sk, 'vk) pipe_env \<Rightarrow> (pipe_run \<times> chip_request \<times> authorship_context) list \<Rightarrow> 's pipeline_state \<Rightarrow> 's pipeline_state" where
  "process_all E reqs st = fold (\<lambda>(n, request, ctx) st. snd (process_chip_with_context E n request ctx st)) reqs st"

lemma remembered_process: "remembered E key row c st \<Longrightarrow> remembered E key row c (snd (process_chip_with_context E n request ctx st))"
proof -
  assume rem: "remembered E key row c st"
  obtain r st' where run: "process_chip_with_context E n request ctx st = (r, st')"
    by (rule prod.exhaust)
  from run have "remembered E key row c st'"
  proof (cases rule: process_cases)
    case (failed e)
    then show ?thesis
      using rem remembered_recorded by blast
  next
    case (ran p key' st1 result)
    have "recorded st' = recorded (logged E n (Some key') (pq_world p) result st1)"
      using run_stages_result(3) [OF ran(4)] parse_request_fields [OF ran(1)] by simp
    also have "\<dots> = recorded (logged E n (Some key') (pq_world p) result st)"
      using ran(3) by (intro recorded_logged) (simp add: quiet_def)
    finally show ?thesis
      using remembered_logged [OF rem ran(6)] remembered_recorded by blast
  qed (use rem in simp)
  with run show ?thesis
    by simp
qed

lemma remembered_process_all: "remembered E key row c st \<Longrightarrow> remembered E key row c (process_all E reqs st)"
  unfolding process_all_def by (induction reqs arbitrary: st) (auto simp: remembered_process)

lemma receipt_decision_member: "json_get (to_json r) ''decision'' = Some (JStr (show_decision (ur_decision r)))"
  by (simp add: to_json_def receipt_members_def decision_json_def opt_member_def split: option.split)

definition replays :: "('s, 'sk, 'vk) pipe_env \<Rightarrow> pipe_run \<Rightarrow> pipeline_result \<Rightarrow> cached_result \<Rightarrow> bool" where
  "replays E n result c \<longleftrightarrow> ps_chain (replay_result E n c) = ps_chain result \<and> ps_decision (replay_result E n c) = ps_decision result
     \<and> ps_receipt (replay_result E n c) = ps_receipt result"

lemma lookup_remembered:
  assumes "remembered E key (idem_row_of (pe_codec E) (durable_key_of E key) (commit_input_of E n0 (Some key) world result)) (cached_of n0 result) st"
    and "pn_lookup_io n = no_faults" "ps_decision result \<in> {Allow, DenyDecision}" "ur_decision (ps_receipt result) = ps_decision result"
    and "tc_parse (pe_codec E) (tc_print (pe_codec E) (to_json (ps_receipt result))) = Inr (to_json (ps_receipt result))"
    and "tc_parse_chain (pe_codec E) (tc_print_chain (pe_codec E) (ps_chain result)) = Inr (ps_chain result)"
    and "pe_from_json E (to_json (ps_receipt result)) = Some (ps_receipt result)"
  obtains c where "lookup_cached E n key st = Inr (Some c)" "replays E n result c"
proof (cases "pp_durable st")
  case None
  have "eq_ignore_ascii_case ''allow'' ''allow''" "\<not> eq_ignore_ascii_case ''deny'' ''allow''" "find_after ''Allow'' ''deny'' = None"
    by code_simp+
  then have "replays E n result (cached_of n0 result)"
    using assms(3,7) by (auto simp: replays_def replay_result_def cached_of_def decision_to_wire_def)
  then show thesis
    using that None assms(1) by (simp add: lookup_cached_def remembered_def)
next
  case (Some db)
  have "eq_ignore_ascii_case ''Allow'' ''allow''" "\<not> eq_ignore_ascii_case ''Deny'' ''allow''" "find_after ''Allow'' ''Deny'' = None"
    by code_simp+
  then show thesis
    using that Some assms get_idempotent_row [of "durable_key_of E key" db _ "pe_codec E" "to_json (ps_receipt result)" "ps_chain result"]
    by (auto simp: lookup_cached_def remembered_def idem_row_of_def commit_input_of_def receipt_decision_member show_decision_def
        replays_def replay_result_def)
qed

text \<open>C7: Requests are idempotent: once a request has been decided, a later request with the same anchors gets the same chain of
  identifiers, decision and receipt back, marked as replayed, and changes nothing, whatever requests are processed in between
  and whatever failures those meet. The texts of receipt and chain have to read back as what was written.\<close>

theorem replay_stable:
  assumes "process_chip_with_context E n request ctx st = (Inr result, st1)" "\<not> ps_replayed result"
    and "tc_parse (pe_codec E) (tc_print (pe_codec E) (to_json (ps_receipt result))) = Inr (to_json (ps_receipt result))"
    and "tc_parse_chain (pe_codec E) (tc_print_chain (pe_codec E) (ps_chain result)) = Inr (ps_chain result)"
    and "pe_from_json E (to_json (ps_receipt result)) = Some (ps_receipt result)"
    and "key_from_chip_body (cq_body request') = key_from_chip_body (cq_body request)" "parse_chip_request request' = Inr p'"
    and "pn_lookup_io n' = no_faults" "st2 = process_all E reqs st1"
  shows "\<exists>again. process_chip_with_context E n' request' ctx' st2 = (Inr again, st2) \<and> ps_replayed again
    \<and> ps_chain again = ps_chain result \<and> ps_decision again = ps_decision result \<and> ps_receipt again = ps_receipt result"
  using assms(1)
proof (cases rule: process_cases)
  case (ran p key st0 res)
  let ?row = "idem_row_of (pe_codec E) (durable_key_of E key) (commit_input_of E n (Some key) (pq_world p) result)"
  have "text_at (pq_body p) ''@type'' = Some (pq_type p)"
    using parse_request_fields [OF ran(1)] by simp
  note stages = run_stages_result [OF ran(4) this, unfolded ran(5) [simplified, symmetric]]
  have "unclaimed E key st0"
    using ran(3,6) unclaimed_recorded [of st0 st E key] by (simp add: quiet_def)
  then have "remembered E key ?row (cached_of n result) st1"
    using remembered_new stages(3) remembered_recorded by blast
  then have "remembered E key ?row (cached_of n result) st2"
    unfolding assms(9) by (rule remembered_process_all)
  moreover have "ps_decision result \<in> {Allow, DenyDecision}" "ur_decision (ps_receipt result) = ps_decision result"
    using stages(1,4) by (auto simp: attested_def)
  ultimately obtain c where "lookup_cached E n' key st2 = Inr (Some c)" "replays E n' result c"
    using lookup_remembered assms(3-5,8) by blast
  then show ?thesis
    using assms(6,7) ran(2) parse_request_fields(1) [OF assms(7)]
    by (auto simp: process_chip_with_context_def bind_st_def replays_def replay_result_def)
qed (use assms(2) in \<open>auto simp: replay_result_def\<close>)

end
