(* ===== verification/Pipeline_Run.thy ===== *)
theory Pipeline_Run
  imports Pipeline_Laws
begin

text \<open>
  A run of the pipeline on concrete inputs: a chip of a type that the genesis policy does not admit passes the write-ahead and
  check stages, is denied, and its receipt is sealed, signed and recorded; repeated, the request is answered from the record.
  The texts that a database would return are arguments of the pipeline, so that they can be chosen to be those of the result.
\<close>

section \<open>Pipeline and request\<close>

definition demo_check :: "(mem_backend, u8, u8) check_env" where
  "demo_check = \<lparr>kv_backend = mem_ops, kv_show_store_error = (\<lambda>_. []), kv_cap = hex_caps, kv_tr = demo_tr\<lparr>te_hash := (\<lambda>_. [7])\<rparr>,
     kv_silicon = demo_text, kv_depth = 0, kv_reader = \<lparr>pl_circuits = (\<lambda>_. Inl []), pl_scope = (\<lambda>_. Inl [])\<rparr>, kv_storage = policy_storage_new,
     kv_body_len = (\<lambda>_. 9), kv_nanos = (\<lambda>_ _. 0), kv_millis = (\<lambda>_. 0), kv_gate_ms = 0\<rparr>"

definition demo_pipe :: "unified_receipt \<Rightarrow> string list \<Rightarrow> (mem_backend, u8, u8) pipe_env" where
  "demo_pipe r chain = \<lparr>pe_check = demo_check, pe_receipt = toy_receipt_env, pe_kms = toy_kms,
     pe_author = \<lparr>ax_text = plain_text, ax_hash = (\<lambda>_. [7]), ax_to_vec = (\<lambda>_. [])\<rparr>, pe_store_env = doc_env,
     pe_codec = plain_codec\<lparr>tc_parse := (\<lambda>_. Inr (to_json r)), tc_parse_chain := (\<lambda>_. Inr chain)\<rparr>,
     pe_from_json = (\<lambda>_. Some r), pe_signing_key = 7, pe_sk_bytes = (\<lambda>k. replicate 32 k), pe_did = ''d'', pe_kid = ''k'', pe_mode = CompatV1,
     pe_runtime = runtime_info_new \<lparr>bm_rustc = [], bm_os = [], bm_arch = [], bm_profile = [], bm_git_commit = None, bm_git_dirty = None\<rparr> ''h'' ''1''\<rparr>"

definition demo_pn :: "string \<Rightarrow> pipe_run" where
  "demo_pn x = \<lparr>pn_nonce = x, pn_wa_nonce = x @ ''w'', pn_now = (\<lambda>_. ''t''), pn_secs = (\<lambda>_. 0), pn_ms = (\<lambda>_. 0),
     pn_lookup_io = no_faults, pn_nonce_io = no_faults, pn_secrets_io = no_faults, pn_commit_io = no_faults\<rparr>"

definition demo_unknown :: json where
  "demo_unknown = JObj [(''@type'', JStr ''t''), (''@ver'', JStr ''1''), (''@world'', JStr ''a/x''), (''@id'', JStr ''i'')]"

definition demo_request :: chip_request where
  "demo_request = \<lparr>cq_chip_type = ''t'', cq_body = demo_unknown, cq_parents = [], cq_operation = None\<rparr>"

definition demo_parsed :: parsed_request where
  "demo_parsed = \<lparr>pq_type = ''t'', pq_id = Some ''i'', pq_world = ''a/x'', pq_request = demo_request\<rparr>"

definition demo_state :: "mem_backend pipeline_state" where
  "demo_state = \<lparr>pp_seen = [], pp_store = None, pp_idem = store_new, pp_durable = None, pp_secrets = \<lparr>sx_current = ''s'', sx_prev = None\<rparr>\<rparr>"

definition demo_authors :: authorship_context where
  "demo_authors = \<lparr>ac_subject_did_hint = Some ''did:o'', ac_knock_cid = Some ''b3:k''\<rparr>"

definition demo_verdict :: check_result where
  "demo_verdict = evaluate_policies (\<lambda>_ _. 0) (\<lambda>_. 0) (policy_context (\<lambda>_. 9) ''t'' (Some ''i'') demo_unknown) [create_genesis_policy] []"

lemma demo_pipe_sel [simp]: "pe_check (demo_pipe r c) = demo_check" "pe_receipt (demo_pipe r c) = toy_receipt_env"
  "te_hash (kv_tr demo_check) = (\<lambda>_. [7])" "te_text (kv_tr demo_check) = plain_text"
  by (simp_all add: demo_pipe_def demo_check_def demo_tr_def)

lemma demo_parse: "parse_chip_request demo_request = Inr demo_parsed"
  "key_from_chip_body (cq_body demo_request) = Some \<lparr>ik_type = ''t'', ik_ver = ''1'', ik_world = ''a/x'', ik_id = ''i''\<rparr>"
  by code_simp+

lemma demo_checked: "stage_check demo_check None ''t'' (Some ''i'') demo_unknown ''a/x'' [] = Inr demo_verdict"
proof -
  have "\<not> is_onboarding_type ''t''" "\<not> is_audit_request_type ''t''" "\<not> is_silicon_type ''t''" "''t'' \<noteq> ''ubl/key.rotate''"
    by code_simp+
  moreover have "silicon_gate_check demo_check None demo_unknown = Inr None"
    by (simp add: silicon_gate_check_def split: option.split)
  moreover have "policy_check demo_check ''t'' (Some ''i'') demo_unknown [] = Inr demo_verdict"
    by (simp add: policy_check_def orphan_chain demo_verdict_def demo_check_def del: evaluate_policies.simps)
  ultimately show ?thesis
    by (simp add: stage_check_def onboarding_precheck_def rotation_precheck_def audit_precheck_def silicon_precheck_def)
qed

section \<open>The verdict\<close>

definition demo_vote :: rb_result where
  "demo_vote = \<lparr>res_rb_id = ''type_validation'', res_decision = DenyDecision,
     res_reason = ''Valid Chip Type evaluated to false '' @ string_of_bytes [0xE2, 0x86, 0x92] @ '' Deny'', res_inputs_used = [''@type'']\<rparr>"

lemma demo_vote: "rb_evaluate create_type_validation_rb (policy_context (\<lambda>_. 9) ''t'' (Some ''i'') demo_unknown) = demo_vote"
  by code_simp

lemma demo_verdict_value: "demo_verdict = \<lparr>ck_decision = DenyDecision, ck_reason = ''Denied by type_validation: '' @ res_reason demo_vote,
    ck_short_circuited = True, ck_trace = [\<lparr>pt_level = ''genesis'', pt_policy_id = ''ubl.genesis.v1'', pt_result = DenyDecision,
      pt_reason = ''Denied by type_validation: '' @ res_reason demo_vote, pt_rb_results = [\<lparr>rv_rb_id = ''type_validation'',
        rv_decision = DenyDecision, rv_reason = res_reason demo_vote, rv_inputs_used = [''@type''], rv_duration_nanos = 0\<rparr>], pt_duration_ms = 0\<rparr>]\<rparr>"
proof -
  let ?ctx = "policy_context (\<lambda>_. 9) ''t'' (Some ''i'') demo_unknown" and ?reason = "''Denied by type_validation: '' @ res_reason demo_vote"
  have split: "split_on (CHR ''.'') ''ubl.genesis.v1'' = [''ubl'', ''genesis'', ''v1'']"
    by code_simp
  have vote: "res_decision demo_vote = DenyDecision" "res_rb_id demo_vote = ''type_validation''" "res_inputs_used demo_vote = [''@type'']"
    by (simp_all add: demo_vote_def)
  have "policy_evaluate create_genesis_policy ?ctx = \<lparr>pr_policy_id = ''ubl.genesis.v1'', pr_decision = DenyDecision, pr_reason = ?reason,
      pr_circuit_results = [\<lparr>cr_circuit_id = ''genesis_validation'', cr_decision = DenyDecision, cr_reason = ?reason, cr_rb_results = [demo_vote],
        cr_short_circuited = True\<rparr>], pr_short_circuited = True\<rparr>"
    by (simp add: policy_evaluate_def create_genesis_policy_def create_genesis_circuit_def evaluate_sequential_def Let_def demo_vote vote)
  then show ?thesis
    by (simp add: demo_verdict_def policy_result_to_trace_def Let_def split vote)
qed

lemma plain_key_ok: "list_all (\<lambda>c. 32 \<le> (of_char c :: nat) \<and> of_char c \<noteq> (0xEF :: nat)) s \<Longrightarrow> key_ok plain_text s"
proof -
  assume s: "list_all (\<lambda>c. 32 \<le> (of_char c :: nat) \<and> of_char c \<noteq> (0xEF :: nat)) s"
  then have "\<not> contains_bom s"
    by (induction s) (simp_all add: contains_bom_skip)
  then show ?thesis
    using s by (auto simp: key_ok_def contains_control_def plain_text_def list_all_iff)
qed

lemma demo_verdict_facts: "ck_decision demo_verdict = DenyDecision" "key_ok plain_text (ck_reason demo_verdict)"
  "list_all (\<lambda>e. nrf_ok plain_text (policy_trace_json e)) (ck_trace demo_verdict)"
proof -
  have keys: "list_all (key_ok plain_text) [''level'', ''policy_id'', ''result'', ''reason'', ''rb_results'', ''duration_ms'', ''rb_id'', ''decision'',
      ''inputs_used'', ''duration_nanos'', ''genesis'', ''ubl.genesis.v1'', ''Deny'', ''type_validation'', ''@type'', res_reason demo_vote,
      ''Denied by type_validation: '' @ res_reason demo_vote]"
    by (simp add: plain_key_ok demo_vote_def string_of_bytes_def)
  then show "ck_decision demo_verdict = DenyDecision" "key_ok plain_text (ck_reason demo_verdict)"
    by (simp_all add: demo_verdict_value del: append_Cons append_Nil)
  show "list_all (\<lambda>e. nrf_ok plain_text (policy_trace_json e)) (ck_trace demo_verdict)"
    using keys by (simp add: demo_verdict_value policy_trace_json_def rb_vote_json_def nrf_ok_obj decision_json_def show_decision_def i64_json_def
        u64_json_def del: append_Cons append_Nil)
qed

section \<open>The stages\<close>

lemma toy_append:
  assumes "verify_auth_chain_with_keys toy_receipt_env demo_key None r = Inr True" "receipt_ok toy_receipt_env r" "stage_ok toy_receipt_env s"
    and "pp_secrets st = pp_secrets demo_state"
  obtains r' where "\<And>x c. append_stage_receipt (demo_pipe x c) st s r = Inr r'" "verify_auth_chain_with_keys toy_receipt_env demo_key None r' = Inr True"
    "ur_stages r' \<noteq> []" "ur_effects r' = ur_effects r" "ur_id r' = ur_receipt_cid r'"
proof -
  let ?r = "shadow_at toy_receipt_env r (ur_stages r @ [stamp toy_receipt_env demo_key (chain_prev r) s])"
  have laws: "text_laws (ce_text (re_crypto toy_receipt_env))" "transpose_key None = Inr None"
    using plain_text_laws by simp_all
  note app = append_verified [OF laws(1) assms(1) demo_facts(4) laws(2) assms(2,3)]
  show thesis
    using app assms(4) by (intro that [of ?r]) (simp_all add: append_stage_receipt_def demo_state_def, simp_all add: shadow_at_def Let_def)
qed

lemma toy_receipt_of_body:
  assumes "nrf_ok plain_text body"
  shows "receipt_of_body (demo_pipe x c) t body = Inr \<lparr>pr_body_cid = ''b3:07'', pr_receipt_type = t, pr_body = body\<rparr>"
proof -
  obtain b where "to_nrf1_bytes plain_text body = Inr b"
    using assms by (auto simp: to_nrf1_bytes_iff nrf_ok_def)
  moreover have "compute_cid (\<lambda>_. [7]) b = ''b3:07''"
    by (simp add: compute_cid_def cid_from_nrf_bytes_def) code_simp
  ultimately show ?thesis
    by (simp add: receipt_of_body_def Let_def)
qed

lemma toy_sign:
  assumes "verify_auth_chain_with_keys toy_receipt_env demo_key None r = Inr True" "ur_stages r \<noteq> []" "ur_id r = ur_receipt_cid r"
  obtains r' where "\<And>x c. sign_receipt (demo_pipe x c) r = Inr r'"
proof -
  have cid: "body_cid toy_receipt_env r (ur_stages r) = Inr (ur_receipt_cid r)"
    using assms(1,2) by (rule verified_cid)
  then have "printable_ascii (ur_receipt_cid r)"
    using printable_hex by (auto simp: body_cid_def cid_of_value_def result_simps printable_ascii_def)
  then have "key_ok plain_text (ur_receipt_cid r)"
    using plain_text_laws by (intro key_ok_ascii)
  moreover have "nrf_ok plain_text (to_json (r\<lparr>ur_sig := [], ur_receipt_cid := [], ur_id := []\<rparr>))"
    using cid cid_of_value_ok [of toy_crypto "to_json (r\<lparr>ur_sig := [], ur_receipt_cid := [], ur_id := []\<rparr>)"] by (auto simp: body_cid_def)
  ultimately have "nrf_ok plain_text (signature_payload_value r)"
    unfolding signature_payload_value_def nrf_ok_to_json using assms(3) by (simp add: receipt_members_def)
  then obtain b where "to_nrf1_bytes plain_text (signature_payload_value r) = Inr b"
    by (auto simp: to_nrf1_bytes_iff nrf_ok_def)
  then show thesis
    using that by (auto simp: sign_receipt_def finalize_and_sign_def demo_pipe_def v1.sign_message to_nrf_bytes_def Let_def)
qed

definition demo_started :: "mem_backend pipeline_state" where
  "demo_started = demo_state\<lparr>pp_seen := [''nw'', ''n'']\<rparr>"

definition demo_wa :: pipeline_receipt where
  "demo_wa = \<lparr>pr_body_cid = ''b3:07'', pr_receipt_type = ''ubl/wa'', pr_body = wa_body (demo_pipe undefined undefined) (demo_pn ''n'') demo_parsed ''b3:07''\<rparr>"

lemma demo_write_ahead: "stage_write_ahead (demo_pipe x c) (demo_pn ''n'') demo_parsed (demo_state\<lparr>pp_seen := [''n'']\<rparr>) = (Inr demo_wa, demo_started)"
proof -
  obtain cid where "genesis_chip_cid plain_text (\<lambda>_. [7]) = Some cid"
    using genesis_encodes [OF plain_text_laws] by blast
  moreover have "compute_cid (\<lambda>_. [7]) b = ''b3:07''" for b
    by (simp add: compute_cid_def cid_from_nrf_bytes_def) code_simp
  ultimately have genesis: "genesis_chip_cid plain_text (\<lambda>_. [7]) = Some ''b3:07''"
    by (auto simp: genesis_chip_cid_def split: sum.split_asm)
  have body: "wa_body (demo_pipe x c) (demo_pn ''n'') demo_parsed ''b3:07'' = wa_body (demo_pipe undefined undefined) (demo_pn ''n'') demo_parsed ''b3:07''"
    by (simp add: wa_body_def demo_pipe_def)
  have "nrf_ok plain_text (wa_body (demo_pipe undefined undefined) (demo_pn ''n'') demo_parsed ''b3:07'')"
    by (simp add: wa_body_def demo_pipe_def demo_pn_def pq_operation_def demo_parsed_def demo_request_def demo_unknown_def nrf_ok_obj plain_key_ok)
  then show ?thesis
    by (simp add: stage_write_ahead_def Let_def genesis toy_receipt_of_body body demo_wa_def demo_started_def)
      (simp add: demo_pn_def demo_state_def)
qed

lemma stage_exec_ok:
  assumes "text_laws (ce_text (re_crypto E))" "key_ok (ce_text (re_crypto E)) now" "key_ok (ce_text (re_crypto E)) input"
    and "pred_option (key_ok (ce_text (re_crypto E))) outp" "list_all (\<lambda>e. nrf_ok (ce_text (re_crypto E)) (policy_trace_json e)) entries"
  shows "stage_ok E (stage_exec stage now input outp entries ms)"
proof -
  let ?T = "ce_text (re_crypto E)"
  have lits: "key_ok ?T ''stage''" "key_ok ?T ''timestamp''" "key_ok ?T ''input_cid''" "key_ok ?T ''output_cid''" "key_ok ?T ''policy_trace''"
    "key_ok ?T ''auth_token''" "key_ok ?T ''duration_ms''" "key_ok ?T []" "key_ok ?T (stage_as_str stage)"
    using assms(1) by (cases stage; simp add: key_ok_literal)+
  have ms: "nrf_ok ?T (i64_json ms)"
    using sint_ge [of ms] sint_lt [of ms] by (simp add: i64_json_def)
  show ?thesis
    using assms(2-5) lits ms by (cases outp) (auto simp: stage_ok_def stage_json_def stage_exec_def nrf_ok_obj list_member_def list_all_iff)
qed

lemma demo_texts: "key_ok plain_text ''t''" "key_ok plain_text ''b3:07''"
  by (simp_all add: plain_key_ok)

lemma demo_stage_ok: "outp \<in> {None, Some ''b3:07''} \<Longrightarrow> entries \<in> {[], ck_trace demo_verdict} \<Longrightarrow>
    stage_ok toy_receipt_env (stage_exec stage ''t'' ''b3:07'' outp entries ms)"
  using demo_texts demo_verdict_facts(3) plain_text_laws by (intro stage_exec_ok) auto

lemma demo_initial:
  "verify_auth_chain_with_keys toy_receipt_env demo_key None (initial_receipt (demo_pipe x c) (demo_pn ''n'') demo_parsed demo_authors) = Inr True"
  "receipt_ok toy_receipt_env (initial_receipt (demo_pipe x c) (demo_pn ''n'') demo_parsed demo_authors)"
  "ur_effects (initial_receipt (demo_pipe x c) (demo_pn ''n'') demo_parsed demo_authors) = JObj []"
proof -
  let ?r = "initial_receipt (demo_pipe x c) (demo_pn ''n'') demo_parsed demo_authors"
  have r: "?r = \<lparr>ur_type = ''ubl/receipt'', ur_id = [], ur_ver = ''1.0'', ur_world = ''a/x'', ur_v = 1, ur_t = ''t'', ur_did = ''d'',
      ur_subject_did = Some ''did:o'', ur_kid = ''k'', ur_nonce = ''n'', ur_stages = [], ur_decision = Allow, ur_effects = JObj [],
      ur_prev_receipt_cid = None, ur_receipt_cid = [], ur_sig = [], ur_knock_cid = Some ''b3:k'',
      ur_rt = Some (runtime_info_new \<lparr>bm_rustc = [], bm_os = [], bm_arch = [], bm_profile = [], bm_git_commit = None, bm_git_dirty = None\<rparr> ''h'' ''1'')\<rparr>"
    by (simp add: initial_receipt_def demo_authors_def receipt_new_def with_knock_cid_def with_subject_did_def with_runtime_info_def
        demo_pipe_def demo_pn_def demo_parsed_def)
  show "verify_auth_chain_with_keys toy_receipt_env demo_key None ?r = Inr True"
    by (simp add: verify_keys_iff r shadow_at_def)
  show "receipt_ok toy_receipt_env ?r"
    by (simp add: receipt_ok_def nrf_ok_to_json r receipt_members_def nrf_ok_obj plain_key_ok decision_json_def show_decision_def
        runtime_info_json_def runtime_info_new_def build_meta_json_def list_member_def)
  show "ur_effects ?r = JObj []"
    by (simp add: r)
qed

lemma demo_denied:
  assumes "verify_auth_chain_with_keys toy_receipt_env demo_key None r = Inr True" "ur_stages r \<noteq> []" "ur_effects r = JObj []"
  obtains result where "\<And>x c. denied_result (demo_pipe x c) (demo_pn ''n'') demo_started demo_wa demo_verdict r = Inr result" "\<not> ps_replayed result"
proof -
  let ?r3 = "deny_with_secrets toy_receipt_env (ck_reason demo_verdict) (Some ''s'') r"
  let ?wf = "wf_body DenyDecision ''b3:07'' None [] 0 (ck_trace demo_verdict) True"
  have laws: "text_laws (ce_text (re_crypto toy_receipt_env))"
    using plain_text_laws by simp
  have "receipt_ok toy_receipt_env (denied (ck_reason demo_verdict) (r\<lparr>ur_effects := JObj []\<rparr>))"
    using demo_verdict_facts(2) verified_stages_ok(2) [OF assms(1,2)] by (intro receipt_ok_denied [OF laws]) (simp_all add: nrf_ok_obj)
  moreover have "r\<lparr>ur_effects := JObj []\<rparr> = r"
    using assms(3) by simp
  ultimately have r3: "verify_auth_chain_with_keys toy_receipt_env demo_key None ?r3 = Inr True"
    using deny_reseals(2) [OF laws demo_facts(4) _ verified_stages_ok(1) [OF assms(1)] assms(2)] by simp
  have ne: "ur_stages ?r3 \<noteq> []"
    using deny_keeps(1) [of toy_receipt_env "ck_reason demo_verdict" "Some ''s''" r] assms(2) by auto
  have "list_all (key_ok plain_text) [''decision'', ''wa_cid'', ''tr_cid'', ''artifacts'', ''duration_ms'', ''policy_trace'', ''short_circuited'', ''Deny'']"
    by (simp add: plain_key_ok)
  then have "nrf_ok plain_text ?wf"
    using demo_texts demo_verdict_facts(3) by (simp add: wf_body_def nrf_ok_obj decision_json_def show_decision_def i64_json_def list_all_iff)
  then have wf: "create_deny_receipt (demo_pipe x c) demo_wa demo_verdict 0 = Inr \<lparr>pr_body_cid = ''b3:07'', pr_receipt_type = ''ubl/wf'', pr_body = ?wf\<rparr>" for x c
    by (simp add: create_deny_receipt_def demo_wa_def toy_receipt_of_body)
  have "stage_ok toy_receipt_env (stage_exec WriteFinished ''t'' ''b3:07'' (Some ''b3:07'') (ck_trace demo_verdict) 0)"
    by (simp add: demo_stage_ok)
  moreover have "pp_secrets demo_started = pp_secrets demo_state"
    by (simp add: demo_started_def)
  ultimately obtain r4 where r4:
    "append_stage_receipt (demo_pipe x c) demo_started (stage_exec WriteFinished ''t'' ''b3:07'' (Some ''b3:07'') (ck_trace demo_verdict) 0) ?r3 = Inr r4"
    "verify_auth_chain_with_keys toy_receipt_env demo_key None r4 = Inr True" "ur_stages r4 \<noteq> []" "ur_id r4 = ur_receipt_cid r4" for x c
    using toy_append [OF r3 verified_stages_ok(2) [OF r3 ne]] by metis
  obtain r5 where r5: "sign_receipt (demo_pipe x c) r4 = Inr r5" for x c
    using toy_sign [OF r4(2-4)] by blast
  have "sx_current (pp_secrets demo_started) = ''s''"
    by (simp add: demo_started_def demo_state_def)
  then show thesis
    using r4(1) r5 wf
    by (intro that [of "\<lparr>ps_final_receipt = \<lparr>pr_body_cid = ''b3:07'', pr_receipt_type = ''ubl/wf'', pr_body = ?wf\<rparr>,
        ps_chain = [''b3:07'', ''no-tr'', ''b3:07''], ps_decision = DenyDecision, ps_receipt = r5, ps_replayed = False\<rparr>"])
      (simp_all add: denied_result_def Let_def demo_pn_def demo_wa_def)
qed

lemma demo_processed:
  obtains result st where "\<And>x c. process_chip_with_context (demo_pipe x c) (demo_pn ''n'') demo_request demo_authors demo_state = (Inr result, st)"
    "\<not> ps_replayed result"
proof -
  define r0 where "r0 = initial_receipt (demo_pipe undefined undefined) (demo_pn ''n'') demo_parsed demo_authors"
  have r0: "initial_receipt (demo_pipe x c) (demo_pn ''n'') demo_parsed demo_authors = r0" for x c
    by (simp add: r0_def initial_receipt_def demo_pipe_def demo_authors_def)
  have secrets: "pp_secrets demo_started = pp_secrets demo_state"
    by (simp add: demo_started_def)
  note init = demo_initial [of undefined undefined, folded r0_def]
  have stage: "stage_ok toy_receipt_env (stage_exec WriteAhead ''t'' ''b3:07'' (Some ''b3:07'') [] 0)"
    "stage_ok toy_receipt_env (stage_exec Check ''t'' ''b3:07'' None (ck_trace demo_verdict) 0)"
    by (simp_all add: demo_stage_ok)
  obtain r1 where r1: "append_stage_receipt (demo_pipe x c) demo_started (stage_exec WriteAhead ''t'' ''b3:07'' (Some ''b3:07'') [] 0) r0 = Inr r1"
    "verify_auth_chain_with_keys toy_receipt_env demo_key None r1 = Inr True" "ur_stages r1 \<noteq> []" "ur_effects r1 = JObj []" for x c
    using toy_append [OF init(1,2) stage(1) secrets] init(3) by metis
  obtain r2 where r2: "append_stage_receipt (demo_pipe x c) demo_started (stage_exec Check ''t'' ''b3:07'' None (ck_trace demo_verdict) 0) r1 = Inr r2"
    "verify_auth_chain_with_keys toy_receipt_env demo_key None r2 = Inr True" "ur_stages r2 \<noteq> []" "ur_effects r2 = JObj []" for x c
    using toy_append [OF r1(2) verified_stages_ok(2) [OF r1(2,3)] stage(2) secrets] r1(4) by metis
  obtain result where result: "denied_result (demo_pipe x c) (demo_pn ''n'') demo_started demo_wa demo_verdict r2 = Inr result" "\<not> ps_replayed result" for x c
    using demo_denied [OF r2(2-4)] by blast
  let ?key = "\<lparr>ik_type = ''t'', ik_ver = ''1'', ik_world = ''a/x'', ik_id = ''i''\<rparr>"
  have now: "pn_now (demo_pn ''n'') i = ''t''" "pn_ms (demo_pn ''n'') i = 0" "pr_body_cid demo_wa = ''b3:07''" for i
    by (simp_all add: demo_pn_def demo_wa_def)
  have started: "pp_store demo_started = None" "pp_durable demo_started = None"
    by (simp_all add: demo_started_def demo_state_def)
  have parsed: "pq_type demo_parsed = ''t''" "pq_id demo_parsed = Some ''i''" "cq_body demo_request = demo_unknown" "pq_world demo_parsed = ''a/x''"
    "cq_parents demo_request = []" "pq_request demo_parsed = demo_request"
    by (simp_all add: demo_parsed_def demo_request_def)
  have "run_stages (demo_pipe x c) (demo_pn ''n'') demo_parsed ?key r0 (demo_state\<lparr>pp_seen := [''n'']\<rparr>)
      = (Inr result, demo_started\<lparr>pp_idem := store_put ?key (cached_of (demo_pn ''n'') result) (pp_idem demo_started)\<rparr>)" for x c
    using r1(1) r2(1) result(1) demo_verdict_facts(1) demo_checked
    by (simp add: run_stages_def bind_st_def demo_write_ahead now started parsed persist_final_result_def)
  moreover have "mark_nonce (demo_pn ''n'') demo_state = (Inr (), demo_state\<lparr>pp_seen := [''n'']\<rparr>)"
    by (simp add: mark_nonce_def demo_pn_def demo_state_def)
  moreover have "lookup_cached (demo_pipe x c) (demo_pn ''n'') ?key demo_state = Inr None" for x c
    by (simp add: lookup_cached_def demo_state_def store_new_def store_get_def)
  ultimately have "process_chip_with_context (demo_pipe x c) (demo_pn ''n'') demo_request demo_authors demo_state
      = (Inr result, demo_started\<lparr>pp_idem := store_put ?key (cached_of (demo_pn ''n'') result) (pp_idem demo_started)\<rparr>)" for x c
    using demo_parse(2) by (simp add: process_chip_with_context_def bind_st_def demo_parse(1) r0 parsed)
  then show thesis
    using that result(2) by blast
qed

text \<open>The request and its repetition.\<close>

theorem replay_stable_witness:
  "\<exists>x c result again st. process_chip_with_context (demo_pipe x c) (demo_pn ''n'') demo_request demo_authors demo_state = (Inr result, st)
     \<and> process_chip_with_context (demo_pipe x c) (demo_pn ''m'') demo_request demo_authors st = (Inr again, st)
     \<and> ps_replayed again \<and> ps_receipt again = ps_receipt result"
proof -
  obtain result st where run: "process_chip_with_context (demo_pipe x c) (demo_pn ''n'') demo_request demo_authors demo_state = (Inr result, st)"
    "\<not> ps_replayed result" for x c
    using demo_processed by blast
  let ?E = "demo_pipe (ps_receipt result) (ps_chain result)"
  have E: "tc_parse (pe_codec ?E) t = Inr (to_json (ps_receipt result))" "tc_parse_chain (pe_codec ?E) t = Inr (ps_chain result)"
    "pe_from_json ?E v = Some (ps_receipt result)" "pn_lookup_io (demo_pn ''m'') = no_faults" for t v
    by (simp_all add: demo_pipe_def plain_codec_def demo_pn_def)
  have "st = process_all ?E [] st"
    by (simp add: process_all_def)
  from replay_stable [OF run(1) [of "ps_receipt result" "ps_chain result"] run(2) E(1,2,3) refl demo_parse(1) E(4) this] show ?thesis
    using run(1) by blast
qed

end
