(* ===== verification/Spec2Isabelle.thy ===== *)
theory Spec2Isabelle
  imports Silicon_Gate Rate_Limit Receipt_Chain Knock_Laws Envelope Capability Outbox Chip_Backends
    Auth_Laws Transition_Laws Pipeline_Run
begin

text \<open>
  A verification development of the Universal Business Ledger runtime.

  \<^bold>\<open>The program.\<close> A chip is a JSON document. Its canonical form is a binary encoding, NRF-1
  (\<open>crates/ubl_nrf\<close>), whose BLAKE3 hash is the chip's content identifier; \<open>crates/ubl_canon\<close> and
  \<open>crates/ubl_kms\<close> sign and fingerprint these bytes. A request passes a pipeline
  (\<open>crates/ubl_runtime\<close>): rate limits, the gate KNOCK that parses and bounds the body, idempotency,
  capabilities, a check stage that evaluates policies and, for a chip that names a silicon gate, runs
  the gate's compiled bytecode, and a transition stage that runs a receipt machine
  (\<open>crates/ubl_vm\<close>). Each stage is appended to a receipt (\<open>crates/ubl_receipt\<close>) whose tokens form a
  chain; the finished receipt is signed, committed to a durable store together with its idempotency
  row and outbox events, and the chip is stored (\<open>crates/ubl_chipstore\<close>). Numbers in chips are exact
  or interval values (\<open>crates/ubl_unc1\<close>).

  \<^bold>\<open>The theories\<close>, in the order of their imports:

  \<^item> \<open>Ubl_Prelude\<close>: results as sums (\<open>and_then\<close>, \<open>map_ok\<close>, \<open>collect_results\<close> for \<open>?\<close> and
    \<open>collect\<close>), saturating and wrapping words, UTF-8 strings as byte strings, big-endian bytes,
    decimal and hexadecimal text, the interface \<open>codec\<close> of prefix-free encodings.
  \<^item> \<open>Json\<close>: the values of \<open>serde_json\<close> with insertion-ordered objects and its equality.
  \<^item> \<open>Nrf_Codec\<close>, \<open>Nrf_Json\<close>: \<open>ubl_nrf/src/nrf.rs\<close>. Encoder, decoder and varints; the strict
    conversion from JSON, input normalisation, set normal form, identifiers. Decoding inverts
    encoding, the bytes do not depend on the order of members and determine the canonical value.
  \<^item> \<open>Ubl_Canon\<close>: \<open>ubl_canon/src/lib.rs\<close>. Fingerprints and signatures in a domain, in two modes that
    are two interpretations of one interface: signatures verify for every equal value, and the
    declared domains are prefix free.
  \<^item> \<open>Rate_Limit\<close>: \<open>ubl_runtime/src/rate_limit.rs\<close>. Limiters as a state machine of concurrent operations that read the
    clock and then wait for the lock; an invariant of its states bounds every span shorter than the window by the longest wait.
  \<^item> \<open>Rho_Canon\<close>: \<open>ubl_vm/src/canon.rs\<close>. The canonicaliser of the machine: idempotent, canonical,
    order insensitive, and its validation refines the strict conversion.
  \<^item> \<open>Unc1\<close>: \<open>ubl_unc1/src/lib.rs\<close>. Number kinds, rounding, arithmetic, the IEEE-754 frontier and
    approximation by continued fractions; arithmetic is exact or rounded by at most half a unit,
    interval operations contain every exact result.
  \<^item> \<open>Vm_Isa\<close>, \<open>Vm_Exec\<close>, \<open>Vm_Laws\<close>: \<open>ubl_vm/src/opcode.rs\<close>, \<open>tlv.rs\<close>, \<open>disasm.rs\<close>, \<open>exec.rs\<close>,
    \<open>types.rs\<close>. One definition per opcode handler, \<open>exec_op\<close> for the match and \<open>run\<close> for the loop;
    laws of fuel, traces, sequencing and the interface \<open>cas_provider\<close> of stores.
  \<^item> \<open>Pipeline_Vm\<close>: \<open>ubl_runtime/src/pipeline/providers.rs\<close>. The store, signer and canonicaliser the
    pipeline runs the machine with, which interpret \<open>cas_provider\<close>, and the properties of a run.
  \<^item> \<open>Policy\<close>: \<open>reasoning_bit.rs\<close>, \<open>circuit.rs\<close>, \<open>policy_bit.rs\<close> of the runtime. What bits depend on,
    when circuits stop, the thresholds of aggregators, and when policies deny.
  \<^item> \<open>Silicon\<close>: \<open>silicon_chip.rs\<close> of the runtime and the silicon gate of \<open>pipeline/stages/check.rs\<close>.
    Parsers, checks against the store, resolution of chip graphs, the compiler, the gate.
  \<^item> \<open>Silicon_Stack\<close>, \<open>Silicon_Laws\<close>, \<open>Silicon_Gate\<close>: the compiler's output as instruction lists, code
    that only works on the stack, the meaning of conditions (\<open>cond_eval\<close>), circuits
    (\<open>circuit_eval\<close>) and chips (\<open>chip_eval\<close>), and the refinement of that meaning by compiled code; at the gate, which circuits
    deny every body because they read it (\<open>reads_circuit\<close>) and which let every body pass (\<open>fails_open\<close>).

  \<^item> \<open>Ubl_Text\<close>: splitting and trimming of strings and the members of JSON objects that the
    runtime's parsers share.
  \<^item> \<open>Envelope\<close>: \<open>ubl_types/src/lib.rs\<close> and \<open>ubl_nrf/src/envelope.rs\<close>. Worlds, identifiers and the
    universal envelope: the valid worlds, their accessors, and reading back what was written.
  \<^item> \<open>Kms\<close>, \<open>Capability\<close>: \<open>ubl_kms/src/lib.rs\<close>, \<open>ubl_runtime/src/capability.rs\<close> and the command of
    \<open>ubl_cli/src/main.rs\<close> that issues capabilities. Keys as DIDs; signatures that are those of
    \<open>Ubl_Canon\<close>; exactly when a capability is accepted, and that issued ones are.
  \<^item> \<open>Knock\<close>, \<open>Knock_Laws\<close>: \<open>ubl_runtime/src/knock.rs\<close>. Every check in order, with the duplicate scan
    on characters and the import of floats as intervals; what passes is bounded and has canonical
    bytes.
  \<^item> \<open>Receipt\<close>, \<open>Receipt_Laws\<close>, \<open>Receipt_Chain\<close>: \<open>ubl_receipt/src/unified.rs\<close>. Stages, tokens, denial and
    signing. \<open>sealed_chain\<close> is the interface of a chain of tokens over growing content; the receipts
    interpret it, and reachable receipts verify.
  \<^item> \<open>Idempotency\<close>, \<open>Durable\<close>, \<open>Durable_Laws\<close>, \<open>Outbox\<close>: \<open>idempotency.rs\<close>, \<open>durable_store.rs\<close> and
    \<open>outbox_dispatcher.rs\<close> of the runtime. The database as a record of its tables, each library call
    with an outcome the environment chooses, transactions that roll back. Both stores interpret
    \<open>replay_store\<close>; commits are atomic and add exactly the rows that \<open>committed\<close> spells out, reachable states are well formed, claims are exclusive, and a
    dispatched batch settles.
  \<^item> \<open>Chip_Store\<close>, \<open>Chip_Store_Laws\<close>, \<open>Chip_Backends\<close>: \<open>lib.rs\<close>, \<open>indexing.rs\<close> and \<open>backends.rs\<close> of
    \<open>ubl_chipstore\<close>. The three backends interpret \<open>chip_backend\<close>, the interface of a map of chips with
    queries; after the same puts they agree on lookups and on the pages of queries up to the order of chips of one date,
    queries over indexes are exact, and reopening repairs a half-written chip.
  \<^item> \<open>Auth\<close>, \<open>Auth_Laws\<close>: \<open>auth.rs\<close> of the runtime and the onboarding check of \<open>pipeline/stages/check.rs\<close>. Apps,
    users, tenants, memberships, tokens and revocations; \<open>onboarded\<close> is the step relation of a store that
    only the check guards. Slugs stay unique, references resolve, revocations are permanent.
  \<^item> \<open>Transition\<close>, \<open>Transition_Laws\<close>: \<open>transition_registry.rs\<close>, \<open>key_rotation.rs\<close> and the machine's part of
    \<open>pipeline/stages/transition.rs\<close>. The precedence of overrides, the profiles' bytecode and its runs, the
    description of a WebAssembly adapter (its execution is outside the model: \<open>TrAdapterRun\<close>), the receipt of the stage, the derivation
    of rotated keys.
  \<^item> \<open>Policy_Chain\<close>: \<open>genesis.rs\<close> and \<open>policy_loader.rs\<close> of the runtime. The genesis policy and exactly what it
    admits; the ancestors of a chip and the policies attached to them; the loop over a chain of policies.
  \<^item> \<open>Audit_Chip\<close>: \<open>audit_chip.rs\<close> of the runtime. Audit requests, their parsers and their validation against
    the chip store; accepted snapshots never overlap.
  \<^item> \<open>Check_Stage\<close>: \<open>pipeline/stages/check.rs\<close>. The stage as a whole and what it admits.
  \<^item> \<open>Pipeline\<close>, \<open>Pipeline_Laws\<close>, \<open>Pipeline_Run\<close>: \<open>processing.rs\<close>, \<open>types.rs\<close>, \<open>mod.rs\<close>, \<open>stages/write_ahead.rs\<close> and
    \<open>stages/write_finished.rs\<close> of \<open>pipeline\<close>, and \<open>authorship.rs\<close>. A request from its parsing to the committed
    result, with the state of the pipeline passed through every step. Requests are recorded completely (\<open>entered\<close>
    spells out the rows) or not at all, new receipts verify and name their stages, denials have no effect, and repeated requests get
    their first answer; a concrete request is followed through all stages.

  \<^bold>\<open>Effects and bounds.\<close> State is passed explicitly; errors are values of sums and a panic is
  \<^const>\<open>None\<close> or the error \<^const>\<open>Panicked\<close>. The machine's fuel is the code's own 64-bit limit:
  a program of at most as many instructions never exhausts it. The recursion depth of
  chip-graph resolution is an argument; the number of silicon chips in the store is enough. All
  other recursions are total functions with a measure. Integers have the width of the code (\<open>i64\<close>,
  \<open>u64\<close>, \<open>u32\<close>, \<open>u16\<close>); big integers and instants are \<^typ>\<open>int\<close>, and \<open>usize\<close> is \<^typ>\<open>nat\<close> where it is a
  length.

  \<^bold>\<open>Arguments of the model\<close> stand for libraries: BLAKE3, Ed25519, base64 and multibase, Unicode
  normalisation and case folding, the text of JSON and of big integers, RFC 3339, the clock, and the
  outcome of each call of SQLite, sled and the file system. The silicon chips read the chip store as the
  function that its \<open>get_chip\<close> computes. Theorems that rely on one of these state what they rely on.

  \<^bold>\<open>Not modelled\<close>: durations reported for monitoring; HTTP and environment access; the rest of the
  command line; third-party engines (WebAssembly, ML-DSA); the builder interface of chip queries; the
  event bus, the ledger files, the advisory engine and its background tasks; the transitions of WebAssembly
  adapters, audit requests and silicon compile requests; the constructors of the pipeline, which read the
  environment; rich URLs, manifests and the other chips that only describe the system.
\<close>

end
